(* ===== verification/Prelude.thy ===== *)
theory Prelude
  imports Main "HOL-Library.Word" "HOL-Library.Char_ord" "HOL-Library.List_Lexorder"
begin

text \<open>
  Shared vocabulary of the development: the outcome of a Rust call, a small
  state-and-outcome monad with its weakest-precondition rules, machine integers,
  the ordered map \<open>BTreeMap\<close> as a strictly sorted association list, bounded
  vectors, and the list lemmas the component theories use.
\<close>

section \<open>Outcomes of Rust calls\<close>

text \<open>
  A call returns \<open>Ok\<close>, returns an error, or panics (\<open>todo!\<close>, a failed \<open>assert!\<close>,
  an out-of-range index). The message of a panic is kept for the reader only.
\<close>

datatype ('a, 'e) result = Ok 'a | Err 'e | Panic string

fun rbind :: "('a, 'e) result \<Rightarrow> ('a \<Rightarrow> ('b, 'e) result) \<Rightarrow> ('b, 'e) result" where
  "rbind (Ok a) f = f a"
| "rbind (Err e) f = Err e"
| "rbind (Panic p) f = Panic p"

fun ok_or :: "'e \<Rightarrow> 'a option \<Rightarrow> ('a, 'e) result" where
  "ok_or e None = Err e"
| "ok_or e (Some a) = Ok a"

fun map_err :: "('e \<Rightarrow> 'f) \<Rightarrow> ('a, 'e) result \<Rightarrow> ('a, 'f) result" where
  "map_err f (Ok a) = Ok a"
| "map_err f (Err e) = Err (f e)"
| "map_err f (Panic p) = Panic p"

fun rmap :: "('a \<Rightarrow> 'b) \<Rightarrow> ('a, 'e) result \<Rightarrow> ('b, 'e) result" where
  "rmap f (Ok a) = Ok (f a)"
| "rmap f (Err e) = Err e"
| "rmap f (Panic p) = Panic p"

fun is_ok :: "('a, 'e) result \<Rightarrow> bool" where
  "is_ok (Ok _) = True"
| "is_ok _ = False"

text \<open>\<open>collect::<Result<Vec<_>, _>>()\<close>: the values, or the first outcome that is not \<open>Ok\<close>.\<close>

fun rseq :: "('a, 'e) result list \<Rightarrow> ('a list, 'e) result" where
  "rseq [] = Ok []"
| "rseq (r # rs) = rbind r (\<lambda>a. rbind (rseq rs) (\<lambda>as. Ok (a # as)))"

lemma rbind_eq_Ok [simp]: "(rbind r f = Ok b) = (\<exists>a. r = Ok a \<and> f a = Ok b)"
  by (cases r) auto

lemma ok_or_eq_Ok [simp]: "(ok_or e x = Ok a) = (x = Some a)"
  by (cases x) auto

lemma ok_or_eq_Err [simp]: "(ok_or e x = Err e') = (x = None \<and> e' = e)"
  by (cases x) auto

lemma ok_or_no_panic [simp]: "ok_or e x \<noteq> Panic p"
  by (cases x) auto

lemma map_err_eq_Ok [simp]: "(map_err f r = Ok a) = (r = Ok a)"
  by (cases r) auto

lemma rmap_eq_Ok [simp]: "(rmap f r = Ok b) = (\<exists>a. r = Ok a \<and> b = f a)"
  by (cases r) auto

lemma rseq_map_Ok: "(\<And>x. x \<in> set xs \<Longrightarrow> f x = Ok (g x)) \<Longrightarrow> rseq (map f xs) = Ok (map g xs)"
  by (induction xs) auto

lemma rseq_length: "rseq rs = Ok xs \<Longrightarrow> length xs = length rs"
  by (induction rs arbitrary: xs) auto

text \<open>Outcomes of loops that may not end: \<open>None\<close> stands for a call that never returns.\<close>

definition robind :: "('a, 'e) result option \<Rightarrow> ('a \<Rightarrow> ('b, 'e) result option) \<Rightarrow> ('b, 'e) result option" where
  "robind m f = Option.bind m (\<lambda>r. case r of Ok a \<Rightarrow> f a | Err e \<Rightarrow> Some (Err e) | Panic p \<Rightarrow> Some (Panic p))"

lemma robind_simps [simp]:
  "robind None f = None" "robind (Some (Ok a)) f = f a"
  "robind (Some (Err e)) f = Some (Err e)" "robind (Some (Panic p)) f = Some (Panic p)"
  by (simp_all add: robind_def)

lemma robind_mono [partial_function_mono]:
  assumes "mono_option B" "\<And>y. mono_option (\<lambda>f. C y f)"
  shows "mono_option (\<lambda>f. robind (B f) (\<lambda>y. C y f))"
  unfolding robind_def
proof (rule bind_mono [OF assms(1)])
  show "mono_option (\<lambda>f. case r of Ok a \<Rightarrow> C a f | Err e \<Rightarrow> Some (Err e) | Panic p \<Rightarrow> Some (Panic p))" for r
    using assms(2) by (cases r) (auto intro: option.const_mono)
qed

section \<open>Stateful code\<close>

text \<open>
  A method with \<open>&mut self\<close> that returns a \<open>Result\<close> is a function from the state to
  the outcome and the state it leaves behind. The state is returned on every
  outcome, so what an early return leaves changed stays visible.
\<close>

type_synonym ('s, 'a, 'e) prog = "'s \<Rightarrow> ('a, 'e) result \<times> 's"

definition preturn :: "'a \<Rightarrow> ('s, 'a, 'e) prog" where
  "preturn a = (\<lambda>s. (Ok a, s))"

definition pfail :: "'e \<Rightarrow> ('s, 'a, 'e) prog" where
  "pfail e = (\<lambda>s. (Err e, s))"

definition ppanic :: "string \<Rightarrow> ('s, 'a, 'e) prog" where
  "ppanic m = (\<lambda>s. (Panic m, s))"

definition plift :: "('a, 'e) result \<Rightarrow> ('s, 'a, 'e) prog" where
  "plift r = (\<lambda>s. (r, s))"

definition pgets :: "('s \<Rightarrow> 'a) \<Rightarrow> ('s, 'a, 'e) prog" where
  "pgets f = (\<lambda>s. (Ok (f s), s))"

definition pmodify :: "('s \<Rightarrow> 's) \<Rightarrow> ('s, unit, 'e) prog" where
  "pmodify f = (\<lambda>s. (Ok (), f s))"

definition pbind :: "('s, 'a, 'e) prog \<Rightarrow> ('a \<Rightarrow> ('s, 'b, 'e) prog) \<Rightarrow> ('s, 'b, 'e) prog" where
  "pbind m f = (\<lambda>s. case m s of
      (Ok a, s') \<Rightarrow> f a s'
    | (Err e, s') \<Rightarrow> (Err e, s')
    | (Panic p, s') \<Rightarrow> (Panic p, s'))"

lemmas prog_defs = preturn_def pfail_def ppanic_def plift_def pgets_def pmodify_def pbind_def

text \<open>
  The three postconditions of \<open>wp\<close> speak of a normal return, an error return and a
  panic. \<open>keeps I m\<close> says that \<open>m\<close> leaves the state invariant \<open>I\<close> true on all three.
\<close>

definition wp :: "('a \<Rightarrow> 's \<Rightarrow> bool) \<Rightarrow> ('e \<Rightarrow> 's \<Rightarrow> bool) \<Rightarrow> (string \<Rightarrow> 's \<Rightarrow> bool) \<Rightarrow>
    ('s, 'a, 'e) prog \<Rightarrow> 's \<Rightarrow> bool" where
  "wp Q E P m s = (case m s of
      (Ok a, s') \<Rightarrow> Q a s'
    | (Err e, s') \<Rightarrow> E e s'
    | (Panic p, s') \<Rightarrow> P p s')"

definition keeps :: "('s \<Rightarrow> bool) \<Rightarrow> ('s, 'a, 'e) prog \<Rightarrow> bool" where
  "keeps I m = (\<forall>s. I s \<longrightarrow> I (snd (m s)))"

named_theorems wp_simps and keeps_rules

lemma wp_preturn [wp_simps]: "wp Q E P (preturn a) s = Q a s"
  by (simp add: wp_def preturn_def)

lemma wp_pfail [wp_simps]: "wp Q E P (pfail e) s = E e s"
  by (simp add: wp_def pfail_def)

lemma wp_ppanic [wp_simps]: "wp Q E P (ppanic m) s = P m s"
  by (simp add: wp_def ppanic_def)

lemma wp_plift [wp_simps]:
  "wp Q E P (plift r) s = (case r of Ok a \<Rightarrow> Q a s | Err e \<Rightarrow> E e s | Panic p \<Rightarrow> P p s)"
  by (simp add: wp_def plift_def)

lemma wp_pgets [wp_simps]: "wp Q E P (pgets f) s = Q (f s) s"
  by (simp add: wp_def pgets_def)

lemma wp_pmodify [wp_simps]: "wp Q E P (pmodify f) s = Q () (f s)"
  by (simp add: wp_def pmodify_def)

lemma wp_pbind [wp_simps]: "wp Q E P (pbind m f) s = wp (\<lambda>a. wp Q E P (f a)) E P m s"
  by (simp add: wp_def pbind_def split: prod.split result.split)

lemma wp_mono:
  assumes "wp Q E P m s" "\<And>a s'. Q a s' \<Longrightarrow> Q' a s'" "\<And>e s'. E e s' \<Longrightarrow> E' e s'"
    "\<And>p s'. P p s' \<Longrightarrow> P' p s'"
  shows "wp Q' E' P' m s"
  using assms by (auto simp: wp_def split: prod.splits result.splits)

lemma wp_same: "wp (\<lambda>_. I) (\<lambda>_. I) (\<lambda>_. I) m s = I (snd (m s))"
  by (simp add: wp_def split: prod.split result.split)

lemma keeps_wp: "keeps I m = (\<forall>s. I s \<longrightarrow> wp (\<lambda>_. I) (\<lambda>_. I) (\<lambda>_. I) m s)"
  by (simp add: keeps_def wp_same)

lemma keepsI: "(\<And>s. I s \<Longrightarrow> I (snd (m s))) \<Longrightarrow> keeps I m"
  by (simp add: keeps_def)

lemma keepsD: "keeps I m \<Longrightarrow> I s \<Longrightarrow> m s = (r, s') \<Longrightarrow> I s'"
  by (metis keeps_def snd_conv)

lemma keeps_preturn [keeps_rules]: "keeps I (preturn a)"
  by (simp add: keeps_def preturn_def)

lemma keeps_pfail [keeps_rules]: "keeps I (pfail e)"
  by (simp add: keeps_def pfail_def)

lemma keeps_ppanic [keeps_rules]: "keeps I (ppanic m)"
  by (simp add: keeps_def ppanic_def)

lemma keeps_plift [keeps_rules]: "keeps I (plift r)"
  by (simp add: keeps_def plift_def)

lemma keeps_pgets [keeps_rules]: "keeps I (pgets f)"
  by (simp add: keeps_def pgets_def)

lemma keeps_pmodify: "(\<And>s. I s \<Longrightarrow> I (f s)) \<Longrightarrow> keeps I (pmodify f)"
  by (simp add: keeps_def pmodify_def)

lemma keeps_pbind [keeps_rules]:
  "keeps I m \<Longrightarrow> (\<And>a. keeps I (f a)) \<Longrightarrow> keeps I (pbind m f)"
  unfolding keeps_def pbind_def by (fastforce split: prod.splits result.splits)

lemma keeps_if [keeps_rules]: "keeps I m \<Longrightarrow> keeps I n \<Longrightarrow> keeps I (if b then m else n)"
  by simp

lemma keeps_option [keeps_rules]:
  "keeps I m \<Longrightarrow> (\<And>x. keeps I (f x)) \<Longrightarrow> keeps I (case v of None \<Rightarrow> m | Some x \<Rightarrow> f x)"
  by (cases v) auto

lemma pbind_cases:
  assumes "pbind m f s = (r, t)"
  obtains (ok) a u where "m s = (Ok a, u)" "f a u = (r, t)"
    | (err) e where "m s = (Err e, t)" "r = Err e"
    | (panic) p where "m s = (Panic p, t)" "r = Panic p"
  using assms by (auto simp: pbind_def split: prod.splits result.splits)

section \<open>Machine integers\<close>

type_synonym u8 = "8 word"
type_synonym u32 = "32 word"
type_synonym u64 = "64 word"
type_synonym i64 = "64 word"

text \<open>
  \<open>usize\<close> values are natural numbers, with the 64-bit bound written where the code
  checks it. Signed 64-bit integers are words read with \<open>sint\<close>.
\<close>

definition usize_limit :: nat where
  "usize_limit = 2 ^ 64"

definition usize_checked_add :: "nat \<Rightarrow> nat \<Rightarrow> nat option" where
  "usize_checked_add a b = (if a + b < usize_limit then Some (a + b) else None)"

definition usize_checked_sub :: "nat \<Rightarrow> nat \<Rightarrow> nat option" where
  "usize_checked_sub a b = (if b \<le> a then Some (a - b) else None)"

definition in_i64 :: "int \<Rightarrow> bool" where
  "in_i64 x \<longleftrightarrow> - (2 ^ 63) \<le> x \<and> x < 2 ^ 63"

definition i64_checked_add :: "i64 \<Rightarrow> i64 \<Rightarrow> i64 option" where
  "i64_checked_add a b = (if in_i64 (sint a + sint b) then Some (a + b) else None)"

definition i64_checked_sub :: "i64 \<Rightarrow> i64 \<Rightarrow> i64 option" where
  "i64_checked_sub a b = (if in_i64 (sint a - sint b) then Some (a - b) else None)"

text \<open>The bound is compared in binary when the definition is evaluated.\<close>

lemma usize_checked_add_code [code]:
  "usize_checked_add a b = (if int (a + b) < 2 ^ 64 then Some (a + b) else None)"
  by (simp add: usize_checked_add_def usize_limit_def flip: of_nat_less_iff [where ?'a = int])

lemma usize_checked_sub_simps [simp]:
  "usize_checked_sub a 0 = Some a"
  "usize_checked_sub 0 (Suc b) = None"
  "usize_checked_sub (Suc a) (Suc 0) = Some a"
  by (auto simp: usize_checked_sub_def)

lemma sint_in_i64: "in_i64 (sint (a :: i64))"
  unfolding in_i64_def using sint_range_size [of a] by (simp add: word_size)

lemma signed_take_bit_in_i64: "in_i64 x \<Longrightarrow> signed_take_bit 63 x = x"
  by (simp add: in_i64_def signed_take_bit_int_eq_self)

lemma i64_checked_add_Some:
  "i64_checked_add a b = Some c \<longleftrightarrow> c = a + b \<and> sint c = sint a + sint b"
proof -
  have "sint (a + b) = signed_take_bit 63 (sint a + sint b)"
    by (simp add: sint_word_ariths)
  then show ?thesis
    using sint_in_i64 [of "a + b"]
    by (auto simp: i64_checked_add_def signed_take_bit_in_i64 split: if_splits)
qed

lemma i64_checked_sub_Some:
  "i64_checked_sub a b = Some c \<longleftrightarrow> c = a - b \<and> sint c = sint a - sint b"
proof -
  have "sint (a - b) = signed_take_bit 63 (sint a - sint b)"
    by (simp add: sint_word_ariths)
  then show ?thesis
    using sint_in_i64 [of "a - b"]
    by (auto simp: i64_checked_sub_def signed_take_bit_in_i64 split: if_splits)
qed

text \<open>Decimal rendering of a count, as \<open>format!\<close> prints it.\<close>

fun show_nat :: "nat \<Rightarrow> string" where
  "show_nat n = (if n < 10 then [char_of (48 + n)]
                 else show_nat (n div 10) @ [char_of (48 + n mod 10)])"

declare show_nat.simps [simp del]

section \<open>Ordered maps\<close>

text \<open>
  \<open>BTreeMap<K, V>\<close> is a list of entries with strictly increasing keys. The order of
  the list is the order in which the map is iterated, and derived equality of two
  maps is equality of the lists.
\<close>

type_synonym ('k, 'v) btree_map = "('k \<times> 'v) list"

definition bt_wf :: "('k::linorder, 'v) btree_map \<Rightarrow> bool" where
  "bt_wf m \<longleftrightarrow> sorted_wrt (<) (map fst m)"

fun bt_insert :: "'k::linorder \<Rightarrow> 'v \<Rightarrow> ('k, 'v) btree_map \<Rightarrow> ('k, 'v) btree_map" where
  "bt_insert k v [] = [(k, v)]"
| "bt_insert k v ((k', v') # m) =
     (if k < k' then (k, v) # (k', v') # m
      else if k = k' then (k, v) # m
      else (k', v') # bt_insert k v m)"

fun bt_get :: "('k, 'v) btree_map \<Rightarrow> 'k \<Rightarrow> 'v option" where
  "bt_get [] k = None"
| "bt_get ((k', v') # m) k = (if k' = k then Some v' else bt_get m k)"

fun bt_remove :: "'k \<Rightarrow> ('k, 'v) btree_map \<Rightarrow> ('k, 'v) btree_map" where
  "bt_remove k [] = []"
| "bt_remove k ((k', v') # m) = (if k' = k then m else (k', v') # bt_remove k m)"

definition bt_contains :: "('k, 'v) btree_map \<Rightarrow> 'k \<Rightarrow> bool" where
  "bt_contains m k \<longleftrightarrow> bt_get m k \<noteq> None"

text \<open>\<open>collect()\<close> into a map: later entries overwrite earlier ones.\<close>

definition bt_collect :: "('k::linorder \<times> 'v) list \<Rightarrow> ('k, 'v) btree_map" where
  "bt_collect kvs = fold (\<lambda>(k, v). bt_insert k v) kvs []"

text \<open>\<open>retain(|_, v| p(v))\<close> keeps the entries whose value satisfies the predicate.\<close>

definition bt_retain :: "('v \<Rightarrow> bool) \<Rightarrow> ('k, 'v) btree_map \<Rightarrow> ('k, 'v) btree_map" where
  "bt_retain p m = filter (\<lambda>(_, v). p v) m"

lemma bt_wf_Nil [simp]: "bt_wf []"
  by (simp add: bt_wf_def)

lemma bt_wf_Cons: "bt_wf ((k, v) # m) \<longleftrightarrow> (\<forall>k' \<in> fst ` set m. k < k') \<and> bt_wf m"
  by (simp add: bt_wf_def)

lemma bt_wf_ConsD: "bt_wf ((k, v) # m) \<Longrightarrow> k \<notin> fst ` set m"
  by (auto simp: bt_wf_Cons)

lemma bt_get_map_of: "bt_get m k = map_of m k"
  by (induction m) auto

lemma bt_get_None_iff: "bt_get m k = None \<longleftrightarrow> k \<notin> fst ` set m"
  by (simp add: bt_get_map_of map_of_eq_None_iff)

lemma bt_get_mem: "bt_get m k = Some v \<Longrightarrow> (k, v) \<in> set m"
  by (simp add: bt_get_map_of map_of_SomeD)

lemma bt_wf_distinct: "bt_wf m \<Longrightarrow> distinct (map fst m)"
  by (simp add: bt_wf_def strict_sorted_iff)

lemma bt_get_iff_mem: "bt_wf m \<Longrightarrow> bt_get m k = Some v \<longleftrightarrow> (k, v) \<in> set m"
  by (simp add: bt_get_map_of bt_wf_distinct)

lemma bt_insert_keys: "fst ` set (bt_insert k v m) = insert k (fst ` set m)"
  by (induction k v m rule: bt_insert.induct) (simp_all add: insert_commute)

lemma bt_insert_wf [simp]: "bt_wf m \<Longrightarrow> bt_wf (bt_insert k v m)"
  by (induction m) (fastforce simp: bt_wf_Cons bt_insert_keys not_less_iff_gr_or_eq)+

lemma bt_get_insert [simp]:
  "bt_get (bt_insert k v m) k' = (if k' = k then Some v else bt_get m k')"
  by (induction m) auto

lemma bt_remove_subset: "set (bt_remove k m) \<subseteq> set m"
  by (induction m) (auto split: if_split_asm)

lemma bt_remove_keys_subset: "fst ` set (bt_remove k m) \<subseteq> fst ` set m"
  by (rule image_mono [OF bt_remove_subset])

lemma bt_remove_wf [simp]: "bt_wf m \<Longrightarrow> bt_wf (bt_remove k m)"
  using bt_remove_keys_subset by (induction m) (fastforce simp: bt_wf_Cons)+

lemma bt_get_remove [simp]:
  "bt_wf m \<Longrightarrow> bt_get (bt_remove k m) k' = (if k' = k then None else bt_get m k')"
proof (induction m)
  case (Cons a m)
  then show ?case
    using bt_wf_ConsD [of "fst a" "snd a" m]
    by (cases a) (auto simp: bt_wf_Cons simp flip: bt_get_None_iff)
qed simp

lemma bt_get_remove_neq: "k' \<noteq> k \<Longrightarrow> bt_get (bt_remove k m) k' = bt_get m k'"
  by (induction m) auto

lemma bt_contains_insert [simp]: "bt_contains (bt_insert k v m) k' \<longleftrightarrow> k' = k \<or> bt_contains m k'"
  by (simp add: bt_contains_def)

lemma bt_fold_insert_wf:
  "bt_wf m \<Longrightarrow> bt_wf (fold (\<lambda>(k, v). bt_insert k v) kvs m)"
  by (induction kvs arbitrary: m) auto

lemma bt_fold_insert_get:
  "bt_get (fold (\<lambda>(k, v). bt_insert k v) kvs m) k =
     (case map_of (rev kvs) k of Some v \<Rightarrow> Some v | None \<Rightarrow> bt_get m k)"
  by (induction kvs arbitrary: m) (auto simp: map_add_def split: option.splits)

lemma bt_collect_wf [simp]: "bt_wf (bt_collect kvs)"
  by (simp add: bt_collect_def bt_fold_insert_wf)

lemma bt_get_collect: "bt_get (bt_collect kvs) k = map_of (rev kvs) k"
  by (simp add: bt_collect_def bt_fold_insert_get split: option.split)

lemma bt_retain_keys_subset: "fst ` set (bt_retain p m) \<subseteq> fst ` set m"
  by (auto simp: bt_retain_def)

lemma bt_retain_wf [simp]: "bt_wf m \<Longrightarrow> bt_wf (bt_retain p m)"
  unfolding bt_retain_def bt_wf_def by (induction m) auto

lemma bt_get_retain:
  "bt_wf m \<Longrightarrow> bt_get (bt_retain p m) k =
     (case bt_get m k of Some v \<Rightarrow> (if p v then Some v else None) | None \<Rightarrow> None)"
proof (induction m)
  case (Cons a m)
  obtain k' v' where a: "a = (k', v')" by (cases a)
  have "bt_get m k' = None"
    using Cons.prems a by (auto simp: bt_get_None_iff dest: bt_wf_ConsD)
  with Cons a show ?case
    by (auto simp: bt_retain_def bt_wf_Cons)
qed (simp add: bt_retain_def)

text \<open>Two maps with the same lookups are equal: derived equality is extensional.\<close>

lemma bt_from_keys: "bt_wf m \<Longrightarrow> map (\<lambda>k. (k, the (bt_get m k))) (map fst m) = m"
  by (auto simp: comp_def bt_get_iff_mem intro!: map_idI)
    (metis bt_get_iff_mem option.sel)

lemma bt_ext:
  assumes "bt_wf m" "bt_wf n" "\<And>k. bt_get m k = bt_get n k"
  shows "m = n"
proof -
  have "fst ` set m = fst ` set n"
    using assms(3) bt_get_None_iff by (metis subset_antisym subsetI)
  then have "map fst m = map fst n"
    using assms(1,2)
    by (intro sorted_distinct_set_unique) (auto simp: bt_wf_def strict_sorted_iff)
  then show ?thesis
    using bt_from_keys [OF assms(1)] bt_from_keys [OF assms(2)] assms(3) by simp
qed

section \<open>Slices\<close>

text \<open>
  \<open>slice::binary_search_by(|e| key(e).cmp(&k))\<close>: the probing loop of the standard
  library over the half-open range from \<open>left\<close> to \<open>right\<close>. \<open>Inr i\<close> is \<open>Ok(i)\<close>, a
  position where the key was found, and \<open>Inl i\<close> is \<open>Err(i)\<close>, the insertion point.
\<close>

function bin_search :: "('a \<Rightarrow> 'k::linorder) \<Rightarrow> 'k \<Rightarrow> 'a list \<Rightarrow> nat \<Rightarrow> nat \<Rightarrow> nat + nat" where
  "bin_search key k xs left right =
     (if left < right then
        let mid = left + (right - left) div 2; x = key (xs ! mid) in
        if x = k then Inr mid
        else if x < k then bin_search key k xs (Suc mid) right
        else bin_search key k xs left mid
      else Inl left)"
  by pat_completeness auto
termination
  by (relation "measure (\<lambda>(key, k, xs, left, right). right - left)") auto

declare bin_search.simps [simp del]

definition binary_search_by :: "('a \<Rightarrow> 'k::linorder) \<Rightarrow> 'k \<Rightarrow> 'a list \<Rightarrow> nat + nat" where
  "binary_search_by key k xs = bin_search key k xs 0 (length xs)"

lemma bin_search_empty: "\<not> l < r \<Longrightarrow> bin_search key k xs l r = Inl l"
  by (subst bin_search.simps) simp

lemma bin_search_probe:
  assumes "l < r"
  defines "mid \<equiv> l + (r - l) div 2"
  shows "bin_search key k xs l r =
     (if key (xs ! mid) = k then Inr mid
      else if key (xs ! mid) < k then bin_search key k xs (Suc mid) r
      else bin_search key k xs l mid)"
  using assms by (subst bin_search.simps) (simp add: Let_def)

lemma bin_search_found:
  "bin_search key k xs l r = Inr i \<Longrightarrow> l \<le> i \<and> i < r \<and> key (xs ! i) = k"
proof (induction key k xs l r rule: bin_search.induct)
  case (1 key k xs l r)
  let ?mid = "l + (r - l) div 2"
  show ?case
  proof (cases "l < r")
    case True
    then have mid: "l \<le> ?mid" "?mid < r" by auto
    note IH = "1.IH" [OF True refl refl]
    from "1.prems" IH mid show ?thesis
      by (subst (asm) bin_search_probe [OF True]) (fastforce split: if_splits)
  next
    case False
    with "1.prems" show ?thesis by (simp add: bin_search_empty)
  qed
qed

text \<open>
  On a sorted slice the insertion point splits the slice into the smaller and the
  larger keys.
\<close>

definition splits_at :: "('a \<Rightarrow> 'k::linorder) \<Rightarrow> 'k \<Rightarrow> 'a list \<Rightarrow> nat \<Rightarrow> nat \<Rightarrow> bool" where
  "splits_at key k xs l r \<longleftrightarrow> r \<le> length xs \<and> (\<forall>j < l. key (xs ! j) < k) \<and>
     (\<forall>j. r \<le> j \<longrightarrow> j < length xs \<longrightarrow> k < key (xs ! j))"

lemma bin_search_missing:
  assumes "sorted (map key xs)" and "splits_at key k xs l r" and "l \<le> r"
    and "bin_search key k xs l r = Inl i"
  shows "splits_at key k xs i i"
  using assms
proof (induction key k xs l r rule: bin_search.induct)
  case (1 key k xs l r)
  let ?mid = "l + (r - l) div 2"
  have mono: "key (xs ! a) \<le> key (xs ! b)" if "a \<le> b" "b < length xs" for a b
    using sorted_nth_mono [OF "1.prems"(1), of a b] that by simp
  show ?case
  proof (cases "l < r")
    case True
    then have mid: "l \<le> ?mid" "?mid < r" "?mid < length xs"
      using "1.prems"(2) by (auto simp: splits_at_def)
    have neq: "key (xs ! ?mid) \<noteq> k"
      using "1.prems"(4) by (auto simp: bin_search_probe [OF True])
    show ?thesis
    proof (cases "key (xs ! ?mid) < k")
      case less: True
      have "splits_at key k xs (Suc ?mid) r"
        using "1.prems"(2) less mono [of _ ?mid] mid(3)
        by (auto simp: splits_at_def less_Suc_eq_le intro: le_less_trans)
      then show ?thesis
        using "1.IH"(1) [OF True refl refl neq less] "1.prems"(1,4) less neq mid
        by (simp add: bin_search_probe [OF True])
    next
      case nless: False
      have "k < key (xs ! ?mid)" using nless neq by simp
      then have "splits_at key k xs l ?mid"
        using "1.prems"(2) mono [of ?mid] mid(3)
        by (auto simp: splits_at_def intro: less_le_trans)
      then show ?thesis
        using "1.IH"(2) [OF True refl refl neq nless] "1.prems"(1,4) nless neq mid
        by (simp add: bin_search_probe [OF True])
    qed
  next
    case False
    with "1.prems" show ?thesis by (auto simp: bin_search_empty splits_at_def)
  qed
qed

lemma binary_search_by_Inr:
  "binary_search_by key k xs = Inr i \<Longrightarrow> i < length xs \<and> key (xs ! i) = k"
  unfolding binary_search_by_def by (drule bin_search_found) simp

lemma binary_search_by_Inl:
  assumes "sorted (map key xs)" "binary_search_by key k xs = Inl i"
  shows "splits_at key k xs i i"
  using bin_search_missing [of key xs k 0 "length xs" i] assms
  by (auto simp: binary_search_by_def splits_at_def)

lemma filter_eq_take:
  assumes "n \<le> length xs" "\<And>j. j < n \<Longrightarrow> P (xs ! j)" "\<And>j. n \<le> j \<Longrightarrow> j < length xs \<Longrightarrow> \<not> P (xs ! j)"
  shows "filter P xs = take n xs"
proof -
  have "filter P (take n xs) = take n xs"
    using assms(1,2) by (intro filter_True) (auto simp: in_set_conv_nth)
  moreover have "filter P (drop n xs) = []"
    using assms(3) by (intro filter_False) (auto simp: in_set_conv_nth)
  ultimately show ?thesis
    using filter_append [of P "take n xs" "drop n xs"] by simp
qed

text \<open>\<open>heapless::Vec::push\<close> on a vector of fixed capacity.\<close>

definition vec_push :: "nat \<Rightarrow> 'a list \<Rightarrow> 'a \<Rightarrow> 'a list option" where
  "vec_push cap xs x = (if length xs < cap then Some (xs @ [x]) else None)"

lemma vec_push_length: "vec_push cap xs x = Some ys \<Longrightarrow> length ys \<le> cap"
  by (auto simp: vec_push_def split: if_splits)

section \<open>Weights for termination\<close>

text \<open>An item may be replaced by two of smaller rank and the total weight still decreases.\<close>

lemma pow3_less: "a < b \<Longrightarrow> (3::nat) ^ a < 3 ^ b"
  by simp

lemma pow3_two: "a < b \<Longrightarrow> a' < b \<Longrightarrow> (3::nat) ^ a + 3 ^ a' < 3 ^ b"
proof -
  assume "a < b" "a' < b"
  then obtain c where "b = Suc c" "a \<le> c" "a' \<le> c" by (cases b) auto
  moreover from this have "(3::nat) ^ a \<le> 3 ^ c" "(3::nat) ^ a' \<le> 3 ^ c"
    by (simp_all only: power_increasing one_le_numeral)
  moreover have "(0::nat) < 3 ^ c" by simp
  ultimately show ?thesis by (simp only: power_Suc)
qed

lemma pow3_list:
  assumes "length xs \<le> 2" "\<forall>x \<in> set xs. f x < n"
  shows "sum_list (map (\<lambda>x. 3 ^ f x) xs) < (3::nat) ^ n"
proof -
  consider "xs = []" | x where "xs = [x]" | x y where "xs = [x, y]"
    using assms(1) by (cases xs; cases "tl xs"; cases "tl (tl xs)") auto
  then show ?thesis
    using assms(2) by cases (simp_all add: pow3_two)
qed

end
