(* ===== verification/Policy_Values.thy ===== *)
theory Policy_Values
  imports Prelude
begin

text \<open>
  The values of the policy virtual machine (\<open>aranya-policy-module/src/data.rs\<close>) and
  their types (\<open>VType\<close> and the field and fact definitions of
  \<open>aranya-policy-ast/src/ast.rs\<close>): the tagged union \<open>Value\<close> with its nested structs
  and facts, the subset of values that may stand in a fact key, the conversions
  between values and Rust types, and the type test \<open>fits_type\<close>.
\<close>

section \<open>Types\<close>

text \<open>\<open>Id\<close> is an array of 64 bytes.\<close>

type_synonym id = "u8 list"

datatype vtype =
    TString
  | TBytes
  | TInt
  | TBool
  | TId
  | TStruct string
  | TEnum string
  | TOptional vtype

primrec vtype_display :: "vtype \<Rightarrow> string" where
  "vtype_display TString = ''string''"
| "vtype_display TBytes = ''bytes''"
| "vtype_display TInt = ''int''"
| "vtype_display TBool = ''bool''"
| "vtype_display TId = ''id''"
| "vtype_display (TStruct name) = ''struct '' @ name"
| "vtype_display (TEnum name) = ''enum '' @ name"
| "vtype_display (TOptional t) = ''optional '' @ vtype_display t"

record field_definition =
  fd_identifier :: string
  fd_field_type :: vtype

record fact_definition =
  fdef_immutable :: bool
  fdef_identifier :: string
  fdef_key :: "field_definition list"
  fdef_value :: "field_definition list"

section \<open>Values\<close>

datatype hashable_value =
    HInt i64
  | HBool bool
  | HString string
  | HId id

datatype fact_key = FactKey (fk_identifier: string) (fk_value: hashable_value)

datatype pvalue =
    VInt i64
  | VBool bool
  | VString string
  | VBytes "u8 list"
  | VStruct struct
  | VFact fact
  | VId id
  | VEnum string string
  | VNone
and struct = Struct (struct_name: string) (struct_fields: "(string \<times> pvalue) list")
and fact = Fact (fact_name: string) (fact_keys: "fact_key list") (fact_values: "fact_value list")
and fact_value = FactValue (fv_identifier: string) (fv_value: pvalue)

type_synonym kv_pair = "string \<times> pvalue"

datatype value_conversion_error =
    ConvInvalidType string string string
  | ConvInvalidStructMember string
  | ConvOutOfRange
  | ConvBadState

fun vtype_of :: "pvalue \<Rightarrow> vtype option" where
  "vtype_of (VInt _) = Some TInt"
| "vtype_of (VBool _) = Some TBool"
| "vtype_of (VString _) = Some TString"
| "vtype_of (VBytes _) = Some TBytes"
| "vtype_of (VId _) = Some TId"
| "vtype_of (VEnum name _) = Some (TEnum name)"
| "vtype_of (VStruct s) = Some (TStruct (struct_name s))"
| "vtype_of _ = None"

fun type_name :: "pvalue \<Rightarrow> string" where
  "type_name (VInt _) = ''Int''"
| "type_name (VBool _) = ''Bool''"
| "type_name (VString _) = ''String''"
| "type_name (VBytes _) = ''Bytes''"
| "type_name (VStruct s) = ''Struct '' @ struct_name s"
| "type_name (VFact f) = ''Fact '' @ fact_name f"
| "type_name (VId _) = ''Id''"
| "type_name (VEnum name _) = ''Enum '' @ name"
| "type_name VNone = ''None''"

text \<open>
  \<open>fits_type\<close> matches on the pair of the value's type, if it has one, and the expected
  type; the arm for a value whose own type is optional is \<open>unreachable!()\<close>.
\<close>

fun fits_type :: "pvalue \<Rightarrow> vtype \<Rightarrow> (bool, 'e) result" where
  "fits_type v expected_type =
     (case (vtype_of v, expected_type) of
        (None, TOptional _) \<Rightarrow> Ok True
      | (None, _) \<Rightarrow> Ok False
      | (Some (TOptional _), _) \<Rightarrow> Panic ''unreachable''
      | (Some left, TOptional inner) \<Rightarrow> Ok (left = inner)
      | (Some left, right) \<Rightarrow> Ok (left = right))"

fun hashable_vtype :: "hashable_value \<Rightarrow> vtype" where
  "hashable_vtype (HInt _) = TInt"
| "hashable_vtype (HBool _) = TBool"
| "hashable_vtype (HString _) = TString"
| "hashable_vtype (HId _) = TId"

section \<open>Conversions\<close>

definition conv_invalid_type :: "string \<Rightarrow> pvalue \<Rightarrow> string \<Rightarrow> value_conversion_error" where
  "conv_invalid_type want v msg = ConvInvalidType want (type_name v) msg"

fun try_i64 :: "pvalue \<Rightarrow> (i64, value_conversion_error) result" where
  "try_i64 (VInt i) = Ok i"
| "try_i64 v = Err (conv_invalid_type ''Int'' v ''Value -> i64'')"

fun try_bool :: "pvalue \<Rightarrow> (bool, value_conversion_error) result" where
  "try_bool (VBool b) = Ok b"
| "try_bool v = Err (conv_invalid_type ''Bool'' v ''Value -> bool'')"

fun try_string :: "pvalue \<Rightarrow> (string, value_conversion_error) result" where
  "try_string (VString s) = Ok s"
| "try_string v = Err (conv_invalid_type ''String'' v ''Value -> String'')"

fun try_bytes :: "pvalue \<Rightarrow> (u8 list, value_conversion_error) result" where
  "try_bytes (VBytes b) = Ok b"
| "try_bytes v = Err (conv_invalid_type ''Bytes'' v ''Value -> Vec<u8>'')"

fun try_struct :: "pvalue \<Rightarrow> (struct, value_conversion_error) result" where
  "try_struct (VStruct s) = Ok s"
| "try_struct v = Err (conv_invalid_type ''Struct'' v ''Value -> Struct'')"

fun try_fact :: "pvalue \<Rightarrow> (fact, value_conversion_error) result" where
  "try_fact (VFact f) = Ok f"
| "try_fact v = Err (conv_invalid_type ''Fact'' v ''Value -> Fact'')"

fun try_id :: "pvalue \<Rightarrow> (id, value_conversion_error) result" where
  "try_id (VId i) = Ok i"
| "try_id v = Err (conv_invalid_type ''Id'' v ''Value -> Id'')"

fun try_hashable :: "pvalue \<Rightarrow> (hashable_value, value_conversion_error) result" where
  "try_hashable (VInt v) = Ok (HInt v)"
| "try_hashable (VBool v) = Ok (HBool v)"
| "try_hashable (VString v) = Ok (HString v)"
| "try_hashable (VId v) = Ok (HId v)"
| "try_hashable v = Err (conv_invalid_type ''Int | Bool | String | Id'' v ''Value -> HashableValue'')"

text \<open>
  \<open>Option<T>\<close> has a blanket conversion: \<open>None\<close> for the empty value, otherwise the
  conversion to \<open>T\<close>.
\<close>

fun try_option :: "(pvalue \<Rightarrow> ('a, value_conversion_error) result) \<Rightarrow> pvalue \<Rightarrow>
    ('a option, value_conversion_error) result" where
  "try_option conv v = (if v = VNone then Ok None else rmap Some (conv v))"

fun option_value :: "('a \<Rightarrow> pvalue) \<Rightarrow> 'a option \<Rightarrow> pvalue" where
  "option_value f None = VNone"
| "option_value f (Some a) = f a"

text \<open>
  \<open>TryAsMut\<close> gives a mutable reference into the value: the conversion of the content
  and the way back from a changed content.
\<close>

fun as_mut_bool :: "pvalue \<Rightarrow> (bool, value_conversion_error) result" where
  "as_mut_bool (VBool b) = Ok b"
| "as_mut_bool v = Err (conv_invalid_type ''bool'' v ''Value -> bool'')"

fun as_mut_fact :: "pvalue \<Rightarrow> (fact, value_conversion_error) result" where
  "as_mut_fact (VFact f) = Ok f"
| "as_mut_fact v = Err (conv_invalid_type ''Fact'' v ''Value -> Fact'')"

fun as_mut_struct :: "pvalue \<Rightarrow> (struct, value_conversion_error) result" where
  "as_mut_struct (VStruct s) = Ok s"
| "as_mut_struct v = Err (conv_invalid_type ''Struct'' v ''Value -> Struct'')"

fun hashable_to_value :: "hashable_value \<Rightarrow> pvalue" where
  "hashable_to_value (HInt v) = VInt v"
| "hashable_to_value (HBool v) = VBool v"
| "hashable_to_value (HString v) = VString v"
| "hashable_to_value (HId v) = VId v"

fun kv_of_fact_key :: "fact_key \<Rightarrow> kv_pair" where
  "kv_of_fact_key (FactKey n v) = (n, hashable_to_value v)"

fun kv_of_fact_value :: "fact_value \<Rightarrow> kv_pair" where
  "kv_of_fact_value (FactValue n v) = (n, v)"

section \<open>Facts and structs\<close>

definition fact_new :: "string \<Rightarrow> fact" where
  "fact_new name = Fact name [] []"

text \<open>
  \<open>set_key\<close> and \<open>set_value\<close> overwrite the first entry with the given identifier and
  append an entry when there is none.
\<close>

fun set_key_list :: "string \<Rightarrow> hashable_value \<Rightarrow> fact_key list \<Rightarrow> fact_key list" where
  "set_key_list n v [] = [FactKey n v]"
| "set_key_list n v (e # es) =
     (if fk_identifier e = n then FactKey (fk_identifier e) v # es else e # set_key_list n v es)"

fun set_value_list :: "string \<Rightarrow> pvalue \<Rightarrow> fact_value list \<Rightarrow> fact_value list" where
  "set_value_list n v [] = [FactValue n v]"
| "set_value_list n v (e # es) =
     (if fv_identifier e = n then FactValue (fv_identifier e) v # es else e # set_value_list n v es)"

fun set_key :: "string \<Rightarrow> hashable_value \<Rightarrow> fact \<Rightarrow> fact" where
  "set_key n v (Fact name ks vs) = Fact name (set_key_list n v ks) vs"

fun set_value :: "string \<Rightarrow> pvalue \<Rightarrow> fact \<Rightarrow> fact" where
  "set_value n v (Fact name ks vs) = Fact name ks (set_value_list n v vs)"

definition struct_new :: "string \<Rightarrow> kv_pair list \<Rightarrow> struct" where
  "struct_new name kvs = Struct name (bt_collect kvs)"

definition struct_into_pairs :: "struct \<Rightarrow> string \<times> kv_pair list" where
  "struct_into_pairs s = (struct_name s, struct_fields s)"

definition fact_to_struct :: "string \<Rightarrow> fact_key list \<Rightarrow> fact_value list \<Rightarrow> struct" where
  "fact_to_struct name ks vs = struct_new name (map kv_of_fact_key ks @ map kv_of_fact_value vs)"

text \<open>
  Well-formed values keep the \<open>BTreeMap\<close> invariant of every struct nested in them.
\<close>

primrec value_wf :: "pvalue \<Rightarrow> bool" and struct_wf :: "struct \<Rightarrow> bool"
  and fact_wf :: "fact \<Rightarrow> bool" and fact_value_wf :: "fact_value \<Rightarrow> bool" where
  "value_wf (VInt _) = True"
| "value_wf (VBool _) = True"
| "value_wf (VString _) = True"
| "value_wf (VBytes _) = True"
| "value_wf (VStruct s) = struct_wf s"
| "value_wf (VFact f) = fact_wf f"
| "value_wf (VId _) = True"
| "value_wf (VEnum _ _) = True"
| "value_wf VNone = True"
| "struct_wf (Struct n fs) = (bt_wf fs \<and> (\<forall>x \<in> set (map (map_prod (\<lambda>k. k) value_wf) fs). snd x))"
| "fact_wf (Fact n ks vs) = (\<forall>x \<in> set (map fact_value_wf vs). x)"
| "fact_value_wf (FactValue n v) = value_wf v"

section \<open>Lemmas\<close>

lemma vtype_of_not_optional: "vtype_of v \<noteq> Some (TOptional t)"
  by (cases v) auto

text \<open>The \<open>unreachable!()\<close> arm is not reached, and the test has a closed form.\<close>

lemma fits_type_simp [simp]:
  "fits_type v t = Ok (case vtype_of v of
      None \<Rightarrow> (\<exists>u. t = TOptional u)
    | Some u \<Rightarrow> t = u \<or> t = TOptional u)"
  by (cases v; cases t) auto

declare fits_type.simps [simp del]

lemma hashable_vtype_of: "vtype_of (hashable_to_value h) = Some (hashable_vtype h)"
  by (cases h) auto

lemma try_hashable_to_value [simp]: "try_hashable (hashable_to_value h) = Ok h"
  by (cases h) auto

lemma try_hashable_Ok: "try_hashable v = Ok h \<longleftrightarrow> v = hashable_to_value h"
  by (cases v; cases h) auto

lemma try_no_panic [simp]:
  "try_i64 v \<noteq> Panic p" "try_bool v \<noteq> Panic p" "try_string v \<noteq> Panic p" "try_bytes v \<noteq> Panic p"
  "try_struct v \<noteq> Panic p" "try_fact v \<noteq> Panic p" "try_id v \<noteq> Panic p" "try_hashable v \<noteq> Panic p"
  "as_mut_bool v \<noteq> Panic p" "as_mut_fact v \<noteq> Panic p" "as_mut_struct v \<noteq> Panic p"
  by (cases v; simp)+

lemma try_Ok_iff:
  "try_i64 v = Ok i \<longleftrightarrow> v = VInt i"
  "try_bool v = Ok b \<longleftrightarrow> v = VBool b"
  "try_string v = Ok t \<longleftrightarrow> v = VString t"
  "try_bytes v = Ok bs \<longleftrightarrow> v = VBytes bs"
  "try_struct v = Ok s \<longleftrightarrow> v = VStruct s"
  "try_fact v = Ok f \<longleftrightarrow> v = VFact f"
  "try_id v = Ok d \<longleftrightarrow> v = VId d"
  "as_mut_bool v = Ok b \<longleftrightarrow> v = VBool b"
  "as_mut_fact v = Ok f \<longleftrightarrow> v = VFact f"
  "as_mut_struct v = Ok s \<longleftrightarrow> v = VStruct s"
  by (cases v; auto)+

text \<open>
  The key and value lists of a fact are association lists with distinct identifiers;
  setting a name changes the lookup of that name and of no other, and keeps the order.
\<close>

definition key_lookup :: "fact_key list \<Rightarrow> string \<Rightarrow> hashable_value option" where
  "key_lookup ks n = map_option fk_value (find (\<lambda>e. fk_identifier e = n) ks)"

definition value_lookup :: "fact_value list \<Rightarrow> string \<Rightarrow> pvalue option" where
  "value_lookup vs n = map_option fv_value (find (\<lambda>e. fv_identifier e = n) vs)"

lemma key_lookup_set [simp]:
  "key_lookup (set_key_list n v ks) m = (if m = n then Some v else key_lookup ks m)"
  by (induction ks) (auto simp: key_lookup_def)

lemma value_lookup_set [simp]:
  "value_lookup (set_value_list n v vs) m = (if m = n then Some v else value_lookup vs m)"
  by (induction vs) (auto simp: value_lookup_def)

lemma set_key_list_ids:
  "map fk_identifier (set_key_list n v ks) =
     (if n \<in> fk_identifier ` set ks then map fk_identifier ks else map fk_identifier ks @ [n])"
  by (induction ks) auto

lemma set_value_list_ids:
  "map fv_identifier (set_value_list n v vs) =
     (if n \<in> fv_identifier ` set vs then map fv_identifier vs else map fv_identifier vs @ [n])"
  by (induction vs) auto

lemma set_key_list_distinct:
  "distinct (map fk_identifier ks) \<Longrightarrow> distinct (map fk_identifier (set_key_list n v ks))"
  by (simp only: set_key_list_ids) auto

lemma set_value_list_distinct:
  "distinct (map fv_identifier vs) \<Longrightarrow> distinct (map fv_identifier (set_value_list n v vs))"
  by (simp only: set_value_list_ids) auto

lemma set_key_name [simp]: "fact_name (set_key n v f) = fact_name f"
  by (cases f) simp

lemma set_value_name [simp]: "fact_name (set_value n v f) = fact_name f"
  by (cases f) simp

lemma struct_new_fields_wf [simp]: "bt_wf (struct_fields (struct_new n kvs))"
  by (simp add: struct_new_def)

end
