(* ===== verification/Graph_Types.thy ===== *)
theory Graph_Types
  imports Prelude
begin

text \<open>
  The vocabulary of the graph runtime: \<open>Prior\<close> (\<open>aranya-runtime/src/prior.rs\<close>), commands
  with their priorities and addresses (\<open>command.rs\<close>), locations, storage errors and the
  byte keys of facts (\<open>storage/mod.rs\<close>).
\<close>

section \<open>Prior\<close>

datatype 'a prior = PNone | PSingle 'a | PMerge 'a 'a

text \<open>\<open>IntoIterator for Prior\<close>: none, one or two values, the left one first.\<close>

fun prior_list :: "'a prior \<Rightarrow> 'a list" where
  "prior_list PNone = []"
| "prior_list (PSingle x) = [x]"
| "prior_list (PMerge x y) = [x, y]"

section \<open>Commands\<close>

type_synonym bytes = "u8 list"
type_synonym command_id = bytes
type_synonym policy_id = nat

datatype priority = PrioMerge | PrioBasic u32 | PrioFinalize | PrioInit

fun priority_rank :: "priority \<Rightarrow> nat \<times> u32" where
  "priority_rank PrioMerge = (0, 0)"
| "priority_rank (PrioBasic n) = (1, n)"
| "priority_rank PrioFinalize = (2, 0)"
| "priority_rank PrioInit = (3, 0)"

text \<open>The derived order compares the variants first and then the number of \<open>Basic\<close>.\<close>

instantiation priority :: linorder
begin

definition less_priority :: "priority \<Rightarrow> priority \<Rightarrow> bool" where
  "less_priority a b \<longleftrightarrow> fst (priority_rank a) < fst (priority_rank b) \<or>
     fst (priority_rank a) = fst (priority_rank b) \<and> snd (priority_rank a) < snd (priority_rank b)"

definition less_eq_priority :: "priority \<Rightarrow> priority \<Rightarrow> bool" where
  "less_eq_priority a b \<longleftrightarrow> fst (priority_rank a) < fst (priority_rank b) \<or>
     fst (priority_rank a) = fst (priority_rank b) \<and> snd (priority_rank a) \<le> snd (priority_rank b)"

lemma priority_rank_inject: "priority_rank a = priority_rank b \<longleftrightarrow> a = b"
  by (cases a; cases b) auto

instance
proof
  fix x y z :: priority
  show "(x < y) = (x \<le> y \<and> \<not> y \<le> x)"
    by (auto simp: less_priority_def less_eq_priority_def)
  show "x \<le> x"
    by (simp add: less_eq_priority_def)
  show "x \<le> y \<Longrightarrow> y \<le> z \<Longrightarrow> x \<le> z"
    by (auto simp: less_eq_priority_def)
  show "x \<le> y \<Longrightarrow> y \<le> x \<Longrightarrow> x = y"
    by (auto simp: less_eq_priority_def prod_eq_iff simp flip: priority_rank_inject)
  show "x \<le> y \<or> y \<le> x"
    by (auto simp: less_eq_priority_def)
qed

end

record address =
  addr_id :: command_id
  addr_max_cut :: nat

record command =
  cmd_priority :: priority
  cmd_id :: command_id
  cmd_parent :: "address prior"
  cmd_policy :: "bytes option"
  cmd_bytes :: bytes

text \<open>\<open>Command::max_cut\<close> and \<open>Command::address\<close>, the default methods of the trait.\<close>

definition after_parents :: "nat \<Rightarrow> address prior \<Rightarrow> (nat, string) result" where
  "after_parents none p = (case p of
      PNone \<Rightarrow> Ok none
    | PSingle l \<Rightarrow> ok_or ''must not overflow'' (usize_checked_add (addr_max_cut l) 1)
    | PMerge l r \<Rightarrow> ok_or ''must not overflow''
        (usize_checked_add (max (addr_max_cut l) (addr_max_cut r)) 1))"

definition command_max_cut :: "command \<Rightarrow> (nat, string) result" where
  "command_max_cut c = after_parents 0 (cmd_parent c)"

definition command_address :: "command \<Rightarrow> (address, string) result" where
  "command_address c = rmap (\<lambda>m. \<lparr>addr_id = cmd_id c, addr_max_cut = m\<rparr>) (command_max_cut c)"

text \<open>\<open>Prior<Address>::next_max_cut\<close>: the case without parents gives 1 here and 0 above.\<close>

definition next_max_cut :: "address prior \<Rightarrow> (nat, string) result" where
  "next_max_cut p = after_parents 1 p"

section \<open>Storage\<close>

record location =
  loc_segment :: nat
  loc_command :: nat

definition location_new :: "nat \<Rightarrow> nat \<Rightarrow> location" where
  "location_new s c = \<lparr>loc_segment = s, loc_command = c\<rparr>"

definition location_previous :: "location \<Rightarrow> location option" where
  "location_previous l = (case usize_checked_sub (loc_command l) 1 of
      Some n \<Rightarrow> Some (l\<lparr>loc_command := n\<rparr>)
    | None \<Rightarrow> None)"

definition same_segment :: "location \<Rightarrow> location \<Rightarrow> bool" where
  "same_segment a b \<longleftrightarrow> loc_segment a = loc_segment b"

datatype storage_error =
    StorageExists
  | NoSuchStorage
  | SegmentOutOfBounds location
  | CommandOutOfBounds location
  | IoError
  | NotMerge
  | NoSuchId command_id
  | PolicyMismatch
  | EmptyPerspective
  | HeadNotAncestor
  | PerspectiveHeadMismatch
  | StorageBug string

text \<open>
  Fact keys are sequences of byte strings. They are compared lexicographically, each
  component being compared as a byte string.
\<close>

type_synonym keys = "bytes list"

definition keys_start_with :: "keys \<Rightarrow> keys \<Rightarrow> bool" where
  "keys_start_with k p \<longleftrightarrow> take (length p) k = p"

record stored_fact =
  sf_key :: keys
  sf_value :: bytes

section \<open>Lemmas\<close>

lemma prior_list_length: "length (prior_list p) \<le> 2"
  by (cases p) auto

lemma location_new_sel [simp]:
  "loc_segment (location_new s c) = s" "loc_command (location_new s c) = c"
  by (simp_all add: location_new_def)

lemma location_new_inject [simp]: "location_new a b = location_new c d \<longleftrightarrow> a = c \<and> b = d"
  by (simp add: location_new_def)

lemma location_eqI: "loc_segment a = loc_segment b \<Longrightarrow> loc_command a = loc_command b \<Longrightarrow> a = (b :: location)"
  by simp

lemma location_eq_iff: "(a :: location) = b \<longleftrightarrow> loc_segment a = loc_segment b \<and> loc_command a = loc_command b"
  by auto

lemma location_collapse [simp]: "location_new (loc_segment l) (loc_command l) = l"
  by (simp add: location_new_def)

lemma stored_fact_collapse [simp]: "\<lparr>sf_key = sf_key f, sf_value = sf_value f\<rparr> = f"
  by simp

text \<open>
  The keys that start with a prefix are an interval of the key order that begins at the
  prefix itself.
\<close>

lemma list_less_eq_append: "xs \<le> xs @ (ys :: 'a::linorder list)"
  by (induction xs) auto

lemma keys_start_with_ge: "keys_start_with k p \<Longrightarrow> p \<le> k"
  unfolding keys_start_with_def by (metis append_take_drop_id list_less_eq_append)

lemma list_interval:
  fixes p k l :: "'a::linorder list"
  assumes "p \<le> k" "k \<le> l" "take (length p) l = p"
  shows "take (length p) k = p"
  using assms
proof (induction p arbitrary: k l)
  case (Cons x p)
  then obtain y k' where k: "k = y # k'" by (cases k) auto
  obtain l' where l: "l = x # l'" using Cons.prems(3) by (cases l) auto
  have "x = y" using Cons.prems(1,2) k l by (auto dest: leD)
  with Cons k l show ?case by auto
qed simp

lemma keys_prefix_interval:
  "p \<le> k \<Longrightarrow> k \<le> l \<Longrightarrow> keys_start_with l p \<Longrightarrow> keys_start_with k p"
  unfolding keys_start_with_def by (rule list_interval)

end
