(* ===== verification/Fact_Codec.thy ===== *)
theory Fact_Codec
  imports Policy_Values Graph_Types
begin

text \<open>
  The encoding of fact keys as bytes (\<open>ser_key\<close> and \<open>deser_key\<close> of
  \<open>aranya-runtime/src/vm_policy/io.rs\<close>): the length of the identifier, the identifier, a
  tag for the type of the value and the value itself, integers with their sign bit
  flipped and in big-endian order so that the order of the bytes is the order of the
  values.
\<close>

section \<open>Big-endian integers\<close>

fun be_digits :: "nat \<Rightarrow> nat \<Rightarrow> bytes" where
  "be_digits 0 n = []"
| "be_digits (Suc k) n = be_digits k (n div 256) @ [word_of_nat (n mod 256)]"

definition to_be_bytes :: "u64 \<Rightarrow> bytes" where
  "to_be_bytes w = be_digits 8 (unat w)"

fun be_value :: "nat \<Rightarrow> bytes \<Rightarrow> nat" where
  "be_value acc [] = acc"
| "be_value acc (b # bs) = be_value (acc * 256 + unat b) bs"

definition from_be_bytes :: "bytes \<Rightarrow> u64" where
  "from_be_bytes bs = word_of_nat (be_value 0 bs)"

lemma be_digits_length [simp]: "length (be_digits k n) = k"
  by (induction k arbitrary: n) auto

lemma be_value_append: "be_value acc (xs @ ys) = be_value (be_value acc xs) ys"
  by (induction xs arbitrary: acc) auto

lemma unat_digit: "unat (word_of_nat (n mod 256) :: u8) = n mod 256"
  by (simp add: unat_of_nat)

lemma be_value_digits: "be_value 0 (be_digits k n) = n mod 256 ^ k"
proof (induction k arbitrary: n)
  case (Suc k)
  show ?case
    using Suc [of "n div 256"] by (simp add: be_value_append mod_mult2_eq unat_digit)
qed simp

lemma unat_u64_bound: "unat (w :: u64) < 256 ^ 8"
  using unsigned_less [of w, where ?'a = nat] by simp

lemma from_to_be_bytes [simp]: "from_be_bytes (to_be_bytes w) = w"
  using unat_u64_bound [of w] by (simp add: from_be_bytes_def to_be_bytes_def be_value_digits)

lemma to_be_bytes_length [simp]: "length (to_be_bytes w) = 8"
  by (simp add: to_be_bytes_def)

lemma less_snoc:
  fixes xs ys :: "'a::linorder list"
  shows "length xs = length ys \<Longrightarrow> xs @ [a] < ys @ [b] \<longleftrightarrow> xs < ys \<or> xs = ys \<and> a < b"
  by (induction xs ys rule: list_induct2) auto

lemma less_div_mod: "m < n \<longleftrightarrow> m div 256 < n div 256 \<or> m div 256 = n div 256 \<and> m mod 256 < n mod 256"
  for m n :: nat
proof -
  have "256 * a + b < 256 * c + d \<longleftrightarrow> a < c \<or> a = c \<and> b < d" if "b < 256" "d < 256" for a b c d :: nat
    using that by (cases a c rule: linorder_cases) auto
  from this [of "m mod 256" "n mod 256" "m div 256" "n div 256"] show ?thesis
    by (simp add: mult_div_mod_eq)
qed

lemma be_digits_less:
  "m < 256 ^ k \<Longrightarrow> n < 256 ^ k \<Longrightarrow> be_digits k m < be_digits k n \<longleftrightarrow> m < n"
proof (induction k arbitrary: m n)
  case (Suc k)
  have bound: "m div 256 < 256 ^ k" "n div 256 < 256 ^ k"
    using Suc.prems by (simp_all add: less_mult_imp_div_less)
  have inj: "be_digits k (m div 256) = be_digits k (n div 256) \<longleftrightarrow> m div 256 = n div 256"
    by (metis be_value_digits mod_less bound)
  have digit: "(word_of_nat (m mod 256) :: u8) < word_of_nat (n mod 256) \<longleftrightarrow> m mod 256 < n mod 256"
    by (simp only: word_less_nat_alt unat_digit)
  show ?case
    by (simp only: be_digits.simps less_snoc be_digits_length Suc.IH [OF bound] inj digit less_div_mod [of m n])
qed simp

lemma to_be_bytes_less: "to_be_bytes v < to_be_bytes w \<longleftrightarrow> v < w"
  using unat_u64_bound [of v] unat_u64_bound [of w]
  by (simp add: to_be_bytes_def be_digits_less word_less_nat_alt)

text \<open>Flipping the sign bit turns the signed order into the unsigned one.\<close>

definition flip_sign :: "i64 \<Rightarrow> u64" where
  "flip_sign w = xor w (push_bit 63 1)"

lemma flip_sign_twice [simp]: "flip_sign (flip_sign w) = w"
  by (simp add: flip_sign_def xor.assoc)

lemma flip_sign_plus: "flip_sign w = w + 2 ^ 63"
proof -
  have two: "(2 ^ 63 :: u64) + 2 ^ 63 = 0" by simp
  have "w - 2 ^ 63 = w + (2 ^ 63 :: u64)"
    by (simp only: diff_eq_eq add.assoc two add_0_right)
  moreover have "flip_sign w = flip_bit 63 w"
    by (simp add: flip_sign_def flip_bit_eq_xor)
  ultimately show ?thesis
    by (simp add: flip_bit_eq_if set_bit_eq unset_bit_eq)
qed

lemma uint_flip_sign: "uint (flip_sign w) = sint w + 2 ^ 63"
proof -
  have "flip_sign w = word_of_int (sint w + 2 ^ 63)"
    by (simp add: flip_sign_plus)
  moreover have "0 \<le> sint w + 2 ^ 63" "sint w + 2 ^ 63 < 2 ^ 64"
    using sint_in_i64 [of w] by (simp_all add: in_i64_def)
  ultimately show ?thesis
    by (simp only: uint_word_of_int) (simp add: mod_pos_pos_trivial)
qed

lemma flip_sign_less: "flip_sign v < flip_sign w \<longleftrightarrow> sint v < sint w"
  by (simp add: word_less_def uint_flip_sign)

section \<open>Strings as bytes\<close>

definition as_bytes :: "string \<Rightarrow> bytes" where
  "as_bytes s = map (\<lambda>c. word_of_nat (of_char c)) s"

definition of_bytes :: "bytes \<Rightarrow> string" where
  "of_bytes bs = map (\<lambda>b. char_of (unat b)) bs"

text \<open>\<open>core::str::from_utf8\<close> accepts the well-formed byte sequences of the Unicode standard.\<close>

definition in_range :: "nat \<Rightarrow> nat \<Rightarrow> u8 \<Rightarrow> bool" where
  "in_range lo hi b \<longleftrightarrow> lo \<le> unat b \<and> unat b \<le> hi"

fun utf8_char2 :: "u8 \<Rightarrow> u8 \<Rightarrow> bool" where
  "utf8_char2 a b \<longleftrightarrow> in_range 0xC2 0xDF a \<and> in_range 0x80 0xBF b"

fun utf8_char3 :: "u8 \<Rightarrow> u8 \<Rightarrow> u8 \<Rightarrow> bool" where
  "utf8_char3 a b c \<longleftrightarrow>
     (in_range 0xE0 0xE0 a \<and> in_range 0xA0 0xBF b \<or> in_range 0xE1 0xEC a \<and> in_range 0x80 0xBF b \<or>
      in_range 0xED 0xED a \<and> in_range 0x80 0x9F b \<or> in_range 0xEE 0xEF a \<and> in_range 0x80 0xBF b) \<and>
     in_range 0x80 0xBF c"

fun utf8_char4 :: "u8 \<Rightarrow> u8 \<Rightarrow> u8 \<Rightarrow> u8 \<Rightarrow> bool" where
  "utf8_char4 a b c d \<longleftrightarrow>
     (in_range 0xF0 0xF0 a \<and> in_range 0x90 0xBF b \<or> in_range 0xF1 0xF3 a \<and> in_range 0x80 0xBF b \<or>
      in_range 0xF4 0xF4 a \<and> in_range 0x80 0x8F b) \<and>
     in_range 0x80 0xBF c \<and> in_range 0x80 0xBF d"

text \<open>The number of bytes of the first character, 0 if there is no well-formed one.\<close>

definition utf8_width :: "bytes \<Rightarrow> nat" where
  "utf8_width bs = (case bs of
      a # b # c # d # _ \<Rightarrow> if in_range 0 0x7F a then 1 else if utf8_char2 a b then 2
                            else if utf8_char3 a b c then 3 else if utf8_char4 a b c d then 4 else 0
    | [a, b, c] \<Rightarrow> if in_range 0 0x7F a then 1 else if utf8_char2 a b then 2 else if utf8_char3 a b c then 3 else 0
    | [a, b] \<Rightarrow> if in_range 0 0x7F a then 1 else if utf8_char2 a b then 2 else 0
    | [a] \<Rightarrow> if in_range 0 0x7F a then 1 else 0
    | [] \<Rightarrow> 0)"

function utf8_valid :: "bytes \<Rightarrow> bool" where
  "utf8_valid bs = (if bs = [] then True else if utf8_width bs = 0 then False
     else utf8_valid (drop (utf8_width bs) bs))"
  by pat_completeness auto
termination
  by (relation "measure length") (auto simp: neq_Nil_conv)

declare utf8_valid.simps [simp del]

definition from_utf8 :: "bytes \<Rightarrow> string option" where
  "from_utf8 bs = (if utf8_valid bs then Some (of_bytes bs) else None)"

lemma of_as_bytes [simp]: "of_bytes (as_bytes s) = s"
  by (induction s) (auto simp: of_bytes_def as_bytes_def unat_of_nat)

lemma from_utf8_as_bytes: "utf8_valid (as_bytes s) \<Longrightarrow> from_utf8 (as_bytes s) = Some s"
  by (simp add: from_utf8_def)

lemma as_bytes_length [simp]: "length (as_bytes s) = length s"
  by (simp add: as_bytes_def)

lemma less_char_byte: "(word_of_nat (of_char c) :: u8) < word_of_nat (of_char d) \<longleftrightarrow> c < d"
  by (simp add: word_less_nat_alt unat_of_nat less_char_def)

lemma byte_char_eq: "(word_of_nat (of_char c) :: u8) = word_of_nat (of_char d) \<longleftrightarrow> c = d"
  using less_char_byte by (metis less_irrefl linorder_less_linear)

lemma as_bytes_less: "as_bytes s < as_bytes t \<longleftrightarrow> s < t"
proof (induction s arbitrary: t)
  case Nil
  then show ?case by (cases t) (simp_all add: as_bytes_def)
next
  case (Cons c s)
  then show ?case
    by (cases t) (simp_all add: as_bytes_def less_char_byte byte_char_eq)
qed

section \<open>Keys\<close>

datatype key_type = KInt | KBool | KString | KId

fun key_type_tag :: "key_type \<Rightarrow> u8" where
  "key_type_tag KInt = 0"
| "key_type_tag KBool = 1"
| "key_type_tag KString = 2"
| "key_type_tag KId = 3"

definition key_type_from_u8 :: "u8 \<Rightarrow> key_type option" where
  "key_type_from_u8 b =
     (if b = 0 then Some KInt else if b = 1 then Some KBool else if b = 2 then Some KString
      else if b = 3 then Some KId else None)"

fun value_bytes :: "hashable_value \<Rightarrow> key_type \<times> bytes" where
  "value_bytes (HInt i) = (KInt, to_be_bytes (flip_sign i))"
| "value_bytes (HBool b) = (KBool, if b then [1] else [0])"
| "value_bytes (HString s) = (KString, as_bytes s)"
| "value_bytes (HId i) = (KId, i)"

fun ser_key :: "fact_key \<Rightarrow> bytes" where
  "ser_key (FactKey ident v) = (case value_bytes v of (tag, bs) \<Rightarrow>
     to_be_bytes (word_of_nat (length ident)) @ as_bytes ident @ [key_type_tag tag] @ bs)"

definition ser_keys :: "fact_key list \<Rightarrow> keys" where
  "ser_keys ks = map ser_key ks"

definition deser_value :: "key_type \<Rightarrow> bytes \<Rightarrow> (hashable_value, string) result" where
  "deser_value tag bs = (case tag of
      KInt \<Rightarrow> if length bs = 8 then Ok (HInt (flip_sign (from_be_bytes bs)))
              else Err ''invalid integer length''
    | KBool \<Rightarrow> if bs = [0] then Ok (HBool False) else if bs = [1] then Ok (HBool True)
               else Err ''invalid boolean''
    | KString \<Rightarrow> (case from_utf8 bs of Some s \<Rightarrow> Ok (HString s) | None \<Rightarrow> Err ''string not utf8'')
    | KId \<Rightarrow> if length bs = 64 then Ok (HId bs) else Err ''invalid ID length'')"

text \<open>On a 64-bit target \<open>usize::try_from(u64)\<close> does not fail.\<close>

definition deser_key :: "bytes \<Rightarrow> (fact_key, string) result" where
  "deser_key bs =
     (if length bs < 8 then Err ''missing identifier length''
      else let n = unat (from_be_bytes (take 8 bs)); bs1 = drop 8 bs in
        if n > length bs1 then Err ''identifier too short''
        else rbind (ok_or ''identifier not utf8'' (from_utf8 (take n bs1))) (\<lambda>ident.
          case drop n bs1 of
            [] \<Rightarrow> Err ''missing tag''
          | t # bs2 \<Rightarrow>
              rbind (ok_or ''invalid tag'' (key_type_from_u8 t)) (\<lambda>tag.
              rbind (deser_value tag bs2) (\<lambda>v. Ok (FactKey ident v)))))"

text \<open>What the Rust types guarantee of a key: strings are UTF-8, an ID has 64 bytes.\<close>

fun hashable_wf :: "hashable_value \<Rightarrow> bool" where
  "hashable_wf (HString s) \<longleftrightarrow> utf8_valid (as_bytes s)"
| "hashable_wf (HId i) \<longleftrightarrow> length i = 64"
| "hashable_wf _ \<longleftrightarrow> True"

definition fact_key_wf :: "fact_key \<Rightarrow> bool" where
  "fact_key_wf k \<longleftrightarrow> length (fk_identifier k) < 2 ^ 64 \<and> utf8_valid (as_bytes (fk_identifier k)) \<and>
     hashable_wf (fk_value k)"

lemma key_type_tag_roundtrip [simp]: "key_type_from_u8 (key_type_tag t) = Some t"
  by (cases t) (simp_all add: key_type_from_u8_def)

lemma deser_value_bytes: "hashable_wf v \<Longrightarrow> value_bytes v = (tag, bs) \<Longrightarrow> deser_value tag bs = Ok v"
  by (cases v) (auto simp: deser_value_def from_utf8_as_bytes split: if_splits)

lemma deser_ser_key: "fact_key_wf k \<Longrightarrow> deser_key (ser_key k) = Ok k"
proof (cases k)
  case (FactKey ident v)
  assume wf: "fact_key_wf k"
  obtain tag bs where v: "value_bytes v = (tag, bs)" by (cases "value_bytes v")
  have "unat (word_of_nat (length ident) :: u64) = length ident"
    using wf FactKey by (simp add: fact_key_wf_def unat_of_nat take_bit_nat_eq_self)
  moreover have "from_utf8 (as_bytes ident) = Some ident" "deser_value tag bs = Ok v"
    using wf FactKey v by (simp_all add: fact_key_wf_def from_utf8_as_bytes deser_value_bytes)
  ultimately show ?thesis
    by (simp add: FactKey v deser_key_def Let_def)
qed

lemma append_less_same: "xs @ ys < xs @ (zs :: 'a::linorder list) \<longleftrightarrow> ys < zs"
  by (induction xs) auto

text \<open>The order of two values of the same type.\<close>

fun hashable_less :: "hashable_value \<Rightarrow> hashable_value \<Rightarrow> bool" where
  "hashable_less (HInt a) (HInt b) \<longleftrightarrow> sint a < sint b"
| "hashable_less (HBool a) (HBool b) \<longleftrightarrow> \<not> a \<and> b"
| "hashable_less (HString a) (HString b) \<longleftrightarrow> a < b"
| "hashable_less (HId a) (HId b) \<longleftrightarrow> a < b"
| "hashable_less _ _ \<longleftrightarrow> False"

lemma value_bytes_less:
  assumes "hashable_vtype a = hashable_vtype b"
  shows "fst (value_bytes a) = fst (value_bytes b)"
    "snd (value_bytes a) < snd (value_bytes b) \<longleftrightarrow> hashable_less a b"
  using assms by (cases a; cases b; simp add: to_be_bytes_less flip_sign_less as_bytes_less)+

section \<open>Properties\<close>

text \<open>
  C9. The byte encoding of fact keys is faithful: decoding the encoding of any key gives
  the key back, for every identifier and every value an integer, boolean, string or ID
  key can have.
\<close>

theorem fact_key_roundtrip: "fact_key_wf k \<Longrightarrow> deser_key (ser_key k) = Ok k"
  by (rule deser_ser_key)

theorem fact_key_roundtrip_witness: "deser_key (ser_key (FactKey ''k'' (HInt (- 5)))) = Ok (FactKey ''k'' (HInt (- 5)))"
  by (rule fact_key_roundtrip)
    (simp add: fact_key_wf_def as_bytes_def utf8_valid.simps utf8_width_def in_range_def)

text \<open>
  C10. The encoding preserves order: for two keys with the same identifier and values of the
  same type, the byte strings compare as the values do, integers by their signed order.
  Prefix queries therefore iterate facts in the order of their key values.
\<close>

theorem fact_key_order:
  assumes "hashable_vtype a = hashable_vtype b"
  shows "ser_key (FactKey n a) < ser_key (FactKey n b) \<longleftrightarrow> hashable_less a b"
  using value_bytes_less [OF assms]
  by (auto simp: append_less_same split: prod.split)

theorem fact_key_order_witness: "ser_key (FactKey ''k'' (HInt (- 1))) < ser_key (FactKey ''k'' (HInt 1))"
  using fact_key_order [of "HInt (- 1)" "HInt 1" "''k''"] by simp

end
