(* ===== verification/Fact_Store.thy ===== *)
theory Fact_Store
  imports Graph_Types
begin

text \<open>
  Facts of the in-memory storage (\<open>MemFactIndex\<close> and \<open>MemFactPerspective\<close> of
  \<open>aranya-runtime/src/storage/memory.rs\<close>). A fact index is a chain of maps from names to
  maps from keys to a value or a deletion; a perspective puts a mutable map on top of
  an index or of another perspective. The locales state what the traits \<open>Query\<close> and
  \<open>QueryMut\<close> promise; every store of the development is an instance of them.
\<close>

section \<open>The interface\<close>

text \<open>The facts under a prefix as a function of all facts.\<close>

definition state_prefix :: "(string \<Rightarrow> keys \<Rightarrow> bytes option) \<Rightarrow> string \<Rightarrow> keys \<Rightarrow> stored_fact list" where
  "state_prefix q n p = map (\<lambda>k. \<lparr>sf_key = k, sf_value = the (q n k)\<rparr>)
     (sorted_list_of_set {k. q n k \<noteq> None \<and> keys_start_with k p})"

text \<open>
  A prefix query lists the facts an exact query finds under keys with that prefix, each
  once and in the order of the keys.
\<close>

locale fact_query =
  fixes wf :: "'s \<Rightarrow> bool"
    and query :: "'s \<Rightarrow> string \<Rightarrow> keys \<Rightarrow> bytes option"
    and query_prefix :: "'s \<Rightarrow> string \<Rightarrow> keys \<Rightarrow> stored_fact list"
  assumes prefix_exact: "wf s \<Longrightarrow> \<lparr>sf_key = k, sf_value = v\<rparr> \<in> set (query_prefix s n p) \<longleftrightarrow>
      query s n k = Some v \<and> keys_start_with k p"
    and prefix_sorted: "wf s \<Longrightarrow> sorted_wrt (<) (map sf_key (query_prefix s n p))"
begin

lemma prefix_values:
  assumes "wf s" "f \<in> set (query_prefix s n p)"
  shows "query s n (sf_key f) = Some (sf_value f)" "keys_start_with (sf_key f) p"
  using prefix_exact [OF assms(1), of "sf_key f" "sf_value f" n p] assms(2) by auto

lemma prefix_keys:
  "wf s \<Longrightarrow> sf_key ` set (query_prefix s n p) = {k. query s n k \<noteq> None \<and> keys_start_with k p}"
proof (rule set_eqI)
  fix k
  assume wf: "wf s"
  show "k \<in> sf_key ` set (query_prefix s n p) \<longleftrightarrow> k \<in> {k. query s n k \<noteq> None \<and> keys_start_with k p}"
  proof
    assume "k \<in> sf_key ` set (query_prefix s n p)"
    then show "k \<in> {k. query s n k \<noteq> None \<and> keys_start_with k p}"
      using prefix_values [OF wf] by auto
  next
    assume "k \<in> {k. query s n k \<noteq> None \<and> keys_start_with k p}"
    then obtain v where "query s n k = Some v" "keys_start_with k p" by auto
    then have "\<lparr>sf_key = k, sf_value = v\<rparr> \<in> set (query_prefix s n p)"
      using prefix_exact [OF wf] by simp
    then show "k \<in> sf_key ` set (query_prefix s n p)" by force
  qed
qed

text \<open>The fact stored under the prefix itself comes first.\<close>

lemma prefix_first:
  assumes "wf s" "query s n k = Some v"
  obtains fs where "query_prefix s n k = \<lparr>sf_key = k, sf_value = v\<rparr> # fs"
proof -
  have mem: "\<lparr>sf_key = k, sf_value = v\<rparr> \<in> set (query_prefix s n k)"
    using assms by (simp add: prefix_exact keys_start_with_def)
  then obtain f fs where fs: "query_prefix s n k = f # fs" by (cases "query_prefix s n k") auto
  have "k \<le> sf_key f"
    using prefix_values(2) [OF assms(1), of f n k] fs by (simp add: keys_start_with_ge)
  moreover have "sf_key f < sf_key g" if "g \<in> set fs" for g
    using prefix_sorted [OF assms(1), of n k] fs that by simp
  ultimately have "f = \<lparr>sf_key = k, sf_value = v\<rparr>" using mem fs by force
  with fs that show ?thesis by blast
qed

text \<open>A prefix query is a function of the exact queries.\<close>

lemma prefix_from_keys:
  "wf s \<Longrightarrow> query_prefix s n p =
     map (\<lambda>k. \<lparr>sf_key = k, sf_value = the (query s n k)\<rparr>) (map sf_key (query_prefix s n p))"
  using prefix_values by (auto simp: comp_def intro!: map_idI [symmetric])

lemma prefix_state:
  assumes "wf s"
  shows "query_prefix s n p = state_prefix (query s) n p"
proof -
  let ?ks = "map sf_key (query_prefix s n p)"
  have ks: "set ?ks = {k. query s n k \<noteq> None \<and> keys_start_with k p}"
    using prefix_keys [OF assms, of n p] by simp
  have "sorted ?ks" "distinct ?ks"
    using prefix_sorted [OF assms, of n p] by (simp_all add: strict_sorted_iff)
  then have "sorted_list_of_set (set ?ks) = ?ks"
    by (rule sorted_list_of_set.idem_if_sorted_distinct)
  then have "sorted_list_of_set {k. query s n k \<noteq> None \<and> keys_start_with k p} = ?ks"
    unfolding ks .
  then show ?thesis
    using prefix_from_keys [OF assms, of n p] by (simp add: state_prefix_def)
qed

end

locale fact_query_pair = one: fact_query wf query query_prefix + two: fact_query wf' query' query_prefix'
  for wf :: "'s \<Rightarrow> bool" and query query_prefix
    and wf' :: "'t \<Rightarrow> bool" and query' query_prefix'
begin

text \<open>Two stores that answer exact queries alike answer prefix queries alike.\<close>

lemma same_prefix:
  assumes "wf s" "wf' t" "\<And>k. query s n k = query' t n k"
  shows "query_prefix s n p = query_prefix' t n p"
proof -
  have "map sf_key (query_prefix s n p) = map sf_key (query_prefix' t n p)"
    using assms one.prefix_sorted [OF assms(1), of n p] two.prefix_sorted [OF assms(2), of n p]
    by (intro sorted_distinct_set_unique) (auto simp: strict_sorted_iff one.prefix_keys two.prefix_keys)
  then show ?thesis
    using one.prefix_from_keys [OF assms(1), of n p] two.prefix_from_keys [OF assms(2), of n p] assms(3) by simp
qed

end

locale fact_store = fact_query wf query query_prefix
  for wf :: "'s \<Rightarrow> bool" and query and query_prefix +
  fixes insert :: "string \<Rightarrow> keys \<Rightarrow> bytes \<Rightarrow> 's \<Rightarrow> 's"
    and delete :: "string \<Rightarrow> keys \<Rightarrow> 's \<Rightarrow> 's"
  assumes wf_insert: "wf s \<Longrightarrow> wf (insert n k v s)"
    and wf_delete: "wf s \<Longrightarrow> wf (delete n k s)"
    and query_insert: "wf s \<Longrightarrow> query (insert n k v s) m j = (if m = n \<and> j = k then Some v else query s m j)"
    and query_delete: "wf s \<Longrightarrow> query (delete n k s) m j = (if m = n \<and> j = k then None else query s m j)"
begin

lemma prefix_insert:
  assumes "wf s" "keys_start_with k p"
  shows "\<lparr>sf_key = k, sf_value = v\<rparr> \<in> set (query_prefix (insert n k v s) n p)"
  using assms by (simp add: prefix_exact wf_insert query_insert)

lemma prefix_delete:
  assumes "wf s"
  shows "query_prefix (delete n k s) n p = filter (\<lambda>f. sf_key f \<noteq> k) (query_prefix s n p)"
proof -
  have "map sf_key (query_prefix (delete n k s) n p) =
      map sf_key (filter (\<lambda>f. sf_key f \<noteq> k) (query_prefix s n p))"
  proof (rule sorted_distinct_set_unique)
    have "sorted_wrt (<) (map sf_key (filter (\<lambda>f. sf_key f \<noteq> k) (query_prefix s n p)))"
      using prefix_sorted [OF assms, of n p] by (simp add: sorted_wrt_map sorted_wrt_filter)
    then show "sorted (map sf_key (filter (\<lambda>f. sf_key f \<noteq> k) (query_prefix s n p)))"
      "distinct (map sf_key (filter (\<lambda>f. sf_key f \<noteq> k) (query_prefix s n p)))"
      by (simp_all add: strict_sorted_iff)
    show "sorted (map sf_key (query_prefix (delete n k s) n p))"
      "distinct (map sf_key (query_prefix (delete n k s) n p))"
      using prefix_sorted [OF wf_delete [OF assms], of n k n p] by (simp_all add: strict_sorted_iff)
    have "sf_key ` set (query_prefix (delete n k s) n p) = {j. j \<noteq> k \<and> query s n j \<noteq> None \<and> keys_start_with j p}"
      using assms by (auto simp: prefix_keys wf_delete query_delete)
    also have "\<dots> = sf_key ` {f \<in> set (query_prefix s n p). sf_key f \<noteq> k}"
      using prefix_keys [OF assms, of n p] by auto
    finally show "set (map sf_key (query_prefix (delete n k s) n p)) =
        set (map sf_key (filter (\<lambda>f. sf_key f \<noteq> k) (query_prefix s n p)))" by simp
  qed
  moreover have "map (\<lambda>f. \<lparr>sf_key = sf_key f, sf_value = the (query (delete n k s) n (sf_key f))\<rparr>)
      (filter (\<lambda>f. sf_key f \<noteq> k) (query_prefix s n p)) = filter (\<lambda>f. sf_key f \<noteq> k) (query_prefix s n p)"
    using assms by (intro map_idI) (auto simp: query_delete prefix_values)
  ultimately show ?thesis
    using prefix_from_keys [OF wf_delete [OF assms], of n k n p] by (simp add: comp_def)
qed

end

section \<open>Fact maps\<close>

type_synonym fact_map = "(keys, bytes option) btree_map"
type_synonym named_fact_map = "(string, fact_map) btree_map"

definition named_wf :: "named_fact_map \<Rightarrow> bool" where
  "named_wf m \<longleftrightarrow> bt_wf m \<and> (\<forall>n fm. bt_get m n = Some fm \<longrightarrow> bt_wf fm)"

text \<open>\<open>map.get(name).and_then(|m| m.get(keys))\<close>\<close>

definition named_get :: "named_fact_map \<Rightarrow> string \<Rightarrow> keys \<Rightarrow> bytes option option" where
  "named_get m n k = (case bt_get m n of None \<Rightarrow> None | Some fm \<Rightarrow> bt_get fm k)"

text \<open>\<open>map.entry(name).or_default().insert(key, value)\<close>\<close>

definition named_insert :: "string \<Rightarrow> keys \<Rightarrow> bytes option \<Rightarrow> named_fact_map \<Rightarrow> named_fact_map" where
  "named_insert n k v m =
     bt_insert n (bt_insert k v (case bt_get m n of None \<Rightarrow> [] | Some fm \<Rightarrow> fm)) m"

text \<open>\<open>map.range((Included(prefix), Unbounded)).take_while(|(k, _)| k.starts_with(prefix))\<close>\<close>

definition find_prefixes :: "fact_map \<Rightarrow> keys \<Rightarrow> (keys \<times> bytes option) list" where
  "find_prefixes m p =
     takeWhile (\<lambda>(k, _). keys_start_with k p) (dropWhile (\<lambda>(k, _). k < p) m)"

lemma named_wf_code [code]: "named_wf m \<longleftrightarrow> bt_wf m \<and> list_all (\<lambda>(_, fm). bt_wf fm) m"
  by (auto simp: named_wf_def bt_get_iff_mem list_all_iff)

lemma named_wf_Nil [simp]: "named_wf []"
  by (simp add: named_wf_def)

lemma named_wf_insert [simp]: "named_wf m \<Longrightarrow> named_wf (named_insert n k v m)"
  by (auto simp: named_wf_def named_insert_def split: option.split if_splits)

lemma named_get_insert [simp]:
  "named_get (named_insert n k v m) n' k' = (if n' = n \<and> k' = k then Some v else named_get m n' k')"
  by (auto simp: named_get_def named_insert_def split: option.split)

lemma named_get_Nil [simp]: "named_get [] n k = None"
  by (simp add: named_get_def)

lemma find_prefixes_filter: "bt_wf m \<Longrightarrow> find_prefixes m p = filter (\<lambda>(k, _). keys_start_with k p) m"
  unfolding find_prefixes_def
proof (induction m)
  case (Cons e m)
  obtain k v where e: "e = (k, v)" by (cases e)
  have later: "\<forall>(k', v') \<in> set m. k < k'" using Cons.prems e by (auto simp: bt_wf_Cons)
  have wf: "bt_wf m" using Cons.prems e by (simp add: bt_wf_Cons)
  consider "k < p" | "p \<le> k" "keys_start_with k p" | "p \<le> k" "\<not> keys_start_with k p" by fastforce
  then show ?case
  proof cases
    case 1
    then have "\<not> keys_start_with k p" using keys_start_with_ge by (auto dest: leD)
    with 1 Cons.IH wf e show ?thesis by simp
  next
    case 2
    have "dropWhile (\<lambda>(k, _). k < p) m = m"
      using later 2(1) by (cases m) (auto simp: not_less dest: less_imp_le order_trans)
    with 2 Cons.IH wf e show ?thesis by (simp add: not_less)
  next
    case 3
    have "\<not> keys_start_with k' p" if "(k', v') \<in> set m" for k' v'
      using that later 3 keys_prefix_interval [of p k k'] by (auto dest: less_imp_le)
    then have "filter (\<lambda>(k, _). keys_start_with k p) m = []" by (auto simp: filter_empty_conv)
    with 3 e show ?thesis by (simp add: leD)
  qed
qed simp

text \<open>\<open>filter_map(|(key, value)| Some(Ok(Fact { key, value: value? })))\<close>: deletions are dropped.\<close>

fun live_facts :: "fact_map \<Rightarrow> stored_fact list" where
  "live_facts [] = []"
| "live_facts ((k, Some v) # m) = \<lparr>sf_key = k, sf_value = v\<rparr> # live_facts m"
| "live_facts ((k, None) # m) = live_facts m"

lemma live_facts_mem: "\<lparr>sf_key = k, sf_value = v\<rparr> \<in> set (live_facts m) \<longleftrightarrow> (k, Some v) \<in> set m"
  by (induction m rule: live_facts.induct) auto

lemma live_facts_keys: "sf_key ` set (live_facts m) \<subseteq> fst ` set m"
  by (induction m rule: live_facts.induct) auto

lemma live_facts_sorted: "bt_wf m \<Longrightarrow> sorted_wrt (<) (map sf_key (live_facts m))"
proof (induction m rule: live_facts.induct)
  case (2 k v m)
  have "k < sf_key f" if "f \<in> set (live_facts m)" for f
  proof -
    have "sf_key f \<in> fst ` set m" using that live_facts_keys [of m] by blast
    with 2(2) show ?thesis by (auto simp: bt_wf_Cons)
  qed
  with 2 show ?case by (simp add: bt_wf_Cons)
next
  case (3 k m)
  then show ?case by (simp add: bt_wf_Cons)
qed simp

text \<open>A map of matches that agrees with the exact queries gives a correct prefix query.\<close>

lemma live_facts_exact:
  assumes "bt_wf m" "\<And>k. bt_get m k = (if keys_start_with k p then look k else None)"
  shows "\<lparr>sf_key = k, sf_value = v\<rparr> \<in> set (live_facts m) \<longleftrightarrow> look k = Some (Some v) \<and> keys_start_with k p"
  using assms(2) [of k] by (auto simp: live_facts_mem simp flip: bt_get_iff_mem [OF assms(1)])

lemma map_of_find_prefixes:
  "bt_wf m \<Longrightarrow> map_of (find_prefixes m p) k = (if keys_start_with k p then bt_get m k else None)"
  by (simp add: find_prefixes_filter bt_get_map_of) (induction m; auto simp: bt_wf_Cons)

lemma map_of_rev_find_prefixes:
  assumes "bt_wf m"
  shows "map_of (rev (find_prefixes m p)) k = (if keys_start_with k p then bt_get m k else None)"
proof -
  have "distinct (map fst (find_prefixes m p))"
    using bt_wf_distinct [OF assms] by (simp add: find_prefixes_filter [OF assms] distinct_map_filter)
  then have "map_of (rev (find_prefixes m p)) = map_of (find_prefixes m p)"
    by (subst map_of_inject_set) (auto simp: rev_map [symmetric])
  then show ?thesis by (simp add: map_of_find_prefixes [OF assms])
qed

section \<open>Fact indices\<close>

datatype mem_fact_index = MemFactIndex (mfi_map: named_fact_map) (mfi_prior: "mem_fact_index option")

fun mfi_query :: "mem_fact_index \<Rightarrow> string \<Rightarrow> keys \<Rightarrow> bytes option" where
  "mfi_query (MemFactIndex m prior) n k =
     (case named_get m n k of
        Some slot \<Rightarrow> slot
      | None \<Rightarrow> (case prior of None \<Rightarrow> None | Some facts \<Rightarrow> mfi_query facts n k))"

text \<open>The inner loop of a prefix query: an entry already found, deletions included, is kept.\<close>

definition add_matches :: "(keys \<times> bytes option) list \<Rightarrow> fact_map \<Rightarrow> fact_map" where
  "add_matches = fold (\<lambda>(k, v) ms. if bt_contains ms k then ms else bt_insert k v ms)"

fun mfi_prefix_loop :: "fact_map \<Rightarrow> mem_fact_index \<Rightarrow> string \<Rightarrow> keys \<Rightarrow> fact_map" where
  "mfi_prefix_loop matches (MemFactIndex m prior) n p =
     (let matches' = (case bt_get m n of
          None \<Rightarrow> matches
        | Some fm \<Rightarrow> add_matches (find_prefixes fm p) matches) in
      case prior of None \<Rightarrow> matches' | Some facts \<Rightarrow> mfi_prefix_loop matches' facts n p)"

definition mfi_query_prefix_inner :: "mem_fact_index \<Rightarrow> string \<Rightarrow> keys \<Rightarrow> fact_map" where
  "mfi_query_prefix_inner i n p = mfi_prefix_loop [] i n p"

definition mfi_query_prefix :: "mem_fact_index \<Rightarrow> string \<Rightarrow> keys \<Rightarrow> stored_fact list" where
  "mfi_query_prefix i n p = live_facts (mfi_query_prefix_inner i n p)"

fun mfi_wf :: "mem_fact_index \<Rightarrow> bool" where
  "mfi_wf (MemFactIndex m prior) \<longleftrightarrow>
     named_wf m \<and> (case prior of None \<Rightarrow> True | Some facts \<Rightarrow> mfi_wf facts)"

text \<open>The slot an exact query finds first, if any.\<close>

fun mfi_get :: "mem_fact_index \<Rightarrow> string \<Rightarrow> keys \<Rightarrow> bytes option option" where
  "mfi_get (MemFactIndex m prior) n k =
     (case named_get m n k of
        Some slot \<Rightarrow> Some slot
      | None \<Rightarrow> (case prior of None \<Rightarrow> None | Some facts \<Rightarrow> mfi_get facts n k))"

lemma mfi_query_get: "mfi_query i n k = (case mfi_get i n k of None \<Rightarrow> None | Some slot \<Rightarrow> slot)"
  by (induction i n k rule: mfi_query.induct) (auto split: option.split)

lemma add_matches_wf: "bt_wf ms \<Longrightarrow> bt_wf (add_matches kvs ms)"
  unfolding add_matches_def by (induction kvs arbitrary: ms) auto

lemma add_matches_get:
  "bt_get (add_matches kvs ms) k = (case bt_get ms k of Some v \<Rightarrow> Some v | None \<Rightarrow> map_of kvs k)"
proof (induction kvs arbitrary: ms)
  case (Cons kv kvs)
  obtain j v where kv: "kv = (j, v)" by (cases kv)
  have "bt_get (add_matches (kv # kvs) ms) k =
      bt_get (add_matches kvs (if bt_contains ms j then ms else bt_insert j v ms)) k"
    by (simp add: add_matches_def kv)
  with Cons.IH show ?case
    by (auto simp: kv bt_contains_def split: option.split)
qed (simp add: add_matches_def split: option.split)

lemma mfi_prefix_loop_wf: "bt_wf ms \<Longrightarrow> bt_wf (mfi_prefix_loop ms i n p)"
  by (induction ms i n p rule: mfi_prefix_loop.induct)
    (auto simp: Let_def add_matches_wf split: option.split)

lemma add_named_matches:
  assumes "named_wf m"
  shows "bt_get (case bt_get m n of None \<Rightarrow> ms | Some fm \<Rightarrow> add_matches (find_prefixes fm p) ms) k =
    (case bt_get ms k of Some v \<Rightarrow> Some v | None \<Rightarrow> if keys_start_with k p then named_get m n k else None)"
  using assms
  by (auto simp: named_wf_def named_get_def add_matches_get map_of_find_prefixes split: option.split)

lemma mfi_prefix_loop_get:
  "mfi_wf i \<Longrightarrow> bt_get (mfi_prefix_loop ms i n p) k =
     (case bt_get ms k of Some v \<Rightarrow> Some v | None \<Rightarrow> if keys_start_with k p then mfi_get i n k else None)"
proof (induction ms i n p rule: mfi_prefix_loop.induct)
  case (1 ms m prior n p)
  then show ?case
    by (cases prior) (simp_all add: Let_def add_named_matches split: option.split)
qed

interpretation mfi: fact_query mfi_wf mfi_query mfi_query_prefix
proof
  fix i :: mem_fact_index and n :: string and p k :: keys and v :: bytes
  assume wf: "mfi_wf i"
  have get: "bt_get (mfi_query_prefix_inner i n p) j = (if keys_start_with j p then mfi_get i n j else None)" for j
    using mfi_prefix_loop_get [OF wf, of "[]" n p j] by (simp add: mfi_query_prefix_inner_def)
  have bt: "bt_wf (mfi_query_prefix_inner i n p)"
    by (simp add: mfi_query_prefix_inner_def mfi_prefix_loop_wf)
  show "\<lparr>sf_key = k, sf_value = v\<rparr> \<in> set (mfi_query_prefix i n p) \<longleftrightarrow>
      mfi_query i n k = Some v \<and> keys_start_with k p"
    unfolding mfi_query_prefix_def live_facts_exact [OF bt get]
    by (auto simp: mfi_query_get split: option.split)
  show "sorted_wrt (<) (map sf_key (mfi_query_prefix i n p))"
    unfolding mfi_query_prefix_def by (rule live_facts_sorted [OF bt])
qed

section \<open>Fact perspectives\<close>

datatype mem_fact_perspective =
    MemFactPerspective (mfp_map: named_fact_map) (mfp_prior: fact_perspective_prior)
and fact_perspective_prior =
    FPNone
  | FPPerspective mem_fact_perspective
  | FPIndex mem_fact_index

definition mfp_new :: "fact_perspective_prior \<Rightarrow> mem_fact_perspective" where
  "mfp_new prior = MemFactPerspective [] prior"

text \<open>\<open>From<Option<MemFactIndex>> for FactPerspectivePrior\<close>\<close>

fun fpp_of_option :: "mem_fact_index option \<Rightarrow> fact_perspective_prior" where
  "fpp_of_option None = FPNone"
| "fpp_of_option (Some i) = FPIndex i"

fun mfp_clear :: "mem_fact_perspective \<Rightarrow> mem_fact_perspective" where
  "mfp_clear (MemFactPerspective m prior) = MemFactPerspective [] prior"

type_synonym fact_update = "string \<times> keys \<times> bytes option"

fun mfp_apply_updates :: "fact_update list \<Rightarrow> mem_fact_perspective \<Rightarrow> mem_fact_perspective" where
  "mfp_apply_updates us (MemFactPerspective m prior) =
     MemFactPerspective (fold (\<lambda>(n, k, v). named_insert n k v) us m) prior"

fun mfp_insert :: "string \<Rightarrow> keys \<Rightarrow> bytes \<Rightarrow> mem_fact_perspective \<Rightarrow> mem_fact_perspective" where
  "mfp_insert n k v (MemFactPerspective m prior) = MemFactPerspective (named_insert n k (Some v) m) prior"

fun mfp_delete :: "string \<Rightarrow> keys \<Rightarrow> mem_fact_perspective \<Rightarrow> mem_fact_perspective" where
  "mfp_delete n k (MemFactPerspective m prior) = MemFactPerspective (named_insert n k None m) prior"

fun mfp_query :: "mem_fact_perspective \<Rightarrow> string \<Rightarrow> keys \<Rightarrow> bytes option" where
  "mfp_query (MemFactPerspective m prior) n k =
     (case named_get m n k of
        Some wrapped \<Rightarrow> wrapped
      | None \<Rightarrow> (case prior of
                   FPNone \<Rightarrow> None
                 | FPPerspective fp \<Rightarrow> mfp_query fp n k
                 | FPIndex fi \<Rightarrow> mfi_query fi n k))"

fun mfp_query_prefix_inner :: "mem_fact_perspective \<Rightarrow> string \<Rightarrow> keys \<Rightarrow> fact_map" where
  "mfp_query_prefix_inner (MemFactPerspective m prior) n p =
     (let matches = (case prior of
          FPNone \<Rightarrow> []
        | FPPerspective fp \<Rightarrow> mfp_query_prefix_inner fp n p
        | FPIndex fi \<Rightarrow> mfi_query_prefix_inner fi n p) in
      case bt_get m n of
        None \<Rightarrow> matches
      | Some fm \<Rightarrow> fold (\<lambda>(k, v). bt_insert k v) (find_prefixes fm p) matches)"

definition mfp_query_prefix :: "mem_fact_perspective \<Rightarrow> string \<Rightarrow> keys \<Rightarrow> stored_fact list" where
  "mfp_query_prefix fp n p = live_facts (mfp_query_prefix_inner fp n p)"

text \<open>\<open>MemStorage::write_facts\<close>: an empty map on top of an existing index adds no index.\<close>

fun mem_write_facts :: "mem_fact_perspective \<Rightarrow> mem_fact_index" where
  "mem_write_facts (MemFactPerspective m prior) =
     (let prior' = (case prior of
          FPNone \<Rightarrow> None
        | FPPerspective fp \<Rightarrow> Some (mem_write_facts fp)
        | FPIndex fi \<Rightarrow> Some fi) in
      case prior' of
        Some i \<Rightarrow> if m = [] then i else MemFactIndex m prior'
      | None \<Rightarrow> MemFactIndex m prior')"

fun mfp_wf :: "mem_fact_perspective \<Rightarrow> bool" where
  "mfp_wf (MemFactPerspective m prior) \<longleftrightarrow> named_wf m \<and>
     (case prior of FPNone \<Rightarrow> True | FPPerspective fp \<Rightarrow> mfp_wf fp | FPIndex fi \<Rightarrow> mfi_wf fi)"

fun mfp_get :: "mem_fact_perspective \<Rightarrow> string \<Rightarrow> keys \<Rightarrow> bytes option option" where
  "mfp_get (MemFactPerspective m prior) n k =
     (case named_get m n k of
        Some slot \<Rightarrow> Some slot
      | None \<Rightarrow> (case prior of
                   FPNone \<Rightarrow> None
                 | FPPerspective fp \<Rightarrow> mfp_get fp n k
                 | FPIndex fi \<Rightarrow> mfi_get fi n k))"

lemma mfp_query_get: "mfp_query fp n k = (case mfp_get fp n k of None \<Rightarrow> None | Some slot \<Rightarrow> slot)"
  by (induction fp n k rule: mfp_query.induct)
    (auto simp: mfi_query_get split: option.split fact_perspective_prior.split)

lemma mfp_prefix_inner_wf: "bt_wf (mfp_query_prefix_inner fp n p)"
  by (induction fp n p rule: mfp_query_prefix_inner.induct)
    (auto simp: Let_def mfi_query_prefix_inner_def mfi_prefix_loop_wf bt_fold_insert_wf
      split: option.split fact_perspective_prior.split)

lemma insert_named_matches:
  assumes "named_wf m"
  shows "bt_get (case bt_get m n of None \<Rightarrow> ms | Some fm \<Rightarrow> fold (\<lambda>(k, v). bt_insert k v) (find_prefixes fm p) ms) k =
    (case if keys_start_with k p then named_get m n k else None of Some v \<Rightarrow> Some v | None \<Rightarrow> bt_get ms k)"
  using assms
  by (auto simp: named_wf_def named_get_def bt_fold_insert_get map_of_rev_find_prefixes split: option.split)

lemma mfi_prefix_inner_get:
  "mfi_wf i \<Longrightarrow> bt_get (mfi_query_prefix_inner i n p) k = (if keys_start_with k p then mfi_get i n k else None)"
  by (simp add: mfi_query_prefix_inner_def mfi_prefix_loop_get)

lemma mfp_prefix_inner_get:
  "mfp_wf fp \<Longrightarrow> bt_get (mfp_query_prefix_inner fp n p) k = (if keys_start_with k p then mfp_get fp n k else None)"
proof (induction fp n p rule: mfp_query_prefix_inner.induct)
  case (1 m prior n p)
  then show ?case
    by (cases prior) (simp_all add: Let_def insert_named_matches mfi_prefix_inner_get split: option.split)
qed

interpretation mfp: fact_store mfp_wf mfp_query mfp_query_prefix mfp_insert mfp_delete
proof
  fix fp :: mem_fact_perspective and n m :: string and p k j :: keys and v :: bytes
  assume wf: "mfp_wf fp"
  show "\<lparr>sf_key = k, sf_value = v\<rparr> \<in> set (mfp_query_prefix fp n p) \<longleftrightarrow>
      mfp_query fp n k = Some v \<and> keys_start_with k p"
    unfolding mfp_query_prefix_def live_facts_exact [OF mfp_prefix_inner_wf mfp_prefix_inner_get [OF wf]]
    by (auto simp: mfp_query_get split: option.split)
  show "sorted_wrt (<) (map sf_key (mfp_query_prefix fp n p))"
    unfolding mfp_query_prefix_def by (rule live_facts_sorted [OF mfp_prefix_inner_wf])
  show "mfp_wf (mfp_insert n k v fp)" "mfp_wf (mfp_delete n k fp)"
    using wf by (cases fp; simp)+
  show "mfp_query (mfp_insert n k v fp) m j = (if m = n \<and> j = k then Some v else mfp_query fp m j)"
    "mfp_query (mfp_delete n k fp) m j = (if m = n \<and> j = k then None else mfp_query fp m j)"
    by (cases fp; simp)+
qed

interpretation mfp_mfi: fact_query_pair mfp_wf mfp_query mfp_query_prefix mfi_wf mfi_query mfi_query_prefix
  by unfold_locales

lemma mem_write_facts_wf: "mfp_wf fp \<Longrightarrow> mfi_wf (mem_write_facts fp)"
  by (induction fp rule: mem_write_facts.induct)
    (auto simp: Let_def split: option.split fact_perspective_prior.splits)

lemma mem_write_facts_query: "mfi_query (mem_write_facts fp) n k = mfp_query fp n k"
  by (induction fp rule: mem_write_facts.induct)
    (auto simp: Let_def split: option.split fact_perspective_prior.splits)

section \<open>Updates\<close>

text \<open>
  The state of all facts is a function from names and keys to values; the updates a
  command made change it one after the other.
\<close>

type_synonym fact_state = "string \<Rightarrow> keys \<Rightarrow> bytes option"

definition apply_update :: "fact_update \<Rightarrow> fact_state \<Rightarrow> fact_state" where
  "apply_update u st = (\<lambda>m j. case u of (n, k, v) \<Rightarrow> if m = n \<and> j = k then v else st m j)"

definition apply_all :: "fact_update list \<Rightarrow> fact_state \<Rightarrow> fact_state" where
  "apply_all us st = fold apply_update us st"

lemma apply_all_simps [simp]:
  "apply_all [] st = st" "apply_all (u # us) st = apply_all us (apply_update u st)"
  "apply_all (us @ vs) st = apply_all vs (apply_all us st)"
  by (simp_all add: apply_all_def)

lemma mfp_apply_updates_wf: "mfp_wf fp \<Longrightarrow> mfp_wf (mfp_apply_updates us fp)"
proof (cases fp)
  case (MemFactPerspective m prior)
  have "named_wf m \<Longrightarrow> named_wf (fold (\<lambda>(n, k, v). named_insert n k v) us m)"
    by (induction us arbitrary: m) auto
  then show "mfp_wf fp \<Longrightarrow> ?thesis" by (simp add: MemFactPerspective)
qed

lemma mfp_apply_updates_query: "mfp_query (mfp_apply_updates us fp) = apply_all us (mfp_query fp)"
proof (cases fp)
  case (MemFactPerspective m prior)
  have "mfp_query (MemFactPerspective (named_insert n k v m) prior) =
      apply_update (n, k, v) (mfp_query (MemFactPerspective m prior))" for n k v m
    by (intro ext) (simp add: apply_update_def)
  then have "mfp_query (MemFactPerspective (fold (\<lambda>(n, k, v). named_insert n k v) us m) prior) =
      apply_all us (mfp_query (MemFactPerspective m prior))"
    by (induction us arbitrary: m) auto
  then show ?thesis by (simp add: MemFactPerspective)
qed

section \<open>Properties\<close>

text \<open>
  C7. A prefix query on a fact perspective returns exactly the facts whose key starts with
  the prefix and which an exact query finds, deleted facts excluded, each once and in
  the order of their keys, however the facts are spread over the layers below.
\<close>

theorem perspective_prefix_query:
  assumes "mfp_wf fp"
  shows "sorted_wrt (<) (map sf_key (mfp_query_prefix fp n p)) \<and>
    set (mfp_query_prefix fp n p) =
      {\<lparr>sf_key = k, sf_value = v\<rparr> | k v. mfp_query fp n k = Some v \<and> keys_start_with k p}"
proof -
  have "f \<in> set (mfp_query_prefix fp n p) \<longleftrightarrow>
      mfp_query fp n (sf_key f) = Some (sf_value f) \<and> keys_start_with (sf_key f) p" for f
    using mfp.prefix_exact [OF assms, of "sf_key f" "sf_value f"] by simp
  then show ?thesis
    using mfp.prefix_sorted [OF assms] by (auto intro: stored_fact_collapse [symmetric])
qed

definition demo_index :: mem_fact_index where
  "demo_index = MemFactIndex [(''F'', [([[1]], Some [10]), ([[1], [2]], Some [20]), ([[3]], Some [30])])] None"

definition demo_perspective :: mem_fact_perspective where
  "demo_perspective = MemFactPerspective [(''F'', [([[1]], None), ([[1], [1]], Some [11])])] (FPIndex demo_index)"

lemma demo_perspective_wf: "mfp_wf demo_perspective"
  by (simp add: demo_perspective_def demo_index_def named_wf_def bt_wf_def)

theorem perspective_prefix_query_witness:
  "mfp_query_prefix demo_perspective ''F'' [[1]] =
     [\<lparr>sf_key = [[1], [1]], sf_value = [11]\<rparr>, \<lparr>sf_key = [[1], [2]], sf_value = [20]\<rparr>] \<and>
   sorted_wrt (<) (map sf_key (mfp_query_prefix demo_perspective ''F'' [[1]]))"
  using perspective_prefix_query [OF demo_perspective_wf, of "''F''" "[[1]]"]
  by (simp add: demo_perspective_def demo_index_def mfp_query_prefix_def mfi_query_prefix_inner_def
      find_prefixes_def keys_start_with_def add_matches_def bt_contains_def)

text \<open>
  C8. Writing a fact perspective to storage loses and changes nothing: the fact index it
  becomes answers every exact and every prefix query as the perspective did, also where
  an empty perspective is dropped and its prior index reused.
\<close>

theorem write_facts_preserves:
  assumes "mfp_wf fp"
  shows "mfi_query (mem_write_facts fp) n k = mfp_query fp n k \<and>
    mfi_query_prefix (mem_write_facts fp) n p = mfp_query_prefix fp n p"
proof
  show "mfi_query (mem_write_facts fp) n k = mfp_query fp n k"
    by (rule mem_write_facts_query)
  show "mfi_query_prefix (mem_write_facts fp) n p = mfp_query_prefix fp n p"
    by (rule sym, rule mfp_mfi.same_prefix) (simp_all add: assms mem_write_facts_wf mem_write_facts_query)
qed

theorem write_facts_preserves_witness:
  "mfi_query (mem_write_facts demo_perspective) ''F'' [[1]] = None \<and>
   mfi_query (mem_write_facts demo_perspective) ''F'' [[3]] = Some [30]"
  using write_facts_preserves [OF demo_perspective_wf, of "''F''" "[[1]]"]
    write_facts_preserves [OF demo_perspective_wf, of "''F''" "[[3]]"]
  by (simp add: demo_perspective_def demo_index_def named_get_def)

end
