(* ===== verification/Policy_Module.thy ===== *)
theory Policy_Module
  imports Policy_Values
begin

text \<open>
  The compiled form of a policy (\<open>aranya-policy-module/src\<close>): labels, branch targets,
  instructions and the serialisable module, and the code map from instruction
  addresses to source text that errors use for their position.
\<close>

section \<open>Labels, targets and instructions\<close>

datatype label_type =
    LAction
  | LCommandPolicy
  | LCommandRecall
  | LCommandSeal
  | LCommandOpen
  | LTemporary
  | LFunction

fun label_type_display :: "label_type \<Rightarrow> string" where
  "label_type_display LAction = ''action''"
| "label_type_display LCommandPolicy = ''policy''"
| "label_type_display LCommandRecall = ''recall''"
| "label_type_display LCommandSeal = ''seal''"
| "label_type_display LCommandOpen = ''open''"
| "label_type_display LTemporary = ''temp''"
| "label_type_display LFunction = ''fn''"

datatype label = Label (label_name: string) (label_ltype: label_type)

definition label_new :: "string \<Rightarrow> label_type \<Rightarrow> label" where
  "label_new name ltype = Label name ltype"

definition label_new_temp :: "string \<Rightarrow> label" where
  "label_new_temp name = Label name LTemporary"

definition label_display :: "label \<Rightarrow> string" where
  "label_display l = label_type_display (label_ltype l) @ '':'' @ label_name l"

text \<open>
  Labels are keys of an ordered map. Their derived order compares the names first and
  then the positions of the label types in the enumeration.
\<close>

fun label_type_index :: "label_type \<Rightarrow> nat" where
  "label_type_index LAction = 0"
| "label_type_index LCommandPolicy = 1"
| "label_type_index LCommandRecall = 2"
| "label_type_index LCommandSeal = 3"
| "label_type_index LCommandOpen = 4"
| "label_type_index LTemporary = 5"
| "label_type_index LFunction = 6"

lemma label_type_index_inject [simp]: "label_type_index a = label_type_index b \<longleftrightarrow> a = b"
  by (cases a; cases b) simp_all

instantiation label :: linorder
begin

definition less_label :: "label \<Rightarrow> label \<Rightarrow> bool" where
  "less_label a b \<longleftrightarrow> label_name a < label_name b \<or>
     label_name a = label_name b \<and> label_type_index (label_ltype a) < label_type_index (label_ltype b)"

definition less_eq_label :: "label \<Rightarrow> label \<Rightarrow> bool" where
  "less_eq_label a b \<longleftrightarrow> label_name a < label_name b \<or>
     label_name a = label_name b \<and> label_type_index (label_ltype a) \<le> label_type_index (label_ltype b)"

instance
proof
  fix a b c :: label
  show "(a < b) = (a \<le> b \<and> \<not> b \<le> a)"
    by (auto simp: less_label_def less_eq_label_def)
  show "a \<le> a"
    by (simp add: less_eq_label_def)
  show "a \<le> b \<Longrightarrow> b \<le> c \<Longrightarrow> a \<le> c"
    by (auto simp: less_eq_label_def)
  show "a \<le> b \<Longrightarrow> b \<le> a \<Longrightarrow> a = b"
    by (auto simp: less_eq_label_def intro: label.expand)
  show "a \<le> b \<or> b \<le> a"
    by (auto simp: less_eq_label_def)
qed

end

datatype exit_reason = ExitNormal | ExitCheck | ExitPanic

fun exit_reason_display :: "exit_reason \<Rightarrow> string" where
  "exit_reason_display ExitNormal = ''normal''"
| "exit_reason_display ExitCheck = ''check''"
| "exit_reason_display ExitPanic = ''panic''"

datatype target = Unresolved label | Resolved nat

fun target_resolved :: "target \<Rightarrow> nat option" where
  "target_resolved (Resolved i) = Some i"
| "target_resolved (Unresolved _) = None"

datatype meta_info =
    MetaLet string
  | MetaGet string
  | MetaFinish bool
  | MetaFFI string string

datatype instruction =
    IConst pvalue
  | IDef string
  | IGet string
  | ISwap nat
  | IDup nat
  | IPop
  | IBlock
  | IEnd
  | IJump target
  | IBranch target
  | INext
  | ILast
  | ICall target
  | IExtCall nat nat
  | IReturn
  | IExit exit_reason
  | IAdd
  | ISub
  | INot
  | IAnd
  | IOr
  | IGt
  | ILt
  | IEq
  | IFactNew string
  | IFactKeySet string
  | IFactValueSet string
  | IStructNew string
  | IStructSet string
  | IStructGet string
  | IPublish
  | ICreate
  | IDelete
  | IUpdate
  | IEmit
  | IQuery
  | IFactCount i64
  | IQueryStart
  | IQueryNext string
  | ISerialize
  | IDeserialize
  | IMeta meta_info

section \<open>The code map\<close>

text \<open>
  Source text is a byte string. A position is a character boundary when it is an end
  of the text or does not point at a UTF-8 continuation byte.
\<close>

definition is_continuation :: "char \<Rightarrow> bool" where
  "is_continuation c \<longleftrightarrow> 128 \<le> (of_char c :: nat) \<and> (of_char c :: nat) < 192"

definition is_char_boundary :: "string \<Rightarrow> nat \<Rightarrow> bool" where
  "is_char_boundary text i \<longleftrightarrow>
     i = 0 \<or> i = length text \<or> i < length text \<and> \<not> is_continuation (text ! i)"

record span =
  span_text :: string
  span_start :: nat
  span_end :: nat

definition span_new :: "string \<Rightarrow> nat \<Rightarrow> nat \<Rightarrow> span option" where
  "span_new text start end' =
     (if start \<le> end' \<and> is_char_boundary text start \<and> is_char_boundary text end'
      then Some \<lparr>span_text = text, span_start = start, span_end = end'\<rparr> else None)"

definition span_as_str :: "span \<Rightarrow> string" where
  "span_as_str sp = take (span_end sp - span_start sp) (drop (span_start sp) (span_text sp))"

text \<open>
  The loop of \<open>linecol\<close> over the characters before the position: a character starts at
  every byte that is not a continuation byte.
\<close>

fun linecol_loop :: "string \<Rightarrow> nat \<Rightarrow> nat \<Rightarrow> (nat \<times> nat, 'e) result" where
  "linecol_loop [] line col = Ok (line, col)"
| "linecol_loop (c # cs) line col =
     (if is_continuation c then linecol_loop cs line col
      else if c = CHR 0x0A then
        (case usize_checked_add line 1 of
           None \<Rightarrow> Panic ''line + 1 must not wrap''
         | Some line' \<Rightarrow> linecol_loop cs line' 1)
      else
        (case usize_checked_add col 1 of
           None \<Rightarrow> Panic ''col + 1 must not wrap''
         | Some col' \<Rightarrow> linecol_loop cs line col'))"

definition span_linecol :: "span \<Rightarrow> nat \<Rightarrow> (nat \<times> nat, 'e) result" where
  "span_linecol sp pos =
     (if pos < length (span_text sp) then linecol_loop (take pos (span_text sp)) 1 1
      else Panic ''assertion failed: pos < self.text.len()'')"

definition start_linecol :: "span \<Rightarrow> (nat \<times> nat, 'e) result" where
  "start_linecol sp = span_linecol sp (span_start sp)"

definition end_linecol :: "span \<Rightarrow> (nat \<times> nat, 'e) result" where
  "end_linecol sp = span_linecol sp (span_end sp)"

record code_map =
  cm_text :: string
  cm_ranges :: "(nat \<times> nat) list"
  cm_instruction_mapping :: "(nat \<times> nat) list"

definition code_map_new :: "string \<Rightarrow> (nat \<times> nat) list \<Rightarrow> code_map" where
  "code_map_new text ranges =
     \<lparr>cm_text = text, cm_ranges = ranges, cm_instruction_mapping = []\<rparr>"

text \<open>\<open>None\<close> stands for \<open>Err(RangeError)\<close>.\<close>

definition add_text_range :: "nat \<Rightarrow> nat \<Rightarrow> code_map \<Rightarrow> code_map option" where
  "add_text_range start end' cm =
     (case binary_search_by fst start (cm_ranges cm) of
        Inl _ \<Rightarrow> Some (cm\<lparr>cm_ranges := cm_ranges cm @ [(start, end')]\<rparr>)
      | Inr _ \<Rightarrow> None)"

definition map_instruction_range :: "nat \<Rightarrow> nat \<Rightarrow> code_map \<Rightarrow> code_map option" where
  "map_instruction_range instr locator cm =
     (let m = cm_instruction_mapping cm in
      if m = [] then Some (cm\<lparr>cm_instruction_mapping := m @ [(instr, locator)]\<rparr>)
      else if instr = fst (last m) then
        Some (cm\<lparr>cm_instruction_mapping := butlast m @ [(instr, locator)]\<rparr>)
      else if instr \<le> fst (last m) then None
      else Some (cm\<lparr>cm_instruction_mapping := m @ [(instr, locator)]\<rparr>))"

definition span_from_locator :: "nat \<Rightarrow> code_map \<Rightarrow> span option" where
  "span_from_locator locator cm =
     (case binary_search_by fst locator (cm_ranges cm) of
        Inr idx \<Rightarrow> (case cm_ranges cm ! idx of (start, end') \<Rightarrow> span_new (cm_text cm) start end')
      | Inl _ \<Rightarrow> None)"

definition locator_from_instruction :: "nat \<Rightarrow> code_map \<Rightarrow> nat option" where
  "locator_from_instruction ip cm =
     (case (case binary_search_by fst ip (cm_instruction_mapping cm) of
              Inr v \<Rightarrow> Some v
            | Inl v \<Rightarrow> usize_checked_sub v 1) of
        None \<Rightarrow> None
      | Some idx \<Rightarrow> Some (snd (cm_instruction_mapping cm ! idx)))"

definition span_from_instruction :: "nat \<Rightarrow> code_map \<Rightarrow> span option" where
  "span_from_instruction ip cm =
     (case locator_from_instruction ip cm of
        None \<Rightarrow> None
      | Some locator \<Rightarrow> span_from_locator locator cm)"

section \<open>Modules\<close>

record module_v0 =
  m_progmem :: "instruction list"
  m_labels :: "(label, nat) btree_map"
  m_action_defs :: "(string, field_definition list) btree_map"
  m_command_defs :: "(string, (string, vtype) btree_map) btree_map"
  m_fact_defs :: "(string, fact_definition) btree_map"
  m_struct_defs :: "(string, field_definition list) btree_map"
  m_command_attributes :: "(string, (string, pvalue) btree_map) btree_map"
  m_codemap :: "code_map option"
  m_globals :: "(string, pvalue) btree_map"

datatype module_version = V0

datatype module_data = ModuleV0 module_v0

record policy_module =
  module_data :: module_data

fun version_as_str :: "module_version \<Rightarrow> string" where
  "version_as_str V0 = ''V0''"

definition module_version :: "policy_module \<Rightarrow> module_version" where
  "module_version m = (case module_data m of ModuleV0 _ \<Rightarrow> V0)"

section \<open>Lemmas on the code map\<close>

definition mapping_sorted :: "code_map \<Rightarrow> bool" where
  "mapping_sorted cm \<longleftrightarrow> sorted_wrt (<) (map fst (cm_instruction_mapping cm))"

lemma mapping_sorted_new [simp]: "mapping_sorted (code_map_new text ranges)"
  by (simp add: mapping_sorted_def code_map_new_def)

lemma sorted_wrt_snoc: "sorted_wrt (<) (xs @ [x]) \<longleftrightarrow> sorted_wrt (<) xs \<and> (\<forall>y \<in> set xs. y < x)"
  by (simp add: sorted_wrt_append)

lemma map_instruction_range_sorted:
  assumes "mapping_sorted cm" "map_instruction_range i l cm = Some cm'"
  shows "mapping_sorted cm'"
proof (cases "cm_instruction_mapping cm" rule: rev_cases)
  case Nil
  with assms show ?thesis
    by (auto simp: map_instruction_range_def mapping_sorted_def Let_def)
next
  case (snoc ys y)
  with assms show ?thesis
    by (fastforce simp: map_instruction_range_def mapping_sorted_def Let_def sorted_wrt_append
        split: if_splits)
qed

text \<open>
  The entry of the highest mapped instruction that is not after the given one decides
  its locator.
\<close>

lemma locator_from_instruction_spec:
  assumes "mapping_sorted cm"
  shows "locator_from_instruction ip cm =
    (let before = filter (\<lambda>e. fst e \<le> ip) (cm_instruction_mapping cm) in
     if before = [] then None else Some (snd (last before)))"
proof -
  let ?m = "cm_instruction_mapping cm"
  have sorted: "sorted (map fst ?m)" and dist: "distinct (map fst ?m)"
    using assms by (simp_all add: mapping_sorted_def strict_sorted_iff)
  show ?thesis
  proof (cases "binary_search_by fst ip ?m")
    case (Inl i)
    then have sp: "splits_at fst ip ?m i i"
      using binary_search_by_Inl sorted by blast
    then have "filter (\<lambda>e. fst e \<le> ip) ?m = take i ?m"
      by (intro filter_eq_take) (auto simp: splits_at_def less_imp_le)
    with Inl sp show ?thesis
      by (cases i) (auto simp: locator_from_instruction_def splits_at_def take_Suc_conv_app_nth
          Let_def)
  next
    case (Inr i)
    then have i: "i < length ?m" "fst (?m ! i) = ip"
      using binary_search_by_Inr by blast+
    have "filter (\<lambda>e. fst e \<le> ip) ?m = take (Suc i) ?m"
    proof (rule filter_eq_take)
      show "\<And>j. j < Suc i \<Longrightarrow> fst (?m ! j) \<le> ip"
        using i sorted_nth_mono [OF sorted] by fastforce
      show "\<And>j. Suc i \<le> j \<Longrightarrow> j < length ?m \<Longrightarrow> \<not> fst (?m ! j) \<le> ip"
        using i assms sorted_wrt_nth_less [of "(<)" "map fst ?m" i]
        by (simp add: mapping_sorted_def not_le)
    qed (use i in simp)
    with Inr i show ?thesis
      by (auto simp: locator_from_instruction_def take_Suc_conv_app_nth Let_def)
  qed
qed

end
