(* ===== verification/Vm_Error.thy ===== *)
theory Vm_Error
  imports Policy_Module
begin

text \<open>
  The errors of the virtual machine (\<open>aranya-policy-vm/src/error.rs\<close> and the I/O errors
  of \<open>io.rs\<close>): the error kinds, the conversions into them, and how an error gets the
  source position of the instruction that raised it.
\<close>

datatype machine_io_error = FactExists | FactNotFound | IOInternal

datatype machine_error_type =
    StackUnderflow
  | StackOverflow
  | AlreadyDefined string
  | NotDefined string
  | InvalidType string string string
  | InvalidStructMember string
  | InvalidFact string
  | InvalidSchema string
  | UnresolvedTarget label
  | InvalidAddress string
  | BadState string
  | IntegerOverflow
  | InvalidInstruction
  | CallStack
  | IOError machine_io_error
  | FfiModuleNotDefined nat
  | FfiProcedureNotDefined string nat
  | BugError string
  | Unknown string

record machine_error_source =
  mes_linecol :: "nat \<times> nat"
  mes_text :: string

record machine_error =
  err_type :: machine_error_type
  err_source :: "machine_error_source option"

fun err_of_conversion :: "value_conversion_error \<Rightarrow> machine_error_type" where
  "err_of_conversion (ConvInvalidType want got msg) = InvalidType want got msg"
| "err_of_conversion (ConvInvalidStructMember s) = InvalidStructMember s"
| "err_of_conversion ConvOutOfRange = InvalidType ''Int'' ''Int'' ''out of range''"
| "err_of_conversion ConvBadState = BadState ''value conversion error''"

definition machine_error_new :: "machine_error_type \<Rightarrow> machine_error" where
  "machine_error_new t = \<lparr>err_type = t, err_source = None\<rparr>"

definition machine_error_of_io :: "machine_io_error \<Rightarrow> machine_error" where
  "machine_error_of_io e = machine_error_new (IOError e)"

definition machine_error_of_bug :: "string \<Rightarrow> machine_error" where
  "machine_error_of_bug b = machine_error_new (BugError b)"

text \<open>
  The position is looked up once: an error that already has one keeps it. Computing
  the line and column asserts that the span starts before the end of the text.
\<close>

definition with_position :: "machine_error \<Rightarrow> nat \<Rightarrow> code_map option \<Rightarrow> (machine_error, 'e) result" where
  "with_position e pc cmo =
     (if err_source e = None then
        (case cmo of
           None \<Rightarrow> Ok e
         | Some cm \<Rightarrow>
             (case span_from_instruction pc cm of
                None \<Rightarrow> Ok e
              | Some sp \<Rightarrow>
                  rbind (start_linecol sp)
                    (\<lambda>lc. Ok (e\<lparr>err_source := Some \<lparr>mes_linecol = lc, mes_text = span_as_str sp\<rparr>\<rparr>))))
      else Ok e)"

definition from_position :: "machine_error_type \<Rightarrow> nat \<Rightarrow> code_map option \<Rightarrow> (machine_error, 'e) result" where
  "from_position t pc cmo = with_position (machine_error_new t) pc cmo"

text \<open>An outcome that fails with the given error, once its position is known.\<close>

fun fail_with :: "(machine_error, machine_error) result \<Rightarrow> ('a, machine_error) result" where
  "fail_with (Ok e) = Err e"
| "fail_with (Err e) = Err e"
| "fail_with (Panic p) = Panic p"

section \<open>Lemmas\<close>

lemma machine_error_new_type [simp]: "err_type (machine_error_new t) = t"
  by (simp add: machine_error_new_def)

lemma with_position_no_codemap [simp]: "with_position e pc None = Ok e"
  by (simp add: with_position_def)

lemma from_position_no_codemap [simp]: "from_position t pc None = Ok (machine_error_new t)"
  by (simp add: from_position_def)

lemma with_position_type: "with_position e pc cmo = Ok e' \<Longrightarrow> err_type e' = err_type e"
  by (auto simp: with_position_def split: if_splits option.splits)

lemma from_position_type: "from_position t pc cmo = Ok e \<Longrightarrow> err_type e = t"
  by (auto simp: from_position_def dest: with_position_type)

lemma linecol_loop_no_err: "linecol_loop cs l c \<noteq> Err e"
  by (induction cs l c rule: linecol_loop.induct) (auto split: option.splits)

lemma start_linecol_no_err: "start_linecol sp \<noteq> Err e"
  using linecol_loop_no_err [of _ 1 1 e] by (simp add: start_linecol_def span_linecol_def)

lemma with_position_no_err: "with_position e pc cmo \<noteq> Err e'"
proof -
  have "rbind (start_linecol sp) (\<lambda>lc. Ok (f lc)) \<noteq> Err e'" for sp and f :: "nat \<times> nat \<Rightarrow> machine_error"
    using start_linecol_no_err [of sp e'] by (cases "start_linecol sp :: (nat \<times> nat, 'a) result") auto
  then show ?thesis
    by (simp add: with_position_def split: option.split)
qed

lemma fail_with_not_Ok [simp]: "fail_with r \<noteq> Ok a"
  by (cases r) auto

end
