(* ===== verification/Vm_Scope.thy ===== *)
theory Vm_Scope
  imports Vm_Error
begin

text \<open>
  Name scoping of the virtual machine (\<open>aranya-policy-vm/src/scope.rs\<close>). Locals are a
  stack of function scopes, each a stack of block scopes; both vectors grow at their
  end, so the innermost scope is the last one.
\<close>

section \<open>Model\<close>

type_synonym block_scope = "(string, pvalue) btree_map"

record scope_manager =
  sm_globals :: "(string, pvalue) btree_map"
  sm_locals :: "block_scope list list"

definition scope_new :: "(string, pvalue) btree_map \<Rightarrow> scope_manager" where
  "scope_new globals = \<lparr>sm_globals = globals, sm_locals = [[[]]]\<rparr>"

definition enter_function :: "scope_manager \<Rightarrow> scope_manager" where
  "enter_function sc = sc\<lparr>sm_locals := sm_locals sc @ [[[]]]\<rparr>"

definition exit_function :: "(scope_manager, unit, machine_error_type) prog" where
  "exit_function = (\<lambda>sc.
     if sm_locals sc = [] then (Err (BadState ''exit_function: empty function-scope stack''), sc)
     else (Ok (), sc\<lparr>sm_locals := butlast (sm_locals sc)\<rparr>))"

definition enter_block :: "(scope_manager, unit, machine_error_type) prog" where
  "enter_block = (\<lambda>sc.
     if sm_locals sc = [] then (Err (BadState ''enter_block: empty function-scope stack''), sc)
     else (Ok (), sc\<lparr>sm_locals := butlast (sm_locals sc) @ [last (sm_locals sc) @ [[]]]\<rparr>))"

definition exit_block :: "(scope_manager, unit, machine_error_type) prog" where
  "exit_block = (\<lambda>sc.
     if sm_locals sc = [] then (Err (BadState ''exit_block: empty function-scope stack''), sc)
     else if last (sm_locals sc) = [] then (Err (BadState ''exit_block: no block''), sc)
     else (Ok (), sc\<lparr>sm_locals := butlast (sm_locals sc) @ [butlast (last (sm_locals sc))]\<rparr>))"

text \<open>The loop of \<open>get\<close> over the blocks of the current function, innermost first.\<close>

fun lookup_blocks :: "block_scope list \<Rightarrow> string \<Rightarrow> pvalue option" where
  "lookup_blocks [] key = None"
| "lookup_blocks (b # bs) key =
     (case bt_get b key of Some v \<Rightarrow> Some v | None \<Rightarrow> lookup_blocks bs key)"

definition scope_get :: "scope_manager \<Rightarrow> string \<Rightarrow> (pvalue, machine_error_type) result" where
  "scope_get sc key =
     (case (if sm_locals sc = [] then None else lookup_blocks (rev (last (sm_locals sc))) key) of
        Some v \<Rightarrow> Ok v
      | None \<Rightarrow> (case bt_get (sm_globals sc) key of
                   Some v \<Rightarrow> Ok v
                 | None \<Rightarrow> Err (NotDefined key)))"

definition scope_set :: "string \<Rightarrow> pvalue \<Rightarrow> (scope_manager, unit, machine_error_type) prog" where
  "scope_set name v = (\<lambda>sc.
     if bt_contains (sm_globals sc) name then (Err (AlreadyDefined name), sc)
     else if sm_locals sc = [] then (Err (BadState ''set: no local block''), sc)
     else let locals = last (sm_locals sc) in
       if list_ex (\<lambda>m. bt_contains m name) locals then (Err (AlreadyDefined name), sc)
       else if locals = [] then (Err (BadState ''set: no locals''), sc)
       else (Ok (), sc\<lparr>sm_locals := butlast (sm_locals sc) @
               [butlast locals @ [bt_insert name v (last locals)]]\<rparr>))"

definition scope_clear :: "scope_manager \<Rightarrow> scope_manager" where
  "scope_clear sc = sc\<lparr>sm_locals := [[[]]]\<rparr>"

text \<open>\<open>locals()\<close>: the entries of the current function, innermost block first.\<close>

definition scope_locals :: "scope_manager \<Rightarrow> (string \<times> pvalue) list" where
  "scope_locals sc = (if sm_locals sc = [] then [] else concat (rev (last (sm_locals sc))))"

section \<open>The interface\<close>

text \<open>
  What the machine relies on: a name that was set is found again with its value,
  setting a name disturbs no other name, a defined name cannot be set a second time,
  and a function scope hides the locals and gives them back unchanged.
\<close>

locale name_scope =
  fixes new :: "(string, pvalue) btree_map \<Rightarrow> 's"
    and enterf :: "'s \<Rightarrow> 's"
    and exitf :: "('s, unit, 'e) prog"
    and get :: "'s \<Rightarrow> string \<Rightarrow> (pvalue, 'e) result"
    and set' :: "string \<Rightarrow> pvalue \<Rightarrow> ('s, unit, 'e) prog"
  assumes get_set: "set' n v s = (Ok (), t) \<Longrightarrow> get t n = Ok v"
    and get_set_other: "set' n v s = (Ok (), t) \<Longrightarrow> m \<noteq> n \<Longrightarrow> get t m = get s m"
    and set_fresh: "set' n v s = (Ok (), t) \<Longrightarrow> \<not> is_ok (get s n)"
    and set_error_frame: "set' n v s = (Err e, t) \<Longrightarrow> t = s"
    and exit_enter: "exitf (enterf s) = (Ok (), s)"
begin

text \<open>A second definition of the same name in the same scope always fails.\<close>

lemma set_twice: "set' n v s = (Ok (), t) \<Longrightarrow> fst (set' n w t) \<noteq> Ok ()"
  using get_set set_fresh by (metis is_ok.simps(1) prod.collapse)

end

section \<open>Lemmas\<close>

lemma lookup_blocks_append:
  "lookup_blocks (xs @ ys) key =
     (case lookup_blocks xs key of Some v \<Rightarrow> Some v | None \<Rightarrow> lookup_blocks ys key)"
  by (induction xs) (auto split: option.split)

lemma lookup_blocks_None: "lookup_blocks bs key = None \<longleftrightarrow> (\<forall>b \<in> set bs. bt_get b key = None)"
  by (induction bs) (auto split: option.split)

lemma list_ex_contains: "list_ex (\<lambda>m. bt_contains m key) bs \<longleftrightarrow> lookup_blocks bs key \<noteq> None"
  by (induction bs) (auto simp: bt_contains_def split: option.split)

lemma lookup_blocks_rev_None: "lookup_blocks (rev bs) key = None \<longleftrightarrow> lookup_blocks bs key = None"
  by (simp add: lookup_blocks_None)

lemma exit_enter_function [simp]: "exit_function (enter_function sc) = (Ok (), sc)"
  by (simp add: exit_function_def enter_function_def)

lemma scope_set_Ok:
  assumes "scope_set n v sc = (Ok (), sc')"
  obtains fs bs b where "sm_locals sc = fs @ [bs @ [b]]" "\<not> bt_contains (sm_globals sc) n"
    "lookup_blocks (bs @ [b]) n = None" "sc' = sc\<lparr>sm_locals := fs @ [bs @ [bt_insert n v b]]\<rparr>"
proof -
  have nz: "sm_locals sc \<noteq> []" "last (sm_locals sc) \<noteq> []"
    using assms by (auto simp: scope_set_def Let_def split: if_splits)
  obtain fs fn where fs: "sm_locals sc = fs @ [fn]"
    using nz(1) by (metis append_butlast_last_id)
  obtain bs b where "fn = bs @ [b]"
    using nz(2) fs by (metis append_butlast_last_id last_snoc)
  with fs assms that show ?thesis
    by (auto simp: scope_set_def Let_def list_ex_contains split: if_splits)
qed

lemma scope_get_snoc:
  "sm_locals sc = fs @ [bs] \<Longrightarrow> scope_get sc key =
     (case lookup_blocks (rev bs) key of
        Some v \<Rightarrow> Ok v
      | None \<Rightarrow> (case bt_get (sm_globals sc) key of Some v \<Rightarrow> Ok v | None \<Rightarrow> Err (NotDefined key)))"
  by (simp add: scope_get_def)

interpretation sm: name_scope scope_new enter_function exit_function scope_get scope_set
proof
  fix n m :: string and v :: pvalue and s t :: scope_manager and e
  show "scope_set n v s = (Ok (), t) \<Longrightarrow> scope_get t n = Ok v"
    by (elim scope_set_Ok) (simp add: scope_get_snoc)
  show "scope_set n v s = (Ok (), t) \<Longrightarrow> m \<noteq> n \<Longrightarrow> scope_get t m = scope_get s m"
    by (elim scope_set_Ok) (simp add: scope_get_snoc split: option.split)
  show "scope_set n v s = (Ok (), t) \<Longrightarrow> \<not> is_ok (scope_get s n)"
    by (elim scope_set_Ok) (auto simp: scope_get_snoc lookup_blocks_None bt_contains_def
        split: option.splits)
  show "scope_set n v s = (Err e, t) \<Longrightarrow> t = s"
    by (auto simp: scope_set_def Let_def split: if_splits)
  show "exit_function (enter_function s) = (Ok (), s)"
    by simp
qed

end
