(* ===== verification/Vm_Machine.thy ===== *)
theory Vm_Machine
  imports Vm_Scope
begin

text \<open>
  The policy virtual machine (\<open>aranya-policy-vm/src/machine.rs\<close>, with the stack of
  \<open>stack.rs\<close>, the I/O interface of \<open>io.rs\<close> and the contexts of \<open>data.rs\<close>): the static
  machine, its run state, one definition per instruction, and the step function that
  dispatches them.
\<close>

section \<open>Static machine and run state\<close>

record machine =
  mc_progmem :: "instruction list"
  mc_labels :: "(label, nat) btree_map"
  mc_action_defs :: "(string, field_definition list) btree_map"
  mc_command_defs :: "(string, (string, vtype) btree_map) btree_map"
  mc_fact_defs :: "(string, fact_definition) btree_map"
  mc_struct_defs :: "(string, field_definition list) btree_map"
  mc_command_attributes :: "(string, (string, pvalue) btree_map) btree_map"
  mc_codemap :: "code_map option"
  mc_globals :: "(string, pvalue) btree_map"

definition machine_new :: "instruction list \<Rightarrow> machine" where
  "machine_new instructions =
     \<lparr>mc_progmem = instructions, mc_labels = [], mc_action_defs = [], mc_command_defs = [],
      mc_fact_defs = [], mc_struct_defs = [], mc_command_attributes = [], mc_codemap = None,
      mc_globals = []\<rparr>"

definition machine_from_codemap :: "code_map \<Rightarrow> machine" where
  "machine_from_codemap cm =
     \<lparr>mc_progmem = [], mc_labels = [], mc_action_defs = [], mc_command_defs = [],
      mc_fact_defs = [], mc_struct_defs = [], mc_command_attributes = [], mc_codemap = Some cm,
      mc_globals = []\<rparr>"

definition machine_from_module :: "policy_module \<Rightarrow> machine" where
  "machine_from_module pm =
     (case module_data pm of ModuleV0 m \<Rightarrow>
       \<lparr>mc_progmem = m_progmem m, mc_labels = m_labels m, mc_action_defs = m_action_defs m,
        mc_command_defs = m_command_defs m, mc_fact_defs = m_fact_defs m,
        mc_struct_defs = m_struct_defs m, mc_command_attributes = m_command_attributes m,
        mc_codemap = m_codemap m, mc_globals = m_globals m\<rparr>)"

definition machine_into_module :: "machine \<Rightarrow> policy_module" where
  "machine_into_module M =
     \<lparr>module_data = ModuleV0
       \<lparr>m_progmem = mc_progmem M, m_labels = mc_labels M, m_action_defs = mc_action_defs M,
        m_command_defs = mc_command_defs M, m_fact_defs = mc_fact_defs M,
        m_struct_defs = mc_struct_defs M, m_command_attributes = mc_command_attributes M,
        m_codemap = mc_codemap M, m_globals = mc_globals M\<rparr>\<rparr>"

text \<open>The contexts a program runs in.\<close>

record policy_context =
  pctx_name :: string
  pctx_id :: id
  pctx_author :: id
  pctx_version :: id

datatype command_context =
    CtxAction string id
  | CtxSeal string id
  | CtxOpen string
  | CtxPolicy policy_context
  | CtxRecall policy_context

text \<open>
  The machine calls out through the trait \<open>MachineIO\<close> and serialises structs with the
  \<open>postcard\<close> crate. Both are parameters: a record of the operations on an arbitrary
  I/O state. The iterator of a query is the list of the items it yields.
\<close>

type_synonym query_item = "(fact_key list \<times> fact_value list, machine_io_error) result"

record 'io vm_env =
  io_fact_insert :: "string \<Rightarrow> fact_key list \<Rightarrow> fact_value list \<Rightarrow> ('io, unit, machine_io_error) prog"
  io_fact_delete :: "string \<Rightarrow> fact_key list \<Rightarrow> ('io, unit, machine_io_error) prog"
  io_fact_query :: "'io \<Rightarrow> string \<Rightarrow> fact_key list \<Rightarrow> (query_item list, machine_io_error) result"
  io_publish :: "string \<Rightarrow> kv_pair list \<Rightarrow> 'io \<Rightarrow> 'io"
  io_effect :: "string \<Rightarrow> kv_pair list \<Rightarrow> id \<Rightarrow> bool \<Rightarrow> 'io \<Rightarrow> 'io"
  io_call :: "nat \<Rightarrow> nat \<Rightarrow> command_context \<Rightarrow> ('io \<times> pvalue list, unit, machine_error) prog"
  to_allocvec :: "struct \<Rightarrow> u8 list option"
  from_bytes :: "u8 list \<Rightarrow> struct option"

definition STACK_SIZE :: nat where
  "STACK_SIZE = 100"

record 'io run_state =
  rs_scope :: scope_manager
  rs_stack :: "pvalue list"
  rs_call_state :: "nat list"
  rs_pc :: nat
  rs_io :: 'io
  rs_ctx :: command_context
  rs_query_iter_stack :: "query_item list list"

definition run_state_new :: "machine \<Rightarrow> 'io \<Rightarrow> command_context \<Rightarrow> 'io run_state" where
  "run_state_new M io ctx =
     \<lparr>rs_scope = scope_new (mc_globals M), rs_stack = [], rs_call_state = [], rs_pc = 0,
      rs_io = io, rs_ctx = ctx, rs_query_iter_stack = []\<rparr>"

definition set_context :: "command_context \<Rightarrow> 'io run_state \<Rightarrow> 'io run_state" where
  "set_context ctx s = s\<lparr>rs_ctx := ctx\<rparr>"

definition reset :: "'io run_state \<Rightarrow> 'io run_state" where
  "reset s = s\<lparr>rs_scope := scope_clear (rs_scope s), rs_stack := [], rs_pc := 0\<rparr>"

datatype machine_status = Executing | Exited exit_reason

type_synonym ('io, 'a) vm = "('io run_state, 'a, machine_error) prog"

section \<open>Errors and the stack\<close>

text \<open>
  \<open>mk_err\<close> is \<open>self.err(..)\<close>, which some instructions evaluate before they know whether
  they need it; \<open>fail_at\<close> returns it; \<open>fail_plain\<close> is the conversion by \<open>?\<close> of an error
  kind without position.
\<close>

definition mk_err :: "machine \<Rightarrow> machine_error_type \<Rightarrow> ('io, machine_error) vm" where
  "mk_err M t = (\<lambda>s. (from_position t (rs_pc s) (mc_codemap M), s))"

definition fail_at :: "machine \<Rightarrow> machine_error_type \<Rightarrow> ('io, 'a) vm" where
  "fail_at M t = pbind (mk_err M t) pfail"

definition fail_plain :: "machine_error_type \<Rightarrow> ('io, 'a) vm" where
  "fail_plain t = pfail (machine_error_new t)"

definition push_value :: "pvalue \<Rightarrow> pvalue list \<Rightarrow> pvalue list option" where
  "push_value v st = vec_push STACK_SIZE st v"

definition pop_value :: "pvalue list \<Rightarrow> (pvalue \<times> pvalue list) option" where
  "pop_value st = (if st = [] then None else Some (last st, butlast st))"

definition ipush :: "machine \<Rightarrow> pvalue \<Rightarrow> ('io, unit) vm" where
  "ipush M v = (\<lambda>s. case push_value v (rs_stack s) of
      None \<Rightarrow> fail_at M StackOverflow s
    | Some st \<Rightarrow> (Ok (), s\<lparr>rs_stack := st\<rparr>))"

definition ipop_value :: "machine \<Rightarrow> ('io, pvalue) vm" where
  "ipop_value M = (\<lambda>s. case pop_value (rs_stack s) of
      None \<Rightarrow> fail_at M StackUnderflow s
    | Some (v, st) \<Rightarrow> (Ok v, s\<lparr>rs_stack := st\<rparr>))"

definition lift_conv :: "machine \<Rightarrow> ('a, value_conversion_error) result \<Rightarrow> ('io, 'a) vm" where
  "lift_conv M r = (case r of
      Ok a \<Rightarrow> preturn a
    | Err e \<Rightarrow> fail_at M (err_of_conversion e)
    | Panic p \<Rightarrow> ppanic p)"

definition ipop :: "machine \<Rightarrow> (pvalue \<Rightarrow> ('a, value_conversion_error) result) \<Rightarrow> ('io, 'a) vm" where
  "ipop M conv = pbind (ipop_value M) (\<lambda>v. lift_conv M (conv v))"

text \<open>\<open>ipeek\<close> reads the top of the stack through a mutable reference, \<open>set_top\<close> writes it.\<close>

definition ipeek :: "machine \<Rightarrow> (pvalue \<Rightarrow> ('a, value_conversion_error) result) \<Rightarrow> ('io, 'a) vm" where
  "ipeek M conv = (\<lambda>s.
     if rs_stack s = [] then fail_at M StackUnderflow s
     else lift_conv M (conv (last (rs_stack s))) s)"

definition set_top :: "pvalue \<Rightarrow> ('io, unit) vm" where
  "set_top v = pmodify (\<lambda>s. s\<lparr>rs_stack := butlast (rs_stack s) @ [v]\<rparr>)"

text \<open>Scope operations, with and without the position of a failing instruction.\<close>

definition scope_op :: "(scope_manager, 'a, machine_error_type) prog \<Rightarrow>
    (machine_error_type \<Rightarrow> ('io, 'a) vm) \<Rightarrow> ('io, 'a) vm" where
  "scope_op m on_err = (\<lambda>s. case m (rs_scope s) of
      (Ok a, sc) \<Rightarrow> (Ok a, s\<lparr>rs_scope := sc\<rparr>)
    | (Err e, sc) \<Rightarrow> on_err e (s\<lparr>rs_scope := sc\<rparr>)
    | (Panic p, sc) \<Rightarrow> (Panic p, s\<lparr>rs_scope := sc\<rparr>))"

definition io_op :: "('io, 'a, machine_io_error) prog \<Rightarrow> ('io, 'a) vm" where
  "io_op m = (\<lambda>s. case m (rs_io s) of
      (Ok a, io) \<Rightarrow> (Ok a, s\<lparr>rs_io := io\<rparr>)
    | (Err e, io) \<Rightarrow> (Err (machine_error_of_io e), s\<lparr>rs_io := io\<rparr>)
    | (Panic p, io) \<Rightarrow> (Panic p, s\<lparr>rs_io := io\<rparr>))"

section \<open>Schema checks\<close>

fun all_keys_valid :: "field_definition list \<Rightarrow> fact_key list \<Rightarrow> bool" where
  "all_keys_valid schema [] = True"
| "all_keys_valid schema (k # ks) =
     (case find (\<lambda>d. fd_identifier d = fk_identifier k) schema of
        None \<Rightarrow> False
      | Some d \<Rightarrow> if hashable_vtype (fk_value k) \<noteq> fd_field_type d then False
                  else all_keys_valid schema ks)"

fun all_values_valid :: "field_definition list \<Rightarrow> fact_value list \<Rightarrow> bool" where
  "all_values_valid schema [] = True"
| "all_values_valid schema (v # vs) =
     (case find (\<lambda>d. fd_identifier d = fv_identifier v) schema of
        None \<Rightarrow> False
      | Some d \<Rightarrow> (case vtype_of (fv_value v) of
                     None \<Rightarrow> False
                   | Some t \<Rightarrow> if t \<noteq> fd_field_type d then False else all_values_valid schema vs))"

definition validate_fact_schema :: "fact \<Rightarrow> fact_definition \<Rightarrow> bool" where
  "validate_fact_schema f schema \<longleftrightarrow>
     fact_name f = fdef_identifier schema \<and>
     all_keys_valid (fdef_key schema) (fact_keys f) \<and>
     all_values_valid (fdef_value schema) (fact_values f)"

text \<open>\<open>keys.starts_with(&query.keys)\<close> and the loop over the values of the query.\<close>

fun starts_with :: "'a list \<Rightarrow> 'a list \<Rightarrow> bool" where
  "starts_with xs [] = True"
| "starts_with [] (p # ps) = False"
| "starts_with (x # xs) (p # ps) = (x = p \<and> starts_with xs ps)"

fun values_match :: "fact_value list \<Rightarrow> fact_value list \<Rightarrow> bool" where
  "values_match [] vs = True"
| "values_match (q # qs) vs =
     (case find (\<lambda>v. fv_identifier v = fv_identifier q) vs of
        Some v \<Rightarrow> if fv_value v \<noteq> fv_value q then False else values_match qs vs
      | None \<Rightarrow> False)"

definition fact_match :: "fact \<Rightarrow> fact_key list \<Rightarrow> fact_value list \<Rightarrow> bool" where
  "fact_match query keys vals \<longleftrightarrow>
     starts_with keys (fact_keys query) \<and> values_match (fact_values query) vals"

definition validate_fact_literal :: "machine \<Rightarrow> fact \<Rightarrow> ('io, unit) vm" where
  "validate_fact_literal M f =
     (case bt_get (mc_fact_defs M) (fact_name f) of
        Some schema \<Rightarrow> if validate_fact_schema f schema then preturn ()
                       else fail_at M (InvalidSchema (fact_name f))
      | None \<Rightarrow> fail_at M (InvalidSchema (fact_name f)))"

text \<open>
  \<open>validate_struct_schema\<close>: in the second loop the pattern variable of \<open>Some(f)\<close> shadows
  the field definition, so both sides of the type comparison are the type of the
  field's value.
\<close>

fun fields_present :: "(string, pvalue) btree_map \<Rightarrow> field_definition list \<Rightarrow> bool" where
  "fields_present fs [] = True"
| "fields_present fs (d # ds) =
     (case bt_get fs (fd_identifier d) of
        Some f \<Rightarrow> if vtype_of f \<noteq> vtype_of f then False else fields_present fs ds
      | None \<Rightarrow> False)"

definition struct_schema_ok :: "machine \<Rightarrow> struct \<Rightarrow> bool" where
  "struct_schema_ok M s =
     (case bt_get (mc_struct_defs M) (struct_name s) of
        Some defs \<Rightarrow>
          list_all (\<lambda>f. list_ex (\<lambda>v. fd_identifier v = fst f) defs) (struct_fields s) \<and>
          fields_present (struct_fields s) defs
      | None \<Rightarrow> False)"

definition validate_struct_schema :: "machine \<Rightarrow> struct \<Rightarrow> ('io, unit) vm" where
  "validate_struct_schema M s =
     pbind (mk_err M (InvalidSchema (struct_name s)))
       (\<lambda>err. if struct_schema_ok M s then preturn () else pfail err)"

section \<open>Instructions\<close>

text \<open>
  An instruction either falls through to the increment of the program counter or
  returns a status from the step at once.
\<close>

datatype flow = Fallthrough | Leave machine_status

definition fall :: "('io, unit) vm \<Rightarrow> ('io, flow) vm" where
  "fall m = pbind m (\<lambda>_. preturn Fallthrough)"

subsection \<open>Data\<close>

definition exec_const :: "machine \<Rightarrow> pvalue \<Rightarrow> ('io, flow) vm" where
  "exec_const M v = fall (ipush M v)"

definition exec_def :: "machine \<Rightarrow> string \<Rightarrow> ('io, flow) vm" where
  "exec_def M key = pbind (ipop_value M) (\<lambda>v. fall (scope_op (scope_set key v) fail_plain))"

definition exec_get :: "machine \<Rightarrow> string \<Rightarrow> ('io, flow) vm" where
  "exec_get M key = pbind (pgets rs_scope) (\<lambda>sc.
     case scope_get sc key of
       Ok v \<Rightarrow> fall (ipush M v)
     | Err e \<Rightarrow> fail_plain e
     | Panic p \<Rightarrow> ppanic p)"

definition list_swap :: "nat \<Rightarrow> nat \<Rightarrow> 'a list \<Rightarrow> 'a list" where
  "list_swap i j xs = xs[i := xs ! j, j := xs ! i]"

definition exec_swap :: "machine \<Rightarrow> nat \<Rightarrow> ('io, flow) vm" where
  "exec_swap M d =
     (if d = 0 then fail_at M InvalidInstruction
      else pbind (pgets rs_stack) (\<lambda>st.
        case usize_checked_sub (length st) 1 of
          None \<Rightarrow> fail_plain StackUnderflow
        | Some index1 \<Rightarrow>
            (case usize_checked_sub index1 d of
               None \<Rightarrow> fail_plain StackUnderflow
             | Some index2 \<Rightarrow> fall (pmodify (\<lambda>s. s\<lparr>rs_stack := list_swap index1 index2 st\<rparr>)))))"

definition exec_dup :: "machine \<Rightarrow> nat \<Rightarrow> ('io, flow) vm" where
  "exec_dup M d = pbind (pgets rs_stack) (\<lambda>st.
     case usize_checked_sub (length st) d of
       None \<Rightarrow> fail_plain StackUnderflow
     | Some n \<Rightarrow>
         (case usize_checked_sub n 1 of
            None \<Rightarrow> fail_plain StackUnderflow
          | Some index \<Rightarrow> fall (ipush M (st ! index))))"

definition exec_pop :: "('io, flow) vm" where
  "exec_pop = fall (pmodify (\<lambda>s. case pop_value (rs_stack s) of
      None \<Rightarrow> s
    | Some (_, st) \<Rightarrow> s\<lparr>rs_stack := st\<rparr>))"

subsection \<open>Control flow\<close>

definition exec_block :: "machine \<Rightarrow> ('io, flow) vm" where
  "exec_block M = fall (scope_op enter_block (fail_at M))"

definition exec_end :: "machine \<Rightarrow> ('io, flow) vm" where
  "exec_end M = fall (scope_op exit_block (fail_at M))"

definition goto :: "nat \<Rightarrow> ('io, flow) vm" where
  "goto n = pbind (pmodify (\<lambda>s. s\<lparr>rs_pc := n\<rparr>)) (\<lambda>_. preturn (Leave Executing))"

fun exec_jump :: "machine \<Rightarrow> target \<Rightarrow> ('io, flow) vm" where
  "exec_jump M (Unresolved l) = fail_at M (UnresolvedTarget l)"
| "exec_jump M (Resolved n) = goto n"

definition exec_branch :: "machine \<Rightarrow> target \<Rightarrow> ('io, flow) vm" where
  "exec_branch M t = pbind (ipop M try_bool) (\<lambda>conditional.
     if conditional then exec_jump M t else preturn Fallthrough)"

fun exec_call :: "machine \<Rightarrow> target \<Rightarrow> ('io, flow) vm" where
  "exec_call M (Unresolved l) = fail_at M (UnresolvedTarget l)"
| "exec_call M (Resolved n) =
     pbind (pmodify (\<lambda>s. s\<lparr>rs_scope := enter_function (rs_scope s),
                          rs_call_state := rs_call_state s @ [rs_pc s],
                          rs_pc := n\<rparr>))
       (\<lambda>_. preturn (Leave Executing))"

definition exec_return :: "machine \<Rightarrow> ('io, flow) vm" where
  "exec_return M = (\<lambda>s.
     if rs_call_state s = [] then (Ok (Leave (Exited ExitNormal)), s)
     else fall (scope_op exit_function (fail_at M))
       (s\<lparr>rs_pc := last (rs_call_state s), rs_call_state := butlast (rs_call_state s)\<rparr>))"

definition exec_ext_call :: "'io vm_env \<Rightarrow> nat \<Rightarrow> nat \<Rightarrow> ('io, flow) vm" where
  "exec_ext_call E module proc = fall (\<lambda>s.
     case io_call E module proc (rs_ctx s) (rs_io s, rs_stack s) of
       (r, io, st) \<Rightarrow> (r, s\<lparr>rs_io := io, rs_stack := st\<rparr>))"

subsection \<open>Arithmetic and logic\<close>

definition exec_arith :: "machine \<Rightarrow> (i64 \<Rightarrow> i64 \<Rightarrow> i64 option) \<Rightarrow> ('io, flow) vm" where
  "exec_arith M checked =
     pbind (ipop M try_i64) (\<lambda>b.
     pbind (ipop M try_i64) (\<lambda>a.
     pbind (mk_err M IntegerOverflow) (\<lambda>err.
     case checked a b of
       None \<Rightarrow> pfail err
     | Some r \<Rightarrow> fall (ipush M (VInt r)))))"

definition exec_logic :: "machine \<Rightarrow> (bool \<Rightarrow> bool \<Rightarrow> bool) \<Rightarrow> ('io, flow) vm" where
  "exec_logic M f =
     pbind (ipop M try_bool) (\<lambda>a.
     pbind (ipop M try_bool) (\<lambda>b.
     fall (ipush M (VBool (f a b)))))"

definition exec_not :: "machine \<Rightarrow> ('io, flow) vm" where
  "exec_not M = pbind (ipeek M as_mut_bool) (\<lambda>a. fall (set_top (VBool (\<not> a))))"

fun compare_ints :: "machine \<Rightarrow> (int \<Rightarrow> int \<Rightarrow> bool) \<Rightarrow> string \<Rightarrow> pvalue \<Rightarrow> pvalue \<Rightarrow> ('io, bool) vm" where
  "compare_ints M f msg (VInt ia) (VInt ib) = preturn (f (sint ia) (sint ib))"
| "compare_ints M f msg a b =
     fail_at M (InvalidType ''Int, Int'' (type_name a @ '', '' @ type_name b) msg)"

definition exec_compare :: "machine \<Rightarrow> (pvalue \<Rightarrow> pvalue \<Rightarrow> ('io, bool) vm) \<Rightarrow> ('io, flow) vm" where
  "exec_compare M cmp =
     pbind (ipop_value M) (\<lambda>b.
     pbind (ipop_value M) (\<lambda>a.
     pbind (cmp a b) (\<lambda>v.
     fall (ipush M (VBool v)))))"

definition exec_gt :: "machine \<Rightarrow> ('io, flow) vm" where
  "exec_gt M = exec_compare M (compare_ints M (>) ''Greater-than comparison'')"

definition exec_lt :: "machine \<Rightarrow> ('io, flow) vm" where
  "exec_lt M = exec_compare M (compare_ints M (<) ''Less-than comparison'')"

definition exec_eq :: "machine \<Rightarrow> ('io, flow) vm" where
  "exec_eq M = exec_compare M (\<lambda>a b. preturn (a = b))"

subsection \<open>Facts and structs\<close>

definition exec_fact_new :: "machine \<Rightarrow> string \<Rightarrow> ('io, flow) vm" where
  "exec_fact_new M name = fall (ipush M (VFact (fact_new name)))"

definition exec_fact_key_set :: "machine \<Rightarrow> string \<Rightarrow> ('io, flow) vm" where
  "exec_fact_key_set M varname =
     pbind (ipop M try_hashable) (\<lambda>v.
     pbind (ipeek M as_mut_fact) (\<lambda>f.
     fall (set_top (VFact (set_key varname v f)))))"

definition exec_fact_value_set :: "machine \<Rightarrow> string \<Rightarrow> ('io, flow) vm" where
  "exec_fact_value_set M varname =
     pbind (ipop_value M) (\<lambda>v.
     pbind (ipeek M as_mut_fact) (\<lambda>f.
     fall (set_top (VFact (set_value varname v f)))))"

definition exec_struct_new :: "machine \<Rightarrow> string \<Rightarrow> ('io, flow) vm" where
  "exec_struct_new M name = fall (ipush M (VStruct (Struct name [])))"

definition exec_struct_set :: "machine \<Rightarrow> string \<Rightarrow> ('io, flow) vm" where
  "exec_struct_set M field_name =
     pbind (ipop_value M) (\<lambda>v.
     pbind (ipop M try_struct) (\<lambda>s.
     case bt_get (mc_struct_defs M) (struct_name s) of
       None \<Rightarrow> fail_at M (InvalidSchema (struct_name s))
     | Some defs \<Rightarrow>
         if \<not> list_ex (\<lambda>f. fd_identifier f = field_name) defs
         then fail_at M (InvalidStructMember field_name)
         else fall (ipush M (VStruct
                (Struct (struct_name s) (bt_insert field_name v (struct_fields s)))))))"

definition exec_struct_get :: "machine \<Rightarrow> string \<Rightarrow> ('io, flow) vm" where
  "exec_struct_get M varname =
     pbind (ipop M try_struct) (\<lambda>s.
     case bt_get (struct_fields s) varname of
       None \<Rightarrow> fail_at M (InvalidStructMember varname)
     | Some v \<Rightarrow> fall (ipush M v))"

subsection \<open>Commands, facts and effects\<close>

definition exec_publish :: "'io vm_env \<Rightarrow> machine \<Rightarrow> ('io, flow) vm" where
  "exec_publish E M =
     pbind (ipop M try_struct) (\<lambda>st.
     pbind (validate_struct_schema M st) (\<lambda>_.
     fall (pmodify (\<lambda>s. s\<lparr>rs_io := io_publish E (struct_name st) (struct_fields st) (rs_io s)\<rparr>))))"

definition exec_create :: "'io vm_env \<Rightarrow> machine \<Rightarrow> ('io, flow) vm" where
  "exec_create E M =
     pbind (ipop M try_fact) (\<lambda>f.
     fall (io_op (io_fact_insert E (fact_name f) (fact_keys f) (fact_values f))))"

definition exec_delete :: "'io vm_env \<Rightarrow> machine \<Rightarrow> ('io, flow) vm" where
  "exec_delete E M =
     pbind (ipop M try_fact) (\<lambda>f.
     fall (io_op (io_fact_delete E (fact_name f) (fact_keys f))))"

definition query_facts :: "'io vm_env \<Rightarrow> string \<Rightarrow> fact_key list \<Rightarrow> ('io, query_item list) vm" where
  "query_facts E name keys = io_op (\<lambda>io. (io_fact_query E io name keys, io))"

definition lift_item :: "query_item \<Rightarrow> ('io, fact_key list \<times> fact_value list) vm" where
  "lift_item r = plift (map_err machine_error_of_io r)"

definition exec_update :: "'io vm_env \<Rightarrow> machine \<Rightarrow> ('io, flow) vm" where
  "exec_update E M =
     pbind (ipop M try_fact) (\<lambda>fact_to.
     pbind (ipop M try_fact) (\<lambda>fact_from.
     pbind (query_facts E (fact_name fact_from) (fact_keys fact_from)) (\<lambda>items.
     pbind (case items of [] \<Rightarrow> fail_at M (InvalidFact (fact_name fact_from)) | i # _ \<Rightarrow> lift_item i)
       (\<lambda>replaced_fact.
     pbind (io_op (io_fact_delete E (fact_name fact_from) (fst replaced_fact))) (\<lambda>_.
     fall (io_op (io_fact_insert E (fact_name fact_to) (fact_keys fact_to) (fact_values fact_to))))))))"

definition exec_emit :: "'io vm_env \<Rightarrow> machine \<Rightarrow> ('io, flow) vm" where
  "exec_emit E M =
     pbind (ipop M try_struct) (\<lambda>st.
     pbind (validate_struct_schema M st) (\<lambda>_.
     pbind (pgets rs_ctx) (\<lambda>ctx.
     pbind (case ctx of
              CtxPolicy c \<Rightarrow> preturn (pctx_id c, False)
            | CtxRecall c \<Rightarrow> preturn (pctx_id c, True)
            | _ \<Rightarrow> fail_at M (BadState ''Emit: wrong command context''))
       (\<lambda>(command, recall).
     fall (pmodify (\<lambda>s. s\<lparr>rs_io :=
       io_effect E (struct_name st) (struct_fields st) command recall (rs_io s)\<rparr>))))))"

subsection \<open>Queries\<close>

text \<open>\<open>find_map\<close> over the results: the first match, or the first error.\<close>

fun first_match :: "fact \<Rightarrow> query_item list \<Rightarrow> query_item option" where
  "first_match qf [] = None"
| "first_match qf (Ok f # items) =
     (if fact_match qf (fst f) (snd f) then Some (Ok f) else first_match qf items)"
| "first_match qf (r # items) = Some r"

definition exec_query :: "'io vm_env \<Rightarrow> machine \<Rightarrow> ('io, flow) vm" where
  "exec_query E M =
     pbind (ipop M try_fact) (\<lambda>qf.
     pbind (validate_fact_literal M qf) (\<lambda>_.
     pbind (query_facts E (fact_name qf) (fact_keys qf)) (\<lambda>items.
     case first_match qf items of
       Some r \<Rightarrow> pbind (lift_item r) (\<lambda>f.
         fall (ipush M (VStruct (fact_to_struct (fact_name qf) (fst f) (snd f)))))
     | None \<Rightarrow> fall (ipush M VNone))))"

text \<open>The counting loop: it stops at the limit, at the end of the results or at an error.\<close>

fun count_facts :: "machine \<Rightarrow> fact \<Rightarrow> i64 \<Rightarrow> query_item list \<Rightarrow> i64 \<Rightarrow> ('io, i64) vm" where
  "count_facts M f limit [] count = preturn count"
| "count_facts M f limit (r # items) count =
     (if sint count < sint limit then
        (case r of
           Ok kv \<Rightarrow>
             if fact_match f (fst kv) (snd kv) then
               (case i64_checked_add count 1 of
                  None \<Rightarrow> pfail (machine_error_of_bug ''should be able to increment fact counter'')
                | Some count' \<Rightarrow> count_facts M f limit items count')
             else count_facts M f limit items count
         | Err e \<Rightarrow> fail_at M (IOError e)
         | Panic p \<Rightarrow> ppanic p)
      else preturn count)"

definition exec_fact_count :: "'io vm_env \<Rightarrow> machine \<Rightarrow> i64 \<Rightarrow> ('io, flow) vm" where
  "exec_fact_count E M limit =
     pbind (ipop M try_fact) (\<lambda>f.
     pbind (validate_fact_literal M f) (\<lambda>_.
     pbind (query_facts E (fact_name f) (fact_keys f)) (\<lambda>items.
     pbind (count_facts M f limit items 0) (\<lambda>count.
     fall (ipush M (VInt count))))))"

definition exec_query_start :: "'io vm_env \<Rightarrow> machine \<Rightarrow> ('io, flow) vm" where
  "exec_query_start E M =
     pbind (ipop M try_fact) (\<lambda>f.
     pbind (validate_fact_literal M f) (\<lambda>_.
     pbind (query_facts E (fact_name f) (fact_keys f)) (\<lambda>items.
     fall (pmodify (\<lambda>s. s\<lparr>rs_query_iter_stack := rs_query_iter_stack s @ [items]\<rparr>)))))"

definition exec_query_next :: "machine \<Rightarrow> string \<Rightarrow> ('io, flow) vm" where
  "exec_query_next M var =
     pbind (pgets rs_query_iter_stack) (\<lambda>its.
     if its = [] then fail_at M (BadState ''QueryNext: no results'')
     else case last its of
       item # rest \<Rightarrow>
         pbind (pmodify (\<lambda>s. s\<lparr>rs_query_iter_stack := butlast its @ [rest]\<rparr>)) (\<lambda>_.
         pbind (lift_item item) (\<lambda>kv.
         pbind (scope_op (scope_set var (VStruct (fact_to_struct var (fst kv) (snd kv)))) fail_plain)
           (\<lambda>_. fall (ipush M (VBool False)))))
     | [] \<Rightarrow>
         pbind (pmodify (\<lambda>s. s\<lparr>rs_query_iter_stack := butlast its\<rparr>)) (\<lambda>_.
         fall (ipush M (VBool True))))"

subsection \<open>Serialisation\<close>

definition exec_serialize :: "'io vm_env \<Rightarrow> machine \<Rightarrow> ('io, flow) vm" where
  "exec_serialize E M = pbind (pgets rs_ctx) (\<lambda>ctx.
     case ctx of
       CtxSeal name _ \<Rightarrow>
         pbind (ipop M try_struct) (\<lambda>command_struct.
         if struct_name command_struct \<noteq> name then fail_at M InvalidInstruction
         else case to_allocvec E command_struct of
           None \<Rightarrow> fail_at M (Unknown ''could not serialize command Struct'')
         | Some bytes \<Rightarrow> fall (ipush M (VBytes bytes)))
     | _ \<Rightarrow> fail_at M InvalidInstruction)"

definition exec_deserialize :: "'io vm_env \<Rightarrow> machine \<Rightarrow> ('io, flow) vm" where
  "exec_deserialize E M = pbind (pgets rs_ctx) (\<lambda>ctx.
     case ctx of
       CtxOpen name \<Rightarrow>
         pbind (ipop M try_bytes) (\<lambda>bytes.
         case from_bytes E bytes of
           None \<Rightarrow> fail_at M (Unknown ''could not deserialize Struct'')
         | Some s \<Rightarrow>
             if name \<noteq> struct_name s then fail_at M InvalidInstruction
             else fall (ipush M (VStruct s)))
     | _ \<Rightarrow> fail_at M InvalidInstruction)"

section \<open>The step\<close>

fun exec_instr :: "'io vm_env \<Rightarrow> machine \<Rightarrow> instruction \<Rightarrow> ('io, flow) vm" where
  "exec_instr E M (IConst v) = exec_const M v"
| "exec_instr E M (IDef key) = exec_def M key"
| "exec_instr E M (IGet key) = exec_get M key"
| "exec_instr E M (ISwap d) = exec_swap M d"
| "exec_instr E M (IDup d) = exec_dup M d"
| "exec_instr E M IPop = exec_pop"
| "exec_instr E M IBlock = exec_block M"
| "exec_instr E M IEnd = exec_end M"
| "exec_instr E M (IJump t) = exec_jump M t"
| "exec_instr E M (IBranch t) = exec_branch M t"
| "exec_instr E M INext = ppanic ''not yet implemented''"
| "exec_instr E M ILast = ppanic ''not yet implemented''"
| "exec_instr E M (ICall t) = exec_call M t"
| "exec_instr E M IReturn = exec_return M"
| "exec_instr E M (IExtCall m p) = exec_ext_call E m p"
| "exec_instr E M (IExit reason) = preturn (Leave (Exited reason))"
| "exec_instr E M IAdd = exec_arith M i64_checked_add"
| "exec_instr E M ISub = exec_arith M i64_checked_sub"
| "exec_instr E M IAnd = exec_logic M (\<and>)"
| "exec_instr E M IOr = exec_logic M (\<or>)"
| "exec_instr E M INot = exec_not M"
| "exec_instr E M IGt = exec_gt M"
| "exec_instr E M ILt = exec_lt M"
| "exec_instr E M IEq = exec_eq M"
| "exec_instr E M (IFactNew name) = exec_fact_new M name"
| "exec_instr E M (IFactKeySet n) = exec_fact_key_set M n"
| "exec_instr E M (IFactValueSet n) = exec_fact_value_set M n"
| "exec_instr E M (IStructNew name) = exec_struct_new M name"
| "exec_instr E M (IStructSet n) = exec_struct_set M n"
| "exec_instr E M (IStructGet n) = exec_struct_get M n"
| "exec_instr E M IPublish = exec_publish E M"
| "exec_instr E M ICreate = exec_create E M"
| "exec_instr E M IDelete = exec_delete E M"
| "exec_instr E M IUpdate = exec_update E M"
| "exec_instr E M IEmit = exec_emit E M"
| "exec_instr E M IQuery = exec_query E M"
| "exec_instr E M (IFactCount limit) = exec_fact_count E M limit"
| "exec_instr E M IQueryStart = exec_query_start E M"
| "exec_instr E M (IQueryNext var) = exec_query_next M var"
| "exec_instr E M ISerialize = exec_serialize E M"
| "exec_instr E M IDeserialize = exec_deserialize E M"
| "exec_instr E M (IMeta _) = preturn Fallthrough"

definition advance_pc :: "('io, machine_status) vm" where
  "advance_pc = (\<lambda>s. case usize_checked_add (rs_pc s) 1 of
      None \<Rightarrow> (Err (machine_error_of_bug ''self.pc + 1 must not wrap''), s)
    | Some n \<Rightarrow> (Ok Executing, s\<lparr>rs_pc := n\<rparr>))"

definition step :: "'io vm_env \<Rightarrow> machine \<Rightarrow> ('io, machine_status) vm" where
  "step E M = (\<lambda>s.
     if rs_pc s \<ge> length (mc_progmem M) then fail_at M (InvalidAddress ''pc'') s
     else pbind (exec_instr E M (mc_progmem M ! rs_pc s))
       (\<lambda>fl. case fl of Leave st \<Rightarrow> preturn st | Fallthrough \<Rightarrow> advance_pc) s)"

end
