(* ===== verification/Vm_Safety.thy ===== *)
theory Vm_Safety
  imports Vm_Run
begin

text \<open>
  What every instruction leaves intact. The locale \<open>vm_stable\<close> collects the ways in which
  an instruction other than a transfer of control may change the run state; a predicate
  closed under them is kept by all those instructions. It is interpreted for the
  well-formedness of the run state and for the control part (program counter and call
  stack), and these two give the invariant and the termination of \<open>run\<close>.
\<close>

section \<open>Predicates stable under data instructions\<close>

text \<open>
  A foreign function gets the stack by mutable reference; the type \<open>MachineStack\<close> bounds
  what it can leave there.
\<close>

definition ffi_stack_ok :: "'io vm_env \<Rightarrow> bool" where
  "ffi_stack_ok E \<longleftrightarrow> (\<forall>m p c io st.
     length (snd (snd (io_call E m p c (io, st)))) \<le> max (length st) STACK_SIZE)"

lemma ipeek_nonempty: "ipeek M conv s = (Ok a, s') \<Longrightarrow> s' = s \<and> rs_stack s \<noteq> []"
  by (auto simp: ipeek_def lift_conv_def fail_at_def mk_err_def prog_defs
      split: if_splits result.splits)

text \<open>Two scopes that differ at most in the blocks of the current function.\<close>

definition same_outer :: "scope_manager \<Rightarrow> scope_manager \<Rightarrow> bool" where
  "same_outer sc sc' \<longleftrightarrow> sm_globals sc = sm_globals sc' \<and>
     length (sm_locals sc) = length (sm_locals sc') \<and> butlast (sm_locals sc) = butlast (sm_locals sc')"

lemma same_outer_refl [simp]: "same_outer sc sc"
  by (simp add: same_outer_def)

locale vm_stable =
  fixes I :: "'io run_state \<Rightarrow> bool"
  assumes stack_ok: "I s \<Longrightarrow> length st \<le> max (length (rs_stack s)) STACK_SIZE \<Longrightarrow> I (s\<lparr>rs_stack := st\<rparr>)"
    and scope_ok: "I s \<Longrightarrow> same_outer sc (rs_scope s) \<Longrightarrow> I (s\<lparr>rs_scope := sc\<rparr>)"
    and io_ok: "I s \<Longrightarrow> I (s\<lparr>rs_io := io\<rparr>)"
    and iters_ok: "I s \<Longrightarrow> I (s\<lparr>rs_query_iter_stack := its\<rparr>)"
begin

lemma keeps_mk_err [keeps_rules]: "keeps I (mk_err M t)"
  by (simp add: keeps_def mk_err_def)

lemma keeps_fail_at [keeps_rules]: "keeps I (fail_at M t)"
  unfolding fail_at_def by (intro keeps_rules)

lemma keeps_fail_plain [keeps_rules]: "keeps I (fail_plain t)"
  unfolding fail_plain_def by (intro keeps_rules)

lemma keeps_fall [keeps_rules]: "keeps I m \<Longrightarrow> keeps I (fall m)"
  unfolding fall_def by (intro keeps_rules)

lemma keeps_ipush [keeps_rules]: "keeps I (ipush M v)"
  using keeps_fail_at [of M StackOverflow]
  by (auto simp: keeps_def ipush_def push_value_def vec_push_def intro!: stack_ok)

lemma keeps_ipop_value [keeps_rules]: "keeps I (ipop_value M)"
  using keeps_fail_at [of M StackUnderflow]
  by (auto simp: keeps_def ipop_value_def pop_value_def intro!: stack_ok)

lemma keeps_lift_conv [keeps_rules]: "keeps I (lift_conv M r)"
  unfolding lift_conv_def by (cases r) (auto intro!: keeps_rules)

lemma keeps_ipop [keeps_rules]: "keeps I (ipop M conv)"
  unfolding ipop_def by (intro keeps_rules)

lemma keeps_ipeek [keeps_rules]: "keeps I (ipeek M conv)"
  using keeps_fail_at [of M StackUnderflow] keeps_lift_conv
  by (auto simp: keeps_def ipeek_def)

text \<open>Writing through the peeked reference keeps the height of the stack.\<close>

lemma keeps_peek_set [keeps_rules]: "keeps I (pbind (ipeek M conv) (\<lambda>a. fall (set_top (g a))))"
proof -
  have "I (snd (pbind (ipeek M conv) (\<lambda>a. fall (set_top (g a))) s))" if "I s" for s
  proof (cases "ipeek M conv s")
    case (Pair r s')
    have "I s'" using keeps_ipeek that Pair by (metis keepsD)
    moreover have "rs_stack s' \<noteq> []" if "r = Ok a" for a
      using ipeek_nonempty [of M conv s a s'] Pair that by simp
    ultimately show ?thesis
      by (cases r) (auto simp: Pair pbind_def fall_def set_top_def pmodify_def preturn_def intro!: stack_ok)
  qed
  then show ?thesis by (simp add: keeps_def)
qed

lemma keeps_scope_op [keeps_rules]:
  "(\<And>sc. same_outer (snd (m sc)) sc) \<Longrightarrow>
   (\<And>e. keeps I (on_err e)) \<Longrightarrow> keeps I (scope_op m on_err)"
  unfolding keeps_def scope_op_def
  by (auto split: prod.split result.split intro!: scope_ok) (metis snd_conv scope_ok)+

lemma keeps_io_op [keeps_rules]: "keeps I (io_op m)"
  by (auto simp: keeps_def io_op_def split: prod.split result.split intro: io_ok)

lemma keeps_iters [keeps_rules]: "keeps I (pmodify (\<lambda>s. s\<lparr>rs_query_iter_stack := f s\<rparr>))"
  by (intro keeps_pmodify iters_ok)

lemma keeps_io [keeps_rules]: "keeps I (pmodify (\<lambda>s. s\<lparr>rs_io := f s\<rparr>))"
  by (intro keeps_pmodify io_ok)

end

lemma scope_set_outer: "same_outer (snd (scope_set n v sc)) sc"
  by (auto simp: scope_set_def Let_def same_outer_def)

lemma enter_block_outer: "same_outer (snd (enter_block sc)) sc"
  by (auto simp: enter_block_def same_outer_def)

lemma exit_block_outer: "same_outer (snd (exit_block sc)) sc"
  by (auto simp: exit_block_def same_outer_def)

lemmas scope_outer [keeps_rules] = scope_set_outer enter_block_outer exit_block_outer

lemma keeps_result [keeps_rules]:
  "(\<And>a. keeps I (f a)) \<Longrightarrow> (\<And>e. keeps I (g e)) \<Longrightarrow> (\<And>p. keeps I (h p)) \<Longrightarrow>
   keeps I (case r of Ok a \<Rightarrow> f a | Err e \<Rightarrow> g e | Panic p \<Rightarrow> h p)"
  by (cases r) auto

lemma keeps_list [keeps_rules]:
  "keeps I m \<Longrightarrow> (\<And>x xs. keeps I (f x xs)) \<Longrightarrow> keeps I (case l of [] \<Rightarrow> m | x # xs \<Rightarrow> f x xs)"
  by (cases l) auto

lemma keeps_prod [keeps_rules]: "(\<And>a b. keeps I (f a b)) \<Longrightarrow> keeps I (case p of (a, b) \<Rightarrow> f a b)"
  by (cases p) auto

lemma keeps_context [keeps_rules]:
  "(\<And>a b. keeps I (f a b)) \<Longrightarrow> (\<And>a b. keeps I (g a b)) \<Longrightarrow> (\<And>a. keeps I (h a)) \<Longrightarrow>
   (\<And>a. keeps I (j a)) \<Longrightarrow> (\<And>a. keeps I (k a)) \<Longrightarrow>
   keeps I (case c of CtxAction a b \<Rightarrow> f a b | CtxSeal a b \<Rightarrow> g a b | CtxOpen a \<Rightarrow> h a
     | CtxPolicy a \<Rightarrow> j a | CtxRecall a \<Rightarrow> k a)"
  by (cases c) auto

text \<open>The instructions that do not transfer control.\<close>

fun data_instr :: "instruction \<Rightarrow> bool" where
  "data_instr (IJump _) = False"
| "data_instr (IBranch _) = False"
| "data_instr (ICall _) = False"
| "data_instr IReturn = False"
| "data_instr _ = True"

context vm_stable
begin

lemma keeps_data [keeps_rules]:
  "keeps I (exec_const M v)" "keeps I (exec_def M key)" "keeps I (exec_get M key)"
  "keeps I (exec_block M)" "keeps I (exec_end M)" "keeps I (exec_dup M d)"
  unfolding exec_const_def exec_def_def exec_get_def exec_block_def exec_end_def exec_dup_def
  by (intro keeps_rules)+

lemma keeps_pop [keeps_rules]: "keeps I exec_pop"
  unfolding exec_pop_def
  by (intro keeps_rules keeps_pmodify) (auto simp: pop_value_def intro!: stack_ok)

lemma keeps_swap [keeps_rules]: "keeps I (exec_swap M d)"
proof -
  have "I (snd (exec_swap M d s))" if "I s" for s
    using that keeps_fail_at [of M InvalidInstruction]
    by (auto simp: exec_swap_def pbind_def pgets_def fail_plain_def pfail_def fall_def pmodify_def
        preturn_def list_swap_def keeps_def split: option.split intro!: stack_ok)
  then show ?thesis by (simp add: keeps_def)
qed

lemma keeps_arith [keeps_rules]:
  "keeps I (exec_arith M f)" "keeps I (exec_logic M g)" "keeps I (exec_not M)"
  unfolding exec_arith_def exec_logic_def exec_not_def
  by (intro keeps_rules)+

lemma keeps_compare_ints [keeps_rules]: "keeps I (compare_ints M f msg a b)"
  by (cases "(M, f, msg, a, b)" rule: compare_ints.cases) (auto intro!: keeps_rules)

lemma keeps_compare [keeps_rules]:
  "(\<And>a b. keeps I (cmp a b)) \<Longrightarrow> keeps I (exec_compare M cmp)"
  unfolding exec_compare_def by (intro keeps_rules)

lemma keeps_comparisons [keeps_rules]:
  "keeps I (exec_gt M)" "keeps I (exec_lt M)" "keeps I (exec_eq M)"
  unfolding exec_gt_def exec_lt_def exec_eq_def by (intro keeps_rules)+

lemma keeps_literals [keeps_rules]:
  "keeps I (exec_fact_new M n)" "keeps I (exec_fact_key_set M n)" "keeps I (exec_fact_value_set M n)"
  "keeps I (exec_struct_new M n)" "keeps I (exec_struct_set M n)" "keeps I (exec_struct_get M n)"
  unfolding exec_fact_new_def exec_fact_key_set_def exec_fact_value_set_def exec_struct_new_def
    exec_struct_set_def exec_struct_get_def
  by (intro keeps_rules)+

lemma keeps_validate [keeps_rules]:
  "keeps I (validate_struct_schema M st)" "keeps I (validate_fact_literal M f)"
  unfolding validate_struct_schema_def validate_fact_literal_def by (intro keeps_rules)+

lemma keeps_queries [keeps_rules]: "keeps I (query_facts E n ks)" "keeps I (lift_item r)"
  unfolding query_facts_def lift_item_def by (intro keeps_rules)+

lemma keeps_count [keeps_rules]: "keeps I (count_facts M f limit items c)"
  by (induction items arbitrary: c) (simp_all only: count_facts.simps, (intro keeps_rules | assumption)+)

lemma keeps_effects [keeps_rules]:
  "keeps I (exec_publish E M)" "keeps I (exec_create E M)" "keeps I (exec_delete E M)"
  "keeps I (exec_update E M)" "keeps I (exec_emit E M)" "keeps I (exec_query E M)"
  "keeps I (exec_fact_count E M limit)" "keeps I (exec_query_start E M)" "keeps I (exec_query_next M n)"
  "keeps I (exec_serialize E M)" "keeps I (exec_deserialize E M)"
  unfolding exec_publish_def exec_create_def exec_delete_def exec_update_def exec_emit_def exec_query_def
    exec_fact_count_def exec_query_start_def exec_query_next_def exec_serialize_def exec_deserialize_def
  by (intro keeps_rules)+

lemma keeps_ext_call:
  assumes "ffi_stack_ok E"
  shows "keeps I (exec_ext_call E m p)"
proof -
  have "I (s\<lparr>rs_io := io, rs_stack := st\<rparr>)"
    if "I s" "io_call E m p (rs_ctx s) (rs_io s, rs_stack s) = (r, io, st)" for s r io st
  proof (rule stack_ok [OF io_ok [OF that(1)]])
    show "length st \<le> max (length (rs_stack (s\<lparr>rs_io := io\<rparr>))) STACK_SIZE"
      using assms that(2) by (simp add: ffi_stack_ok_def) (metis snd_conv)
  qed
  then show ?thesis
    unfolding exec_ext_call_def
    by (intro keeps_fall) (auto simp: keeps_def split: prod.split)
qed

lemma keeps_data_instr: "ffi_stack_ok E \<Longrightarrow> data_instr i \<Longrightarrow> keeps I (exec_instr E M i)"
  by (cases i) (auto intro: keeps_rules keeps_ext_call)

end

section \<open>Well-formed run states\<close>

text \<open>
  The stack fits its capacity, and there is one function scope for each pending call and
  one for the outermost function.
\<close>

definition run_state_wf :: "'io run_state \<Rightarrow> bool" where
  "run_state_wf s \<longleftrightarrow> length (rs_stack s) \<le> STACK_SIZE \<and>
     length (sm_locals (rs_scope s)) = Suc (length (rs_call_state s))"

definition frame_is :: "nat \<Rightarrow> nat list \<Rightarrow> scope_manager \<Rightarrow> 'io run_state \<Rightarrow> bool" where
  "frame_is pc cs sc s \<longleftrightarrow> rs_pc s = pc \<and> rs_call_state s = cs \<and> same_outer (rs_scope s) sc"

interpretation wf: vm_stable run_state_wf
  by unfold_locales (auto simp: run_state_wf_def same_outer_def)

interpretation frame: vm_stable "frame_is pc cs sc" for pc cs sc
  by unfold_locales (auto simp: frame_is_def same_outer_def)

lemma frame_is_self: "frame_is (rs_pc s) (rs_call_state s) (rs_scope s) s"
  by (simp add: frame_is_def)

lemma exec_return_wf:
  "run_state_wf s \<Longrightarrow> rs_call_state s \<noteq> [] \<Longrightarrow> exec_return M s =
     (Ok Fallthrough, s\<lparr>rs_pc := last (rs_call_state s), rs_call_state := butlast (rs_call_state s),
        rs_scope := (rs_scope s)\<lparr>sm_locals := butlast (sm_locals (rs_scope s))\<rparr>\<rparr>)"
  by (auto simp: exec_return_def run_state_wf_def fall_def scope_op_def exit_function_def pbind_def preturn_def)

lemma exec_return_outermost: "rs_call_state s = [] \<Longrightarrow> exec_return M s = (Ok (Leave (Exited ExitNormal)), s)"
  by (simp add: exec_return_def)

lemma keeps_wf_return: "keeps run_state_wf (exec_return M)"
proof (rule keepsI)
  fix s :: "'a run_state"
  assume wf: "run_state_wf s"
  then show "run_state_wf (snd (exec_return M s))"
    by (cases "rs_call_state s = []")
      (auto simp: exec_return_wf [OF wf] exec_return_outermost, auto simp: run_state_wf_def)
qed

lemma keeps_wf_goto: "keeps run_state_wf (goto n)"
  by (auto simp: goto_def run_state_wf_def intro!: keeps_rules keeps_pmodify)

lemma keeps_wf_jump: "keeps run_state_wf (exec_jump M t)"
  by (cases t) (auto intro: wf.keeps_fail_at keeps_wf_goto)

lemma keeps_wf_call: "keeps run_state_wf (exec_call M t)"
  by (cases t) (auto simp: run_state_wf_def enter_function_def
      intro!: wf.keeps_fail_at keeps_rules keeps_pmodify)

lemma keeps_wf_exec:
  assumes "ffi_stack_ok E"
  shows "keeps run_state_wf (exec_instr E M i)"
proof (cases "data_instr i")
  case True
  with assms show ?thesis by (rule wf.keeps_data_instr)
next
  case False
  then show ?thesis
    by (cases i) (auto simp: exec_branch_def keeps_wf_jump keeps_wf_call keeps_wf_return
        intro!: keeps_rules wf.keeps_ipop)
qed

lemma keeps_wf_advance: "keeps run_state_wf advance_pc"
  by (auto simp: keeps_def advance_pc_def run_state_wf_def split: option.split)

lemma keeps_flow [keeps_rules]:
  "keeps I m \<Longrightarrow> (\<And>st. keeps I (f st)) \<Longrightarrow> keeps I (case fl of Fallthrough \<Rightarrow> m | Leave st \<Rightarrow> f st)"
  by (cases fl) auto

lemma keeps_wf_step:
  assumes "ffi_stack_ok E"
  shows "keeps run_state_wf (step E M)"
proof (rule keepsI)
  fix s :: "'a run_state"
  assume wf: "run_state_wf s"
  have "keeps run_state_wf (pbind (exec_instr E M i)
      (\<lambda>fl. case fl of Leave st \<Rightarrow> preturn st | Fallthrough \<Rightarrow> advance_pc))" for i
    by (intro keeps_rules keeps_wf_exec keeps_wf_advance assms)
  moreover have "run_state_wf (snd (fail_at M (InvalidAddress ''pc'') s :: (machine_status, machine_error) result \<times> _))"
    using wf.keeps_fail_at wf unfolding keeps_def by blast
  ultimately show "run_state_wf (snd (step E M s))"
    using wf by (simp add: keeps_def step_def)
qed

lemmas run_induct = run.raw_induct [rotated, consumes 1, case_names step]

lemma run_wf:
  assumes "run E M s = Some y" "ffi_stack_ok E" "run_state_wf s"
  shows "run_state_wf (snd y)"
  using assms
proof (induction E M s y rule: run_induct)
  case (step run E M s y)
  obtain r s1 where st: "Vm_Machine.step E M s = (r, s1)" by (cases "Vm_Machine.step E M s")
  have "run_state_wf s1"
    using keepsD [OF keeps_wf_step] step.prems st by blast
  with step st show ?case
    by (auto split: result.splits machine_status.splits)
qed

section \<open>Control flow\<close>

text \<open>
  Where an executing step goes: how the program counter, the pending calls and the
  function scopes change, by the kind of the instruction.
\<close>

fun control :: "nat \<Rightarrow> nat list \<Rightarrow> scope_manager \<Rightarrow> instruction \<Rightarrow> 'io run_state \<Rightarrow> bool" where
  "control pc cs sc (IJump (Resolved n)) s \<longleftrightarrow> frame_is n cs sc s"
| "control pc cs sc (IBranch (Resolved n)) s \<longleftrightarrow> frame_is n cs sc s \<or> frame_is (Suc pc) cs sc s"
| "control pc cs sc (ICall (Resolved n)) s \<longleftrightarrow>
     rs_pc s = n \<and> rs_call_state s = cs @ [pc] \<and> rs_scope s = enter_function sc"
| "control pc cs sc IReturn s \<longleftrightarrow> cs \<noteq> [] \<and> rs_pc s = Suc (last cs) \<and> rs_call_state s = butlast cs \<and>
     rs_scope s = sc\<lparr>sm_locals := butlast (sm_locals sc)\<rparr>"
| "control pc cs sc (IExit _) s \<longleftrightarrow> False"
| "control pc cs sc i s \<longleftrightarrow> frame_is (Suc pc) cs sc s"

lemma advance_pc_Executing: "advance_pc s = (Ok st, s') \<Longrightarrow> st = Executing \<and> s' = s\<lparr>rs_pc := Suc (rs_pc s)\<rparr>"
  by (auto simp: advance_pc_def usize_checked_add_def split: option.splits if_splits)

text \<open>Instructions without transfer of control return only by falling through.\<close>

definition falls :: "('io, flow) vm \<Rightarrow> bool" where
  "falls m \<longleftrightarrow> (\<forall>s fl s'. m s = (Ok fl, s') \<longrightarrow> fl = Fallthrough)"

named_theorems falls_rules

lemma falls_fall [falls_rules]: "falls (fall m)"
  by (auto simp: falls_def fall_def preturn_def elim!: pbind_cases)

lemma falls_pbind [falls_rules]: "(\<And>a. falls (f a)) \<Longrightarrow> falls (pbind m f)"
  by (auto simp: falls_def elim!: pbind_cases)

lemma falls_fail [falls_rules]: "falls (fail_at M t)" "falls (fail_plain t)" "falls (pfail e)" "falls (ppanic p)"
  by (auto simp: falls_def fail_at_def fail_plain_def pfail_def ppanic_def elim!: pbind_cases)

lemma falls_return [falls_rules]: "falls (preturn Fallthrough)"
  by (simp add: falls_def preturn_def)

lemma falls_if [falls_rules]: "falls m \<Longrightarrow> falls n \<Longrightarrow> falls (if b then m else n)"
  by simp

lemma falls_option [falls_rules]:
  "falls m \<Longrightarrow> (\<And>x. falls (f x)) \<Longrightarrow> falls (case v of None \<Rightarrow> m | Some x \<Rightarrow> f x)"
  by (cases v) auto

lemma falls_result [falls_rules]:
  "(\<And>a. falls (f a)) \<Longrightarrow> (\<And>e. falls (g e)) \<Longrightarrow> (\<And>p. falls (h p)) \<Longrightarrow>
   falls (case r of Ok a \<Rightarrow> f a | Err e \<Rightarrow> g e | Panic p \<Rightarrow> h p)"
  by (cases r) auto

lemma falls_list [falls_rules]:
  "falls m \<Longrightarrow> (\<And>x xs. falls (f x xs)) \<Longrightarrow> falls (case l of [] \<Rightarrow> m | x # xs \<Rightarrow> f x xs)"
  by (cases l) auto

lemma falls_prod [falls_rules]: "(\<And>a b. falls (f a b)) \<Longrightarrow> falls (case p of (a, b) \<Rightarrow> f a b)"
  by (cases p) auto

lemma falls_context [falls_rules]:
  "(\<And>a b. falls (f a b)) \<Longrightarrow> (\<And>a b. falls (g a b)) \<Longrightarrow> (\<And>a. falls (h a)) \<Longrightarrow>
   (\<And>a. falls (j a)) \<Longrightarrow> (\<And>a. falls (k a)) \<Longrightarrow>
   falls (case c of CtxAction a b \<Rightarrow> f a b | CtxSeal a b \<Rightarrow> g a b | CtxOpen a \<Rightarrow> h a
     | CtxPolicy a \<Rightarrow> j a | CtxRecall a \<Rightarrow> k a)"
  by (cases c) auto

lemmas exec_defs = exec_const_def exec_def_def exec_get_def exec_swap_def exec_dup_def exec_pop_def
  exec_block_def exec_end_def exec_ext_call_def exec_arith_def exec_logic_def exec_not_def
  exec_compare_def exec_gt_def exec_lt_def exec_eq_def exec_fact_new_def exec_fact_key_set_def
  exec_fact_value_set_def exec_struct_new_def exec_struct_set_def exec_struct_get_def exec_publish_def
  exec_create_def exec_delete_def exec_update_def exec_emit_def exec_query_def exec_fact_count_def
  exec_query_start_def exec_query_next_def exec_serialize_def exec_deserialize_def

lemma falls_data: "data_instr i \<Longrightarrow> (\<And>r. i \<noteq> IExit r) \<Longrightarrow> falls (exec_instr E M i)"
  by (cases i; simp only: exec_instr.simps exec_defs data_instr.simps; (intro falls_rules)?; blast?)

lemma data_control:
  assumes "data_instr i" "ffi_stack_ok E" "exec_instr E M i s = (Ok fl, s')" "\<And>r. i \<noteq> IExit r"
  shows "fl = Fallthrough \<and> frame_is (rs_pc s) (rs_call_state s) (rs_scope s) s'"
  using falls_data [OF assms(1,4), of E M] assms(3)
    keepsD [OF frame.keeps_data_instr [OF assms(2,1)] frame_is_self assms(3)]
  by (auto simp: falls_def)

lemma frame_is_advance: "frame_is pc cs sc s \<Longrightarrow> frame_is n cs sc (s\<lparr>rs_pc := n\<rparr>)"
  by (simp add: frame_is_def)

lemma control_frame:
  "data_instr i \<Longrightarrow> (\<And>r. i \<noteq> IExit r) \<Longrightarrow> control pc cs sc i s = frame_is (Suc pc) cs sc s"
  by (cases i) auto

lemma step_Executing:
  assumes "step E M s = (Ok Executing, s')"
  obtains (next_pc) t where "rs_pc s < length (mc_progmem M)"
      "exec_instr E M (mc_progmem M ! rs_pc s) s = (Ok Fallthrough, t)" "s' = t\<lparr>rs_pc := Suc (rs_pc t)\<rparr>"
    | (goto) "rs_pc s < length (mc_progmem M)"
      "exec_instr E M (mc_progmem M ! rs_pc s) s = (Ok (Leave Executing), s')"
  using assms that
  by (auto simp: step_def fail_at_def pfail_def preturn_def split: if_splits flow.splits
      elim!: pbind_cases dest!: advance_pc_Executing)

lemma jump_control:
  "exec_jump M t s = (Ok fl, s') \<Longrightarrow> \<exists>n. t = Resolved n \<and> fl = Leave Executing \<and> s' = s\<lparr>rs_pc := n\<rparr>"
  by (cases t) (auto simp: goto_def pbind_def pmodify_def preturn_def fail_at_def mk_err_def pfail_def
      split: result.splits)

lemma call_control:
  "exec_call M t s = (Ok fl, s') \<Longrightarrow> \<exists>n. t = Resolved n \<and> fl = Leave Executing \<and>
     s' = s\<lparr>rs_scope := enter_function (rs_scope s), rs_call_state := rs_call_state s @ [rs_pc s], rs_pc := n\<rparr>"
  by (cases t) (auto simp: pbind_def pmodify_def preturn_def fail_at_def mk_err_def pfail_def
      split: result.splits)

lemma control_branch: "frame_is (Suc pc) cs sc s \<Longrightarrow> control pc cs sc (IBranch t) s"
  by (cases t) auto

lemma return_control:
  assumes "exec_return M s = (Ok fl, s')" "run_state_wf s" "fl \<noteq> Leave (Exited ExitNormal)"
  shows "rs_call_state s \<noteq> [] \<and> fl = Fallthrough \<and>
    s' = s\<lparr>rs_pc := last (rs_call_state s), rs_call_state := butlast (rs_call_state s),
        rs_scope := (rs_scope s)\<lparr>sm_locals := butlast (sm_locals (rs_scope s))\<rparr>\<rparr>"
proof -
  have ne: "rs_call_state s \<noteq> []"
    using assms(1,3) exec_return_outermost [of s M] by force
  then show ?thesis
    using assms(1) exec_return_wf [OF assms(2) ne, of M] by auto
qed

lemma branch_control:
  assumes "exec_branch M t s = (Ok fl, s')"
  obtains (taken) n where "t = Resolved n" "fl = Leave Executing" "frame_is n (rs_call_state s) (rs_scope s) s'"
    | (not_taken) "fl = Fallthrough" "frame_is (rs_pc s) (rs_call_state s) (rs_scope s) s'"
proof -
  from assms obtain b u where u: "ipop M try_bool s = (Ok b, u)"
    "(if b then exec_jump M t else preturn Fallthrough) u = (Ok fl, s')"
    by (auto simp: exec_branch_def elim!: pbind_cases)
  have "frame_is (rs_pc s) (rs_call_state s) (rs_scope s) u"
    using keepsD [OF frame.keeps_ipop frame_is_self u(1)] .
  with u(2) that show ?thesis
    by (cases b) (auto simp: preturn_def frame_is_def dest!: jump_control)
qed

lemma step_control:
  assumes "ffi_stack_ok E" "run_state_wf s" "step E M s = (Ok Executing, s')"
  shows "rs_pc s < length (mc_progmem M) \<and>
    control (rs_pc s) (rs_call_state s) (rs_scope s) (mc_progmem M ! rs_pc s) s'"
proof -
  let ?i = "mc_progmem M ! rs_pc s"
  show ?thesis
  proof (cases "data_instr ?i \<and> (\<forall>r. ?i \<noteq> IExit r)")
    case True
    with assms(1,3) show ?thesis
      by (elim step_Executing) (auto simp: control_frame frame_is_def dest!: data_control)
  next
    case False
    then have "(\<exists>t. ?i = IJump t) \<or> (\<exists>t. ?i = IBranch t) \<or> (\<exists>t. ?i = ICall t) \<or> ?i = IReturn \<or> (\<exists>r. ?i = IExit r)"
      by (cases ?i) auto
    with assms(3) show ?thesis
      by (elim step_Executing disjE exE)
        (auto simp: preturn_def frame_is_def dest!: jump_control call_control return_control [OF _ assms(2)]
          elim!: branch_control intro: control_branch)
  qed
qed

section \<open>Termination\<close>

text \<open>
  A ranking of the addresses that every successor of an instruction decreases, the
  entry of a called function included. It exists exactly when the control flow graph
  with its call edges has no cycle.
\<close>

fun instr_ranked :: "(nat \<Rightarrow> nat) \<Rightarrow> nat \<Rightarrow> instruction \<Rightarrow> bool" where
  "instr_ranked rk i (IJump (Resolved n)) \<longleftrightarrow> rk n < rk i"
| "instr_ranked rk i (IBranch (Resolved n)) \<longleftrightarrow> rk n < rk i \<and> rk (Suc i) < rk i"
| "instr_ranked rk i (ICall (Resolved n)) \<longleftrightarrow> rk n < rk i \<and> rk (Suc i) < rk i"
| "instr_ranked rk i IReturn \<longleftrightarrow> True"
| "instr_ranked rk i (IExit _) \<longleftrightarrow> True"
| "instr_ranked rk i _ \<longleftrightarrow> rk (Suc i) < rk i"

definition ranked :: "(nat \<Rightarrow> nat) \<Rightarrow> machine \<Rightarrow> bool" where
  "ranked rk M = list_all (\<lambda>i. instr_ranked rk i (mc_progmem M ! i)) [0..<length (mc_progmem M)]"

text \<open>
  The work left: what remains in the current function, and in each caller after its
  call returns. A call splits its own share over the callee and the continuation.
\<close>

definition work :: "(nat \<Rightarrow> nat) \<Rightarrow> 'io run_state \<Rightarrow> nat" where
  "work rk s = 3 ^ rk (rs_pc s) + sum_list (map (\<lambda>c. 3 ^ rk (Suc c)) (rs_call_state s))"

lemma work_frame: "frame_is n cs sc s \<Longrightarrow> work rk s = 3 ^ rk n + sum_list (map (\<lambda>c. 3 ^ rk (Suc c)) cs)"
  by (simp add: work_def frame_is_def)

lemma control_work:
  assumes "control (rs_pc s) (rs_call_state s) (rs_scope s) i s'" "instr_ranked rk (rs_pc s) i"
  shows "work rk s' < work rk s"
proof (cases "i = IReturn")
  case True
  with assms(1) obtain cs c where "rs_call_state s = cs @ [c]" "rs_pc s' = Suc c" "rs_call_state s' = cs"
    using append_butlast_last_id [of "rs_call_state s"] by fastforce
  then show ?thesis by (simp add: work_def)
next
  case False
  have "work rk s = 3 ^ rk (rs_pc s) + sum_list (map (\<lambda>c. 3 ^ rk (Suc c)) (rs_call_state s))"
    by (simp add: work_def)
  with False assms show ?thesis
    by (cases "(rk, rs_pc s, i)" rule: instr_ranked.cases)
      (auto simp: work_frame, auto simp: work_def pow3_two)
qed

lemma step_work:
  assumes "ffi_stack_ok E" "ranked rk M" "run_state_wf s" "step E M s = (Ok Executing, s')"
  shows "work rk s' < work rk s"
  using step_control [OF assms(1,3,4)] assms(2)
  by (intro control_work) (auto simp: ranked_def list_all_iff)

lemma run_total:
  assumes "ffi_stack_ok E" "ranked rk M" "run_state_wf s"
  shows "\<exists>y. run E M s = Some y"
  using assms(3)
proof (induction "work rk s" arbitrary: s rule: less_induct)
  case less
  show ?case
  proof (cases "\<exists>s'. step E M s = (Ok Executing, s')")
    case True
    then obtain s' where s': "step E M s = (Ok Executing, s')" by blast
    have "run_state_wf s'"
      using keepsD [OF keeps_wf_step [OF assms(1)] less.prems s'] .
    then have "\<exists>y. run E M s' = Some y"
      using less.hyps step_work [OF assms(1,2) less.prems s'] by blast
    then show ?thesis by (subst run.simps) (simp add: s')
  next
    case False
    then show ?thesis
      by (subst run.simps) (auto split: prod.split result.split machine_status.split)
  qed
qed

section \<open>Calls and returns\<close>

text \<open>The executing steps from one state to another that stay at call depth \<open>k\<close> or deeper.\<close>

inductive steps_above :: "'io vm_env \<Rightarrow> machine \<Rightarrow> nat \<Rightarrow> 'io run_state \<Rightarrow> 'io run_state \<Rightarrow> bool"
  for E M k s where
  here: "steps_above E M k s s"
| more: "steps_above E M k s t \<Longrightarrow> step E M t = (Ok Executing, u) \<Longrightarrow> k \<le> length (rs_call_state u) \<Longrightarrow>
    steps_above E M k s u"

text \<open>What a deeper function cannot reach: the outer return addresses and function scopes, and the globals.\<close>

definition outer_frames :: "nat \<Rightarrow> 'io run_state \<Rightarrow> nat list \<times> block_scope list list \<times> (string, pvalue) btree_map" where
  "outer_frames k s = (take k (rs_call_state s), take k (sm_locals (rs_scope s)), sm_globals (rs_scope s))"

lemma take_butlast_eq:
  "butlast xs = butlast ys \<Longrightarrow> length xs = length ys \<Longrightarrow> k < length ys \<Longrightarrow> take k xs = take k ys"
  by (metis take_butlast)

lemma frame_is_outer:
  assumes "frame_is n cs sc s" "length (sm_locals sc) = Suc (length cs)" "k \<le> length cs"
  shows "outer_frames k s = (take k cs, take k (sm_locals sc), sm_globals sc)"
  using assms take_butlast_eq [of "sm_locals (rs_scope s)" "sm_locals sc" k]
  by (auto simp: outer_frames_def frame_is_def same_outer_def)

lemma control_kinds:
  assumes "control pc cs sc i s"
  obtains (frame) n where "frame_is n cs sc s"
    | (call) "rs_call_state s = cs @ [pc]" "rs_scope s = enter_function sc"
    | (return) "cs \<noteq> []" "rs_pc s = Suc (last cs)" "rs_call_state s = butlast cs"
      "rs_scope s = sc\<lparr>sm_locals := butlast (sm_locals sc)\<rparr>"
  using assms by (cases "(pc, cs, sc, i, s)" rule: control.cases) (auto intro: that)

lemma control_outer:
  assumes "control pc (rs_call_state s) (rs_scope s) i s'" "run_state_wf s" "k \<le> length (rs_call_state s)"
    "k \<le> length (rs_call_state s')"
  shows "outer_frames k s' = outer_frames k s"
  using assms(1)
proof (cases rule: control_kinds)
  case (frame n)
  then show ?thesis
    using frame_is_outer [OF frame] assms(2,3) by (simp add: run_state_wf_def outer_frames_def)
next
  case call
  then show ?thesis
    using assms(2,3) by (simp add: run_state_wf_def outer_frames_def enter_function_def)
next
  case return
  then have "k < length (rs_call_state s)" using assms(4) by (simp add: Suc_le_eq [symmetric] flip: length_greater_0_conv)
  with return show ?thesis
    using assms(2) by (simp add: run_state_wf_def outer_frames_def take_butlast)
qed

lemma steps_above_outer:
  assumes "steps_above E M k s t" "ffi_stack_ok E" "run_state_wf s" "k \<le> length (rs_call_state s)"
  shows "outer_frames k t = outer_frames k s \<and> run_state_wf t \<and> k \<le> length (rs_call_state t)"
  using assms
proof (induction rule: steps_above.induct)
  case (more t u)
  then have t: "outer_frames k t = outer_frames k s" "run_state_wf t" "k \<le> length (rs_call_state t)" by auto
  have "control (rs_pc t) (rs_call_state t) (rs_scope t) (mc_progmem M ! rs_pc t) u"
    using step_control [OF more.prems(1) t(2) more.hyps(2)] by simp
  then have "outer_frames k u = outer_frames k t"
    using control_outer t(2,3) more.hyps(3) by blast
  then show ?case
    using t keepsD [OF keeps_wf_step [OF more.prems(1)] t(2) more.hyps(2)] more.hyps(3) by simp
qed simp

lemma call_return:
  assumes "ffi_stack_ok E" "run_state_wf s" "step E M s = (Ok Executing, s1)"
    "mc_progmem M ! rs_pc s = ICall (Resolved n)"
    "steps_above E M (Suc (length (rs_call_state s))) s1 t"
    "step E M t = (Ok Executing, u)" "length (rs_call_state u) = length (rs_call_state s)"
  shows "rs_scope u = rs_scope s \<and> rs_call_state u = rs_call_state s \<and> rs_pc u = Suc (rs_pc s)"
proof -
  let ?k = "Suc (length (rs_call_state s))"
  have s1: "rs_call_state s1 = rs_call_state s @ [rs_pc s]" "rs_scope s1 = enter_function (rs_scope s)"
    using step_control [OF assms(1,2,3)] assms(4) by auto
  have wf1: "run_state_wf s1"
    using keepsD [OF keeps_wf_step [OF assms(1)] assms(2,3)] .
  have t: "outer_frames ?k t = outer_frames ?k s1" "run_state_wf t" "?k \<le> length (rs_call_state t)"
    using steps_above_outer [OF assms(5,1) wf1] s1 by auto
  have "control (rs_pc t) (rs_call_state t) (rs_scope t) (mc_progmem M ! rs_pc t) u"
    using step_control [OF assms(1) t(2) assms(6)] by simp
  then show ?thesis
  proof (cases rule: control_kinds)
    case return
    then have len: "length (rs_call_state t) = ?k" using assms(7) t(3) by auto
    with t(1) s1 have cs: "rs_call_state t = rs_call_state s @ [rs_pc s]"
      and glob: "sm_globals (rs_scope t) = sm_globals (rs_scope s)"
      and loc: "take ?k (sm_locals (rs_scope t)) = sm_locals (rs_scope s)"
      using assms(2) by (auto simp: outer_frames_def enter_function_def run_state_wf_def)
    have "butlast (sm_locals (rs_scope t)) = sm_locals (rs_scope s)"
      using loc t(2) len by (simp add: run_state_wf_def butlast_conv_take)
    with return cs glob show ?thesis by simp
  qed (use t(3) assms(7) in \<open>auto simp: frame_is_def\<close>)
qed

section \<open>Entry points\<close>

lemma run_state_new_wf: "run_state_wf (run_state_new M io ctx)"
  by (simp add: run_state_wf_def run_state_new_def scope_new_def)

lemma keeps_wf_setup_function [keeps_rules]: "keeps run_state_wf (setup_function M l)"
  unfolding setup_function_def set_pc_by_label_def
  by (intro keeps_rules keeps_pmodify) (auto simp: run_state_wf_def scope_clear_def)

lemma keeps_wf_check_fields [keeps_rules]: "keeps run_state_wf (check_fields M def fs)"
  by (induction fs) (auto simp del: fits_type_simp intro!: keeps_rules)

lemma keeps_wf_check_args [keeps_rules]: "keeps run_state_wf (check_args defs args)"
  by (induction defs args rule: check_args.induct) (auto simp del: fits_type_simp intro!: keeps_rules)

lemma keeps_wf_push_all [keeps_rules]: "keeps run_state_wf (push_all M args)"
  by (induction args) (auto intro!: keeps_rules)

lemma keeps_wf_setup [keeps_rules]:
  "keeps run_state_wf (setup_command M name lt st)" "keeps run_state_wf (setup_action M name args)"
  unfolding setup_command_def setup_action_def by (intro keeps_rules)+

lemma run_after_total:
  assumes "ffi_stack_ok E" "ranked rk M" "run_state_wf s" "keeps run_state_wf setup"
  shows "\<exists>r s'. run_after E M setup s = Some (r, s') \<and> run_state_wf s'"
proof (cases "setup s")
  case (Pair r s1)
  have wf: "run_state_wf s1" using keepsD [OF assms(4,3) Pair] .
  obtain y where y: "run E M s1 = Some y" using run_total [OF assms(1,2) wf] by blast
  with wf run_wf [OF y assms(1) wf] Pair show ?thesis
    by (cases r; cases y) (auto simp: run_after_def)
qed

text \<open>An environment without facts or foreign functions, for the evaluations below.\<close>

definition null_env :: "unit vm_env" where
  "null_env = \<lparr>io_fact_insert = (\<lambda>_ _ _. preturn ()), io_fact_delete = (\<lambda>_ _. pfail FactNotFound),
     io_fact_query = (\<lambda>_ _ _. Ok []), io_publish = (\<lambda>_ _ io. io), io_effect = (\<lambda>_ _ _ _ io. io),
     io_call = (\<lambda>m _ _. pfail (machine_error_new (FfiModuleNotDefined m))),
     to_allocvec = (\<lambda>_. None), from_bytes = (\<lambda>_. None)\<rparr>"

definition demo_machine :: machine where
  "demo_machine = (machine_new
     [IDef ''x'', ICall (Resolved 3), IReturn, IConst (VInt 2), IReturn])
       \<lparr>mc_labels := [(Label ''act'' LAction, 0)],
        mc_action_defs := [(''act'', [\<lparr>fd_identifier = ''x'', fd_field_type = TInt\<rparr>])]\<rparr>"

lemma null_env_ffi [simp]: "ffi_stack_ok null_env"
  by (simp add: ffi_stack_ok_def null_env_def pfail_def)

lemma demo_machine_ranked [simp]: "ranked (\<lambda>i. 10 - i) demo_machine"
  by (simp add: ranked_def demo_machine_def machine_new_def upt_rec)

section \<open>Properties\<close>

text \<open>
  C1. A program whose control flow graph, call edges included, has no cycle always
  returns: calling any action or any command policy of such a machine ends with an exit
  reason, an error or a panic, whatever the arguments, the facts and the foreign
  functions are, and leaves a run state whose stack is within its capacity of 100 and
  which has one function scope for each pending call and one more.
\<close>

theorem calls_return:
  assumes "ffi_stack_ok E" "ranked rk M"
  shows "(\<exists>r s'. machine_call_action E M name args io ctx = Some (r, s') \<and> run_state_wf s') \<and>
    (\<exists>r s'. machine_call_command_policy E M name this_data envelope io ctx = Some (r, s') \<and> run_state_wf s')"
  unfolding machine_call_action_def machine_call_command_policy_def call_action_def call_command_policy_def
  using assms run_state_new_wf by (intro conjI run_after_total) (auto intro!: keeps_rules)

theorem calls_return_witness:
  "\<exists>r s'. machine_call_action null_env demo_machine ''act'' [VInt 1] () (CtxOpen ''c'') = Some (r, s') \<and> run_state_wf s'"
  using calls_return [OF null_env_ffi demo_machine_ranked] by blast

text \<open>
  C2. A function call is transparent to its caller. From the call until the step that
  brings the call depth back to the caller's, nothing the callee does (including calls
  of its own) changes the caller's variables, the globals or the pending return
  addresses, and execution resumes at the instruction after the call.
\<close>

theorem call_is_transparent:
  assumes "ffi_stack_ok E" "run_state_wf s" "step E M s = (Ok Executing, s1)"
    "mc_progmem M ! rs_pc s = ICall (Resolved n)"
    "steps_above E M (Suc (length (rs_call_state s))) s1 t"
    "step E M t = (Ok Executing, u)" "length (rs_call_state u) = length (rs_call_state s)"
  shows "rs_scope u = rs_scope s \<and> rs_call_state u = rs_call_state s \<and> rs_pc u = Suc (rs_pc s)"
  using assms by (rule call_return)

definition demo_state :: "nat \<Rightarrow> unit run_state" where
  "demo_state n = \<lparr>rs_scope = \<lparr>sm_globals = [], sm_locals = [[[(''x'', VInt 1)]]] @ (if n = 1 then [] else [[[]]])\<rparr>,
     rs_stack = (if n = 4 then [VInt 2] else []), rs_call_state = (if n = 1 then [] else [1]), rs_pc = n, rs_io = (),
     rs_ctx = CtxOpen ''c'', rs_query_iter_stack = []\<rparr>"

lemmas vm_eval = step_def demo_machine_def machine_new_def demo_state_def exec_const_def exec_return_def
  prog_defs ipush_def push_value_def vec_push_def STACK_SIZE_def enter_function_def fall_def scope_op_def
  exit_function_def advance_pc_def usize_checked_add_def usize_limit_def

theorem call_is_transparent_witness:
  "\<exists>u. step null_env demo_machine (demo_state 4) = (Ok Executing, u) \<and>
     rs_scope u = rs_scope (demo_state 1) \<and> rs_call_state u = [] \<and> rs_pc u = 2"
proof -
  have s1: "step null_env demo_machine (demo_state 1) = (Ok Executing, demo_state 3)"
    by (simp add: vm_eval)
  have s3: "step null_env demo_machine (demo_state 3) = (Ok Executing, demo_state 4)"
    by (simp add: vm_eval)
  let ?u = "(demo_state 1)\<lparr>rs_pc := 2, rs_stack := [VInt 2]\<rparr>"
  have s4: "step null_env demo_machine (demo_state 4) = (Ok Executing, ?u)"
    by (simp add: vm_eval)
  have "steps_above null_env demo_machine (Suc (length (rs_call_state (demo_state 1)))) (demo_state 3) (demo_state 4)"
    by (rule steps_above.more [OF steps_above.here s3]) (simp add: demo_state_def)
  then show ?thesis
    using call_is_transparent [OF null_env_ffi _ s1 _ _ s4, of 3] s4
    by (simp add: demo_state_def demo_machine_def machine_new_def run_state_wf_def STACK_SIZE_def)
qed

end
