(* ===== verification/Vm_Spec.thy ===== *)
theory Vm_Spec
  imports Vm_Safety
begin

text \<open>
  What single instructions and the entry points compute: checked arithmetic, fact
  queries and counts, the schema checks on structs and facts, and the preparation of a
  command.
\<close>

section \<open>Stack operations\<close>

lemma ipop_snoc:
  "rs_stack s = xs @ [v] \<Longrightarrow> conv v = Ok a \<Longrightarrow> ipop M conv s = (Ok a, s\<lparr>rs_stack := xs\<rparr>)"
  by (simp add: ipop_def ipop_value_def pop_value_def lift_conv_def prog_defs)

lemma ipush_ok: "length (rs_stack s) < STACK_SIZE \<Longrightarrow> ipush M v s = (Ok (), s\<lparr>rs_stack := rs_stack s @ [v]\<rparr>)"
  by (simp add: ipush_def push_value_def vec_push_def)

lemma fall_Ok: "m s = (Ok (), s') \<Longrightarrow> fall m s = (Ok Fallthrough, s')"
  by (simp add: fall_def prog_defs)

lemma fall_ipush:
  "length (rs_stack s) < STACK_SIZE \<Longrightarrow> fall (ipush M v) s = (Ok Fallthrough, s\<lparr>rs_stack := rs_stack s @ [v]\<rparr>)"
  by (simp add: fall_Ok ipush_ok)

section \<open>Arithmetic\<close>

lemma exec_arith_stack:
  assumes "rs_stack s = xs @ [VInt a, VInt b]" "length xs + 2 \<le> STACK_SIZE"
    "from_position IntegerOverflow (rs_pc s) (mc_codemap M) = (Ok err :: (machine_error, machine_error) result)"
  shows "exec_arith M f s = (case f a b of
      Some r \<Rightarrow> (Ok Fallthrough, s\<lparr>rs_stack := xs @ [VInt r]\<rparr>)
    | None \<Rightarrow> (Err err, s\<lparr>rs_stack := xs\<rparr>))"
proof -
  have "ipop M try_i64 s = (Ok b, s\<lparr>rs_stack := xs @ [VInt a]\<rparr>)"
    using assms(1) by (intro ipop_snoc) auto
  moreover have "ipop M try_i64 (s\<lparr>rs_stack := xs @ [VInt a]\<rparr>) = (Ok a, s\<lparr>rs_stack := xs\<rparr>)"
    by (subst ipop_snoc) auto
  moreover have "mk_err M IntegerOverflow (s\<lparr>rs_stack := xs\<rparr>) = (Ok err, s\<lparr>rs_stack := xs\<rparr>)"
    using assms(3) by (simp add: mk_err_def)
  ultimately show ?thesis
    using assms(2) by (simp add: exec_arith_def pbind_def pfail_def fall_ipush split: option.split)
qed

section \<open>Queries\<close>

abbreviation matches :: "fact \<Rightarrow> fact_key list \<times> fact_value list \<Rightarrow> bool" where
  "matches f kv \<equiv> fact_match f (fst kv) (snd kv)"

lemma first_match_find: "first_match qf (map Ok fs) = map_option Ok (find (matches qf) fs)"
  by (induction fs) auto

lemma count_facts_done: "\<not> sint c < sint limit \<Longrightarrow> count_facts M f limit items c = preturn c"
  by (cases items) auto

lemma i64_checked_Suc: "sint (c :: i64) < sint (limit :: i64) \<Longrightarrow> i64_checked_add c 1 = Some (c + 1)"
  using sint_in_i64 [of limit] sint_in_i64 [of c] by (simp add: i64_checked_add_def in_i64_def)

lemma sint_Suc: "sint (c :: i64) < sint (limit :: i64) \<Longrightarrow> sint (c + 1) = sint c + 1"
  using i64_checked_Suc [of c limit] i64_checked_add_Some [of c 1 "c + 1"] by simp

lemma count_facts_spec:
  "sint c \<le> sint limit \<Longrightarrow>
   \<exists>n. count_facts M f limit (map Ok fs) c = preturn n \<and>
     sint n = min (sint limit) (sint c + int (length (filter (matches f) fs)))"
proof (induction fs arbitrary: c)
  case Nil
  then show ?case by (auto simp: min_def)
next
  case (Cons kv fs)
  show ?case
  proof (cases "sint c < sint limit \<and> matches f kv")
    case True
    then have "sint (c + 1) \<le> sint limit" using sint_Suc [of c limit] by simp
    then show ?thesis
      using Cons.IH [of "c + 1"] True
      by (simp add: i64_checked_Suc [of c limit] sint_Suc [of c limit] add.assoc)
  next
    case False
    then show ?thesis
      using Cons.IH [of c] Cons.prems by (auto simp: count_facts_done min_def)
  qed
qed

section \<open>Schema checks\<close>

lemma fields_present_iff: "fields_present fs defs \<longleftrightarrow> (\<forall>d \<in> set defs. bt_contains fs (fd_identifier d))"
  by (induction defs) (auto simp: bt_contains_def split: option.split)

lemma bt_contains_keys: "bt_contains m k \<longleftrightarrow> k \<in> fst ` set m"
  by (simp add: bt_contains_def bt_get_None_iff)

lemma list_ex_field: "list_ex (\<lambda>v. fd_identifier v = n) defs \<longleftrightarrow> n \<in> fd_identifier ` set defs"
  by (auto simp: list_ex_iff)

lemma struct_schema_ok_iff:
  "struct_schema_ok M s \<longleftrightarrow> (\<exists>defs. bt_get (mc_struct_defs M) (struct_name s) = Some defs \<and>
     fst ` set (struct_fields s) = fd_identifier ` set defs)"
  by (auto simp: struct_schema_ok_def fields_present_iff bt_contains_keys list_ex_field list_all_iff
      simp flip: image_subset_iff split: option.split)

text \<open>A value fits its own type and the optional type of it; \<open>None\<close> fits every optional type.\<close>

definition value_fits :: "pvalue \<Rightarrow> vtype \<Rightarrow> bool" where
  "value_fits v t \<longleftrightarrow> (case vtype_of v of
      None \<Rightarrow> (\<exists>u. t = TOptional u)
    | Some u \<Rightarrow> t = u \<or> t = TOptional u)"

lemma fits_type_value: "fits_type v t = Ok (value_fits v t)"
  by (simp add: value_fits_def)

definition fields_fit :: "(string, vtype) btree_map \<Rightarrow> (string \<times> pvalue) list \<Rightarrow> bool" where
  "fields_fit def fs = list_all (\<lambda>(n, v). case bt_get def n of None \<Rightarrow> False | Some t \<Rightarrow> value_fits v t) fs"

lemma check_fields_Ok: "check_fields M def fs s = (Ok (), s') \<Longrightarrow> s' = s \<and> fields_fit def fs"
proof (induction fs)
  case Nil
  then show ?case by (simp add: preturn_def fields_fit_def)
next
  case (Cons f fs)
  then show ?case
    by (cases f)
      (auto simp: fields_fit_def fits_type_value plift_def fail_at_def mk_err_def pfail_def
        simp del: fits_type_simp split: option.splits if_splits elim!: pbind_cases)
qed

section \<open>Entry points\<close>

lemma setup_function_Ok:
  "setup_function M l s = (Ok (), s') \<longleftrightarrow> (\<exists>addr. bt_get (mc_labels M) l = Some addr \<and>
     s' = s\<lparr>rs_pc := addr, rs_call_state := [], rs_scope := scope_clear (rs_scope s)\<rparr>)"
  by (auto simp: setup_function_def set_pc_by_label_def fail_at_def mk_err_def prog_defs
      split: option.splits result.splits)

lemma setup_command_Ok:
  assumes "setup_command M name lt st s = (Ok (), s')"
  shows "\<exists>addr def. bt_get (mc_labels M) (label_new name lt) = Some addr \<and>
    bt_get (mc_command_defs M) name = Some def \<and> length (struct_fields st) = length def \<and>
    fields_fit def (struct_fields st) \<and>
    scope_set ''this'' (VStruct st) (scope_clear (rs_scope s)) = (Ok (), rs_scope s') \<and>
    rs_pc s' = addr \<and> rs_call_state s' = [] \<and> rs_stack s' = rs_stack s"
proof -
  from assms obtain u v def where u: "setup_function M (label_new name lt) s = (Ok (), u)"
    "bt_get (mc_command_defs M) name = Some def" "length (struct_fields st) = length def"
    "check_fields M def (struct_fields st) u = (Ok (), v)"
    "scope_op (scope_set ''this'' (VStruct st)) (fail_at M) v = (Ok (), s')"
    by (auto simp: setup_command_def mk_err_def pfail_def fail_at_def split: option.splits if_splits
        elim!: pbind_cases)
  have v: "v = u" "fields_fit def (struct_fields st)"
    using check_fields_Ok [OF u(4)] by auto
  from u(5) v obtain sc where sc: "scope_set ''this'' (VStruct st) (rs_scope u) = (Ok (), sc)"
    "s' = u\<lparr>rs_scope := sc\<rparr>"
    by (auto simp: scope_op_def fail_at_def mk_err_def prog_defs split: prod.splits result.splits)
  from u(1) obtain addr where "bt_get (mc_labels M) (label_new name lt) = Some addr"
    "u = s\<lparr>rs_pc := addr, rs_call_state := [], rs_scope := scope_clear (rs_scope s)\<rparr>"
    by (auto simp: setup_function_Ok)
  with sc u(2,3) v(2) show ?thesis by simp
qed

section \<open>Properties\<close>



lemma validate_fact_literal_ok:
  "bt_get (mc_fact_defs M) (fact_name f) = Some schema \<Longrightarrow> validate_fact_schema f schema \<Longrightarrow>
   validate_fact_literal M f = preturn ()"
  by (simp add: validate_fact_literal_def)

lemma query_facts_Ok:
  "io_fact_query E (rs_io s) n ks = Ok items \<Longrightarrow> query_facts E n ks s = (Ok items, s)"
  by (simp add: query_facts_def io_op_def)

text \<open>
  C4. Counting and querying facts. For a fact literal that agrees with its schema, and a
  store that yields the facts \<open>fs\<close>, \<open>FactCount\<close> pushes the number of facts that match the
  literal, capped at its limit, and \<open>Query\<close> pushes the first matching fact as a struct
  named after the fact, or \<open>None\<close> when no fact matches.
\<close>

theorem query_results:
  fixes s :: "'io run_state"
  assumes "rs_stack s = xs @ [VFact f]" "length xs < STACK_SIZE"
    "bt_get (mc_fact_defs M) (fact_name f) = Some schema" "validate_fact_schema f schema"
    "io_fact_query E (rs_io s) (fact_name f) (fact_keys f) = Ok (map Ok fs)" "0 \<le> sint limit"
  shows "(\<exists>n. exec_instr E M (IFactCount limit) s = (Ok Fallthrough, s\<lparr>rs_stack := xs @ [VInt n]\<rparr>) \<and>
       sint n = min (sint limit) (int (length (filter (matches f) fs)))) \<and>
    exec_instr E M IQuery s = (Ok Fallthrough, s\<lparr>rs_stack := xs @ [case find (matches f) fs of
       None \<Rightarrow> VNone | Some kv \<Rightarrow> VStruct (fact_to_struct (fact_name f) (fst kv) (snd kv))]\<rparr>)"
proof -
  have "ipop M try_fact s = (Ok f, s\<lparr>rs_stack := xs\<rparr>)"
    using assms(1) by (intro ipop_snoc) auto
  moreover obtain n where "(count_facts M f limit (map Ok fs) 0 :: ('io, i64) vm) = preturn n"
    "sint n = min (sint limit) (int (length (filter (matches f) fs)))"
    using count_facts_spec [of 0 limit M f fs] assms(6) by auto
  ultimately show ?thesis
    using assms(2-5)
    by (auto simp: exec_fact_count_def exec_query_def pbind_def preturn_def lift_item_def plift_def
        validate_fact_literal_ok query_facts_Ok first_match_find fall_ipush split: option.split)
qed

definition demo_facts :: "(fact_key list \<times> fact_value list) list" where
  "demo_facts = [([FactKey ''k'' (HInt 1)], [FactValue ''v'' (VInt 5)]),
     ([FactKey ''k'' (HInt 2)], [FactValue ''v'' (VInt 7)]), ([FactKey ''k'' (HInt 3)], [FactValue ''v'' (VInt 7)])]"

definition demo_query :: fact where
  "demo_query = Fact ''F'' [] [FactValue ''v'' (VInt 7)]"

definition demo_schema :: fact_definition where
  "demo_schema = \<lparr>fdef_immutable = False, fdef_identifier = ''F'',
     fdef_key = [\<lparr>fd_identifier = ''k'', fd_field_type = TInt\<rparr>],
     fdef_value = [\<lparr>fd_identifier = ''v'', fd_field_type = TInt\<rparr>]\<rparr>"

theorem query_results_witness:
  "exec_instr (null_env\<lparr>io_fact_query := (\<lambda>_ _ _. Ok (map Ok demo_facts))\<rparr>)
     (demo_machine\<lparr>mc_fact_defs := [(''F'', demo_schema)]\<rparr>) IQuery
     ((demo_state 1)\<lparr>rs_stack := [VFact demo_query]\<rparr>) =
   (Ok Fallthrough, (demo_state 1)\<lparr>rs_stack := [VStruct (Struct ''F'' [(''k'', VInt 2), (''v'', VInt 7)])]\<rparr>)"
  using query_results [of "(demo_state 1)\<lparr>rs_stack := [VFact demo_query]\<rparr>" "[]" demo_query
      "demo_machine\<lparr>mc_fact_defs := [(''F'', demo_schema)]\<rparr>" demo_schema
      "null_env\<lparr>io_fact_query := (\<lambda>_ _ _. Ok (map Ok demo_facts))\<rparr>" demo_facts 1]
  by (simp add: demo_query_def demo_schema_def demo_facts_def STACK_SIZE_def validate_fact_schema_def
      fact_match_def fact_to_struct_def struct_new_def bt_collect_def)


text \<open>
  C6. Preparing a command succeeds only for a \<open>this\<close> struct that has as many fields as the
  command and whose every field is declared and fits its declared type. The machine then
  stands at the label of the requested block with no pending call, \<open>this\<close> is defined as
  the given struct, and every other name is looked up among the globals only.
\<close>

theorem setup_command_sound:
  assumes "setup_command M name lt st s = (Ok (), s')"
  shows "(\<exists>def. bt_get (mc_command_defs M) name = Some def \<and>
      length (struct_fields st) = length def \<and> fields_fit def (struct_fields st)) \<and>
    bt_get (mc_labels M) (label_new name lt) = Some (rs_pc s') \<and> rs_call_state s' = [] \<and>
    scope_get (rs_scope s') ''this'' = Ok (VStruct st) \<and>
    (\<forall>n. n \<noteq> ''this'' \<longrightarrow>
       scope_get (rs_scope s') n = ok_or (NotDefined n) (bt_get (sm_globals (rs_scope s)) n))"
proof -
  note ok = setup_command_Ok [OF assms]
  then have set: "scope_set ''this'' (VStruct st) (scope_clear (rs_scope s)) = (Ok (), rs_scope s')" by blast
  have "scope_get (scope_clear (rs_scope s)) n = ok_or (NotDefined n) (bt_get (sm_globals (rs_scope s)) n)" for n
    by (simp add: scope_get_def scope_clear_def split: option.split)
  then show ?thesis
    using ok sm.get_set [OF set] sm.get_set_other [OF set] by auto
qed

definition demo_command_machine :: machine where
  "demo_command_machine = (machine_new [IReturn])\<lparr>mc_labels := [(Label ''Cmd'' LCommandPolicy, 0)],
     mc_command_defs := [(''Cmd'', [(''a'', TInt), (''b'', TOptional TString)])]\<rparr>"

theorem setup_command_sound_witness:
  "\<exists>s'. setup_command demo_command_machine ''Cmd'' LCommandPolicy (Struct ''Cmd'' [(''a'', VInt 1), (''b'', VNone)])
       (demo_state 1) = (Ok (), s') \<and>
     scope_get (rs_scope s') ''this'' = Ok (VStruct (Struct ''Cmd'' [(''a'', VInt 1), (''b'', VNone)]))"
proof -
  let ?st = "Struct ''Cmd'' [(''a'', VInt 1), (''b'', VNone)]"
  have "\<exists>s'. setup_command demo_command_machine ''Cmd'' LCommandPolicy ?st (demo_state 1) = (Ok (), s')"
    by (simp add: setup_command_def setup_function_def set_pc_by_label_def demo_command_machine_def
        machine_new_def label_new_def prog_defs mk_err_def demo_state_def scope_clear_def scope_op_def
        scope_set_def bt_contains_def)
  then show ?thesis
    using setup_command_sound [of demo_command_machine "''Cmd''" LCommandPolicy ?st "demo_state 1"] by blast
qed

end
