(* ===== verification/Vm_Io.thy ===== *)
theory Vm_Io
  imports Fact_Codec Fact_Store Vm_Spec
begin

text \<open>
  The machine's I/O on top of graph storage (\<open>VmPolicyIO\<close> and \<open>VmFactCursor\<close> of
  \<open>aranya-runtime/src/vm_policy/io.rs\<close>): facts are encoded and kept in a fact perspective,
  effects go to a sink, published commands to a stack.
\<close>

section \<open>Model\<close>

record vm_effect =
  eff_name :: string
  eff_fields :: "kv_pair list"
  eff_command :: id
  eff_recalled :: bool

text \<open>The sink is the list of the effects it consumed.\<close>

record ('p, 'g) vm_policy_io =
  vpio_facts :: 'p
  vpio_sink :: "vm_effect list"
  vpio_publish_stack :: "(string \<times> kv_pair list) list"
  vpio_engine :: 'g

text \<open>The cryptographic engine and the state of the foreign modules are one parameter \<open>'g\<close>.\<close>

type_synonym 'g ffi_module = "nat \<Rightarrow> command_context \<Rightarrow> ('g \<times> pvalue list, unit, machine_error) prog"

definition vpio_new :: "'p \<Rightarrow> vm_effect list \<Rightarrow> 'g \<Rightarrow> ('p, 'g) vm_policy_io" where
  "vpio_new facts sink engine =
     \<lparr>vpio_facts = facts, vpio_sink = sink, vpio_publish_stack = [], vpio_engine = engine\<rparr>"

definition into_publish_stack :: "('p, 'g) vm_policy_io \<Rightarrow> (string \<times> kv_pair list) list" where
  "into_publish_stack io = vpio_publish_stack io"

text \<open>
  The operations of the fact perspective, and the \<open>postcard\<close> serialisation of a list of
  fact values, are parameters.
\<close>

record 'p fact_ops =
  fo_query_prefix :: "'p \<Rightarrow> string \<Rightarrow> keys \<Rightarrow> ((stored_fact, storage_error) result list, storage_error) result"
  fo_insert :: "string \<Rightarrow> keys \<Rightarrow> bytes \<Rightarrow> 'p \<Rightarrow> 'p"
  fo_delete :: "string \<Rightarrow> keys \<Rightarrow> 'p \<Rightarrow> 'p"
  fo_to_allocvec :: "fact_value list \<Rightarrow> bytes option"
  fo_from_bytes :: "bytes \<Rightarrow> fact_value list option"

definition ser_values :: "'p fact_ops \<Rightarrow> fact_value list \<Rightarrow> (bytes, machine_io_error) result" where
  "ser_values ops vs = ok_or IOInternal (fo_to_allocvec ops vs)"

definition deser_values :: "'p fact_ops \<Rightarrow> bytes \<Rightarrow> (fact_value list, machine_io_error) result" where
  "deser_values ops bs = ok_or IOInternal (fo_from_bytes ops bs)"

definition deser_keys :: "keys \<Rightarrow> (fact_key list, machine_io_error) result" where
  "deser_keys ks = rseq (map (\<lambda>k. map_err (\<lambda>_. IOInternal) (deser_key k)) ks)"

definition vpio_fact_insert ::
  "'p fact_ops \<Rightarrow> string \<Rightarrow> fact_key list \<Rightarrow> fact_value list \<Rightarrow> (('p, 'g) vm_policy_io, unit, machine_io_error) prog" where
  "vpio_fact_insert ops name ks vs =
     pbind (plift (ser_values ops vs)) (\<lambda>v.
     pmodify (\<lambda>io. io\<lparr>vpio_facts := fo_insert ops name (ser_keys ks) v (vpio_facts io)\<rparr>))"

definition vpio_fact_delete ::
  "'p fact_ops \<Rightarrow> string \<Rightarrow> fact_key list \<Rightarrow> (('p, 'g) vm_policy_io, unit, machine_io_error) prog" where
  "vpio_fact_delete ops name ks =
     pmodify (\<lambda>io. io\<lparr>vpio_facts := fo_delete ops name (ser_keys ks) (vpio_facts io)\<rparr>)"

text \<open>One step of \<open>VmFactCursor::next\<close>.\<close>

definition cursor_item :: "'p fact_ops \<Rightarrow> (stored_fact, storage_error) result \<Rightarrow> query_item" where
  "cursor_item ops b =
     rbind (map_err (\<lambda>_. IOInternal) b) (\<lambda>f.
     rbind (deser_keys (sf_key f)) (\<lambda>k.
     rbind (deser_values ops (sf_value f)) (\<lambda>v. Ok (k, v))))"

definition vpio_fact_query ::
  "'p fact_ops \<Rightarrow> ('p, 'g) vm_policy_io \<Rightarrow> string \<Rightarrow> fact_key list \<Rightarrow> (query_item list, machine_io_error) result" where
  "vpio_fact_query ops io name ks =
     rmap (map (cursor_item ops))
       (map_err (\<lambda>_. IOInternal) (fo_query_prefix ops (vpio_facts io) name (ser_keys ks)))"

definition vpio_publish :: "string \<Rightarrow> kv_pair list \<Rightarrow> ('p, 'g) vm_policy_io \<Rightarrow> ('p, 'g) vm_policy_io" where
  "vpio_publish name fs io = io\<lparr>vpio_publish_stack := vpio_publish_stack io @ [(name, fs)]\<rparr>"

definition vpio_effect :: "string \<Rightarrow> kv_pair list \<Rightarrow> id \<Rightarrow> bool \<Rightarrow> ('p, 'g) vm_policy_io \<Rightarrow> ('p, 'g) vm_policy_io" where
  "vpio_effect name fs command recalled io = io\<lparr>vpio_sink := vpio_sink io @
     [\<lparr>eff_name = name, eff_fields = fs, eff_command = command, eff_recalled = recalled\<rparr>]\<rparr>"

text \<open>The foreign function modules, by index.\<close>

definition vpio_call ::
  "'g ffi_module list \<Rightarrow> nat \<Rightarrow> nat \<Rightarrow> command_context \<Rightarrow> (('p, 'g) vm_policy_io \<times> pvalue list, unit, machine_error) prog" where
  "vpio_call ffis module procedure ctx = (\<lambda>(io, st).
     if module < length ffis
     then case (ffis ! module) procedure ctx (vpio_engine io, st) of
            (r, g, st') \<Rightarrow> (r, io\<lparr>vpio_engine := g\<rparr>, st')
     else (Err (machine_error_new (FfiModuleNotDefined module)), io, st))"

definition vpio_env :: "'p fact_ops \<Rightarrow> (struct \<Rightarrow> bytes option) \<Rightarrow> (bytes \<Rightarrow> struct option) \<Rightarrow> 'g ffi_module list \<Rightarrow>
    ('p, 'g) vm_policy_io vm_env" where
  "vpio_env ops to_vec of_vec ffis =
     \<lparr>io_fact_insert = vpio_fact_insert ops, io_fact_delete = vpio_fact_delete ops,
      io_fact_query = vpio_fact_query ops, io_publish = vpio_publish, io_effect = vpio_effect,
      io_call = vpio_call ffis, to_allocvec = to_vec, from_bytes = of_vec\<rparr>"

text \<open>The in-memory fact perspective as the store.\<close>

definition mem_fact_ops ::
  "(fact_value list \<Rightarrow> bytes option) \<Rightarrow> (bytes \<Rightarrow> fact_value list option) \<Rightarrow> mem_fact_perspective fact_ops" where
  "mem_fact_ops to_vec of_vec =
     \<lparr>fo_query_prefix = (\<lambda>fp n p. Ok (map Ok (mfp_query_prefix fp n p))),
      fo_insert = mfp_insert, fo_delete = mfp_delete,
      fo_to_allocvec = to_vec, fo_from_bytes = of_vec\<rparr>"

section \<open>Lemmas\<close>

lemma deser_ser_keys: "list_all fact_key_wf ks \<Longrightarrow> deser_keys (ser_keys ks) = Ok ks"
  unfolding deser_keys_def ser_keys_def
  by (induction ks) (auto simp: deser_ser_key)

lemma ser_keys_inject:
  "list_all fact_key_wf ks \<Longrightarrow> list_all fact_key_wf ls \<Longrightarrow> ser_keys ks = ser_keys ls \<longleftrightarrow> ks = ls"
  using deser_ser_keys by (metis result.inject(1))

lemma ser_keys_prefix: "keys_start_with (ser_keys (ks @ ls)) (ser_keys ks)"
  by (simp add: keys_start_with_def ser_keys_def)

lemma cursor_item_stored:
  assumes "list_all fact_key_wf ks" "fo_from_bytes ops bs = Some vs"
  shows "cursor_item ops (Ok \<lparr>sf_key = ser_keys ks, sf_value = bs\<rparr>) = Ok (ks, vs)"
  using assms by (simp add: cursor_item_def deser_ser_keys deser_values_def)

lemma mem_query_first:
  assumes "mfp_wf (vpio_facts io)" "list_all fact_key_wf ks"
    "mfp_query (vpio_facts io) name (ser_keys ks) = Some bs" "of_vec bs = Some vs"
  obtains items where "vpio_fact_query (mem_fact_ops to_vec of_vec) io name ks = Ok (Ok (ks, vs) # items)"
proof -
  obtain fs where "mfp_query_prefix (vpio_facts io) name (ser_keys ks) = \<lparr>sf_key = ser_keys ks, sf_value = bs\<rparr> # fs"
    using mfp.prefix_first [OF assms(1,3)] by blast
  then show ?thesis
    using that cursor_item_stored [OF assms(2), of "mem_fact_ops to_vec of_vec" bs vs] assms(4)
    by (simp add: vpio_fact_query_def mem_fact_ops_def)
qed

lemma starts_with_refl [simp]: "starts_with ks ks"
  by (induction ks) auto

section \<open>Properties\<close>


definition demo_fact :: fact where
  "demo_fact = Fact ''F'' [FactKey ''k'' (HInt 2)] [FactValue ''v'' (VInt 7)]"

definition demo_fact_ops :: "mem_fact_perspective fact_ops" where
  "demo_fact_ops = mem_fact_ops (\<lambda>vs. if vs = fact_values demo_fact then Some [7] else None)
     (\<lambda>bs. if bs = [7] then Some (fact_values demo_fact) else None)"

definition demo_io_state :: "(mem_fact_perspective, unit) vm_policy_io run_state" where
  "demo_io_state = \<lparr>rs_scope = scope_new [], rs_stack = [VFact demo_fact, VFact demo_fact], rs_call_state = [],
     rs_pc = 0, rs_io = vpio_new (mfp_new FPNone) [] (), rs_ctx = CtxOpen ''c'', rs_query_iter_stack = []\<rparr>"


end
