(* ===== verification/Client_Prog.thy ===== *)
theory Client_Prog
  imports Prelude
begin

text \<open>
  Programs of the runtime client: they thread a state, return an outcome, and may call
  loops that do not end. \<open>None\<close> stands for a call that does not return.
\<close>

section \<open>The monad\<close>

type_synonym ('s, 'a, 'e) lprog = "'s \<Rightarrow> (('a, 'e) result \<times> 's) option"

definition lreturn :: "'a \<Rightarrow> ('s, 'a, 'e) lprog" where
  "lreturn a = (\<lambda>s. Some (Ok a, s))"

definition lfail :: "'e \<Rightarrow> ('s, 'a, 'e) lprog" where
  "lfail e = (\<lambda>s. Some (Err e, s))"

definition llift :: "('a, 'e) result \<Rightarrow> ('s, 'a, 'e) lprog" where
  "llift r = (\<lambda>s. Some (r, s))"

definition lread :: "('s \<Rightarrow> ('a, 'e) result option) \<Rightarrow> ('s, 'a, 'e) lprog" where
  "lread f = (\<lambda>s. map_option (\<lambda>r. (r, s)) (f s))"

definition lgets :: "('s \<Rightarrow> 'a) \<Rightarrow> ('s, 'a, 'e) lprog" where
  "lgets f = (\<lambda>s. Some (Ok (f s), s))"

definition lmodify :: "('s \<Rightarrow> 's) \<Rightarrow> ('s, unit, 'e) lprog" where
  "lmodify f = (\<lambda>s. Some (Ok (), f s))"

definition lrun :: "('s, 'a, 'e) prog \<Rightarrow> ('s, 'a, 'e) lprog" where
  "lrun m = (\<lambda>s. Some (m s))"

definition lbind :: "('s, 'a, 'e) lprog \<Rightarrow> ('a \<Rightarrow> ('s, 'b, 'e) lprog) \<Rightarrow> ('s, 'b, 'e) lprog" where
  "lbind m f = (\<lambda>s. case m s of
      None \<Rightarrow> None
    | Some (Ok a, s') \<Rightarrow> f a s'
    | Some (Err e, s') \<Rightarrow> Some (Err e, s')
    | Some (Panic p, s') \<Rightarrow> Some (Panic p, s'))"

text \<open>\<open>match\<close> on the outcome of a call, instead of leaving with \<open>?\<close>.\<close>

definition lmatch :: "('s, 'a, 'e) lprog \<Rightarrow> (('a, 'e) result \<Rightarrow> ('s, 'b, 'f) lprog) \<Rightarrow> ('s, 'b, 'f) lprog" where
  "lmatch m f = (\<lambda>s. case m s of None \<Rightarrow> None | Some (r, s') \<Rightarrow> f r s')"

lemmas lprog_defs = lreturn_def lfail_def llift_def lread_def lgets_def lmodify_def lrun_def lbind_def lmatch_def

lemma lbind_Some:
  "lbind m f s = Some (r, t) \<longleftrightarrow>
    (\<exists>a u. m s = Some (Ok a, u) \<and> f a u = Some (r, t)) \<or>
    (\<exists>e. m s = Some (Err e, t) \<and> r = Err e) \<or> (\<exists>p. m s = Some (Panic p, t) \<and> r = Panic p)"
  by (auto simp: lbind_def split: option.splits result.splits)

lemma lbind_Ok: "lbind m f s = Some (Ok b, t) \<longleftrightarrow> (\<exists>a u. m s = Some (Ok a, u) \<and> f a u = Some (Ok b, t))"
  by (auto simp: lbind_Some)

lemma lprog_Some [simp]:
  "lreturn a s = Some (r, t) \<longleftrightarrow> r = Ok a \<and> t = s"
  "lfail e s = Some (r', t) \<longleftrightarrow> r' = Err e \<and> t = s"
  "llift x s = Some (r, t) \<longleftrightarrow> r = x \<and> t = s"
  "lread g s = Some (r, t) \<longleftrightarrow> g s = Some r \<and> t = s"
  "lgets h s = Some (r, t) \<longleftrightarrow> r = Ok (h s) \<and> t = s"
  "lmodify k s = Some (q, t) \<longleftrightarrow> q = Ok () \<and> t = k s"
  "lrun m s = Some (r, t) \<longleftrightarrow> m s = (r, t)"
  by (auto simp: lprog_defs)

section \<open>Invariants and termination\<close>

text \<open>
  \<open>lkeeps I m\<close>: whenever \<open>m\<close> returns, with success or not, the invariant \<open>I\<close> holds again.
  \<open>lreturns I m\<close>: from a state with the invariant, \<open>m\<close> returns.
\<close>

definition lkeeps :: "('s \<Rightarrow> bool) \<Rightarrow> ('s, 'a, 'e) lprog \<Rightarrow> bool" where
  "lkeeps I m \<longleftrightarrow> (\<forall>s r t. I s \<longrightarrow> m s = Some (r, t) \<longrightarrow> I t)"

definition lreturns :: "('s \<Rightarrow> bool) \<Rightarrow> ('s, 'a, 'e) lprog \<Rightarrow> bool" where
  "lreturns I m \<longleftrightarrow> (\<forall>s. I s \<longrightarrow> (\<exists>r t. m s = Some (r, t)))"

named_theorems lkeeps_rules and lreturns_rules

lemma lkeepsI: "(\<And>s r t. I s \<Longrightarrow> m s = Some (r, t) \<Longrightarrow> I t) \<Longrightarrow> lkeeps I m"
  by (auto simp: lkeeps_def)

lemma lkeepsD: "lkeeps I m \<Longrightarrow> I s \<Longrightarrow> m s = Some (r, t) \<Longrightarrow> I t"
  by (auto simp: lkeeps_def)

lemma lreturnsI: "(\<And>s. I s \<Longrightarrow> \<exists>r t. m s = Some (r, t)) \<Longrightarrow> lreturns I m"
  by (auto simp: lreturns_def)

lemma lkeeps_basic [lkeeps_rules]:
  "lkeeps I (lreturn a)" "lkeeps I (lfail e)" "lkeeps I (llift r)" "lkeeps I (lread f)" "lkeeps I (lgets g)"
  by (auto simp: lkeeps_def)

lemma lkeeps_lmodify: "(\<And>s. I s \<Longrightarrow> I (f s)) \<Longrightarrow> lkeeps I (lmodify f)"
  by (auto simp: lkeeps_def)

lemma lkeeps_lbind [lkeeps_rules]: "lkeeps I m \<Longrightarrow> (\<And>a. lkeeps I (f a)) \<Longrightarrow> lkeeps I (lbind m f)"
  by (intro lkeepsI) (auto simp: lbind_Some dest: lkeepsD)

lemma lkeeps_lmatch [lkeeps_rules]: "lkeeps I m \<Longrightarrow> (\<And>r. lkeeps I (f r)) \<Longrightarrow> lkeeps I (lmatch m f)"
  by (intro lkeepsI) (auto simp: lmatch_def dest: lkeepsD split: option.splits)

lemma lkeeps_if [lkeeps_rules]: "lkeeps I m \<Longrightarrow> lkeeps I n \<Longrightarrow> lkeeps I (if b then m else n)"
  by simp

lemma lkeeps_option [lkeeps_rules]:
  "lkeeps I m \<Longrightarrow> (\<And>x. lkeeps I (f x)) \<Longrightarrow> lkeeps I (case v of None \<Rightarrow> m | Some x \<Rightarrow> f x)"
  by (cases v) auto

lemma lkeeps_result [lkeeps_rules]:
  "(\<And>x. lkeeps I (f x)) \<Longrightarrow> (\<And>x. lkeeps I (g x)) \<Longrightarrow> (\<And>x. lkeeps I (h x)) \<Longrightarrow>
   lkeeps I (case v of Ok x \<Rightarrow> f x | Err x \<Rightarrow> g x | Panic x \<Rightarrow> h x)"
  by (cases v) auto

lemma lkeeps_prod [lkeeps_rules]: "(\<And>x y. lkeeps I (f x y)) \<Longrightarrow> lkeeps I (case v of (x, y) \<Rightarrow> f x y)"
  by (cases v) auto

lemma lreturns_basic [lreturns_rules]:
  "lreturns I (lreturn a)" "lreturns I (lfail e)" "lreturns I (llift r)" "lreturns I (lgets g)" "lreturns I (lmodify k)"
  "lreturns I (lrun m)"
  by (auto simp: lreturns_def lprog_defs)

lemma lreturns_lread: "(\<And>s. I s \<Longrightarrow> f s \<noteq> None) \<Longrightarrow> lreturns I (lread f)"
  by (auto simp: lreturns_def lread_def)

lemma lreturns_lbind [lreturns_rules]:
  assumes "lreturns I m" "lkeeps I m" "\<And>a. lreturns I (f a)"
  shows "lreturns I (lbind m f)"
proof (rule lreturnsI)
  fix s assume s: "I s"
  obtain r t where rt: "m s = Some (r, t)" using assms(1) s by (auto simp: lreturns_def)
  from lkeepsD [OF assms(2) s rt] have "I t" .
  then show "\<exists>r t. lbind m f s = Some (r, t)"
    using rt assms(3) by (cases r) (auto simp: lbind_def lreturns_def)
qed

lemma lreturns_lmatch [lreturns_rules]:
  assumes "lreturns I m" "lkeeps I m" "\<And>r. lreturns I (f r)"
  shows "lreturns I (lmatch m f)"
proof (rule lreturnsI)
  fix s assume s: "I s"
  obtain r t where rt: "m s = Some (r, t)" using assms(1) s by (auto simp: lreturns_def)
  from lkeepsD [OF assms(2) s rt] have "I t" .
  then show "\<exists>r t. lmatch m f s = Some (r, t)"
    using rt assms(3) by (auto simp: lmatch_def lreturns_def)
qed

lemma lreturns_if [lreturns_rules]: "lreturns I m \<Longrightarrow> lreturns I n \<Longrightarrow> lreturns I (if b then m else n)"
  by simp

lemma lreturns_option [lreturns_rules]:
  "lreturns I m \<Longrightarrow> (\<And>x. lreturns I (f x)) \<Longrightarrow> lreturns I (case v of None \<Rightarrow> m | Some x \<Rightarrow> f x)"
  by (cases v) auto

lemma lreturns_result [lreturns_rules]:
  "(\<And>x. lreturns I (f x)) \<Longrightarrow> (\<And>x. lreturns I (g x)) \<Longrightarrow> (\<And>x. lreturns I (h x)) \<Longrightarrow>
   lreturns I (case v of Ok x \<Rightarrow> f x | Err x \<Rightarrow> g x | Panic x \<Rightarrow> h x)"
  by (cases v) auto

lemma lreturns_prod [lreturns_rules]: "(\<And>x y. lreturns I (f x y)) \<Longrightarrow> lreturns I (case v of (x, y) \<Rightarrow> f x y)"
  by (cases v) auto

section \<open>Weakest liberal preconditions\<close>

text \<open>\<open>lwlp m Q s\<close>: if \<open>m\<close> returns from \<open>s\<close>, its outcome and final state satisfy \<open>Q\<close>.\<close>

definition lwlp :: "('s, 'a, 'e) lprog \<Rightarrow> (('a, 'e) result \<Rightarrow> 's \<Rightarrow> bool) \<Rightarrow> 's \<Rightarrow> bool" where
  "lwlp m Q s \<longleftrightarrow> (\<forall>r t. m s = Some (r, t) \<longrightarrow> Q r t)"

named_theorems lwlp_simps

lemma lwlp_basic [lwlp_simps]:
  "lwlp (lreturn a) Q s = Q (Ok a) s" "lwlp (lfail e) Q s = Q (Err e) s" "lwlp (llift r) Q s = Q r s"
  "lwlp (lgets g) Q s = Q (Ok (g s)) s"
  by (auto simp: lwlp_def)

lemma lwlp_lmodify [lwlp_simps]: "lwlp (lmodify f) Q s = Q (Ok ()) (f s)"
  by (auto simp: lwlp_def)

lemma lwlp_lread [lwlp_simps]: "lwlp (lread f) Q s = (\<forall>r. f s = Some r \<longrightarrow> Q r s)"
  by (auto simp: lwlp_def)

lemma lwlp_lbind [lwlp_simps]:
  "lwlp (lbind m f) Q s =
   lwlp m (\<lambda>r t. case r of Ok a \<Rightarrow> lwlp (f a) Q t | Err e \<Rightarrow> Q (Err e) t | Panic p \<Rightarrow> Q (Panic p) t) s"
  by (auto simp: lwlp_def lbind_Some split: result.splits)

lemma lwlp_lmatch [lwlp_simps]: "lwlp (lmatch m f) Q s = lwlp m (\<lambda>r t. lwlp (f r) Q t) s"
  by (auto simp: lwlp_def lmatch_def split: option.splits)

lemma lwlp_mono: "lwlp m Q s \<Longrightarrow> (\<And>r t. Q r t \<Longrightarrow> R r t) \<Longrightarrow> lwlp m R s"
  by (auto simp: lwlp_def)

text \<open>Symbolic execution of the primitive steps, stopping at every other call.\<close>

lemma lwlp_steps:
  "lwlp (lbind (lreturn a) f) Q s = lwlp (f a) Q s"
  "lwlp (lbind (lgets g) f) Q s = lwlp (f (g s)) Q s"
  "lwlp (lbind (lmodify k) h) Q s = lwlp (h ()) Q (k s)"
  "lwlp (lbind (llift r) f) Q s = (case r of Ok a \<Rightarrow> lwlp (f a) Q s | Err e \<Rightarrow> Q (Err e) s | Panic p \<Rightarrow> Q (Panic p) s)"
  "lwlp (lbind (lread rd) f) Q s =
     (\<forall>r. rd s = Some r \<longrightarrow> (case r of Ok a \<Rightarrow> lwlp (f a) Q s | Err e \<Rightarrow> Q (Err e) s | Panic p \<Rightarrow> Q (Panic p) s))"
  by (auto simp: lwlp_simps)

text \<open>The rule for a sequence: a postcondition for the first part, split by its outcome.\<close>

lemma lwlp_lbindI:
  assumes "lwlp m R s" "\<And>a t. R (Ok a) t \<Longrightarrow> lwlp (f a) Q t"
    "\<And>e t. R (Err e) t \<Longrightarrow> Q (Err e) t" "\<And>p t. R (Panic p) t \<Longrightarrow> Q (Panic p) t"
  shows "lwlp (lbind m f) Q s"
  unfolding lwlp_lbind by (rule lwlp_mono [OF assms(1)]) (use assms(2-4) in \<open>auto split: result.splits\<close>)

lemma lwlp_keeps: "lkeeps I m \<Longrightarrow> I s \<Longrightarrow> lwlp m (\<lambda>_. I) s"
  by (auto simp: lwlp_def lkeeps_def)

lemma lkeeps_lwlp: "(\<And>s. I s \<Longrightarrow> lwlp m (\<lambda>_. I) s) \<Longrightarrow> lkeeps I m"
  by (auto simp: lwlp_def lkeeps_def)

lemma lwlpD: "lwlp m Q s \<Longrightarrow> m s = Some (r, t) \<Longrightarrow> Q r t"
  by (auto simp: lwlp_def)

section \<open>Weakest preconditions\<close>

text \<open>\<open>lwp m Q s\<close>: \<open>m\<close> returns from \<open>s\<close>, and its outcome and final state satisfy \<open>Q\<close>.\<close>

definition lwp :: "('s, 'a, 'e) lprog \<Rightarrow> (('a, 'e) result \<Rightarrow> 's \<Rightarrow> bool) \<Rightarrow> 's \<Rightarrow> bool" where
  "lwp m Q s \<longleftrightarrow> (\<exists>r t. m s = Some (r, t) \<and> Q r t)"

lemma lwpI: "lreturns I m \<Longrightarrow> I s \<Longrightarrow> lwlp m Q s \<Longrightarrow> lwp m Q s"
  by (force simp: lwp_def lwlp_def lreturns_def)

lemma lwp_mono: "lwp m Q s \<Longrightarrow> (\<And>r t. Q r t \<Longrightarrow> R r t) \<Longrightarrow> lwp m R s"
  by (auto simp: lwp_def)

lemma lwp_basic:
  "lwp (lreturn a) Q s = Q (Ok a) s" "lwp (lfail e) Q s = Q (Err e) s" "lwp (llift r) Q s = Q r s"
  "lwp (lgets g) Q s = Q (Ok (g s)) s" "lwp (lmodify f) P s = P (Ok ()) (f s)"
  by (auto simp: lwp_def)

lemma lwp_lbind:
  "lwp (lbind m f) Q s =
   lwp m (\<lambda>r t. case r of Ok a \<Rightarrow> lwp (f a) Q t | Err e \<Rightarrow> Q (Err e) t | Panic p \<Rightarrow> Q (Panic p) t) s"
proof (cases "m s")
  case (Some x)
  then show ?thesis by (cases x; cases "fst x") (simp_all add: lwp_def lbind_def)
qed (simp add: lwp_def lbind_def)

lemma lwp_lmatch: "lwp (lmatch m f) Q s = lwp m (\<lambda>r t. lwp (f r) Q t) s"
  by (auto simp: lwp_def lmatch_def split: option.splits)

lemma lwp_lbindI:
  assumes "lwp m R s" "\<And>a t. R (Ok a) t \<Longrightarrow> lwp (f a) Q t"
    "\<And>e t. R (Err e) t \<Longrightarrow> Q (Err e) t" "\<And>p t. R (Panic p) t \<Longrightarrow> Q (Panic p) t"
  shows "lwp (lbind m f) Q s"
  unfolding lwp_lbind by (rule lwp_mono [OF assms(1)]) (use assms(2-4) in \<open>auto split: result.splits\<close>)

section \<open>Commuting with a map of states\<close>

text \<open>
  \<open>lviews I F m n\<close>: from states with the invariant, \<open>m\<close> on the image under \<open>F\<close> does what
  \<open>n\<close> does, and \<open>n\<close> keeps the invariant.
\<close>

definition lviews :: "('s \<Rightarrow> bool) \<Rightarrow> ('s \<Rightarrow> 't) \<Rightarrow> ('t, 'a, 'e) lprog \<Rightarrow> ('s, 'a, 'e) lprog \<Rightarrow> bool" where
  "lviews I F m n \<longleftrightarrow> (\<forall>s. I s \<longrightarrow> m (F s) = map_option (apsnd F) (n s) \<and> (\<forall>r t. n s = Some (r, t) \<longrightarrow> I t))"

named_theorems lview_rules

lemma lviewsI:
  "(\<And>s. I s \<Longrightarrow> m (F s) = map_option (apsnd F) (n s)) \<Longrightarrow> (\<And>s r t. I s \<Longrightarrow> n s = Some (r, t) \<Longrightarrow> I t) \<Longrightarrow> lviews I F m n"
  by (simp add: lviews_def)

lemma lviewsD:
  "lviews I F m n \<Longrightarrow> I s \<Longrightarrow> m (F s) = map_option (apsnd F) (n s)"
  "lviews I F m n \<Longrightarrow> I s \<Longrightarrow> n s = Some (r, t) \<Longrightarrow> I t"
  by (simp_all add: lviews_def)

lemma lviews_basic [lview_rules]:
  "lviews I F (lreturn a) (lreturn a)" "lviews I F (lfail e) (lfail e)" "lviews I F (llift r) (llift r)"
  by (simp_all add: lviews_def lprog_defs)

lemma lviews_lread: "(\<And>s. I s \<Longrightarrow> g (F s) = h s) \<Longrightarrow> lviews I F (lread g) (lread h)"
  by (auto simp: lviews_def lread_def option.map_comp intro!: option.map_cong)

lemma lviews_lgets: "(\<And>s. I s \<Longrightarrow> g (F s) = h s) \<Longrightarrow> lviews I F (lgets g) (lgets h)"
  by (simp add: lviews_def lgets_def)

lemma lviews_lmodify: "(\<And>s. I s \<Longrightarrow> g (F s) = F (h s) \<and> I (h s)) \<Longrightarrow> lviews I F (lmodify g) (lmodify h)"
  by (simp add: lviews_def lmodify_def)

lemma lviews_lbind [lview_rules]:
  assumes "lviews I F m n" "\<And>a. lviews I F (g a) (h a)"
  shows "lviews I F (lbind m g) (lbind n h)"
proof (rule lviewsI)
  fix s assume s: "I s"
  show "lbind m g (F s) = map_option (apsnd F) (lbind n h s)"
    using lviewsD [OF assms(1) s] lviewsD(1) [OF assms(2)]
    by (cases "n s"; cases "fst (the (n s))") (auto simp: lbind_def)
  show "I t" if "lbind n h s = Some (r, t)" for r t
    using that lviewsD(2) [OF assms(1) s] lviewsD(2) [OF assms(2)] by (auto simp: lbind_Some)
qed

lemma lviews_lmatch [lview_rules]:
  assumes "lviews I F m n" "\<And>r. lviews I F (g r) (h r)"
  shows "lviews I F (lmatch m g) (lmatch n h)"
proof (rule lviewsI)
  fix s assume s: "I s"
  show "lmatch m g (F s) = map_option (apsnd F) (lmatch n h s)"
    using lviewsD [OF assms(1) s] lviewsD(1) [OF assms(2)] by (cases "n s") (auto simp: lmatch_def)
  show "I t" if "lmatch n h s = Some (r, t)" for r t
    using that lviewsD(2) [OF assms(1) s] lviewsD(2) [OF assms(2)]
    by (auto simp: lmatch_def split: option.splits)
qed

lemma lviews_if [lview_rules]:
  "lviews I F m n \<Longrightarrow> lviews I F m' n' \<Longrightarrow> lviews I F (if b then m else m') (if b then n else n')"
  by simp

lemma lviews_option [lview_rules]:
  "lviews I F m n \<Longrightarrow> (\<And>a. lviews I F (g a) (h a)) \<Longrightarrow>
   lviews I F (case v of None \<Rightarrow> m | Some a \<Rightarrow> g a) (case v of None \<Rightarrow> n | Some a \<Rightarrow> h a)"
  by (cases v) auto

lemma lviews_result [lview_rules]:
  "(\<And>a. lviews I F (g a) (h a)) \<Longrightarrow> (\<And>a. lviews I F (g' a) (h' a)) \<Longrightarrow> (\<And>a. lviews I F (g'' a) (h'' a)) \<Longrightarrow>
   lviews I F (case v of Ok a \<Rightarrow> g a | Err a \<Rightarrow> g' a | Panic a \<Rightarrow> g'' a) (case v of Ok a \<Rightarrow> h a | Err a \<Rightarrow> h' a | Panic a \<Rightarrow> h'' a)"
  by (cases v) auto

end
