(* ===== verification/Graph_Storage.thy ===== *)
theory Graph_Storage
  imports Graph_Types
begin

text \<open>
  The trait \<open>Storage\<close> with its provided methods (\<open>aranya-runtime/src/storage/mod.rs\<close>):
  searching for a command by its address and deciding ancestry. The methods a storage
  implements are a record of operations; the provided methods are defined over it once,
  and the locale states the laws under which they are correct.
\<close>

section \<open>Operations of a storage\<close>

definition max_command_length :: nat where
  "max_command_length = 2048"

record stored_command = command +
  sc_max_cut :: nat

text \<open>\<open>Command::address\<close> of a stored command, whose \<open>max_cut\<close> method returns the stored value.\<close>

definition stored_address :: "stored_command \<Rightarrow> address" where
  "stored_address c = \<lparr>addr_id = cmd_id c, addr_max_cut = sc_max_cut c\<rparr>"

record ('st, 'seg) storage_ops =
  so_get_segment :: "'st \<Rightarrow> location \<Rightarrow> ('seg, storage_error) result"
  so_get_head :: "'st \<Rightarrow> (location, storage_error) result"
  so_prior :: "'seg \<Rightarrow> location prior"
  so_get_command :: "'seg \<Rightarrow> location \<Rightarrow> stored_command option"
  so_get_from_max_cut :: "'seg \<Rightarrow> nat \<Rightarrow> (location option, storage_error) result"
  so_longest_max_cut :: "'seg \<Rightarrow> (nat, storage_error) result"
  so_skip_list :: "'seg \<Rightarrow> (location \<times> nat) list"

section \<open>Provided methods\<close>

text \<open>
  The loops work on a vector used as a stack. \<open>None\<close> stands for a loop that does not end.
  The loop over the skip list takes the first entry whose max cut is large enough.
\<close>

definition next_locations :: "('st, 'seg) storage_ops \<Rightarrow> 'seg \<Rightarrow> nat \<Rightarrow> location list" where
  "next_locations ops seg m = (case find (\<lambda>(_, c). c \<ge> m) (so_skip_list ops seg) of
      Some (skip, _) \<Rightarrow> [skip]
    | None \<Rightarrow> prior_list (so_prior ops seg))"

partial_function (option) is_ancestor_loop ::
  "('st, 'seg) storage_ops \<Rightarrow> 'st \<Rightarrow> location \<Rightarrow> nat \<Rightarrow> location list \<Rightarrow> (bool, storage_error) result option"
where
  "is_ancestor_loop ops st sl m queue =
     (if queue = [] then Some (Ok False)
      else if loc_segment (last queue) = loc_segment sl \<and> loc_command (last queue) \<ge> loc_command sl
      then Some (Ok True)
      else robind (Some (so_get_segment ops st (last queue))) (\<lambda>seg.
           robind (Some (so_longest_max_cut ops seg)) (\<lambda>longest.
           if m > longest then is_ancestor_loop ops st sl m (butlast queue)
           else is_ancestor_loop ops st sl m (butlast queue @ next_locations ops seg m))))"

definition is_ancestor :: "('st, 'seg) storage_ops \<Rightarrow> 'st \<Rightarrow> location \<Rightarrow> 'seg \<Rightarrow> (bool, storage_error) result option" where
  "is_ancestor ops st sl segment =
     robind (Some (so_get_segment ops st sl)) (\<lambda>seg.
     robind (Some (ok_or (StorageBug ''location must exist'') (so_get_command ops seg sl))) (\<lambda>c.
     is_ancestor_loop ops st sl (sc_max_cut c) (prior_list (so_prior ops segment))))"

partial_function (option) get_location_loop ::
  "('st, 'seg) storage_ops \<Rightarrow> 'st \<Rightarrow> address \<Rightarrow> location list \<Rightarrow> (location option, storage_error) result option"
where
  "get_location_loop ops st a queue =
     (if queue = [] then Some (Ok None)
      else robind (Some (so_get_segment ops st (last queue))) (\<lambda>seg.
           robind (Some (so_longest_max_cut ops seg)) (\<lambda>longest.
           if addr_max_cut a > longest then get_location_loop ops st a (butlast queue)
           else robind (Some (so_get_from_max_cut ops seg (addr_max_cut a))) (\<lambda>found.
                case found of
                  None \<Rightarrow>
                    get_location_loop ops st a (butlast queue @ next_locations ops seg (addr_max_cut a))
                | Some loc \<Rightarrow>
                    robind (Some (ok_or (StorageBug ''command must exist'') (so_get_command ops seg loc))) (\<lambda>c.
                    if cmd_id c = addr_id a then Some (Ok (Some loc))
                    else get_location_loop ops st a
                           (butlast queue @ next_locations ops seg (addr_max_cut a)))))))"

definition get_location_from ::
  "('st, 'seg) storage_ops \<Rightarrow> 'st \<Rightarrow> location \<Rightarrow> address \<Rightarrow> (location option, storage_error) result option" where
  "get_location_from ops st start a = get_location_loop ops st a [start]"

definition get_location ::
  "('st, 'seg) storage_ops \<Rightarrow> 'st \<Rightarrow> address \<Rightarrow> (location option, storage_error) result option" where
  "get_location ops st a =
     robind (Some (so_get_head ops st)) (\<lambda>head. get_location_from ops st head a)"

declare is_ancestor_loop.simps [code] get_location_loop.simps [code]

section \<open>The command graph of a storage\<close>

text \<open>
  The commands of a storage form a graph: the parent of a command is the one before it
  in its segment, and the parents of the first command are the prior locations of the
  segment.
\<close>

definition command_at :: "('st, 'seg) storage_ops \<Rightarrow> 'st \<Rightarrow> location \<Rightarrow> stored_command option" where
  "command_at ops st l = (case so_get_segment ops st l of Ok seg \<Rightarrow> so_get_command ops seg l | _ \<Rightarrow> None)"

definition is_valid :: "('st, 'seg) storage_ops \<Rightarrow> 'st \<Rightarrow> location \<Rightarrow> bool" where
  "is_valid ops st l \<longleftrightarrow> command_at ops st l \<noteq> None"

definition segment_priors :: "('st, 'seg) storage_ops \<Rightarrow> 'st \<Rightarrow> location \<Rightarrow> location list" where
  "segment_priors ops st l = (case so_get_segment ops st l of Ok seg \<Rightarrow> prior_list (so_prior ops seg) | _ \<Rightarrow> [])"

definition parents :: "('st, 'seg) storage_ops \<Rightarrow> 'st \<Rightarrow> location \<Rightarrow> location list" where
  "parents ops st l = (case location_previous l of Some p \<Rightarrow> [p] | None \<Rightarrow> segment_priors ops st l)"

definition cut_at :: "('st, 'seg) storage_ops \<Rightarrow> 'st \<Rightarrow> location \<Rightarrow> nat" where
  "cut_at ops st l = (case command_at ops st l of Some c \<Rightarrow> sc_max_cut c | None \<Rightarrow> 0)"

text \<open>\<open>ancestor ops st a l\<close>: \<open>a\<close> is \<open>l\<close> itself or is reached from it by going to parents.\<close>

inductive ancestor :: "('st, 'seg) storage_ops \<Rightarrow> 'st \<Rightarrow> location \<Rightarrow> location \<Rightarrow> bool"
  for ops st where
  refl: "ancestor ops st l l"
| step: "p \<in> set (parents ops st l) \<Longrightarrow> ancestor ops st a p \<Longrightarrow> ancestor ops st a l"

inductive_cases ancestorE: "ancestor ops st a l"

lemma ancestor_trans: "ancestor ops st b c \<Longrightarrow> ancestor ops st a b \<Longrightarrow> ancestor ops st a c"
  by (induction b c rule: ancestor.induct) (auto intro: ancestor.intros)

lemma ancestor_unfold: "ancestor ops st a l \<longleftrightarrow> a = l \<or> (\<exists>p \<in> set (parents ops st l). ancestor ops st a p)"
  by (auto intro: ancestor.intros elim: ancestorE)

lemma parents_previous: "0 < loc_command l \<Longrightarrow> parents ops st l = [l\<lparr>loc_command := loc_command l - 1\<rparr>]"
  by (simp add: parents_def location_previous_def usize_checked_sub_def)

lemma parents_first: "loc_command l = 0 \<Longrightarrow> parents ops st l = segment_priors ops st l"
  by (simp add: parents_def location_previous_def usize_checked_sub_def)

text \<open>The ancestors of a command: the earlier ones in its segment, and those of the segment's priors.\<close>

lemma ancestor_in_segment:
  assumes "\<And>l l'. loc_segment l = loc_segment l' \<Longrightarrow> segment_priors ops st l = segment_priors ops st l'"
  shows "ancestor ops st a l \<longleftrightarrow>
    loc_segment a = loc_segment l \<and> loc_command a \<le> loc_command l \<or>
    (\<exists>p \<in> set (segment_priors ops st l). ancestor ops st a p)"
proof (induction "loc_command l" arbitrary: l)
  case 0
  then show ?case
    using ancestor_unfold [of ops st a l] location_eq_iff [of a l] by (simp add: parents_first)
next
  case (Suc n)
  let ?p = "l\<lparr>loc_command := n\<rparr>"
  have "ancestor ops st a l \<longleftrightarrow> a = l \<or> ancestor ops st a ?p"
    using ancestor_unfold [of ops st a l] by (simp add: parents_previous flip: Suc(2))
  also have "ancestor ops st a ?p \<longleftrightarrow> loc_segment a = loc_segment l \<and> loc_command a \<le> n \<or>
      (\<exists>p \<in> set (segment_priors ops st l). ancestor ops st a p)"
    using Suc(1) [of ?p] assms [of ?p l] by simp
  also have "a = l \<or> (loc_segment a = loc_segment l \<and> loc_command a \<le> n \<or>
      (\<exists>p \<in> set (segment_priors ops st l). ancestor ops st a p)) \<longleftrightarrow>
    loc_segment a = loc_segment l \<and> loc_command a \<le> loc_command l \<or>
      (\<exists>p \<in> set (segment_priors ops st l). ancestor ops st a p)"
    unfolding location_eq_iff [of a l] Suc(2) [symmetric] le_Suc_eq by blast
  finally show ?case .
qed

definition has_address :: "('st, 'seg) storage_ops \<Rightarrow> 'st \<Rightarrow> address \<Rightarrow> location \<Rightarrow> bool" where
  "has_address ops st a l \<longleftrightarrow> (\<exists>c. command_at ops st l = Some c \<and> stored_address c = a)"

lemma has_address_cut: "has_address ops st a l \<Longrightarrow> is_valid ops st l \<and> cut_at ops st l = addr_max_cut a"
  by (auto simp: has_address_def is_valid_def cut_at_def stored_address_def)

definition queue_weight :: "('st, 'seg) storage_ops \<Rightarrow> 'st \<Rightarrow> location list \<Rightarrow> nat" where
  "queue_weight ops st queue = sum_list (map (\<lambda>l. 3 ^ cut_at ops st l) queue)"

section \<open>The laws of a storage\<close>

text \<open>
  A well-formed storage: \<open>good\<close> are the locations of its commands, those of a segment all
  or none; segments are found by their index; a segment's commands are numbered from 0;
  parents exist and have a smaller max cut; the queries of a segment by max cut are
  right up to its longest; and a skip list entry may stand for the priors of its segment
  as long as the max cut looked for is not above the entry's own.
\<close>

locale graph_storage =
  fixes ops :: "('st, 'seg) storage_ops" and wf :: "'st \<Rightarrow> bool" and good :: "'st \<Rightarrow> location \<Rightarrow> bool"
  assumes good_valid: "wf st \<Longrightarrow> good st l \<Longrightarrow> is_valid ops st l"
    and good_segment: "wf st \<Longrightarrow> good st l \<Longrightarrow> loc_segment l' = loc_segment l \<Longrightarrow> is_valid ops st l' \<Longrightarrow> good st l'"
    and seg_index: "wf st \<Longrightarrow> loc_segment l = loc_segment l' \<Longrightarrow> so_get_segment ops st l = Ok seg \<Longrightarrow>
      so_get_segment ops st l' = Ok seg"
    and valid_down: "wf st \<Longrightarrow> good st l \<Longrightarrow> loc_segment l' = loc_segment l \<Longrightarrow>
      loc_command l' \<le> loc_command l \<Longrightarrow> good st l'"
    and parent_valid: "wf st \<Longrightarrow> good st l \<Longrightarrow> p \<in> set (parents ops st l) \<Longrightarrow>
      good st p \<and> cut_at ops st p < cut_at ops st l"
    and longest: "wf st \<Longrightarrow> good st l \<Longrightarrow> so_get_segment ops st l = Ok seg \<Longrightarrow>
      \<exists>m. so_longest_max_cut ops seg = Ok m \<and> cut_at ops st l \<le> m"
    and from_max_cut: "wf st \<Longrightarrow> good st l \<Longrightarrow> so_get_segment ops st l = Ok seg \<Longrightarrow>
      so_longest_max_cut ops seg = Ok long \<Longrightarrow> m \<le> long \<Longrightarrow>
      so_get_from_max_cut ops seg m = Ok None \<and>
        (\<forall>l'. loc_segment l' = loc_segment l \<longrightarrow> good st l' \<longrightarrow> cut_at ops st l' \<noteq> m) \<or>
      (\<exists>loc. so_get_from_max_cut ops seg m = Ok (Some loc) \<and> loc_segment loc = loc_segment l \<and>
        good st loc \<and> cut_at ops st loc = m)"
    and skip_safe: "wf st \<Longrightarrow> good st l \<Longrightarrow> so_get_segment ops st l = Ok seg \<Longrightarrow>
      (skip, c) \<in> set (so_skip_list ops seg) \<Longrightarrow> good st skip \<and> cut_at ops st skip < cut_at ops st l \<and>
        (\<forall>a. ancestor ops st a skip \<longrightarrow> (\<exists>p \<in> set (segment_priors ops st l). ancestor ops st a p)) \<and>
        (\<forall>a. (\<exists>p \<in> set (segment_priors ops st l). ancestor ops st a p) \<longrightarrow> cut_at ops st a \<le> c \<longrightarrow>
           ancestor ops st a skip)"
begin

lemma valid_segment: "wf st \<Longrightarrow> good st l \<Longrightarrow> \<exists>seg. so_get_segment ops st l = Ok seg"
  by (drule (1) good_valid) (auto simp: is_valid_def command_at_def split: result.splits)

lemma valid_command:
  "wf st \<Longrightarrow> good st l \<Longrightarrow> so_get_segment ops st l = Ok seg \<Longrightarrow>
   \<exists>c. so_get_command ops seg l = Some c \<and> command_at ops st l = Some c \<and> cut_at ops st l = sc_max_cut c"
  by (drule (1) good_valid) (auto simp: is_valid_def command_at_def cut_at_def)

lemma segment_priors_index:
  assumes "wf st" "loc_segment l = loc_segment l'"
  shows "segment_priors ops st l = segment_priors ops st l'"
proof (cases "\<exists>seg. so_get_segment ops st l = Ok seg")
  case True
  then show ?thesis using seg_index [OF assms] by (auto simp: segment_priors_def)
next
  case False
  then have "\<nexists>seg. so_get_segment ops st l' = Ok seg"
    using seg_index [OF assms(1) assms(2) [symmetric]] by blast
  with False show ?thesis
    by (auto simp: segment_priors_def split: result.split)
qed

lemmas ancestor_split = ancestor_in_segment [OF segment_priors_index]

lemma ancestor_valid:
  assumes "wf st" "good st l" "ancestor ops st a l"
  shows "good st a \<and> cut_at ops st a \<le> cut_at ops st l"
  using assms(3,2)
proof (induction rule: ancestor.induct)
  case (step p l a)
  then show ?case using parent_valid [OF assms(1) step.prems step.hyps(1)] by force
qed simp

lemma ancestor_cut_less:
  assumes "wf st" "good st l" "ancestor ops st a l" "a \<noteq> l"
  shows "cut_at ops st a < cut_at ops st l"
  using assms(3)
proof (cases rule: ancestor.cases)
  case (step p)
  then show ?thesis
    using parent_valid [OF assms(1,2) step(1)] ancestor_valid [OF assms(1) _ step(2)] by force
qed (use assms(4) in simp)

lemma ancestor_antisym:
  "wf st \<Longrightarrow> good st a \<Longrightarrow> good st b \<Longrightarrow> ancestor ops st a b \<Longrightarrow> ancestor ops st b a \<Longrightarrow> a = b"
  using ancestor_cut_less [of st a b] ancestor_cut_less [of st b a] by (metis less_asym)

lemma same_segment_ancestor:
  "wf st \<Longrightarrow> loc_segment a = loc_segment l \<Longrightarrow> loc_command a \<le> loc_command l \<Longrightarrow> ancestor ops st a l"
  using ancestor_split by blast

lemma cut_inj_segment:
  assumes "wf st" "good st a" "good st b" "loc_segment a = loc_segment b" "cut_at ops st a = cut_at ops st b"
  shows "a = b"
proof -
  have "ancestor ops st a b \<or> ancestor ops st b a"
    using same_segment_ancestor assms(1,4) by (metis nle_le)
  then show ?thesis using ancestor_cut_less assms by (metis less_irrefl)
qed

lemma prior_of_segment:
  assumes "wf st" "good st l" "p \<in> set (segment_priors ops st l)"
  shows "good st p \<and> cut_at ops st p < cut_at ops st l"
proof -
  let ?f = "l\<lparr>loc_command := 0\<rparr>"
  have f: "good st ?f" "ancestor ops st ?f l"
    using valid_down [OF assms(1,2), of ?f] same_segment_ancestor [OF assms(1), of ?f l] by simp_all
  have "p \<in> set (parents ops st ?f)"
    using assms(3) segment_priors_index [OF assms(1), of ?f l] by (simp add: parents_first)
  then show ?thesis
    using parent_valid [OF assms(1) f(1)] ancestor_valid [OF assms(1,2) f(2)] by force
qed

text \<open>Where the search goes on: the priors of the segment, or one skip entry that covers them.\<close>

lemma next_locations_spec:
  assumes "wf st" "good st l" "so_get_segment ops st l = Ok seg"
  shows "(\<forall>q \<in> set (next_locations ops seg m). good st q \<and> cut_at ops st q < cut_at ops st l)"
    and "cut_at ops st a = m \<Longrightarrow> (\<exists>q \<in> set (next_locations ops seg m). ancestor ops st a q) \<longleftrightarrow>
      (\<exists>p \<in> set (segment_priors ops st l). ancestor ops st a p)"
    and "length (next_locations ops seg m) \<le> 2"
proof -
  have priors: "prior_list (so_prior ops seg) = segment_priors ops st l"
    using assms(3) by (simp add: segment_priors_def)
  consider (none) "find (\<lambda>(_, c). c \<ge> m) (so_skip_list ops seg) = None"
    | (some) skip c where "find (\<lambda>(_, c). c \<ge> m) (so_skip_list ops seg) = Some (skip, c)"
        "(skip, c) \<in> set (so_skip_list ops seg)" "c \<ge> m"
    by (cases "find (\<lambda>(_, c). c \<ge> m) (so_skip_list ops seg)") (auto simp: find_Some_iff, metis nth_mem)
  then show "\<forall>q \<in> set (next_locations ops seg m). good st q \<and> cut_at ops st q < cut_at ops st l"
    and "cut_at ops st a = m \<Longrightarrow> (\<exists>q \<in> set (next_locations ops seg m). ancestor ops st a q) \<longleftrightarrow>
      (\<exists>p \<in> set (segment_priors ops st l). ancestor ops st a p)"
    and "length (next_locations ops seg m) \<le> 2"
  proof (atomize (full), cases)
    case none
    then show "(\<forall>q \<in> set (next_locations ops seg m). good st q \<and> cut_at ops st q < cut_at ops st l) \<and>
      (cut_at ops st a = m \<longrightarrow> (\<exists>q \<in> set (next_locations ops seg m). ancestor ops st a q) \<longleftrightarrow>
        (\<exists>p \<in> set (segment_priors ops st l). ancestor ops st a p)) \<and> length (next_locations ops seg m) \<le> 2"
      using prior_of_segment [OF assms(1,2)] priors prior_list_length [of "so_prior ops seg"]
      by (simp add: next_locations_def)
  next
    case some
    then show "(\<forall>q \<in> set (next_locations ops seg m). good st q \<and> cut_at ops st q < cut_at ops st l) \<and>
      (cut_at ops st a = m \<longrightarrow> (\<exists>q \<in> set (next_locations ops seg m). ancestor ops st a q) \<longleftrightarrow>
        (\<exists>p \<in> set (segment_priors ops st l). ancestor ops st a p)) \<and> length (next_locations ops seg m) \<le> 2"
      using skip_safe [OF assms some(2)] by (auto simp: next_locations_def)
  qed
qed

text \<open>Every iteration decreases the weight of the queue.\<close>

lemma weight_less:
  assumes "queue \<noteq> []" "\<forall>q \<in> set qs. cut_at ops st q < cut_at ops st (last queue)" "length qs \<le> 2"
  shows "queue_weight ops st (butlast queue @ qs) < queue_weight ops st queue"
proof -
  obtain ls l where q: "queue = ls @ [l]" using assms(1) by (cases queue rule: rev_cases) auto
  show ?thesis
    using pow3_list [OF assms(3,2)] by (simp add: q queue_weight_def)
qed

lemma is_ancestor_loop_spec:
  assumes "wf st" "good st sl" "m = cut_at ops st sl" "\<forall>l \<in> set queue. good st l"
  shows "is_ancestor_loop ops st sl m queue = Some (Ok (\<exists>l \<in> set queue. ancestor ops st sl l))"
  using assms(4)
proof (induction "queue_weight ops st queue" arbitrary: queue rule: less_induct)
  case less
  show ?case
  proof (cases queue rule: rev_cases)
    case Nil
    then show ?thesis by (simp add: is_ancestor_loop.simps)
  next
    case (snoc ls l)
    have l: "good st l" and ls: "\<forall>l \<in> set ls. good st l" using less.prems snoc by auto
    obtain seg where seg: "so_get_segment ops st l = Ok seg" using valid_segment [OF assms(1) l] by blast
    obtain longest_cut where long: "so_longest_max_cut ops seg = Ok longest_cut" "cut_at ops st l \<le> longest_cut"
      using longest [OF assms(1) l seg] by auto
    note next_spec = next_locations_spec [OF assms(1) l seg]
    have IH: "is_ancestor_loop ops st sl m (ls @ qs) = Some (Ok (\<exists>l \<in> set (ls @ qs). ancestor ops st sl l))"
      if "\<forall>q \<in> set qs. good st q \<and> cut_at ops st q < cut_at ops st l" "length qs \<le> 2" for qs
      using less.hyps [of "ls @ qs"] weight_less [of queue qs st] that ls snoc by auto
    show ?thesis
    proof (cases "loc_segment l = loc_segment sl \<and> loc_command l \<ge> loc_command sl")
      case True
      then have "ancestor ops st sl l" using same_segment_ancestor [OF assms(1), of sl l] by simp
      with True snoc show ?thesis by (simp add: is_ancestor_loop.simps [of ops st sl m "ls @ [l]"])
    next
      case outside: False
      show ?thesis
      proof (cases "m > longest_cut")
        case True
        then have "\<not> ancestor ops st sl l" using ancestor_valid [OF assms(1) l] long(2) assms(3) by force
        with True outside snoc seg long(1) IH [of "[]"] show ?thesis
          by (auto simp: is_ancestor_loop.simps [of ops st sl m "ls @ [l]"])
      next
        case False
        have "ancestor ops st sl l \<longleftrightarrow> (\<exists>p \<in> set (segment_priors ops st l). ancestor ops st sl p)"
          using ancestor_split [OF assms(1), of sl l] outside by auto
        moreover have "is_ancestor_loop ops st sl m queue = is_ancestor_loop ops st sl m (ls @ next_locations ops seg m)"
          using False outside snoc seg long(1) by (auto simp: is_ancestor_loop.simps [of ops st sl m "ls @ [l]"])
        ultimately show ?thesis
          using IH [OF next_spec(1,3), of m] next_spec(2) [of sl m] assms(3) snoc by auto
      qed
    qed
  qed
qed

lemma is_ancestor_spec:
  assumes "wf st" "good st sl" "good st l" "so_get_segment ops st l = Ok seg"
  shows "is_ancestor ops st sl seg = Some (Ok (\<exists>p \<in> set (segment_priors ops st l). ancestor ops st sl p))"
proof -
  obtain s where s: "so_get_segment ops st sl = Ok s" using valid_segment [OF assms(1,2)] by blast
  obtain c where c: "so_get_command ops s sl = Some c" "cut_at ops st sl = sc_max_cut c"
    using valid_command [OF assms(1,2) s] by blast
  have "prior_list (so_prior ops seg) = segment_priors ops st l"
    using assms(4) by (simp add: segment_priors_def)
  then show ?thesis
    using is_ancestor_loop_spec [OF assms(1,2) c(2) [symmetric]] prior_of_segment [OF assms(1,3)] s c
    by (simp add: is_ancestor_def)
qed

text \<open>
  A search by address returns, and it finds a command with that address whenever an
  ancestor of a start location has it.
\<close>

lemma get_location_loop_spec:
  assumes "wf st" "\<forall>l \<in> set queue. good st l"
  shows "\<exists>r. get_location_loop ops st a queue = Some (Ok r) \<and>
    (case r of
       None \<Rightarrow> \<forall>l \<in> set queue. \<forall>x. ancestor ops st x l \<longrightarrow> \<not> has_address ops st a x
     | Some loc \<Rightarrow> has_address ops st a loc)"
  using assms(2)
proof (induction "queue_weight ops st queue" arbitrary: queue rule: less_induct)
  case less
  show ?case
  proof (cases queue rule: rev_cases)
    case Nil
    then show ?thesis by (simp add: get_location_loop.simps)
  next
    case (snoc ls l)
    have l: "good st l" and ls: "\<forall>l \<in> set ls. good st l" using less.prems snoc by auto
    obtain seg where seg: "so_get_segment ops st l = Ok seg" using valid_segment [OF assms(1) l] by blast
    obtain longest_cut where long: "so_longest_max_cut ops seg = Ok longest_cut" "cut_at ops st l \<le> longest_cut"
      using longest [OF assms(1) l seg] by auto
    note next_spec = next_locations_spec [OF assms(1) l seg]
    let ?goal = "\<lambda>q. \<exists>r. get_location_loop ops st a q = Some (Ok r) \<and>
      (case r of None \<Rightarrow> \<forall>l \<in> set q. \<forall>x. ancestor ops st x l \<longrightarrow> \<not> has_address ops st a x
       | Some loc \<Rightarrow> has_address ops st a loc)"
    have IH: "?goal (ls @ qs)"
      if "\<forall>q \<in> set qs. good st q \<and> cut_at ops st q < cut_at ops st l" "length qs \<le> 2" for qs
      using less.hyps [of "ls @ qs"] weight_less [of queue qs st] that ls snoc by auto
    note unfold = get_location_loop.simps [of ops st a "ls @ [l]"]
    show ?thesis
    proof (cases "addr_max_cut a > longest_cut")
      case True
      have "\<not> has_address ops st a x" if "ancestor ops st x l" for x
        using ancestor_valid [OF assms(1) l that] True long(2) has_address_cut [of ops st a x] by force
      then show ?thesis
        using IH [of "[]"] True seg long(1) snoc by (simp add: unfold) (auto split: option.splits)
    next
      case False
      let ?qs = "next_locations ops seg (addr_max_cut a)"
      have cont: "?goal queue" if here: "\<And>x. loc_segment x = loc_segment l \<Longrightarrow> \<not> has_address ops st a x"
        and eq: "get_location_loop ops st a queue = get_location_loop ops st a (ls @ ?qs)"
      proof -
        have "\<not> has_address ops st a x" if "ancestor ops st x l" "\<not> (\<exists>q \<in> set ?qs. ancestor ops st x q)" for x
          using that here [of x] ancestor_split [OF assms(1), of x l] next_spec(2) [of x "addr_max_cut a"]
            has_address_cut [of ops st a x] by auto
        moreover obtain r where "get_location_loop ops st a (ls @ ?qs) = Some (Ok r)"
          "case r of None \<Rightarrow> \<forall>l \<in> set (ls @ ?qs). \<forall>x. ancestor ops st x l \<longrightarrow> \<not> has_address ops st a x
           | Some loc \<Rightarrow> has_address ops st a loc"
          using IH [OF next_spec(1,3)] by blast
        ultimately show ?thesis
          using eq snoc by (cases r) auto
      qed
      have top: "addr_max_cut a \<le> longest_cut" using False by simp
      from from_max_cut [OF assms(1) l seg long(1) top] show ?thesis
      proof (elim disjE conjE exE)
        assume none: "so_get_from_max_cut ops seg (addr_max_cut a) = Ok None"
          "\<forall>l'. loc_segment l' = loc_segment l \<longrightarrow> good st l' \<longrightarrow> cut_at ops st l' \<noteq> addr_max_cut a"
        show ?thesis
        proof (rule cont)
          show "\<not> has_address ops st a x" if "loc_segment x = loc_segment l" for x
            using none(2) that has_address_cut [of ops st a x] good_segment [OF assms(1) l] by auto
        qed (use none(1) False seg long(1) snoc in \<open>simp add: unfold\<close>)
      next
        fix loc
        assume loc: "so_get_from_max_cut ops seg (addr_max_cut a) = Ok (Some loc)" "loc_segment loc = loc_segment l"
          "good st loc" "cut_at ops st loc = addr_max_cut a"
        obtain c where c: "so_get_command ops seg loc = Some c" "command_at ops st loc = Some c"
          "cut_at ops st loc = sc_max_cut c"
          using valid_command [OF assms(1) loc(3) seg_index [OF assms(1) loc(2) [symmetric] seg]] by blast
        show ?thesis
        proof (cases "cmd_id c = addr_id a")
          case True
          then have "has_address ops st a loc"
            using c loc(4) by (simp add: has_address_def stored_address_def)
          with True c loc(1) False seg long(1) snoc show ?thesis by (simp add: unfold)
        next
          case id: False
          show ?thesis
          proof (rule cont)
            fix x :: location assume x: "loc_segment x = loc_segment l"
            show "\<not> has_address ops st a x"
            proof
              assume addr: "has_address ops st a x"
              then have "x = loc"
                using has_address_cut [OF addr] good_segment [OF assms(1) l x] x loc(2,4)
                by (intro cut_inj_segment [OF assms(1) _ loc(3)]) simp_all
              with addr c(2) id show False by (auto simp: has_address_def stored_address_def)
            qed
          qed (use id c loc(1) False seg long(1) snoc in \<open>simp add: unfold\<close>)
        qed
      qed
    qed
  qed
qed

end

end
