(* ===== verification/Braid.thy ===== *)
theory Braid
  imports Graph_Storage "HOL-Library.Product_Lexorder" "HOL-Library.Multiset"
begin

text \<open>
  Braiding two branches of the graph into one sequence (\<open>braid\<close> of
  \<open>aranya-runtime/src/client.rs\<close>). A strand is a branch that is still being consumed. The
  loop takes the strand with the least priority and id, adds its command to the braid,
  and goes on with those parents of the command that no other strand leads to, until a
  single strand is left.
\<close>

section \<open>Model\<close>

datatype engine_error = EngineRead | EngineWrite | EngineCheck | EnginePanic | EngineInternal | EngineBug string

datatype client_error =
    NoSuchParent command_id
  | EngineErr engine_error
  | StorageErr storage_error
  | InitError
  | NotAuthorized
  | SessionDeserialize
  | ClientBug string

text \<open>\<open>From<EngineError> for ClientError\<close>\<close>

fun client_error_of_engine :: "engine_error \<Rightarrow> client_error" where
  "client_error_of_engine EngineCheck = NotAuthorized"
| "client_error_of_engine e = EngineErr e"

abbreviation from_storage :: "('a, storage_error) result option \<Rightarrow> ('a, client_error) result option" where
  "from_storage \<equiv> map_option (map_err StorageErr)"

record 'seg strand =
  strand_key :: "priority \<times> command_id"
  strand_next :: location
  strand_segment :: 'seg

definition strand_new ::
  "('st, 'seg) storage_ops \<Rightarrow> 'st \<Rightarrow> location \<Rightarrow> 'seg option \<Rightarrow> ('seg strand, client_error) result option" where
  "strand_new ops st l cached =
     robind (case cached of Some seg \<Rightarrow> Some (Ok seg) | None \<Rightarrow> from_storage (Some (so_get_segment ops st l)))
       (\<lambda>seg.
     robind (Some (ok_or (StorageErr (CommandOutOfBounds l)) (so_get_command ops seg l))) (\<lambda>c.
     Some (Ok \<lparr>strand_key = (cmd_priority c, cmd_id c), strand_next = l, strand_segment = seg\<rparr>)))"

text \<open>
  The binary heap is the list of its elements. Strands are compared by their key in
  reverse, so the greatest strand is the one with the least key.
\<close>

fun pop_strand :: "'seg strand list \<Rightarrow> ('seg strand \<times> 'seg strand list) option" where
  "pop_strand [] = None"
| "pop_strand (s # ss) = (case pop_strand ss of
      None \<Rightarrow> Some (s, [])
    | Some (t, ts) \<Rightarrow> if strand_key s \<le> strand_key t then Some (s, ss) else Some (t, s # ts))"

text \<open>The inner loop: is the location reached from one of the other strands?\<close>

fun covered :: "('st, 'seg) storage_ops \<Rightarrow> 'st \<Rightarrow> location \<Rightarrow> 'seg strand list \<Rightarrow> (bool, client_error) result option" where
  "covered ops st l [] = Some (Ok False)"
| "covered ops st l (other # rest) =
     (if same_segment l (strand_next other) \<and> loc_command l \<le> loc_command (strand_next other)
      then Some (Ok True)
      else robind (from_storage (is_ancestor ops st l (strand_segment other))) (\<lambda>anc.
           if anc then Some (Ok True) else covered ops st l rest))"

fun push_priors :: "('st, 'seg) storage_ops \<Rightarrow> 'st \<Rightarrow> 'seg option \<Rightarrow> location list \<Rightarrow> 'seg strand list \<Rightarrow>
    ('seg strand list, client_error) result option" where
  "push_priors ops st cached [] strands = Some (Ok strands)"
| "push_priors ops st cached (l # ls) strands =
     robind (covered ops st l strands) (\<lambda>c.
     if c then push_priors ops st cached ls strands
     else robind (strand_new ops st l cached) (\<lambda>s.
          push_priors ops st None ls (strands @ [s])))"

definition strand_prior :: "('st, 'seg) storage_ops \<Rightarrow> 'seg strand \<Rightarrow> location prior \<times> 'seg option" where
  "strand_prior ops s = (case location_previous (strand_next s) of
      Some previous \<Rightarrow> (PSingle previous, Some (strand_segment s))
    | None \<Rightarrow> (so_prior ops (strand_segment s), None))"

fun is_merge :: "'a prior \<Rightarrow> bool" where
  "is_merge (PMerge _ _) = True"
| "is_merge _ = False"

partial_function (option) braid_loop ::
  "('st, 'seg) storage_ops \<Rightarrow> 'st \<Rightarrow> 'seg strand list \<Rightarrow> location list \<Rightarrow> (location list, client_error) result option"
where
  "braid_loop ops st strands acc = (case pop_strand strands of
      None \<Rightarrow> Some (Ok acc)
    | Some (strand, rest) \<Rightarrow>
        robind (push_priors ops st (snd (strand_prior ops strand)) (prior_list (fst (strand_prior ops strand))) rest)
          (\<lambda>strands'.
           if length strands' = 1
           then Some (Ok ((if is_merge (fst (strand_prior ops strand)) then acc else acc @ [strand_next strand])
                          @ [strand_next (hd strands')]))
           else braid_loop ops st strands'
                  (if is_merge (fst (strand_prior ops strand)) then acc else acc @ [strand_next strand])))"

definition braid :: "('st, 'seg) storage_ops \<Rightarrow> 'st \<Rightarrow> location \<Rightarrow> location \<Rightarrow> (location list, client_error) result option" where
  "braid ops st left right =
     robind (strand_new ops st left None) (\<lambda>l.
     robind (strand_new ops st right None) (\<lambda>r.
     robind (braid_loop ops st [l, r] []) (\<lambda>b. Some (Ok (rev b)))))"

declare braid_loop.simps [code]

section \<open>The graph below a set of locations\<close>

definition merge_at :: "('st, 'seg) storage_ops \<Rightarrow> 'st \<Rightarrow> location \<Rightarrow> bool" where
  "merge_at ops st l \<longleftrightarrow> length (parents ops st l) = 2"

definition below :: "('st, 'seg) storage_ops \<Rightarrow> 'st \<Rightarrow> location set \<Rightarrow> location set" where
  "below ops st T = {x. \<exists>t \<in> T. ancestor ops st x t}"

definition incomparable :: "('st, 'seg) storage_ops \<Rightarrow> 'st \<Rightarrow> location \<Rightarrow> location \<Rightarrow> bool" where
  "incomparable ops st a b \<longleftrightarrow> \<not> ancestor ops st a b \<and> \<not> ancestor ops st b a"

definition antichain :: "('st, 'seg) storage_ops \<Rightarrow> 'st \<Rightarrow> location list \<Rightarrow> bool" where
  "antichain ops st T \<longleftrightarrow> distinct T \<and> (\<forall>a \<in> set T. \<forall>b \<in> set T. ancestor ops st a b \<longrightarrow> a = b)"

definition location_key :: "('st, 'seg) storage_ops \<Rightarrow> 'st \<Rightarrow> location \<Rightarrow> priority \<times> command_id" where
  "location_key ops st l = (case command_at ops st l of
      Some c \<Rightarrow> (cmd_priority c, cmd_id c)
    | None \<Rightarrow> (PrioMerge, []))"

text \<open>The strand of a valid location.\<close>

definition strand_of :: "('st, 'seg) storage_ops \<Rightarrow> 'st \<Rightarrow> location \<Rightarrow> 'seg strand" where
  "strand_of ops st l = \<lparr>strand_key = location_key ops st l, strand_next = l,
     strand_segment = (case so_get_segment ops st l of Ok seg \<Rightarrow> seg)\<rparr>"

text \<open>The heap and the push loop on locations alone.\<close>

fun pop_least :: "('a \<Rightarrow> 'k::linorder) \<Rightarrow> 'a list \<Rightarrow> ('a \<times> 'a list) option" where
  "pop_least f [] = None"
| "pop_least f (x # xs) = (case pop_least f xs of
      None \<Rightarrow> Some (x, [])
    | Some (y, ys) \<Rightarrow> if f x \<le> f y then Some (x, xs) else Some (y, x # ys))"

fun push_uncovered :: "('a \<Rightarrow> 'a \<Rightarrow> bool) \<Rightarrow> 'a list \<Rightarrow> 'a list \<Rightarrow> 'a list" where
  "push_uncovered anc [] T = T"
| "push_uncovered anc (l # ls) T =
     push_uncovered anc ls (if \<exists>t \<in> set T. anc l t then T else T @ [l])"

lemma pop_strand_least:
  "pop_strand (map g xs) = map_option (\<lambda>(x, ys). (g x, map g ys)) (pop_least (strand_key \<circ> g) xs)"
  by (induction xs) (auto split: option.split)

lemma pop_least_None [simp]: "pop_least f xs = None \<longleftrightarrow> xs = []"
  by (induction xs) (auto split: option.splits)

lemma pop_least_mset: "pop_least f xs = Some (y, ys) \<Longrightarrow> mset xs = add_mset y (mset ys)"
proof (induction xs arbitrary: y ys)
  case (Cons x xs)
  then show ?case
    by (cases "pop_least f xs") (auto split: prod.splits if_splits)
qed simp

lemma pop_least_min: "pop_least f xs = Some (y, ys) \<Longrightarrow> x \<in> set xs \<Longrightarrow> f y \<le> f x"
proof (induction xs arbitrary: y ys)
  case (Cons z xs)
  show ?case
  proof (cases "pop_least f xs")
    case None
    then show ?thesis using Cons.prems by auto
  next
    case (Some p)
    obtain u us where p: "p = (u, us)" by (cases p)
    have "f u \<le> f x" if "x \<in> set xs" using Cons.IH [of u us] Some p that by simp
    then show ?thesis using Cons.prems Some p by (auto split: if_splits)
  qed
qed simp

lemma pop_least_Some:
  assumes "pop_least f xs = Some (y, ys)"
  shows "set xs = insert y (set ys)" "length xs = Suc (length ys)"
    "distinct xs \<longleftrightarrow> distinct ys \<and> y \<notin> set ys"
    "sum_list (map w xs) = (w y :: nat) + sum_list (map w ys)"
proof -
  note eq = pop_least_mset [OF assms]
  show "set xs = insert y (set ys)" using arg_cong [OF eq, of set_mset] by simp
  show "length xs = Suc (length ys)" using arg_cong [OF eq, of size] by simp
  show "distinct xs \<longleftrightarrow> distinct ys \<and> y \<notin> set ys"
    using mset_eq_imp_distinct_iff [of xs "y # ys"] eq by auto
  show "sum_list (map w xs) = w y + sum_list (map w ys)"
    using arg_cong [OF eq, of "\<lambda>m. sum_mset (image_mset w m)"] by (simp add: sum_mset_sum_list flip: mset_map)
qed

lemma push_uncovered_set: "set T \<subseteq> set (push_uncovered anc ls T) \<and> set (push_uncovered anc ls T) \<subseteq> set T \<union> set ls"
proof (induction ls arbitrary: T)
  case (Cons l ls)
  show ?case using Cons.IH [of T] Cons.IH [of "T @ [l]"] by auto
qed simp

lemma push_uncovered_length: "length (push_uncovered anc ls T) \<le> length T + length ls"
proof (induction ls arbitrary: T)
  case (Cons l ls)
  show ?case using Cons.IH [of T] Cons.IH [of "T @ [l]"] by simp
qed simp

lemma push_uncovered_weight:
  "sum_list (map w (push_uncovered anc ls T)) \<le> sum_list (map w T) + (sum_list (map w ls) :: nat)"
proof (induction ls arbitrary: T)
  case (Cons l ls)
  show ?case using Cons.IH [of T] Cons.IH [of "T @ [l]"] by simp
qed simp

lemma parents_length: "length (parents ops st l) \<le> 2"
  by (auto simp: parents_def segment_priors_def prior_list_length split: option.split result.split)

lemma antichain_snoc:
  "antichain ops st T \<Longrightarrow> (\<And>t. t \<in> set T \<Longrightarrow> incomparable ops st l t) \<Longrightarrow> antichain ops st (T @ [l])"
  by (auto simp: antichain_def incomparable_def intro: ancestor.refl)

lemma below_mono: "T \<subseteq> U \<Longrightarrow> below ops st T \<subseteq> below ops st U"
  by (auto simp: below_def)

lemma below_covered: "(\<exists>t \<in> T. ancestor ops st l t) \<Longrightarrow> below ops st (insert l T) = below ops st T"
  by (auto simp: below_def intro: ancestor_trans)

lemma push_uncovered_below:
  "below ops st (set (push_uncovered (ancestor ops st) ls T)) = below ops st (set T \<union> set ls)"
proof (induction ls arbitrary: T)
  case (Cons l ls)
  show ?case
  proof (cases "\<exists>t \<in> set T. ancestor ops st l t")
    case True
    then have "\<exists>t \<in> set T \<union> set ls. ancestor ops st l t" by blast
    from below_covered [OF this] Cons.IH [of T] True show ?thesis by simp
  next
    case False
    with Cons.IH [of "T @ [l]"] show ?thesis by simp
  qed
qed simp

text \<open>
  What the loop produces from the strands \<open>T\<close>: the last location is the base that all
  remaining ancestors belong to, and the others are the commands below \<open>T\<close> that are not
  ancestors of the base, merges left out, descendants before their ancestors.
\<close>

definition braids :: "('st, 'seg) storage_ops \<Rightarrow> 'st \<Rightarrow> location list \<Rightarrow> location list \<Rightarrow> location \<Rightarrow> bool" where
  "braids ops st T rest base \<longleftrightarrow> is_valid ops st base \<and> base \<in> below ops st (set T) \<and> distinct rest \<and>
     set rest = {x \<in> below ops st (set T). \<not> ancestor ops st x base \<and> \<not> merge_at ops st x} \<and>
     sorted_wrt (\<lambda>x y. \<not> ancestor ops st x y) rest"

section \<open>Correctness\<close>

text \<open>What the steps of the loop do on any graph, and that it ends.\<close>

context graph_storage
begin

lemma strand_new_spec:
  assumes "wf st" "good st l" "cached = None \<or> (\<exists>seg. cached = Some seg \<and> so_get_segment ops st l = Ok seg)"
  shows "strand_new ops st l cached = Some (Ok (strand_of ops st l))"
proof -
  obtain seg where seg: "so_get_segment ops st l = Ok seg" using valid_segment [OF assms(1,2)] by blast
  obtain c where c: "so_get_command ops seg l = Some c" "command_at ops st l = Some c"
    using valid_command [OF assms(1,2) seg] by blast
  show ?thesis
    using assms(3) seg c by (auto simp: strand_new_def strand_of_def location_key_def)
qed

lemma covered_spec:
  assumes "wf st" "good st l" "\<forall>t \<in> set T. good st t"
  shows "covered ops st l (map (strand_of ops st) T) = Some (Ok (\<exists>t \<in> set T. ancestor ops st l t))"
  using assms(3)
proof (induction T)
  case (Cons t T)
  obtain seg where seg: "so_get_segment ops st t = Ok seg" using valid_segment [OF assms(1)] Cons.prems by force
  have "is_ancestor ops st l seg = Some (Ok (\<exists>p \<in> set (segment_priors ops st t). ancestor ops st l p))"
    using is_ancestor_spec [OF assms(1,2) _ seg] Cons.prems by simp
  moreover have "ancestor ops st l t \<longleftrightarrow> loc_segment l = loc_segment t \<and> loc_command l \<le> loc_command t \<or>
      (\<exists>p \<in> set (segment_priors ops st t). ancestor ops st l p)"
    by (rule ancestor_split [OF assms(1)])
  ultimately show ?case
    using Cons seg by (auto simp: strand_of_def same_segment_def)
qed simp

lemma push_priors_spec:
  assumes "wf st" "\<forall>l \<in> set ls. good st l" "\<forall>t \<in> set T. good st t"
    "cached = None \<or> (\<exists>seg. cached = Some seg \<and> (\<forall>l \<in> set ls. so_get_segment ops st l = Ok seg))"
  shows "push_priors ops st cached ls (map (strand_of ops st) T) =
    Some (Ok (map (strand_of ops st) (push_uncovered (ancestor ops st) ls T)))"
  using assms(2-4)
proof (induction ls arbitrary: cached T)
  case (Cons l ls)
  show ?case
  proof (cases "\<exists>t \<in> set T. ancestor ops st l t")
    case True
    then show ?thesis
      using Cons.IH [of T cached] Cons.prems by (auto simp: covered_spec [OF assms(1)])
  next
    case False
    have "strand_new ops st l cached = Some (Ok (strand_of ops st l))"
      using Cons.prems by (intro strand_new_spec [OF assms(1)]) auto
    with False show ?thesis
      using Cons.IH [of "T @ [l]" None] Cons.prems by (simp add: covered_spec [OF assms(1)])
  qed
qed simp

lemma strand_prior_spec:
  assumes "wf st" "good st l"
  shows "prior_list (fst (strand_prior ops (strand_of ops st l))) = parents ops st l"
    "is_merge (fst (strand_prior ops (strand_of ops st l))) \<longleftrightarrow> merge_at ops st l"
    "snd (strand_prior ops (strand_of ops st l)) = None \<or> (\<exists>seg. snd (strand_prior ops (strand_of ops st l)) = Some seg \<and>
       (\<forall>p \<in> set (parents ops st l). so_get_segment ops st p = Ok seg))"
proof -
  obtain seg where seg: "so_get_segment ops st l = Ok seg" using valid_segment [OF assms(1,2)] by blast
  have "so_get_segment ops st p = Ok seg" if "location_previous l = Some p" for p
    using seg_index [OF assms(1) _ seg, of p] that
    by (auto simp: location_previous_def usize_checked_sub_def split: if_splits)
  then show "prior_list (fst (strand_prior ops (strand_of ops st l))) = parents ops st l"
    "is_merge (fst (strand_prior ops (strand_of ops st l))) \<longleftrightarrow> merge_at ops st l"
    "snd (strand_prior ops (strand_of ops st l)) = None \<or> (\<exists>seg. snd (strand_prior ops (strand_of ops st l)) = Some seg \<and>
       (\<forall>p \<in> set (parents ops st l). so_get_segment ops st p = Ok seg))"
    using seg by (cases "location_previous l"; cases "so_prior ops seg";
        simp add: strand_prior_def strand_of_def parents_def segment_priors_def merge_at_def)+
qed

lemma braid_loop_step:
  fixes acc
  assumes "wf st" "\<forall>t \<in> set T. good st t" "pop_least (location_key ops st) T = Some (t, T1)"
  defines "T2 \<equiv> push_uncovered (ancestor ops st) (parents ops st t) T1"
    and "acc' \<equiv> if merge_at ops st t then acc else acc @ [t]"
  shows "braid_loop ops st (map (strand_of ops st) T) acc =
    (if length T2 = 1 then Some (Ok (acc' @ [hd T2])) else braid_loop ops st (map (strand_of ops st) T2) acc')"
proof -
  have t: "good st t" and T1: "\<forall>x \<in> set T1. good st x"
    using assms(2) pop_least_Some(1) [OF assms(3)] by auto
  note prior = strand_prior_spec [OF assms(1) t]
  have par: "\<forall>p \<in> set (parents ops st t). good st p"
    using parent_valid [OF assms(1) t] by blast
  have key: "strand_key \<circ> strand_of ops st = location_key ops st"
    by (auto simp: strand_of_def)
  have pop: "pop_strand (map (strand_of ops st) T) = Some (strand_of ops st t, map (strand_of ops st) T1)"
    by (simp add: pop_strand_least key assms(3))
  have push: "push_priors ops st (snd (strand_prior ops (strand_of ops st t))) (parents ops st t) (map (strand_of ops st) T1) =
      Some (Ok (map (strand_of ops st) T2))"
    unfolding T2_def using push_priors_spec [OF assms(1) par T1 prior(3)] .
  have hd: "strand_next (hd (map (strand_of ops st) T2)) = hd T2" if "length T2 = 1"
    using that by (cases T2) (auto simp: strand_of_def)
  show ?thesis
    by (subst braid_loop.simps) (simp add: pop prior(1,2) push hd acc'_def, simp add: strand_of_def)
qed

text \<open>The loop ends: every iteration takes weight off the strands.\<close>

lemma braid_step_weight:
  assumes "wf st" "\<forall>t \<in> set T. good st t" "pop_least (location_key ops st) T = Some (t, T1)"
  defines "T2 \<equiv> push_uncovered (ancestor ops st) (parents ops st t) T1"
  shows "\<forall>x \<in> set T2. good st x" "queue_weight ops st T2 < queue_weight ops st T" "set T1 \<subseteq> set T2"
proof -
  note pop = pop_least_Some [OF assms(3)]
  have t: "good st t" and T1: "\<forall>x \<in> set T1. good st x" using assms(2) pop(1) by auto
  have par: "good st p" "cut_at ops st p < cut_at ops st t" if "p \<in> set (parents ops st t)" for p
    using parent_valid [OF assms(1) t that] by auto
  have "set T1 \<subseteq> set T2" "set T2 \<subseteq> set T1 \<union> set (parents ops st t)"
    using push_uncovered_set [of T1 "ancestor ops st" "parents ops st t"] by (auto simp: T2_def)
  then show "\<forall>x \<in> set T2. good st x" "set T1 \<subseteq> set T2" using T1 par(1) by auto
  show "queue_weight ops st T2 < queue_weight ops st T"
    using pow3_list [OF parents_length, of ops st t "cut_at ops st" "cut_at ops st t"] par(2)
      push_uncovered_weight [of "\<lambda>l. 3 ^ cut_at ops st l" "ancestor ops st" "parents ops st t" T1]
      pop(4) [of "\<lambda>l. 3 ^ cut_at ops st l"]
    by (simp add: queue_weight_def T2_def)
qed

lemma braid_loop_returns:
  assumes "wf st" "\<forall>t \<in> set T. good st t"
  shows "\<exists>ls. braid_loop ops st (map (strand_of ops st) T) acc = Some (Ok ls)"
  using assms(2)
proof (induction "queue_weight ops st T" arbitrary: T acc rule: less_induct)
  case less
  show ?case
  proof (cases "pop_least (location_key ops st) T")
    case None
    then show ?thesis by (simp add: braid_loop.simps)
  next
    case (Some tT)
    obtain t T1 where pop: "pop_least (location_key ops st) T = Some (t, T1)" using Some by (cases tT) auto
    note step = braid_step_weight [OF assms(1) less.prems pop]
    show ?thesis
      using braid_loop_step [OF assms(1) less.prems pop, of acc] less.hyps [OF step(2,1)] by (auto split: if_splits)
  qed
qed

lemma braid_returns:
  assumes "wf st" "good st left" "good st right"
  shows "\<exists>ls. braid ops st left right = Some (Ok ls)"
  using braid_loop_returns [OF assms(1), of "[left, right]" "[]"] strand_new_spec [OF assms(1)] assms(2,3) by (auto simp: braid_def)

end

text \<open>
  One more law: the parents of a merge are on different branches.
\<close>

locale braid_graph = graph_storage ops wf good
  for ops :: "('st, 'seg) storage_ops" and wf and good +
  assumes merge_parents: "wf st \<Longrightarrow> good st l \<Longrightarrow> parents ops st l = [a, b] \<Longrightarrow> incomparable ops st a b"
begin

text \<open>One iteration: the strand with the least key is replaced by its uncovered parents.\<close>

lemma antichain_push:
  assumes "wf st" "good st t" "antichain ops st (t # T)"
  shows "antichain ops st (push_uncovered (ancestor ops st) (parents ops st t) T)"
proof -
  have T: "antichain ops st T" and t: "\<And>u. u \<in> set T \<Longrightarrow> \<not> ancestor ops st u t"
    using assms(3) by (auto simp: antichain_def)
  have up: "\<not> ancestor ops st u p" if "u \<in> set T" "p \<in> set (parents ops st t)" for u p
    using t [OF that(1)] that(2) by (blast intro: ancestor.step)
  consider "parents ops st t = []" | a where "parents ops st t = [a]" | a b where "parents ops st t = [a, b]"
    using parents_length [of ops st t] by (cases "parents ops st t"; cases "tl (parents ops st t)";
        cases "tl (tl (parents ops st t))") auto
  then show ?thesis
  proof cases
    case (3 a b)
    then have "incomparable ops st a b" using merge_parents [OF assms(1,2)] by blast
    with 3 T up antichain_snoc [of ops st "T @ [a]" b] antichain_snoc [of ops st T a]
      antichain_snoc [of ops st T b] show ?thesis
      by (simp add: incomparable_def) blast
  qed (use T up in \<open>auto intro!: antichain_snoc simp: incomparable_def\<close>)
qed

lemma braid_step:
  assumes "wf st" "antichain ops st T" "\<forall>t \<in> set T. good st t"
    "pop_least (location_key ops st) T = Some (t, T1)"
  defines "T2 \<equiv> push_uncovered (ancestor ops st) (parents ops st t) T1"
  shows "\<forall>x \<in> set T2. good st x" "antichain ops st T2" "below ops st (set T) = insert t (below ops st (set T2))"
    "t \<notin> below ops st (set T2)" "queue_weight ops st T2 < queue_weight ops st T" "set T1 \<subseteq> set T2"
proof -
  note pop = pop_least_Some [OF assms(4)]
  have t: "good st t" using assms(3) pop(1) by auto
  have par: "good st p" "cut_at ops st p < cut_at ops st t" if "p \<in> set (parents ops st t)" for p
    using parent_valid [OF assms(1) t that] by auto
  show "\<forall>x \<in> set T2. good st x" "queue_weight ops st T2 < queue_weight ops st T" "set T1 \<subseteq> set T2"
    using braid_step_weight [OF assms(1,3,4)] by (simp_all add: T2_def)
  have chain: "antichain ops st (t # T1)"
    using assms(2) pop(1,3) by (auto simp: antichain_def)
  then show "antichain ops st T2" unfolding T2_def by (rule antichain_push [OF assms(1) t])
  have below2: "below ops st (set T2) = below ops st (set T1 \<union> set (parents ops st t))"
    unfolding T2_def by (rule push_uncovered_below)
  then show "below ops st (set T) = insert t (below ops st (set T2))"
    unfolding pop(1) by (auto simp: below_def ancestor_unfold [of ops st _ t] intro: ancestor.refl)
  show "t \<notin> below ops st (set T2)"
  proof
    assume "t \<in> below ops st (set T2)"
    then obtain u where u: "u \<in> set T1 \<union> set (parents ops st t)" "ancestor ops st t u"
      unfolding below2 by (auto simp: below_def)
    show False
    proof (cases "u \<in> set T1")
      case True
      then show False using chain u(2) by (auto simp: antichain_def)
    next
      case False
      then show False using par [of u] ancestor_valid [OF assms(1) _ u(2)] u(1) by fastforce
    qed
  qed
qed

lemma braid_loop_spec:
  assumes "wf st" "antichain ops st T" "\<forall>t \<in> set T. good st t" "2 \<le> length T"
  shows "\<exists>rest base. braid_loop ops st (map (strand_of ops st) T) acc = Some (Ok (acc @ rest @ [base])) \<and>
    braids ops st T rest base"
  using assms(2-4)
proof (induction "queue_weight ops st T" arbitrary: T acc rule: less_induct)
  case less
  obtain t T1 where pop: "pop_least (location_key ops st) T = Some (t, T1)"
    using less.prems(3) by (cases "pop_least (location_key ops st) T") auto
  define T2 where "T2 = push_uncovered (ancestor ops st) (parents ops st t) T1"
  note step = braid_step [OF assms(1) less.prems(1,2) pop, folded T2_def]
  have t: "good st t" using less.prems(2) pop_least_Some(1) [OF pop] by simp
  have "T1 \<noteq> []" using less.prems(3) pop_least_Some(2) [OF pop] by auto
  then have T2: "T2 \<noteq> []" using step(6) by auto
  let ?new = "if merge_at ops st t then [] else [t]"
  have extend: "braids ops st T (?new @ rest) base" if "braids ops st T2 rest base" for rest base
  proof -
    have base: "base \<in> below ops st (set T2)" using that by (simp add: braids_def)
    have "\<not> ancestor ops st t x" if "x \<in> below ops st (set T2)" for x
      using that step(4) by (auto simp: below_def intro: ancestor_trans)
    with that base step(3,4) show ?thesis by (auto simp: braids_def)
  qed
  show ?case
  proof (cases "length T2 = 1")
    case True
    then obtain base where base: "T2 = [base]" by (cases T2) auto
    have "braids ops st T2 [] base"
      using step(1) good_valid [OF assms(1)] by (auto simp: braids_def base below_def intro: ancestor.refl)
    from extend [OF this] show ?thesis
      using braid_loop_step [OF assms(1) less.prems(2) pop, of acc, folded T2_def] base
      by (auto split: if_splits)
  next
    case False
    then have "2 \<le> length T2" using T2 by (cases T2; cases "tl T2") auto
    then obtain rest base where "braid_loop ops st (map (strand_of ops st) T2) (acc @ ?new) =
        Some (Ok ((acc @ ?new) @ rest @ [base]))" "braids ops st T2 rest base"
      using less.hyps [OF step(5,2,1)] by blast
    with extend show ?thesis
      using braid_loop_step [OF assms(1) less.prems(2) pop, of acc, folded T2_def] False
      by (auto split: if_splits)
  qed
qed

lemma braid_spec:
  assumes "wf st" "good st left" "good st right" "incomparable ops st left right"
  shows "\<exists>rest base. braid ops st left right = Some (Ok (base # rev rest)) \<and> braids ops st [left, right] rest base"
proof -
  have "antichain ops st [left, right]"
    using assms(4) by (auto simp: antichain_def incomparable_def intro: ancestor.refl)
  then obtain rest base where
    "braid_loop ops st (map (strand_of ops st) [left, right]) [] = Some (Ok ([] @ rest @ [base]))"
    "braids ops st [left, right] rest base"
    using braid_loop_spec [OF assms(1), of "[left, right]" "[]"] assms(2,3) by auto
  then show ?thesis
    using strand_new_spec [OF assms(1)] assms(2,3) by (simp add: braid_def)
qed

lemma parents_distinct: "wf st \<Longrightarrow> good st l \<Longrightarrow> distinct (parents ops st l)"
proof -
  assume wf: "wf st" and l: "good st l"
  consider "length (parents ops st l) \<le> 1" | a b where "parents ops st l = [a, b]"
    using parents_length [of ops st l] by (cases "parents ops st l"; cases "tl (parents ops st l)";
        cases "tl (tl (parents ops st l))") auto
  then show ?thesis
  proof cases
    case 1
    then show ?thesis by (cases "parents ops st l") auto
  next
    case (2 a b)
    then show ?thesis
      using merge_parents [OF wf l 2] ancestor.refl [of ops st a] by (auto simp: incomparable_def)
  qed
qed

lemma merge_at_card: "wf st \<Longrightarrow> good st l \<Longrightarrow> merge_at ops st l \<longleftrightarrow> card (set (parents ops st l)) = 2"
  using parents_distinct by (simp add: merge_at_def distinct_card)

lemma push_parents_set:
  assumes "wf st" "good st t"
  shows "set (push_uncovered (ancestor ops st) (parents ops st t) T) =
    set T \<union> {p \<in> set (parents ops st t). \<not> (\<exists>u \<in> set T. ancestor ops st p u)}"
proof -
  consider "parents ops st t = []" | a where "parents ops st t = [a]" | a b where "parents ops st t = [a, b]"
    using parents_length [of ops st t] by (cases "parents ops st t"; cases "tl (parents ops st t)";
        cases "tl (tl (parents ops st t))") auto
  then show ?thesis
  proof cases
    case (3 a b)
    then have "incomparable ops st a b" using merge_parents [OF assms] by blast
    with 3 show ?thesis by (auto simp: incomparable_def)
  qed auto
qed

end

section \<open>Independence of the representation\<close>

text \<open>
  A map between the commands of two storages that respects parents, priorities and ids,
  on a part of the graph where different commands have different priorities or ids.
  The storages may differ in how they cut the graph into segments.
\<close>

definition graph_map :: "('st, 'seg) storage_ops \<Rightarrow> 'st \<Rightarrow> ('st', 'seg') storage_ops \<Rightarrow> 'st' \<Rightarrow>
    (location \<Rightarrow> location) \<Rightarrow> location set \<Rightarrow> bool" where
  "graph_map ops st ops' st' f D \<longleftrightarrow> inj_on (location_key ops st) D \<and> (\<forall>x \<in> D. is_valid ops st x \<and> is_valid ops' st' (f x) \<and>
     set (parents ops st x) \<subseteq> D \<and> set (parents ops' st' (f x)) = f ` set (parents ops st x) \<and>
     location_key ops' st' (f x) = location_key ops st x)"

locale braid_pair = one: braid_graph ops wf "is_valid ops" + two: braid_graph ops' wf' "is_valid ops'"
  for ops :: "('st, 'seg) storage_ops" and wf and ops' :: "('st', 'seg') storage_ops" and wf'
begin

lemma graph_map_inj:
  assumes "graph_map ops st ops' st' f D"
  shows "inj_on f D"
proof (rule inj_onI)
  fix x y assume xy: "x \<in> D" "y \<in> D" "f x = f y"
  have "location_key ops st x = location_key ops' st' (f x)" "location_key ops st y = location_key ops' st' (f y)"
    using assms xy(1,2) by (simp_all add: graph_map_def)
  moreover have "inj_on (location_key ops st) D" using assms by (simp add: graph_map_def)
  ultimately show "x = y" using inj_onD xy by metis
qed

lemma graph_map_ancestor:
  assumes "graph_map ops st ops' st' f D"
  shows "ancestor ops st a x \<Longrightarrow> x \<in> D \<Longrightarrow> a \<in> D \<and> ancestor ops' st' (f a) (f x)"
    and "ancestor ops' st' b y \<Longrightarrow> x \<in> D \<Longrightarrow> y = f x \<Longrightarrow> \<exists>a. b = f a \<and> ancestor ops st a x"
proof -
  show "ancestor ops st a x \<Longrightarrow> x \<in> D \<Longrightarrow> a \<in> D \<and> ancestor ops' st' (f a) (f x)"
  proof (induction rule: ancestor.induct)
    case (step p l a)
    then have "f p \<in> set (parents ops' st' (f l))" "p \<in> D"
      using assms by (auto simp: graph_map_def)
    with step.IH show ?case by (blast intro: ancestor.step)
  qed (simp add: ancestor.refl)
  show "ancestor ops' st' b y \<Longrightarrow> x \<in> D \<Longrightarrow> y = f x \<Longrightarrow> \<exists>a. b = f a \<and> ancestor ops st a x"
  proof (induction arbitrary: x rule: ancestor.induct)
    case (step p l a)
    have x: "set (parents ops st x) \<subseteq> D" "set (parents ops' st' (f x)) = f ` set (parents ops st x)"
      using assms step.prems(1) by (auto simp: graph_map_def)
    then obtain q where q: "p = f q" "q \<in> set (parents ops st x)"
      using step.hyps(1) step.prems(2) by blast
    then obtain c where "a = f c" "ancestor ops st c q" using step.IH [of q] x(1) by blast
    with q(2) show ?case by (blast intro: ancestor.step)
  qed (auto intro: ancestor.refl)
qed

lemma graph_map_ancestor_iff:
  assumes "wf st" "graph_map ops st ops' st' f D" "a \<in> D" "x \<in> D"
  shows "ancestor ops' st' (f a) (f x) \<longleftrightarrow> ancestor ops st a x"
proof
  assume "ancestor ops' st' (f a) (f x)"
  then obtain c where c: "f a = f c" "ancestor ops st c x"
    using graph_map_ancestor(2) [OF assms(2) _ assms(4)] by blast
  then have "c \<in> D" using graph_map_ancestor(1) [OF assms(2) c(2) assms(4)] by simp
  with c graph_map_inj [OF assms(2)] assms(3) show "ancestor ops st a x" by (auto dest: inj_onD)
qed (use graph_map_ancestor(1) [OF assms(2)] assms(4) in blast)

lemma pop_least_map:
  assumes "wf st" "graph_map ops st ops' st' f D" "set T \<subseteq> D" "set T' = f ` set T"
    "pop_least (location_key ops st) T = Some (t, T1)" "pop_least (location_key ops' st') T' = Some (t', T1')"
  shows "t' = f t"
proof -
  have "t' \<in> f ` set T" using pop_least_Some(1) [OF assms(6)] assms(4) by auto
  then obtain u where u: "u \<in> set T" "t' = f u" by blast
  have t: "t \<in> set T" using pop_least_Some(1) [OF assms(5)] by auto
  have key: "location_key ops' st' (f x) = location_key ops st x" if "x \<in> set T" for x
    using assms(2,3) that by (auto simp: graph_map_def)
  have "location_key ops st t \<le> location_key ops st u"
    using pop_least_min [OF assms(5) u(1)] .
  moreover have "location_key ops st u \<le> location_key ops st t"
    using pop_least_min [OF assms(6), of "f t"] t assms(4) u key by simp
  ultimately have "u = t"
    using inj_onD [of "location_key ops st" D u t] assms(2,3) u(1) t by (simp add: graph_map_def subset_iff)
  with u show ?thesis by simp
qed

lemma push_map:
  assumes "wf st" "wf' st'" "graph_map ops st ops' st' f D" "t \<in> D" "set T \<subseteq> D" "set T' = f ` set T"
  defines "T2 \<equiv> push_uncovered (ancestor ops st) (parents ops st t) T"
    and "T2' \<equiv> push_uncovered (ancestor ops' st') (parents ops' st' (f t)) T'"
  shows "set T2' = f ` set T2" "set T2 \<subseteq> D"
proof -
  have t: "is_valid ops st t" "is_valid ops' st' (f t)" "set (parents ops st t) \<subseteq> D"
    "set (parents ops' st' (f t)) = f ` set (parents ops st t)"
    using assms(3,4) by (auto simp: graph_map_def)
  have set2: "set T2 = set T \<union> {p \<in> set (parents ops st t). \<not> (\<exists>u \<in> set T. ancestor ops st p u)}"
    unfolding T2_def by (rule one.push_parents_set [OF assms(1) t(1)])
  show "set T2 \<subseteq> D" using set2 t(3) assms(5) by auto
  have "(\<exists>u \<in> set T'. ancestor ops' st' (f p) u) \<longleftrightarrow> (\<exists>u \<in> set T. ancestor ops st p u)" if "p \<in> set (parents ops st t)" for p
  proof -
    have "p \<in> D" using that t(3) by blast
    then have "ancestor ops' st' (f p) (f u) \<longleftrightarrow> ancestor ops st p u" if "u \<in> set T" for u
      using graph_map_ancestor_iff [OF assms(1,3)] assms(5) that by blast
    then show ?thesis by (auto simp: assms(6))
  qed
  then show "set T2' = f ` set T2"
    unfolding T2'_def two.push_parents_set [OF assms(2) t(2)] set2 t(4) assms(6) by auto
qed

lemma antichain_length_map:
  assumes "wf st" "graph_map ops st ops' st' f D" "antichain ops st T" "antichain ops' st' T'" "set T \<subseteq> D" "set T' = f ` set T"
  shows "length T' = length T"
proof -
  have "length T' = card (f ` set T)" "length T = card (set T)"
    using assms(3,4,6) distinct_card [of T] distinct_card [of T'] by (auto simp: antichain_def)
  then show ?thesis
    using card_image [OF inj_on_subset [OF graph_map_inj [OF assms(2)] assms(5)]] by simp
qed

lemma merge_at_map:
  assumes "wf st" "wf' st'" "graph_map ops st ops' st' f D" "t \<in> D"
  shows "merge_at ops' st' (f t) \<longleftrightarrow> merge_at ops st t"
proof -
  have t: "is_valid ops st t" "is_valid ops' st' (f t)" "set (parents ops st t) \<subseteq> D"
    "set (parents ops' st' (f t)) = f ` set (parents ops st t)"
    using assms(3,4) by (auto simp: graph_map_def)
  then show ?thesis
    using card_image [OF inj_on_subset [OF graph_map_inj [OF assms(3)] t(3)]]
    by (simp add: one.merge_at_card [OF assms(1)] two.merge_at_card [OF assms(2)])
qed

lemma braid_loop_map:
  assumes "wf st" "wf' st'" "graph_map ops st ops' st' f D"
    and "antichain ops st T" "antichain ops' st' T'" "set T \<subseteq> D" "set T' = f ` set T" "2 \<le> length T"
    and "braid_loop ops st (map (strand_of ops st) T) acc = Some (Ok r)"
  shows "braid_loop ops' st' (map (strand_of ops' st') T') (map f acc) = Some (Ok (map f r))"
  using assms(4-9)
proof (induction "queue_weight ops st T" arbitrary: T T' acc rule: less_induct)
  case less
  have valid: "\<forall>t \<in> set T. is_valid ops st t" "\<forall>t \<in> set T'. is_valid ops' st' t"
    using assms(3) less.prems(3,4) by (auto simp: graph_map_def)
  obtain t T1 where pop: "pop_least (location_key ops st) T = Some (t, T1)"
    using less.prems(5) by (cases "pop_least (location_key ops st) T") auto
  obtain t' T1' where pop': "pop_least (location_key ops' st') T' = Some (t', T1')"
    using less.prems(4,5) by (cases "pop_least (location_key ops' st') T'") auto
  have t': "t' = f t" by (rule pop_least_map [OF assms(1,3) less.prems(3,4) pop pop'])
  define T2 where "T2 = push_uncovered (ancestor ops st) (parents ops st t) T1"
  define T2' where "T2' = push_uncovered (ancestor ops' st') (parents ops' st' (f t)) T1'"
  have t: "t \<in> D" and T1: "set T1 \<subseteq> D" using pop_least_Some(1) [OF pop] less.prems(3) by auto
  have "set T1' = f ` set T1"
  proof -
    have "set T1' = set T' - {f t}" "set T1 = set T - {t}"
      using pop_least_Some(1,3) [OF pop'] pop_least_Some(1,3) [OF pop] less.prems(1,2) t'
      by (auto simp: antichain_def)
    then show ?thesis
      using less.prems(3,4) t inj_on_image_set_diff [OF graph_map_inj [OF assms(3)], of "set T" "{t}"] by auto
  qed
  note push = push_map [OF assms(1-3) t T1 this, folded T2_def T2'_def]
  note step = one.braid_step [OF assms(1) less.prems(1) valid(1) pop, folded T2_def]
  note step' = two.braid_step [OF assms(2) less.prems(2) valid(2) pop', unfolded t', folded T2'_def]
  have len: "length T2' = length T2"
    by (rule antichain_length_map [OF assms(1,3) step(2) step'(2) push(2,1)])
  note loop = one.braid_loop_step [OF assms(1) valid(1) pop, of acc, folded T2_def]
    two.braid_loop_step [OF assms(2) valid(2) pop', of "map f acc", unfolded t', folded T2'_def]
    merge_at_map [OF assms(1-3) t]
  show ?case
  proof (cases "length T2 = 1")
    case True
    then obtain b b' where "T2 = [b]" "T2' = [b']" using len by (cases T2; cases T2') auto
    with push(1) True len loop less.prems(6) show ?thesis by (auto split: if_splits)
  next
    case False
    have "2 \<le> length T2"
      using False step(6) pop_least_Some(2) [OF pop] less.prems(5) by (cases T2; cases "tl T2"; cases T1) auto
    moreover have "braid_loop ops st (map (strand_of ops st) T2) (if merge_at ops st t then acc else acc @ [t]) = Some (Ok r)"
      using loop(1) False less.prems(6) by simp
    ultimately have "braid_loop ops' st' (map (strand_of ops' st') T2') (map f (if merge_at ops st t then acc else acc @ [t])) =
        Some (Ok (map f r))"
      using less.hyps [OF step(5,2) step'(2) push(2,1)] by blast
    then show ?thesis using loop(2,3) False len by (auto split: if_splits)
  qed
qed

lemma braid_map:
  assumes "wf st" "wf' st'" "graph_map ops st ops' st' f (below ops st {left, right})"
    "incomparable ops st left right" "{left', right'} = {f left, f right}"
    "braid ops st left right = Some (Ok r)"
  shows "braid ops' st' left' right' = Some (Ok (map f r))"
proof -
  let ?D = "below ops st {left, right}"
  have D: "left \<in> ?D" "right \<in> ?D" by (auto simp: below_def intro: ancestor.refl)
  have valid: "is_valid ops st left" "is_valid ops st right" "is_valid ops' st' left'" "is_valid ops' st' right'"
    using assms(3,5) D by (auto simp: graph_map_def doubleton_eq_iff)
  have inc: "incomparable ops' st' (f left) (f right)"
    using assms(4) D graph_map_ancestor_iff [OF assms(1,3)] by (simp add: incomparable_def)
  then have chain': "antichain ops' st' [left', right']"
    using assms(5) by (auto simp: antichain_def incomparable_def doubleton_eq_iff intro: ancestor.refl)
  have chain: "antichain ops st [left, right]"
    using assms(4) by (auto simp: antichain_def incomparable_def intro: ancestor.refl)
  from assms(6) obtain b where b: "braid_loop ops st (map (strand_of ops st) [left, right]) [] = Some (Ok b)" "r = rev b"
    using one.strand_new_spec [OF assms(1)] valid one.braid_loop_spec [OF assms(1) chain, of "[]"] by (auto simp: braid_def)
  have "braid_loop ops' st' (map (strand_of ops' st') [left', right']) (map f []) = Some (Ok (map f b))"
    by (rule braid_loop_map [OF assms(1-3) chain chain' _ _ _ b(1)]) (use D assms(5) in auto)
  then show ?thesis
    using two.strand_new_spec [OF assms(2)] valid b(2) by (simp add: braid_def rev_map)
qed

end

end
