(* ===== verification/Mem_Storage.thy ===== *)
theory Mem_Storage
  imports Fact_Store Braid
begin

text \<open>
  The in-memory graph storage (\<open>aranya-runtime/src/storage/memory.rs\<close>): segments of
  commands with the facts at their end, perspectives that collect commands and fact
  updates, writing and committing them.
\<close>

section \<open>Segments\<close>

record command_data =
  cd_command :: stored_command
  cd_updates :: "fact_update list"

record mem_segment =
  seg_index :: nat
  seg_prior :: "location prior"
  seg_policy :: policy_id
  seg_commands :: "command_data list"
  seg_facts :: mem_fact_index

definition seg_head :: "mem_segment \<Rightarrow> stored_command" where
  "seg_head seg = cd_command (last (seg_commands seg))"

definition seg_first :: "mem_segment \<Rightarrow> stored_command" where
  "seg_first seg = cd_command (hd (seg_commands seg))"

definition seg_head_location :: "mem_segment \<Rightarrow> location" where
  "seg_head_location seg = location_new (seg_index seg) (length (seg_commands seg) - 1)"

definition seg_first_location :: "mem_segment \<Rightarrow> location" where
  "seg_first_location seg = location_new (seg_index seg) 0"

definition seg_contains :: "mem_segment \<Rightarrow> location \<Rightarrow> bool" where
  "seg_contains seg l \<longleftrightarrow> loc_segment l = seg_index seg"

definition seg_get_command :: "mem_segment \<Rightarrow> location \<Rightarrow> stored_command option" where
  "seg_get_command seg l =
     (if loc_segment l \<noteq> seg_index seg then None
      else if loc_command l < length (seg_commands seg) then Some (cd_command (seg_commands seg ! loc_command l))
      else None)"

definition seg_get_from :: "mem_segment \<Rightarrow> location \<Rightarrow> (stored_command list, 'e) result" where
  "seg_get_from seg l =
     (if loc_segment l \<noteq> seg_index seg then Ok []
      else if loc_command l \<le> length (seg_commands seg) then Ok (map cd_command (drop (loc_command l) (seg_commands seg)))
      else Panic ''slice index out of range'')"

definition seg_get_from_max_cut :: "mem_segment \<Rightarrow> nat \<Rightarrow> (location option, storage_error) result" where
  "seg_get_from_max_cut seg m =
     Ok (map_option (location_new (seg_index seg))
       (find (\<lambda>i. sc_max_cut (cd_command (seg_commands seg ! i)) = m) [0..<length (seg_commands seg)]))"

definition seg_longest_max_cut :: "mem_segment \<Rightarrow> (nat, storage_error) result" where
  "seg_longest_max_cut seg = Ok (sc_max_cut (seg_head seg))"

definition seg_shortest_max_cut :: "mem_segment \<Rightarrow> nat" where
  "seg_shortest_max_cut seg = sc_max_cut (seg_first seg)"

section \<open>Storage\<close>

record mem_storage =
  ms_segments :: "mem_segment list"
  ms_commands :: "(command_id, location) btree_map"
  ms_head :: "location option"

definition mem_storage_new :: mem_storage where
  "mem_storage_new = \<lparr>ms_segments = [], ms_commands = [], ms_head = None\<rparr>"

definition mem_get_segment :: "mem_storage \<Rightarrow> location \<Rightarrow> (mem_segment, storage_error) result" where
  "mem_get_segment st l =
     (if loc_segment l < length (ms_segments st) then Ok (ms_segments st ! loc_segment l)
      else Err (SegmentOutOfBounds l))"

definition mem_get_head :: "mem_storage \<Rightarrow> (location, storage_error) result" where
  "mem_get_head st = ok_or (StorageBug ''storage has head after init'') (ms_head st)"

definition mem_ops :: "(mem_storage, mem_segment) storage_ops" where
  "mem_ops = \<lparr>so_get_segment = mem_get_segment, so_get_head = mem_get_head, so_prior = seg_prior,
     so_get_command = seg_get_command, so_get_from_max_cut = seg_get_from_max_cut,
     so_longest_max_cut = seg_longest_max_cut, so_skip_list = (\<lambda>_. [])\<rparr>"

definition mem_get_command_id :: "mem_storage \<Rightarrow> location \<Rightarrow> (command_id, storage_error) result" where
  "mem_get_command_id st l =
     rbind (mem_get_segment st l) (\<lambda>seg.
     rbind (ok_or (CommandOutOfBounds l) (seg_get_command seg l)) (\<lambda>c. Ok (cmd_id c)))"

section \<open>Perspectives\<close>

record mem_perspective =
  mp_prior :: "location prior"
  mp_parents :: "address prior"
  mp_policy :: policy_id
  mp_facts :: mem_fact_perspective
  mp_commands :: "command_data list"
  mp_current_updates :: "fact_update list"
  mp_max_cut :: nat

definition mp_new :: "location prior \<Rightarrow> address prior \<Rightarrow> policy_id \<Rightarrow> fact_perspective_prior \<Rightarrow> nat \<Rightarrow> mem_perspective" where
  "mp_new prior pars policy prior_facts max_cut =
     \<lparr>mp_prior = prior, mp_parents = pars, mp_policy = policy, mp_facts = mfp_new prior_facts,
      mp_commands = [], mp_current_updates = [], mp_max_cut = max_cut\<rparr>"

definition mp_new_unrooted :: "policy_id \<Rightarrow> mem_perspective" where
  "mp_new_unrooted policy = mp_new PNone PNone policy FPNone 0"

text \<open>Replaying the updates that the commands recorded, the loop that \<open>revert\<close>, \<open>get_linear_perspective\<close> and \<open>get_fact_perspective\<close> share.\<close>

definition replay :: "command_data list \<Rightarrow> mem_fact_perspective \<Rightarrow> mem_fact_perspective" where
  "replay cmds fp = fold (\<lambda>d. mfp_apply_updates (cd_updates d)) cmds fp"

definition mp_checkpoint :: "mem_perspective \<Rightarrow> nat" where
  "mp_checkpoint p = length (mp_commands p)"

definition mp_revert :: "nat \<Rightarrow> (mem_perspective, unit, string) prog" where
  "mp_revert index = (\<lambda>p.
     if index = length (mp_commands p) then (Ok (), p)
     else if index > length (mp_commands p) then
       (Err ''A checkpoint's index should always be less than or equal to the length of a perspective's command history!'', p)
     else let cmds = take index (mp_commands p) in
       (Ok (), p\<lparr>mp_commands := cmds,
                 mp_facts := replay cmds (mfp_clear (mp_facts p)),
                 mp_current_updates := []\<rparr>))"

definition mp_head_address :: "mem_perspective \<Rightarrow> (address prior, string) result" where
  "mp_head_address p =
     (if mp_commands p = [] then Ok (mp_parents p)
      else Ok (PSingle (stored_address (cd_command (last (mp_commands p))))))"

definition mem_command_from :: "command \<Rightarrow> nat \<Rightarrow> stored_command" where
  "mem_command_from c max_cut =
     \<lparr>cmd_priority = cmd_priority c, cmd_id = cmd_id c, cmd_parent = cmd_parent c, cmd_policy = cmd_policy c,
      cmd_bytes = cmd_bytes c, sc_max_cut = max_cut\<rparr>"

definition mp_add_command :: "command \<Rightarrow> (mem_perspective, nat, storage_error) prog" where
  "mp_add_command c =
     pbind (\<lambda>p. (map_err StorageBug (mp_head_address p), p)) (\<lambda>head.
     if cmd_parent c \<noteq> head then pfail PerspectiveHeadMismatch
     else pbind (plift (map_err StorageBug (next_max_cut head))) (\<lambda>m.
          pbind (pmodify (\<lambda>p. p\<lparr>mp_commands := mp_commands p @
                   [\<lparr>cd_command = mem_command_from c m, cd_updates = mp_current_updates p\<rparr>],
                   mp_current_updates := []\<rparr>)) (\<lambda>_.
          pgets (\<lambda>p. length (mp_commands p)))))"

definition mp_includes :: "mem_perspective \<Rightarrow> command_id \<Rightarrow> bool" where
  "mp_includes p i = list_ex (\<lambda>d. cmd_id (cd_command d) = i) (mp_commands p)"

definition mp_query :: "mem_perspective \<Rightarrow> string \<Rightarrow> keys \<Rightarrow> bytes option" where
  "mp_query p = mfp_query (mp_facts p)"

definition mp_query_prefix :: "mem_perspective \<Rightarrow> string \<Rightarrow> keys \<Rightarrow> stored_fact list" where
  "mp_query_prefix p = mfp_query_prefix (mp_facts p)"

definition mp_insert :: "string \<Rightarrow> keys \<Rightarrow> bytes \<Rightarrow> mem_perspective \<Rightarrow> mem_perspective" where
  "mp_insert n k v p = p\<lparr>mp_facts := mfp_insert n k v (mp_facts p),
     mp_current_updates := mp_current_updates p @ [(n, k, Some v)]\<rparr>"

definition mp_delete :: "string \<Rightarrow> keys \<Rightarrow> mem_perspective \<Rightarrow> mem_perspective" where
  "mp_delete n k p = p\<lparr>mp_facts := mfp_delete n k (mp_facts p),
     mp_current_updates := mp_current_updates p @ [(n, k, None)]\<rparr>"

section \<open>Reading and writing\<close>

definition mem_get_linear_perspective :: "mem_storage \<Rightarrow> location \<Rightarrow> (mem_perspective option, storage_error) result" where
  "mem_get_linear_perspective st parent =
     rbind (mem_get_segment st parent) (\<lambda>seg.
     rbind (ok_or (CommandOutOfBounds parent) (seg_get_command seg parent)) (\<lambda>c.
     let prior_facts =
       (if parent = seg_head_location seg then FPIndex (seg_facts seg)
        else let facts = replay (take (Suc (loc_command parent)) (seg_commands seg))
                           (mfp_new (fpp_of_option (mfi_prior (seg_facts seg))))
          in if mfp_map facts = [] then mfp_prior facts else FPPerspective facts) in
     rbind (ok_or (StorageBug ''must not overflow'') (usize_checked_add (sc_max_cut c) 1)) (\<lambda>max_cut.
     Ok (Some (mp_new (PSingle parent) (PSingle (stored_address c)) (seg_policy seg) prior_facts max_cut)))))"

definition mem_get_fact_perspective :: "mem_storage \<Rightarrow> location \<Rightarrow> (mem_fact_perspective, storage_error) result" where
  "mem_get_fact_perspective st l =
     rbind (mem_get_segment st l) (\<lambda>seg.
     if l = seg_head_location seg \<or> list_all (\<lambda>d. cd_updates d = []) (seg_commands seg)
     then Ok (mfp_new (FPIndex (seg_facts seg)))
     else if loc_command l < length (seg_commands seg)
     then Ok (replay (take (Suc (loc_command l)) (seg_commands seg))
                (mfp_new (fpp_of_option (mfi_prior (seg_facts seg)))))
     else Panic ''range end index out of range'')"

definition mem_new_merge_perspective ::
  "mem_storage \<Rightarrow> location \<Rightarrow> location \<Rightarrow> policy_id \<Rightarrow> mem_fact_index \<Rightarrow> (mem_perspective option, storage_error) result" where
  "mem_new_merge_perspective st left right policy facts =
     rbind (mem_get_segment st left) (\<lambda>lseg.
     rbind (mem_get_segment st right) (\<lambda>rseg.
     if policy \<noteq> seg_policy lseg \<and> policy \<noteq> seg_policy rseg then Err PolicyMismatch
     else rbind (ok_or (CommandOutOfBounds left) (seg_get_command lseg left)) (\<lambda>lc.
          rbind (ok_or (CommandOutOfBounds right) (seg_get_command rseg right)) (\<lambda>rc.
          rbind (ok_or (StorageBug ''must not overflow'')
                  (usize_checked_add (max (sc_max_cut lc) (sc_max_cut rc)) 1)) (\<lambda>max_cut.
          Ok (Some (mp_new (PMerge left right) (PMerge (stored_address lc) (stored_address rc)) policy
            (FPIndex facts) max_cut)))))))"

text \<open>The loop of \<open>new_segment\<close> that numbers the commands from the max cut of the perspective.\<close>

fun number_commands :: "nat \<Rightarrow> nat \<Rightarrow> command_data list \<Rightarrow> (command_data list, storage_error) result" where
  "number_commands max_cut i [] = Ok []"
| "number_commands max_cut i (d # ds) =
     rbind (ok_or (StorageBug ''must not overflow'') (usize_checked_add max_cut i)) (\<lambda>m.
     rbind (number_commands max_cut (Suc i) ds) (\<lambda>rest.
     Ok (d\<lparr>cd_command := (cd_command d)\<lparr>sc_max_cut := m\<rparr>\<rparr> # rest)))"

definition mem_new_segment ::
  "location prior \<Rightarrow> policy_id \<Rightarrow> command_data list \<Rightarrow> mem_fact_index \<Rightarrow> nat \<Rightarrow> (mem_storage, mem_segment, storage_error) prog" where
  "mem_new_segment prior policy cmds facts max_cut =
     pbind (pgets (\<lambda>st. length (ms_segments st))) (\<lambda>index.
     pbind (plift (number_commands max_cut 0 cmds)) (\<lambda>cmds'.
     let seg = \<lparr>seg_index = index, seg_prior = prior, seg_policy = policy, seg_commands = cmds', seg_facts = facts\<rparr> in
     pbind (pmodify (\<lambda>st. st\<lparr>ms_segments := ms_segments st @ [seg]\<rparr>)) (\<lambda>_. preturn seg)))"

definition mem_write :: "mem_perspective \<Rightarrow> (mem_storage, mem_segment, storage_error) prog" where
  "mem_write p =
     (let facts = mem_write_facts (mp_facts p) in
      if mp_commands p = [] then pfail EmptyPerspective
      else pbind (pmodify (\<lambda>st. st\<lparr>ms_commands :=
             fold (\<lambda>i. bt_insert (cmd_id (cd_command (mp_commands p ! i))) (location_new (length (ms_segments st)) i))
               [0..<length (mp_commands p)] (ms_commands st)\<rparr>)) (\<lambda>_.
           mem_new_segment (mp_prior p) (mp_policy p) (mp_commands p) facts (mp_max_cut p)))"

definition mem_commit :: "mem_segment \<Rightarrow> mem_storage \<Rightarrow> ((unit, storage_error) result \<times> mem_storage) option" where
  "mem_commit seg st = (case ms_head st of
      None \<Rightarrow> Some (Ok (), st\<lparr>ms_head := Some (seg_head_location seg)\<rparr>)
    | Some head \<Rightarrow> (case is_ancestor mem_ops st head seg of
          None \<Rightarrow> None
        | Some (Ok True) \<Rightarrow> Some (Ok (), st\<lparr>ms_head := Some (seg_head_location seg)\<rparr>)
        | Some (Ok False) \<Rightarrow> Some (Err HeadNotAncestor, st)
        | Some (Err e) \<Rightarrow> Some (Err e, st)
        | Some (Panic m) \<Rightarrow> Some (Panic m, st)))"

section \<open>The provider\<close>

type_synonym mem_storage_provider = "(command_id, mem_storage) btree_map"

definition new_perspective :: "policy_id \<Rightarrow> mem_perspective" where
  "new_perspective policy = mp_new_unrooted policy"

definition new_storage :: "mem_perspective \<Rightarrow> mem_storage_provider \<Rightarrow> ((command_id, storage_error) result \<times> mem_storage_provider) option" where
  "new_storage p sp =
     (if mp_commands p = [] then Some (Err EmptyPerspective, sp)
      else let graph = cmd_id (cd_command (hd (mp_commands p))) in
        if bt_contains sp graph then Some (Err StorageExists, sp)
        else (case mem_write p mem_storage_new of
            (Err e, _) \<Rightarrow> Some (Err e, sp)
          | (Panic m, _) \<Rightarrow> Some (Panic m, sp)
          | (Ok seg, st) \<Rightarrow> (case mem_commit seg st of
                None \<Rightarrow> None
              | Some (Ok _, st') \<Rightarrow> Some (Ok graph, bt_insert graph st' sp)
              | Some (Err e, _) \<Rightarrow> Some (Err e, sp)
              | Some (Panic m, _) \<Rightarrow> Some (Panic m, sp))))"

definition get_storage :: "mem_storage_provider \<Rightarrow> command_id \<Rightarrow> (mem_storage, storage_error) result" where
  "get_storage sp graph = ok_or NoSuchStorage (bt_get sp graph)"

section \<open>Well-formed storages\<close>

text \<open>
  Segment \<open>i\<close> of a storage knows its index, has at least one command, numbers the max cuts
  of its commands consecutively, and its priors are commands of earlier segments with a
  smaller max cut.
\<close>

definition prior_ok :: "mem_segment list \<Rightarrow> nat \<Rightarrow> location \<Rightarrow> bool" where
  "prior_ok segs m p \<longleftrightarrow> loc_segment p < length segs \<and>
     (case seg_get_command (segs ! loc_segment p) p of None \<Rightarrow> False | Some c \<Rightarrow> sc_max_cut c < m)"

definition segment_ok :: "mem_segment list \<Rightarrow> mem_segment \<Rightarrow> bool" where
  "segment_ok before seg \<longleftrightarrow> seg_index seg = length before \<and> seg_commands seg \<noteq> [] \<and>
     (\<forall>j < length (seg_commands seg). sc_max_cut (cd_command (seg_commands seg ! j)) = seg_shortest_max_cut seg + j) \<and>
     list_all (prior_ok before (seg_shortest_max_cut seg)) (prior_list (seg_prior seg)) \<and> mfi_wf (seg_facts seg)"

definition segments_ok :: "mem_segment list \<Rightarrow> bool" where
  "segments_ok segs \<longleftrightarrow> (\<forall>i < length segs. segment_ok (take i segs) (segs ! i))"

definition mem_wf :: "mem_storage \<Rightarrow> bool" where
  "mem_wf st \<longleftrightarrow> segments_ok (ms_segments st) \<and> (case ms_head st of None \<Rightarrow> True | Some h \<Rightarrow> is_valid mem_ops st h)"

lemma segments_ok_snoc: "segments_ok (segs @ [seg]) \<longleftrightarrow> segments_ok segs \<and> segment_ok segs seg"
  unfolding segments_ok_def by (auto simp: less_Suc_eq nth_append)

lemma mem_ops_sel [simp]:
  "so_get_segment mem_ops = mem_get_segment" "so_get_head mem_ops = mem_get_head" "so_prior mem_ops = seg_prior"
  "so_get_command mem_ops = seg_get_command" "so_get_from_max_cut mem_ops = seg_get_from_max_cut"
  "so_longest_max_cut mem_ops = seg_longest_max_cut" "so_skip_list mem_ops = (\<lambda>_. [])"
  by (simp_all add: mem_ops_def)

lemma mem_get_segment_Ok [simp]:
  "mem_get_segment st l = Ok seg \<longleftrightarrow> loc_segment l < length (ms_segments st) \<and> seg = ms_segments st ! loc_segment l"
  by (auto simp: mem_get_segment_def)

lemma mem_command_at:
  "command_at mem_ops st l = (if loc_segment l < length (ms_segments st)
     then seg_get_command (ms_segments st ! loc_segment l) l else None)"
  by (simp add: command_at_def mem_get_segment_def)

lemma mem_segment_priors:
  "segment_priors mem_ops st l = (if loc_segment l < length (ms_segments st)
     then prior_list (seg_prior (ms_segments st ! loc_segment l)) else [])"
  by (simp add: segment_priors_def mem_get_segment_def)

lemma segment_at:
  assumes "segments_ok (ms_segments st)" "loc_segment l < length (ms_segments st)"
  shows "segment_ok (take (loc_segment l) (ms_segments st)) (ms_segments st ! loc_segment l)"
  using assms by (simp add: segments_ok_def)

lemma mem_is_valid:
  assumes "segments_ok (ms_segments st)"
  shows "is_valid mem_ops st l \<longleftrightarrow> loc_segment l < length (ms_segments st) \<and>
    loc_command l < length (seg_commands (ms_segments st ! loc_segment l))"
  using segment_at [OF assms, of l]
  by (auto simp: is_valid_def mem_command_at seg_get_command_def segment_ok_def)

lemma mem_cut_at:
  assumes "segments_ok (ms_segments st)" "is_valid mem_ops st l"
  shows "cut_at mem_ops st l = seg_shortest_max_cut (ms_segments st ! loc_segment l) + loc_command l"
  using segment_at [OF assms(1), of l] assms(2)
  by (auto simp: mem_is_valid [OF assms(1)] cut_at_def mem_command_at seg_get_command_def segment_ok_def)

lemma prior_ok_valid:
  assumes "segments_ok (ms_segments st)" "prior_ok (take n (ms_segments st)) m p"
  shows "is_valid mem_ops st p \<and> cut_at mem_ops st p < m"
  using assms(2)
  by (auto simp: prior_ok_def is_valid_def cut_at_def mem_command_at split: option.splits)

lemma mem_parent_valid:
  assumes "segments_ok (ms_segments st)" "is_valid mem_ops st l" "p \<in> set (parents mem_ops st l)"
  shows "is_valid mem_ops st p \<and> cut_at mem_ops st p < cut_at mem_ops st l"
proof (cases "loc_command l")
  case 0
  have "prior_ok (take (loc_segment l) (ms_segments st)) (seg_shortest_max_cut (ms_segments st ! loc_segment l)) p"
    using assms 0 segment_at [OF assms(1), of l]
    by (auto simp: parents_first mem_segment_priors segment_ok_def list_all_iff split: if_splits)
  from prior_ok_valid [OF assms(1) this] show ?thesis
    using mem_cut_at [OF assms(1,2)] by simp
next
  case (Suc n)
  then have p: "p = l\<lparr>loc_command := n\<rparr>" using assms(3) by (simp add: parents_previous)
  have "is_valid mem_ops st p" using assms(2) Suc p by (simp add: mem_is_valid [OF assms(1)])
  then show ?thesis using mem_cut_at [OF assms(1)] assms(2) Suc p by simp
qed

lemma mem_longest:
  assumes "segments_ok (ms_segments st)" "mem_get_segment st l = Ok seg"
  shows "\<exists>m. seg_longest_max_cut seg = Ok m \<and> (is_valid mem_ops st l \<longrightarrow> cut_at mem_ops st l \<le> m)"
proof -
  have ok: "segment_ok (take (loc_segment l) (ms_segments st)) seg" using segment_at assms by force
  then have "seg_longest_max_cut seg = Ok (seg_shortest_max_cut seg + (length (seg_commands seg) - 1))"
    by (simp add: seg_longest_max_cut_def seg_head_def segment_ok_def last_conv_nth)
  then show ?thesis
    using assms(2) mem_cut_at [OF assms(1), of l] by (auto simp: mem_is_valid [OF assms(1)])
qed

lemma mem_from_max_cut:
  assumes "segments_ok (ms_segments st)" "mem_get_segment st l = Ok seg"
  shows "seg_get_from_max_cut seg m = Ok None \<and>
      (\<forall>l'. loc_segment l' = loc_segment l \<longrightarrow> is_valid mem_ops st l' \<longrightarrow> cut_at mem_ops st l' \<noteq> m) \<or>
    (\<exists>loc. seg_get_from_max_cut seg m = Ok (Some loc) \<and> loc_segment loc = loc_segment l \<and>
      is_valid mem_ops st loc \<and> cut_at mem_ops st loc = m)"
proof -
  have seg: "loc_segment l < length (ms_segments st)" "seg = ms_segments st ! loc_segment l" using assms(2) by auto
  have ok: "segment_ok (take (loc_segment l) (ms_segments st)) seg" using segment_at [OF assms(1) seg(1)] seg(2) by simp
  let ?n = "length (seg_commands seg)" and ?P = "\<lambda>i. sc_max_cut (cd_command (seg_commands seg ! i)) = m"
  show ?thesis
  proof (cases "find ?P [0..<?n]")
    case None
    then have no: "\<forall>i < ?n. \<not> ?P i" by (simp add: find_None_iff)
    then have "cut_at mem_ops st l' \<noteq> m" if "loc_segment l' = loc_segment l" "is_valid mem_ops st l'" for l'
      using that mem_cut_at [OF assms(1) that(2)] ok seg by (auto simp: mem_is_valid [OF assms(1)] segment_ok_def)
    with None show ?thesis by (simp add: seg_get_from_max_cut_def)
  next
    case (Some i)
    then have i: "i < ?n" "?P i" by (auto simp: find_Some_iff)
    let ?loc = "location_new (seg_index seg) i"
    have "loc_segment ?loc = loc_segment l" "is_valid mem_ops st ?loc"
      using ok seg i by (auto simp: mem_is_valid [OF assms(1)] segment_ok_def location_new_def)
    moreover from mem_cut_at [OF assms(1) this(2)] have "cut_at mem_ops st ?loc = m"
      using ok seg i by (auto simp: segment_ok_def location_new_def)
    ultimately show ?thesis using Some by (simp add: seg_get_from_max_cut_def)
  qed
qed

interpretation mem: graph_storage mem_ops mem_wf "is_valid mem_ops"
proof (unfold_locales, goal_cases)
  case (3 st l l' seg)
  then show ?case by simp
next
  case (4 st l l')
  then show ?case by (auto simp: mem_wf_def mem_is_valid)
next
  case (5 st l p)
  then show ?case using mem_parent_valid by (simp add: mem_wf_def)
next
  case (6 st l seg)
  then show ?case using mem_longest [of st l seg] by (simp add: mem_wf_def)
next
  case (7 st l seg long m)
  then show ?case using mem_from_max_cut [of st l seg m] by (simp add: mem_wf_def)
qed simp_all

end
