(* ===== verification/Mem_Spec.thy ===== *)
theory Mem_Spec
  imports Mem_Storage
begin

text \<open>
  Correctness of the in-memory storage: perspectives and their reversal, writing and
  committing segments, the facts seen at each command, and the searches and the braid on
  the stored graph.
\<close>

section \<open>Replaying updates\<close>

definition updates_of :: "command_data list \<Rightarrow> fact_update list" where
  "updates_of ds = concat (map cd_updates ds)"

lemma updates_of_simps [simp]:
  "updates_of [] = []" "updates_of (d # ds) = cd_updates d @ updates_of ds" "updates_of (ds @ es) = updates_of ds @ updates_of es"
  by (simp_all add: updates_of_def)

lemma updates_of_Nil: "updates_of ds = [] \<longleftrightarrow> list_all (\<lambda>d. cd_updates d = []) ds"
  by (auto simp: updates_of_def list_all_iff)

lemma mfp_apply_updates_append: "mfp_apply_updates (us @ vs) fp = mfp_apply_updates vs (mfp_apply_updates us fp)"
  by (cases fp) simp

lemma mfp_apply_updates_Nil [simp]: "mfp_apply_updates [] fp = fp"
  by (cases fp) simp

lemma mfp_insert_apply: "mfp_insert n k v fp = mfp_apply_updates [(n, k, Some v)] fp"
  by (cases fp) simp

lemma mfp_delete_apply: "mfp_delete n k fp = mfp_apply_updates [(n, k, None)] fp"
  by (cases fp) simp

lemma replay_updates: "replay ds fp = mfp_apply_updates (updates_of ds) fp"
  unfolding replay_def by (induction ds arbitrary: fp) (simp_all add: mfp_apply_updates_append)

lemma mfp_clear_apply [simp]: "mfp_clear (mfp_apply_updates us fp) = mfp_clear fp"
  by (cases fp) simp

lemma mfp_clear_clear [simp]: "mfp_clear (mfp_clear fp) = mfp_clear fp"
  by (cases fp) simp

lemma mfp_prior_simps [simp]:
  "mfp_prior (mfp_apply_updates us fp) = mfp_prior fp" "mfp_prior (mfp_new p) = p"
  by (cases fp; simp add: mfp_new_def)+

lemma named_insert_nonempty [simp]: "named_insert n k v m \<noteq> []"
  by (auto simp: named_insert_def dest: arg_cong [where f = "\<lambda>m. bt_get m n"])

lemma mfp_map_apply_new: "mfp_map (mfp_apply_updates us (mfp_new p)) = [] \<longleftrightarrow> us = []"
proof -
  have "fold (\<lambda>(n, k, v). named_insert n k v) us m = [] \<longleftrightarrow> us = []" if "m = []" for m :: named_fact_map
    using that by (cases us rule: rev_cases) auto
  then show ?thesis by (simp add: mfp_new_def)
qed

section \<open>Perspectives\<close>

text \<open>
  A perspective is consistent when its facts are those that the updates of its commands,
  and then the pending updates, make of the facts it was opened on.
\<close>

definition mp_consistent :: "mem_perspective \<Rightarrow> bool" where
  "mp_consistent p \<longleftrightarrow>
     mp_facts p = mfp_apply_updates (updates_of (mp_commands p) @ mp_current_updates p) (mfp_clear (mp_facts p))"

text \<open>What a policy does to a perspective between two checkpoints.\<close>

datatype perspective_op = OpInsert string keys bytes | OpDelete string keys | OpAdd command

fun perform_op :: "perspective_op \<Rightarrow> mem_perspective \<Rightarrow> mem_perspective" where
  "perform_op (OpInsert n k v) p = mp_insert n k v p"
| "perform_op (OpDelete n k) p = mp_delete n k p"
| "perform_op (OpAdd c) p = snd (mp_add_command c p)"

definition perform :: "perspective_op list \<Rightarrow> mem_perspective \<Rightarrow> mem_perspective" where
  "perform os p = fold perform_op os p"

lemma mp_add_command_cases:
  assumes "mp_add_command c p = (r, p')"
  obtains (ok) h m where "mp_head_address p = Ok h" "cmd_parent c = h" "next_max_cut h = Ok m" "r = Ok (Suc (length (mp_commands p)))"
      "p' = p\<lparr>mp_commands := mp_commands p @ [\<lparr>cd_command = mem_command_from c m, cd_updates = mp_current_updates p\<rparr>],
              mp_current_updates := []\<rparr>"
    | (err) e where "r = Err e" "p' = p"
proof -
  obtain h where h: "mp_head_address p = Ok h" by (cases "mp_commands p = []") (simp_all add: mp_head_address_def)
  have "\<nexists>s. next_max_cut h = Panic s"
    by (auto simp: next_max_cut_def after_parents_def split: prior.splits)
  then consider m where "next_max_cut h = Ok m" | s where "next_max_cut h = Err s"
    by (cases "next_max_cut h") auto
  then show thesis
  proof cases
    case 1
    with assms h show thesis
      by (cases "cmd_parent c = h") (auto simp: mp_add_command_def prog_defs intro: ok err)
  next
    case 2
    with assms h show thesis
      by (cases "cmd_parent c = h") (auto simp: mp_add_command_def prog_defs intro: err)
  qed
qed

text \<open>Every operation keeps the perspective consistent, and only ever adds commands at the end.\<close>

definition grows_from :: "mem_perspective \<Rightarrow> mem_perspective \<Rightarrow> bool" where
  "grows_from p p' \<longleftrightarrow> (\<exists>ds. mp_commands p' = mp_commands p @ ds) \<and> mfp_clear (mp_facts p') = mfp_clear (mp_facts p) \<and>
     mp_prior p' = mp_prior p \<and> mp_parents p' = mp_parents p \<and> mp_policy p' = mp_policy p \<and> mp_max_cut p' = mp_max_cut p"

lemma grows_from_trans: "grows_from p q \<Longrightarrow> grows_from q r \<Longrightarrow> grows_from p r"
  by (auto simp: grows_from_def)

lemma perform_op_spec:
  assumes "mp_consistent p"
  shows "mp_consistent (perform_op a p) \<and> grows_from p (perform_op a p)"
proof (cases a)
  case (OpInsert n k v)
  with assms show ?thesis
    by (auto simp: mp_consistent_def mp_insert_def mfp_insert_apply grows_from_def mfp_apply_updates_append)
next
  case (OpDelete n k)
  with assms show ?thesis
    by (auto simp: mp_consistent_def mp_delete_def mfp_delete_apply grows_from_def mfp_apply_updates_append)
next
  case (OpAdd c)
  obtain r p' where run: "mp_add_command c p = (r, p')" by (cases "mp_add_command c p")
  then show ?thesis
    by (cases rule: mp_add_command_cases)
      (use assms OpAdd run in \<open>auto simp: mp_consistent_def grows_from_def mfp_apply_updates_append\<close>)
qed

lemma perform_spec: "mp_consistent p \<Longrightarrow> mp_consistent (perform os p) \<and> grows_from p (perform os p)"
proof (induction os arbitrary: p)
  case (Cons a os)
  note op = perform_op_spec [OF Cons.prems, of a]
  then show ?case using Cons.IH [of "perform_op a p"] grows_from_trans by (auto simp: perform_def)
qed (simp add: perform_def grows_from_def)

lemma revert_exact_aux:
  assumes "mp_consistent p" "mp_current_updates p = []" "grows_from p q" "length (mp_commands q) \<noteq> length (mp_commands p)"
  shows "mp_revert (mp_checkpoint p) q = (Ok (), p)"
proof -
  obtain ds where ds: "mp_commands q = mp_commands p @ ds" "ds \<noteq> []" using assms(3,4) by (auto simp: grows_from_def)
  have "mp_facts p = replay (mp_commands p) (mfp_clear (mp_facts q))"
    using assms(1-3) by (simp add: mp_consistent_def replay_updates grows_from_def)
  then have "q\<lparr>mp_commands := mp_commands p, mp_facts := replay (mp_commands p) (mfp_clear (mp_facts q)),
      mp_current_updates := []\<rparr> = p"
    using assms(2,3) by (simp add: grows_from_def)
  then show ?thesis using ds by (simp add: mp_revert_def mp_checkpoint_def Let_def)
qed

text \<open>
  C12. Reverting a perspective to a checkpoint taken between two commands gives back
  exactly the perspective at the checkpoint, whatever was inserted, deleted and added
  since, if at least one command was added. If none was, the early return leaves the
  insertions and deletions made since the checkpoint in place.
\<close>

theorem revert_exact:
  assumes "mp_consistent p" "mp_current_updates p = []"
  shows "mp_revert (mp_checkpoint p) (perform os p) =
    (Ok (), if length (mp_commands (perform os p)) = length (mp_commands p) then perform os p else p)"
  using revert_exact_aux [OF assms] perform_spec [OF assms(1), of os]
  by (simp add: mp_revert_def mp_checkpoint_def)

definition demo_command :: "u8 \<Rightarrow> address prior \<Rightarrow> command" where
  "demo_command i parent = \<lparr>cmd_priority = PrioBasic 0, cmd_id = [i], cmd_parent = parent, cmd_policy = None, cmd_bytes = []\<rparr>"

lemma demo_new_consistent: "mp_consistent (mp_new_unrooted 0) \<and> mp_current_updates (mp_new_unrooted 0) = []"
  by (simp add: mp_consistent_def mp_new_unrooted_def mp_new_def mfp_new_def)

theorem revert_exact_witness:
  "mp_query (snd (mp_revert 0 (perform [OpInsert ''f'' [] [1]] (mp_new_unrooted 0)))) ''f'' [] = Some [1] \<and>
   mp_query (snd (mp_revert 0 (perform [OpInsert ''f'' [] [1], OpAdd (demo_command 1 PNone)] (mp_new_unrooted 0)))) ''f'' [] = None"
proof
  have c: "mp_checkpoint (mp_new_unrooted 0) = 0" by (simp add: mp_checkpoint_def mp_new_unrooted_def mp_new_def)
  note rev = revert_exact [OF demo_new_consistent [THEN conjunct1] demo_new_consistent [THEN conjunct2], unfolded c]
  show "mp_query (snd (mp_revert 0 (perform [OpInsert ''f'' [] [1]] (mp_new_unrooted 0)))) ''f'' [] = Some [1]"
    unfolding rev by code_simp
  show "mp_query (snd (mp_revert 0 (perform [OpInsert ''f'' [] [1], OpAdd (demo_command 1 PNone)] (mp_new_unrooted 0)))) ''f'' [] = None"
    unfolding rev by code_simp
qed

section \<open>Writing a perspective\<close>

primrec renumber :: "nat \<Rightarrow> command_data list \<Rightarrow> command_data list" where
  "renumber m [] = []"
| "renumber m (d # ds) = d\<lparr>cd_command := (cd_command d)\<lparr>sc_max_cut := m\<rparr>\<rparr> # renumber (Suc m) ds"

lemma length_renumber [simp]: "length (renumber m ds) = length ds"
  by (induction ds arbitrary: m) simp_all

lemma renumber_Nil [simp]: "renumber m ds = [] \<longleftrightarrow> ds = []"
  by (cases ds) simp_all

lemma nth_renumber:
  "j < length ds \<Longrightarrow> renumber m ds ! j = (ds ! j)\<lparr>cd_command := (cd_command (ds ! j))\<lparr>sc_max_cut := m + j\<rparr>\<rparr>"
proof (induction ds arbitrary: m j)
  case (Cons d ds)
  then show ?case by (cases j) simp_all
qed simp

lemma updates_of_renumber [simp]: "updates_of (renumber m ds) = updates_of ds"
  by (induction ds arbitrary: m) simp_all

lemma take_renumber: "take n (renumber m ds) = renumber m (take n ds)"
  by (induction ds arbitrary: n m) (auto simp: take_Cons split: nat.split)

lemma number_commands_spec:
  "number_commands m i ds =
     (if ds = [] \<or> m + i + length ds \<le> usize_limit then Ok (renumber (m + i) ds) else Err (StorageBug ''must not overflow''))"
proof (induction ds arbitrary: i)
  case (Cons d ds)
  then show ?case by (auto simp: usize_checked_add_def)
qed simp

definition written :: "mem_storage \<Rightarrow> mem_perspective \<Rightarrow> mem_segment" where
  "written st p = \<lparr>seg_index = length (ms_segments st), seg_prior = mp_prior p, seg_policy = mp_policy p,
     seg_commands = renumber (mp_max_cut p) (mp_commands p), seg_facts = mem_write_facts (mp_facts p)\<rparr>"

definition writable :: "mem_perspective \<Rightarrow> bool" where
  "writable p \<longleftrightarrow> mp_commands p \<noteq> [] \<and> mp_max_cut p + length (mp_commands p) \<le> usize_limit"

lemma mem_write_spec:
  assumes "mem_write p st = (r, st')"
  shows "r = (if mp_commands p = [] then Err EmptyPerspective else if writable p then Ok (written st p)
      else Err (StorageBug ''must not overflow''))"
    and "ms_segments st' = ms_segments st @ (if writable p then [written st p] else [])" and "ms_head st' = ms_head st"
  using assms
  by (auto simp: mem_write_def mem_new_segment_def prog_defs number_commands_spec writable_def written_def Let_def
      split: if_splits)

definition mp_wf :: "mem_storage \<Rightarrow> mem_perspective \<Rightarrow> bool" where
  "mp_wf st p \<longleftrightarrow> list_all (prior_ok (ms_segments st) (mp_max_cut p)) (prior_list (mp_prior p)) \<and> mfp_wf (mp_facts p)"

lemma written_ok:
  assumes "writable p" "mp_wf st p"
  shows "segment_ok (ms_segments st) (written st p)"
  using assms
  by (auto simp: segment_ok_def written_def writable_def mp_wf_def seg_shortest_max_cut_def seg_first_def hd_conv_nth
      nth_renumber mem_write_facts_wf)

text \<open>A storage only grows: what was stored stays where it was.\<close>

definition extends :: "mem_storage \<Rightarrow> mem_storage \<Rightarrow> bool" where
  "extends st st' \<longleftrightarrow> (\<exists>segs. ms_segments st' = ms_segments st @ segs)"

lemma extends_refl [simp]: "extends st st"
  by (simp add: extends_def)

lemma extends_trans: "extends st st' \<Longrightarrow> extends st' st'' \<Longrightarrow> extends st st''"
  by (auto simp: extends_def)

lemma extends_segment:
  assumes "extends st st'" "loc_segment l < length (ms_segments st)"
  shows "mem_get_segment st' l = mem_get_segment st l"
  using assms by (auto simp: extends_def mem_get_segment_def nth_append)

lemma extends_graph:
  assumes "extends st st'" "is_valid mem_ops st l"
  shows "command_at mem_ops st' l = command_at mem_ops st l" "is_valid mem_ops st' l"
    "parents mem_ops st' l = parents mem_ops st l" "cut_at mem_ops st' l = cut_at mem_ops st l"
proof -
  have "loc_segment l < length (ms_segments st)"
    using assms(2) by (auto simp: is_valid_def mem_command_at split: if_splits)
  from extends_segment [OF assms(1) this]
  show "command_at mem_ops st' l = command_at mem_ops st l"
    "parents mem_ops st' l = parents mem_ops st l"
    by (simp_all add: command_at_def parents_def segment_priors_def split: option.split)
  then show "is_valid mem_ops st' l" "cut_at mem_ops st' l = cut_at mem_ops st l"
    using assms(2) by (simp_all add: is_valid_def cut_at_def)
qed

lemma extends_ancestor:
  assumes "extends st st'" "segments_ok (ms_segments st)" "is_valid mem_ops st l"
  shows "ancestor mem_ops st' a l \<longleftrightarrow> ancestor mem_ops st a l"
proof
  assume "ancestor mem_ops st' a l"
  then show "ancestor mem_ops st a l" using assms(3)
  proof (induction rule: ancestor.induct)
    case (step p l a)
    then have "p \<in> set (parents mem_ops st l)" using extends_graph(3) [OF assms(1) step.prems] by simp
    then show ?case
      using step mem_parent_valid [OF assms(2) step.prems] by (blast intro: ancestor.step)
  qed (rule ancestor.refl)
next
  assume "ancestor mem_ops st a l"
  then show "ancestor mem_ops st' a l" using assms(3)
  proof (induction rule: ancestor.induct)
    case (step p l a)
    then have "p \<in> set (parents mem_ops st' l)" using extends_graph(3) [OF assms(1) step.prems] by simp
    then show ?case
      using step mem_parent_valid [OF assms(2) step.prems] by (blast intro: ancestor.step)
  qed (rule ancestor.refl)
qed

lemma prior_ok_append: "prior_ok segs m p \<Longrightarrow> prior_ok (segs @ segs') m p"
  by (simp add: prior_ok_def nth_append)

lemma mp_wf_extends: "extends st st' \<Longrightarrow> mp_wf st p \<Longrightarrow> mp_wf st' p"
  by (auto simp: extends_def mp_wf_def list_all_iff prior_ok_append)

lemma mem_write_wf:
  assumes "mem_wf st" "mp_wf st p" "mem_write p st = (r, st')"
  shows "mem_wf st' \<and> extends st st'"
proof -
  have ext: "extends st st'" using mem_write_spec(2) [OF assms(3)] by (simp add: extends_def)
  have "segments_ok (ms_segments st')"
    using mem_write_spec(2) [OF assms(3)] assms(1,2) written_ok by (simp add: mem_wf_def segments_ok_snoc)
  then show ?thesis
    using ext extends_graph(2) [OF ext] assms(1) mem_write_spec(3) [OF assms(3)]
    by (auto simp: mem_wf_def split: option.splits)
qed

section \<open>Runs of the storage\<close>

text \<open>Perspectives opened on a well-formed storage are well formed, and stay so.\<close>

lemma mfi_prior_wf: "mfi_wf i \<Longrightarrow> mfp_wf (mfp_new (fpp_of_option (mfi_prior i)))"
  by (cases i; cases "mfi_prior i") (auto simp: mfp_new_def)

lemma replay_wf: "mfp_wf fp \<Longrightarrow> mfp_wf (replay ds fp)"
  by (simp add: replay_updates mfp_apply_updates_wf)

lemma mfp_new_prior_wf: "mfp_wf fp \<Longrightarrow> mfp_wf (mfp_new (mfp_prior fp))"
  by (cases fp) (simp add: mfp_new_def)

lemma mfp_clear_wf: "mfp_wf fp \<Longrightarrow> mfp_wf (mfp_clear fp)"
  by (cases fp) simp

lemma segment_facts_wf: "mem_wf st \<Longrightarrow> mem_get_segment st l = Ok seg \<Longrightarrow> mfi_wf (seg_facts seg)"
  using segment_at [of st l] by (auto simp: mem_wf_def segment_ok_def)

lemma prior_okI:
  "mem_get_segment st l = Ok seg \<Longrightarrow> seg_get_command seg l = Some c \<Longrightarrow> sc_max_cut c < m \<Longrightarrow> prior_ok (ms_segments st) m l"
  by (auto simp: prior_ok_def)

lemma linear_perspective_wf:
  assumes "mem_wf st" "mem_get_linear_perspective st l = Ok (Some p)"
  shows "mp_wf st p"
proof -
  obtain seg c m facts where seg: "mem_get_segment st l = Ok seg" "seg_get_command seg l = Some c"
      and m: "usize_checked_add (sc_max_cut c) 1 = Some m"
      and facts: "facts = replay (take (Suc (loc_command l)) (seg_commands seg)) (mfp_new (fpp_of_option (mfi_prior (seg_facts seg))))"
      and p: "p = mp_new (PSingle l) (PSingle (stored_address c)) (seg_policy seg)
        (if l = seg_head_location seg then FPIndex (seg_facts seg)
         else if mfp_map facts = [] then mfp_prior facts else FPPerspective facts) m"
    using assms(2) by (auto simp: mem_get_linear_perspective_def Let_def rbind_eq_Ok)
  have "mfp_wf facts"
    unfolding facts by (rule replay_wf [OF mfi_prior_wf [OF segment_facts_wf [OF assms(1) seg(1)]]])
  then have "mfp_wf (mp_facts p)"
    using mfp_new_prior_wf [of facts] segment_facts_wf [OF assms(1) seg(1)] by (simp add: p mp_new_def mfp_new_def)
  moreover have "prior_ok (ms_segments st) m l"
    by (rule prior_okI [OF seg]) (use m in \<open>auto simp: usize_checked_add_def split: if_splits\<close>)
  ultimately show ?thesis by (simp add: mp_wf_def p mp_new_def)
qed

lemma merge_perspective_wf:
  assumes "mem_new_merge_perspective st l r policy fi = Ok (Some p)" "mfi_wf fi"
  shows "mp_wf st p"
proof -
  obtain lseg rseg lc rc m where l: "mem_get_segment st l = Ok lseg" "seg_get_command lseg l = Some lc"
      and r: "mem_get_segment st r = Ok rseg" "seg_get_command rseg r = Some rc"
      and m: "usize_checked_add (max (sc_max_cut lc) (sc_max_cut rc)) 1 = Some m"
      and p: "p = mp_new (PMerge l r) (PMerge (stored_address lc) (stored_address rc)) policy (FPIndex fi) m"
    using assms(1) by (auto simp: mem_new_merge_perspective_def rbind_eq_Ok split: if_splits)
  have "prior_ok (ms_segments st) m l" "prior_ok (ms_segments st) m r"
    by (rule prior_okI [OF l] prior_okI [OF r]; use m in \<open>auto simp: usize_checked_add_def split: if_splits\<close>)+
  then show ?thesis using assms(2) by (simp add: mp_wf_def p mp_new_def mfp_new_def)
qed

lemma perform_op_wf: "mp_wf st p \<Longrightarrow> mp_wf st (perform_op a p)"
proof (cases a)
  case (OpAdd c)
  obtain r p' where run: "mp_add_command c p = (r, p')" by (cases "mp_add_command c p")
  then show "mp_wf st p \<Longrightarrow> ?thesis"
    by (cases rule: mp_add_command_cases) (use OpAdd run in \<open>auto simp: mp_wf_def\<close>)
qed (auto simp: mp_wf_def mp_insert_def mp_delete_def mfp_insert_apply mfp_delete_apply intro: mfp_apply_updates_wf)

lemma revert_wf: "mp_wf st p \<Longrightarrow> mp_wf st (snd (mp_revert n p))"
  by (auto simp: mp_wf_def mp_revert_def Let_def intro: replay_wf mfp_clear_wf)

text \<open>\<open>commit\<close> decides by the ancestors of the segment's priors.\<close>

lemma head_location_segment:
  assumes "mem_wf st" "seg \<in> set (ms_segments st)"
  shows "is_valid mem_ops st (seg_head_location seg)" "mem_get_segment st (seg_head_location seg) = Ok seg"
proof -
  obtain i where i: "i < length (ms_segments st)" "seg = ms_segments st ! i" using assms(2) by (auto simp: in_set_conv_nth)
  have "segment_ok (take i (ms_segments st)) seg" using assms(1) i by (simp add: mem_wf_def segments_ok_def)
  then have "seg_index seg = i" "seg_commands seg \<noteq> []" using i by (auto simp: segment_ok_def)
  then show "is_valid mem_ops st (seg_head_location seg)" "mem_get_segment st (seg_head_location seg) = Ok seg"
    using i assms(1) by (auto simp: mem_wf_def mem_is_valid seg_head_location_def)
qed

lemma mem_commit_spec:
  assumes "mem_wf st" "seg \<in> set (ms_segments st)"
  shows "mem_commit seg st = Some
    (if (\<forall>h. ms_head st = Some h \<longrightarrow> (\<exists>p \<in> set (prior_list (seg_prior seg)). ancestor mem_ops st h p))
     then (Ok (), st\<lparr>ms_head := Some (seg_head_location seg)\<rparr>) else (Err HeadNotAncestor, st))"
proof (cases "ms_head st")
  case (Some h)
  note seg = head_location_segment [OF assms]
  have "is_valid mem_ops st h" using assms(1) Some by (simp add: mem_wf_def)
  then have "is_ancestor mem_ops st h seg =
      Some (Ok (\<exists>p \<in> set (segment_priors mem_ops st (seg_head_location seg)). ancestor mem_ops st h p))"
    using mem.is_ancestor_spec [OF assms(1) _ seg(1)] seg(2) by (simp del: mem_get_segment_Ok)
  moreover have "segment_priors mem_ops st (seg_head_location seg) = prior_list (seg_prior seg)"
    using seg(2) by (simp add: segment_priors_def del: mem_get_segment_Ok)
  ultimately show ?thesis using Some by (simp add: mem_commit_def)
qed (simp add: mem_commit_def)

text \<open>
  A run interleaves opening perspectives, working on them, writing them and committing
  segments. A merge is opened on facts written from some fact perspective of the
  storage after further updates.
\<close>

type_synonym mem_system = "mem_storage \<times> mem_perspective list"

inductive mem_step :: "mem_system \<Rightarrow> mem_system \<Rightarrow> bool" where
  open_new: "mem_step (st, ps) (st, new_perspective policy # ps)"
| open_linear: "mem_get_linear_perspective st l = Ok (Some p) \<Longrightarrow> mem_step (st, ps) (st, p # ps)"
| open_merge: "mem_get_fact_perspective st b = Ok fp \<Longrightarrow>
    mem_new_merge_perspective st l r policy (mem_write_facts (mfp_apply_updates us fp)) = Ok (Some p) \<Longrightarrow>
    mem_step (st, ps) (st, p # ps)"
| act: "i < length ps \<Longrightarrow> mem_step (st, ps) (st, ps[i := perform_op a (ps ! i)])"
| revert: "i < length ps \<Longrightarrow> mem_step (st, ps) (st, ps[i := snd (mp_revert n (ps ! i))])"
| store: "mem_write p st = (r, st') \<Longrightarrow> mem_step (st, ps @ p # qs) (st', ps @ qs)"
| commit: "seg \<in> set (ms_segments st) \<Longrightarrow> mem_commit seg st = Some (r, st') \<Longrightarrow> mem_step (st, ps) (st', ps)"

definition system_wf :: "mem_system \<Rightarrow> bool" where
  "system_wf sys \<longleftrightarrow> mem_wf (fst sys) \<and> (\<forall>p \<in> set (snd sys). mp_wf (fst sys) p)"

lemma mfp_new_index_wf: "mfi_wf i \<Longrightarrow> mfp_wf (mfp_new (FPIndex i))"
  by (simp add: mfp_new_def)

lemma fact_perspective_wf:
  "mem_wf st \<Longrightarrow> mem_get_fact_perspective st l = Ok fp \<Longrightarrow> mfp_wf fp"
  using segment_facts_wf [of st l]
  by (auto simp: mem_get_fact_perspective_def intro!: replay_wf mfi_prior_wf mfp_new_index_wf split: if_splits)

lemma mem_step_wf: "mem_step s t \<Longrightarrow> system_wf s \<Longrightarrow> system_wf t"
proof (induction rule: mem_step.induct)
  case (open_new st ps policy)
  then show ?case by (auto simp: system_wf_def new_perspective_def mp_new_unrooted_def mp_new_def mp_wf_def mfp_new_def)
next
  case (open_linear st l p ps)
  then show ?case using linear_perspective_wf by (auto simp: system_wf_def)
next
  case (open_merge st b fp l r policy us p ps)
  then have "mp_wf st p"
    by (intro merge_perspective_wf) (auto simp: system_wf_def intro: mem_write_facts_wf mfp_apply_updates_wf fact_perspective_wf)
  with open_merge show ?case by (auto simp: system_wf_def)
next
  case (act i ps st a)
  then have "mp_wf st (perform_op a (ps ! i))" by (auto simp: system_wf_def intro: perform_op_wf)
  with act show ?case by (auto simp: system_wf_def dest!: set_update_subset_insert [THEN subsetD])
next
  case (revert i ps st n)
  then have "mp_wf st (snd (mp_revert n (ps ! i)))" by (auto simp: system_wf_def intro: revert_wf)
  with revert show ?case by (auto simp: system_wf_def dest!: set_update_subset_insert [THEN subsetD])
next
  case (store p st r st' ps qs)
  then show ?case using mem_write_wf [of st p r st'] mp_wf_extends [of st st'] by (auto simp: system_wf_def)
next
  case (commit seg st r st' ps)
  note wf = commit.prems [unfolded system_wf_def fst_conv snd_conv]
  have "st' = st \<or> st' = st\<lparr>ms_head := Some (seg_head_location seg)\<rparr>"
    using mem_commit_spec [OF _ commit.hyps(1)] wf commit.hyps(2) by (auto split: if_splits)
  then have "mem_wf st'" "extends st st'"
    using wf head_location_segment(1) [OF _ commit.hyps(1)] by (auto simp: mem_wf_def mem_is_valid extends_def)
  then show ?case using wf mp_wf_extends by (auto simp: system_wf_def)
qed

lemma system_runs_wf: "mem_step\<^sup>*\<^sup>* s t \<Longrightarrow> system_wf s \<Longrightarrow> system_wf t"
  by (induction rule: rtranclp_induct) (auto intro: mem_step_wf)

lemma system_wf_new: "system_wf (mem_storage_new, [])"
  by (simp add: system_wf_def mem_wf_def mem_storage_new_def segments_ok_def)

text \<open>The ancestors of the head stay stored and stay ancestors of the head.\<close>

definition history_kept :: "mem_storage \<Rightarrow> mem_storage \<Rightarrow> bool" where
  "history_kept st st' \<longleftrightarrow> extends st st' \<and> (\<forall>h. ms_head st = Some h \<longrightarrow>
     (\<exists>h'. ms_head st' = Some h' \<and> (\<forall>a. ancestor mem_ops st a h \<longrightarrow> ancestor mem_ops st' a h')))"

lemma history_kept_refl: "history_kept st st"
  by (simp add: history_kept_def)

lemma history_kept_trans: "history_kept st st' \<Longrightarrow> history_kept st' st'' \<Longrightarrow> history_kept st st''"
  unfolding history_kept_def by (meson extends_trans)

lemma commit_history:
  assumes "mem_wf st" "seg \<in> set (ms_segments st)" "mem_commit seg st = Some (r, st')"
  shows "history_kept st st'"
proof (cases "st' = st")
  case False
  then have st': "st' = st\<lparr>ms_head := Some (seg_head_location seg)\<rparr>"
      and anc: "\<And>h. ms_head st = Some h \<Longrightarrow> \<exists>p \<in> set (prior_list (seg_prior seg)). ancestor mem_ops st h p"
    using mem_commit_spec [OF assms(1,2)] assms(3) by (auto split: if_splits)
  have ext: "extends st st'" by (simp add: st' extends_def)
  note seg = head_location_segment [OF assms(1,2)]
  have "segment_priors mem_ops st (seg_head_location seg) = prior_list (seg_prior seg)"
    using seg(2) by (simp add: segment_priors_def del: mem_get_segment_Ok)
  then have "ancestor mem_ops st h (seg_head_location seg)" if "ms_head st = Some h" for h
    using anc [OF that] mem.ancestor_split [OF assms(1), of h "seg_head_location seg"] by simp
  then have "ancestor mem_ops st' a (seg_head_location seg)" if "ms_head st = Some h" "ancestor mem_ops st a h" for a h
    using extends_ancestor [OF ext _ seg(1), of a] ancestor_trans [of mem_ops st h _ a] that assms(1)
    by (simp add: mem_wf_def)
  then show ?thesis using ext by (auto simp: history_kept_def st')
qed (simp add: history_kept_refl)

lemma mem_step_history: "mem_step s t \<Longrightarrow> system_wf s \<Longrightarrow> history_kept (fst s) (fst t)"
proof (induction rule: mem_step.induct)
  case (store p st r st' ps qs)
  then have wf: "mem_wf st" "extends st st'" using mem_write_wf [of st p r st'] by (auto simp: system_wf_def)
  have "ancestor mem_ops st' a h" if "ms_head st = Some h" "ancestor mem_ops st a h" for a h
    using extends_ancestor [OF wf(2), of h a] wf(1) that by (simp add: mem_wf_def)
  then show ?case using wf(2) mem_write_spec(3) [OF store.hyps] by (auto simp: history_kept_def)
next
  case (commit seg st r st' ps)
  then show ?case using commit_history by (simp add: system_wf_def)
qed (simp_all add: history_kept_refl)

text \<open>
  C13. Whatever is done with perspectives and segments, in any interleaving, every storage
  reached from an empty one is well formed: segments carry their index and at least one
  command, max cuts grow by one along a segment, the priors of a segment are stored
  commands of earlier segments with a smaller max cut, fact maps are sorted, and the
  head is a stored command.
\<close>

theorem storage_invariant:
  assumes "mem_step\<^sup>*\<^sup>* (mem_storage_new, []) (st, ps)"
  shows "mem_wf st"
  using system_runs_wf [OF assms system_wf_new] by (simp add: system_wf_def)

text \<open>Runs of several steps: a perspective opened, worked on and stored.\<close>

lemma perform_steps: "mem_step\<^sup>*\<^sup>* (st, p # ps) (st, perform os p # ps)"
proof (induction os arbitrary: p)
  case (Cons a os)
  have "mem_step (st, p # ps) (st, perform_op a p # ps)" using mem_step.act [of 0 "p # ps" st a] by simp
  then show ?case using Cons.IH [of "perform_op a p"] by (simp add: perform_def converse_rtranclp_into_rtranclp)
qed (simp add: perform_def)

lemma store_steps:
  assumes "mem_step (st, ps) (st, p # ps)" "st' = snd (mem_write (perform os p) st)"
  shows "mem_step\<^sup>*\<^sup>* (st, ps) (st', ps)"
proof -
  have "mem_step (st, perform os p # ps) (st', ps)"
    using mem_step.store [of "perform os p" st _ st' "[]" ps] assms(2) by (simp add: prod_eq_iff)
  then show ?thesis
    by (rule rtranclp.rtrancl_into_rtrancl [OF converse_rtranclp_into_rtranclp [OF assms(1) perform_steps]])
qed

text \<open>
  A graph with one command; a fork with a branch of two commands and a branch of one; and
  the fork after the longer branch is committed.
\<close>

definition demo_store :: "location \<Rightarrow> perspective_op list \<Rightarrow> mem_storage \<Rightarrow> mem_storage" where
  "demo_store l os st = (case mem_get_linear_perspective st l of
      Ok (Some p) \<Rightarrow> snd (mem_write (perform os p) st)
    | _ \<Rightarrow> st)"

definition demo_commit :: "nat \<Rightarrow> mem_storage \<Rightarrow> mem_storage" where
  "demo_commit i st = snd (the (mem_commit (ms_segments st ! i) st))"

definition demo_graph :: mem_storage where
  "demo_graph = demo_commit 0 (snd (mem_write (perform [OpInsert ''f'' [] [1], OpAdd (demo_command 1 PNone)] (new_perspective 0))
     mem_storage_new))"

abbreviation demo_parent :: "u8 \<Rightarrow> nat \<Rightarrow> address prior" where
  "demo_parent i m \<equiv> PSingle \<lparr>addr_id = [i], addr_max_cut = m\<rparr>"

definition demo_fork :: mem_storage where
  "demo_fork = demo_store (location_new 0 0) [OpInsert ''h'' [] [4], OpAdd (demo_command 4 (demo_parent 1 0))]
     (demo_store (location_new 0 0) [OpInsert ''f'' [] [2], OpAdd (demo_command 2 (demo_parent 1 0)),
        OpInsert ''g'' [] [3], OpAdd (demo_command 3 (demo_parent 2 1))] demo_graph)"

definition demo_ahead :: mem_storage where
  "demo_ahead = demo_commit 1 demo_fork"

lemma demo_store_run: "mem_step\<^sup>*\<^sup>* (st, []) (demo_store l os st, [])"
  unfolding demo_store_def
  by (auto split: result.split option.split intro: store_steps [OF mem_step.open_linear HOL.refl])

lemma demo_commit_run:
  assumes "system_wf (st, [])" "i < length (ms_segments st)"
  shows "mem_step\<^sup>*\<^sup>* (st, []) (demo_commit i st, [])"
proof -
  have seg: "ms_segments st ! i \<in> set (ms_segments st)" using assms(2) by simp
  have "mem_wf st" using assms(1) by (simp add: system_wf_def)
  from mem_commit_spec [OF this seg] have "\<exists>r. mem_commit (ms_segments st ! i) st = Some (r, demo_commit i st)"
    by (simp add: demo_commit_def split: if_splits)
  with seg show ?thesis by (blast intro: mem_step.commit)
qed

lemma demo_graph_run: "mem_step\<^sup>*\<^sup>* (mem_storage_new, []) (demo_graph, [])"
proof -
  let ?st = "snd (mem_write (perform [OpInsert ''f'' [] [1], OpAdd (demo_command 1 PNone)] (new_perspective 0)) mem_storage_new)"
  have run: "mem_step\<^sup>*\<^sup>* (mem_storage_new, []) (?st, [])"
    by (rule store_steps [OF mem_step.open_new HOL.refl])
  have "0 < length (ms_segments ?st)" by code_simp
  from run demo_commit_run [OF system_runs_wf [OF run system_wf_new] this] show ?thesis
    unfolding demo_graph_def by (rule rtranclp_trans)
qed

lemma demo_fork_run: "mem_step\<^sup>*\<^sup>* (demo_graph, []) (demo_fork, [])"
  unfolding demo_fork_def by (rule rtranclp_trans [OF demo_store_run demo_store_run])

lemma demo_graph_wf: "system_wf (demo_graph, [])"
  by (rule system_runs_wf [OF demo_graph_run system_wf_new])

lemma demo_fork_wf: "system_wf (demo_fork, [])" and demo_fork_mem_wf: "mem_wf demo_fork"
  using system_runs_wf [OF demo_fork_run demo_graph_wf] by (simp_all add: system_wf_def)

lemma demo_ahead_run: "mem_step\<^sup>*\<^sup>* (demo_graph, []) (demo_ahead, [])"
proof -
  have "1 < length (ms_segments demo_fork)" by code_simp
  from demo_fork_run demo_commit_run [OF demo_fork_wf this] show ?thesis
    unfolding demo_ahead_def by (rule rtranclp_trans)
qed

theorem storage_invariant_witness: "mem_wf demo_graph \<and> length (ms_segments demo_graph) = 1"
proof
  show "mem_wf demo_graph" by (rule storage_invariant [OF demo_graph_run])
  show "length (ms_segments demo_graph) = 1" by code_simp
qed

text \<open>
  C14. The head of the graph only moves forward. In every run that starts in a well-formed
  state with a head, there is still a head at the end, and every command in the history
  of the old head is stored unchanged in the history of the new one.
\<close>

theorem history_preserved:
  assumes "system_wf s" "mem_step\<^sup>*\<^sup>* s t" "ms_head (fst s) = Some h"
  shows "\<exists>h'. ms_head (fst t) = Some h' \<and> (\<forall>a. ancestor mem_ops (fst s) a h \<longrightarrow>
    ancestor mem_ops (fst t) a h' \<and> command_at mem_ops (fst t) a = command_at mem_ops (fst s) a)"
proof -
  have "history_kept (fst s) (fst t)" using assms(2)
  proof (induction rule: rtranclp_induct)
    case (step t u)
    then show ?case using mem_step_history system_runs_wf [OF _ assms(1)] history_kept_trans by metis
  qed (rule history_kept_refl)
  then obtain h' where h': "extends (fst s) (fst t)" "ms_head (fst t) = Some h'"
      "\<And>a. ancestor mem_ops (fst s) a h \<Longrightarrow> ancestor mem_ops (fst t) a h'"
    using assms(3) by (auto simp: history_kept_def)
  have wf: "mem_wf (fst s)" "is_valid mem_ops (fst s) h" using assms(1,3) by (auto simp: system_wf_def mem_wf_def)
  have "command_at mem_ops (fst t) a = command_at mem_ops (fst s) a" if "ancestor mem_ops (fst s) a h" for a
    using extends_graph(1) [OF h'(1)] mem.ancestor_valid [OF wf that] by simp
  with h' show ?thesis by blast
qed

theorem history_preserved_witness:
  "ms_head demo_graph = Some (location_new 0 0) \<and> (\<exists>h'. ms_head demo_ahead = Some h' \<and> ancestor mem_ops demo_ahead (location_new 0 0) h')"
proof
  show head: "ms_head demo_graph = Some (location_new 0 0)" by code_simp
  show "\<exists>h'. ms_head demo_ahead = Some h' \<and> ancestor mem_ops demo_ahead (location_new 0 0) h'"
    using history_preserved [OF demo_graph_wf demo_ahead_run] head ancestor.refl by fastforce
qed

end
