(* ===== verification/Mem_Graph.thy ===== *)
theory Mem_Graph
  imports Mem_Spec
begin

text \<open>
  What readers of the in-memory storage see: the facts at every command, the addresses that
  link commands to their parents, the search by address, the test for ancestry and the
  braid.
\<close>

section \<open>Facts at a command\<close>

lemma written_facts:
  assumes "mp_consistent p" "mp_current_updates p = []"
  shows "mfi_query (seg_facts (written st p)) = apply_all (updates_of (mp_commands p)) (mfp_query (mfp_clear (mp_facts p)))"
proof -
  have "mp_facts p = mfp_apply_updates (updates_of (mp_commands p)) (mfp_clear (mp_facts p))"
    using assms by (simp add: mp_consistent_def)
  then have "mfp_query (mp_facts p) = apply_all (updates_of (mp_commands p)) (mfp_query (mfp_clear (mp_facts p)))"
    by (metis mfp_apply_updates_query)
  then show ?thesis by (intro ext) (simp add: written_def mem_write_facts_query)
qed

lemma mfp_query_new_index: "mfp_query (mfp_new (FPIndex i)) = mfi_query i"
  by (intro ext) (simp add: mfp_new_def)

lemma write_facts_prior:
  assumes "mfp_map fp \<noteq> []"
  shows "mfp_query (mfp_new (fpp_of_option (mfi_prior (mem_write_facts fp)))) = mfp_query (mfp_clear fp)"
proof (intro ext)
  fix n k
  obtain m prior where fp: "fp = MemFactPerspective m prior" by (cases fp)
  show "mfp_query (mfp_new (fpp_of_option (mfi_prior (mem_write_facts fp)))) n k = mfp_query (mfp_clear fp) n k"
    using assms fp by (cases prior) (simp_all add: mfp_new_def mem_write_facts_query)
qed

lemma mfp_clear_new: "mfp_clear fp = mfp_new (mfp_prior fp)"
  by (cases fp) (simp add: mfp_new_def)

lemma written_base_facts:
  assumes "mp_consistent p" "mp_current_updates p = []" "updates_of (mp_commands p) \<noteq> []"
  shows "mfp_query (mfp_new (fpp_of_option (mfi_prior (seg_facts (written st p))))) = mfp_query (mfp_clear (mp_facts p))"
proof -
  have "mp_facts p = mfp_apply_updates (updates_of (mp_commands p)) (mfp_new (mfp_prior (mp_facts p)))"
    using assms(1,2) by (simp add: mp_consistent_def mfp_clear_new)
  then have "mfp_map (mp_facts p) \<noteq> []" using assms(3) mfp_map_apply_new by metis
  then show ?thesis by (simp add: written_def write_facts_prior)
qed

text \<open>The facts that the first \<open>n\<close> commands of a perspective leave behind.\<close>

definition facts_after :: "mem_perspective \<Rightarrow> nat \<Rightarrow> fact_state" where
  "facts_after p n = apply_all (updates_of (take n (mp_commands p))) (mfp_query (mfp_clear (mp_facts p)))"

lemma written_replay:
  assumes "mp_consistent p" "mp_current_updates p = []" "updates_of (mp_commands p) \<noteq> []"
  shows "mfp_query (replay (take n (seg_commands (written st p))) (mfp_new (fpp_of_option (mfi_prior (seg_facts (written st p)))))) =
    facts_after p n"
proof -
  have "updates_of (take n (seg_commands (written st p))) = updates_of (take n (mp_commands p))"
    by (simp add: written_def take_renumber)
  then show ?thesis
    by (simp add: replay_updates mfp_apply_updates_query facts_after_def written_base_facts [OF assms])
qed

lemma written_location:
  assumes "mem_write p st = (Ok seg, st')" "j < length (mp_commands p)"
  defines "l \<equiv> location_new (seg_index seg) j"
  shows "seg = written st p" "mem_get_segment st' l = Ok seg" "length (seg_commands seg) = length (mp_commands p)"
    "seg_get_command seg l = Some ((cd_command (mp_commands p ! j))\<lparr>sc_max_cut := mp_max_cut p + j\<rparr>)"
    "l = seg_head_location seg \<longleftrightarrow> Suc j = length (mp_commands p)"
proof -
  have w: "writable p" "seg = written st p" using mem_write_spec(1) [OF assms(1)] by (auto split: if_splits)
  have "ms_segments st' = ms_segments st @ [seg]" using mem_write_spec(2) [OF assms(1)] w by simp
  then show "seg = written st p" "mem_get_segment st' l = Ok seg" "length (seg_commands seg) = length (mp_commands p)"
    "seg_get_command seg l = Some ((cd_command (mp_commands p ! j))\<lparr>sc_max_cut := mp_max_cut p + j\<rparr>)"
    "l = seg_head_location seg \<longleftrightarrow> Suc j = length (mp_commands p)"
    using w assms(2) by (auto simp: l_def written_def seg_get_command_def nth_renumber seg_head_location_def)
qed


text \<open>The two perspectives of the witnesses: the branch of two commands, and one without fact updates.\<close>

definition demo_branch :: mem_perspective where
  "demo_branch = perform [OpInsert ''f'' [] [2], OpAdd (demo_command 2 (demo_parent 1 0)),
     OpInsert ''g'' [] [3], OpAdd (demo_command 3 (demo_parent 2 1))]
     (mp_new (PSingle (location_new 0 0)) (demo_parent 1 0) 0 (FPIndex (seg_facts (ms_segments demo_graph ! 0))) 1)"

lemma demo_branch_consistent: "mp_consistent demo_branch" and demo_branch_ready: "mp_current_updates demo_branch = []"
proof -
  have "mp_consistent (mp_new (PSingle (location_new 0 0)) (demo_parent 1 0) 0 (FPIndex (seg_facts (ms_segments demo_graph ! 0))) 1)"
    by (simp add: mp_consistent_def mp_new_def mfp_new_def)
  then show "mp_consistent demo_branch" unfolding demo_branch_def by (rule perform_spec [THEN conjunct1])
  show "mp_current_updates demo_branch = []" by code_simp
qed

definition demo_branch_written :: "mem_segment \<times> mem_storage" where
  "demo_branch_written = (case mem_write demo_branch demo_graph of (Ok seg, st) \<Rightarrow> (seg, st))"

lemma demo_branch_write: "mem_write demo_branch demo_graph = (Ok (fst demo_branch_written), snd demo_branch_written)"
proof -
  have "mp_commands demo_branch \<noteq> [] \<and> int (mp_max_cut demo_branch + length (mp_commands demo_branch)) \<le> 2 ^ 64" by code_simp
  then have "writable demo_branch" by (simp add: writable_def usize_limit_def)
  then have "fst (mem_write demo_branch demo_graph) = Ok (written demo_graph demo_branch)"
    using mem_write_spec(1) [of demo_branch demo_graph] by (auto simp: writable_def prod_eq_iff)
  then show ?thesis by (simp add: demo_branch_written_def case_prod_beta prod_eq_iff)
qed




definition demo_silent :: mem_storage where
  "demo_silent = demo_store (location_new 0 0) [OpAdd (demo_command 2 (demo_parent 1 0)), OpAdd (demo_command 3 (demo_parent 2 1))]
     demo_graph"


section \<open>Parent addresses\<close>

text \<open>
  The commands of a perspective form a chain: each names the address of the one before it
  as its parent, and has the max cut that follows from that address.
\<close>

fun chained :: "address prior \<Rightarrow> command_data list \<Rightarrow> bool" where
  "chained h [] = True"
| "chained h (d # ds) \<longleftrightarrow> cmd_parent (cd_command d) = h \<and> next_max_cut h = Ok (sc_max_cut (cd_command d)) \<and>
     chained (PSingle (stored_address (cd_command d))) ds"

definition chain_end :: "address prior \<Rightarrow> command_data list \<Rightarrow> address prior" where
  "chain_end h ds = (if ds = [] then h else PSingle (stored_address (cd_command (last ds))))"

lemma chained_append: "chained h (ds @ es) \<longleftrightarrow> chained h ds \<and> chained (chain_end h ds) es"
  by (induction ds arbitrary: h) (auto simp: chain_end_def)

lemma mp_head_address_chain: "mp_head_address p = Ok (chain_end (mp_parents p) (mp_commands p))"
  by (simp add: mp_head_address_def chain_end_def)

lemma mem_command_from_sel [simp]:
  "sc_max_cut (mem_command_from c m) = m" "cmd_parent (mem_command_from c m) = cmd_parent c" "cmd_id (mem_command_from c m) = cmd_id c"
  by (simp_all add: mem_command_from_def)

lemma perform_op_chained:
  "chained (mp_parents p) (mp_commands p) \<Longrightarrow> chained (mp_parents (perform_op a p)) (mp_commands (perform_op a p))"
proof (cases a)
  case (OpAdd c)
  obtain r p' where run: "mp_add_command c p = (r, p')" by (cases "mp_add_command c p")
  then show "chained (mp_parents p) (mp_commands p) \<Longrightarrow> ?thesis"
    by (cases rule: mp_add_command_cases) (use OpAdd run in \<open>auto simp: chained_append mp_head_address_chain\<close>)
qed (simp_all add: mp_insert_def mp_delete_def)

lemma perform_chained:
  "chained (mp_parents p) (mp_commands p) \<Longrightarrow> chained (mp_parents (perform os p)) (mp_commands (perform os p))"
  unfolding perform_def by (induction os arbitrary: p) (simp_all add: perform_op_chained)

text \<open>Renumbering the commands of a rooted chain changes nothing.\<close>

lemma next_max_cut_single: "next_max_cut (PSingle a) = Ok m \<Longrightarrow> m = Suc (addr_max_cut a)"
  by (auto simp: next_max_cut_def after_parents_def usize_checked_add_def split: if_splits)

lemma renumber_chained: "chained h ds \<Longrightarrow> next_max_cut h = Ok m \<Longrightarrow> renumber m ds = ds"
proof (induction ds arbitrary: h m)
  case (Cons d ds)
  then have d: "sc_max_cut (cd_command d) = m" by simp
  have "renumber (Suc m) ds = ds"
  proof (cases ds)
    case (Cons e es)
    then have "next_max_cut (PSingle (stored_address (cd_command d))) = Ok (Suc m)"
      using Cons.prems(1) next_max_cut_single by (force simp: stored_address_def d)
    then show ?thesis using Cons.IH [of "PSingle (stored_address (cd_command d))"] Cons.prems(1) by simp
  qed simp
  then show ?case by (simp add: d [symmetric])
qed simp

text \<open>The addresses of the parents in the stored graph.\<close>

definition address_at :: "mem_storage \<Rightarrow> location \<Rightarrow> address" where
  "address_at st l = (case command_at mem_ops st l of Some c \<Rightarrow> stored_address c | None \<Rightarrow> \<lparr>addr_id = [], addr_max_cut = 0\<rparr>)"

definition parent_addresses :: "mem_storage \<Rightarrow> location \<Rightarrow> address prior" where
  "parent_addresses st l = (case location_previous l of
      Some p \<Rightarrow> PSingle (address_at st p)
    | None \<Rightarrow> (case mem_get_segment st l of Ok seg \<Rightarrow> map_prior (address_at st) (seg_prior seg) | _ \<Rightarrow> PNone))"

definition linked :: "mem_storage \<Rightarrow> location \<Rightarrow> bool" where
  "linked st l \<longleftrightarrow> (case command_at mem_ops st l of Some c \<Rightarrow> cmd_parent c = parent_addresses st l | None \<Rightarrow> False)"

text \<open>A perspective opened on a stored command, or on two to be merged.\<close>

definition rooted :: "mem_storage \<Rightarrow> mem_perspective \<Rightarrow> bool" where
  "rooted st p \<longleftrightarrow> (\<forall>l \<in> set (prior_list (mp_prior p)). is_valid mem_ops st l) \<and>
     mp_parents p = map_prior (address_at st) (mp_prior p) \<and> next_max_cut (mp_parents p) = Ok (mp_max_cut p) \<and>
     chained (mp_parents p) (mp_commands p)"

lemma linear_perspective_rooted:
  assumes "mem_get_linear_perspective st l = Ok (Some p)"
  shows "rooted st p"
  using assms
  by (auto simp: mem_get_linear_perspective_def Let_def mp_new_def rooted_def is_valid_def address_at_def mem_command_at
      next_max_cut_def after_parents_def stored_address_def)

lemma merge_perspective_rooted:
  assumes "mem_new_merge_perspective st l r policy fi = Ok (Some p)"
  shows "rooted st p"
  using assms
  by (auto simp: mem_new_merge_perspective_def mp_new_def rooted_def is_valid_def address_at_def mem_command_at
      next_max_cut_def after_parents_def stored_address_def split: if_splits)

lemma perform_start:
  "mp_prior (perform os p) = mp_prior p \<and> mp_parents (perform os p) = mp_parents p \<and> mp_max_cut (perform os p) = mp_max_cut p"
proof -
  have "mp_prior (perform_op a p) = mp_prior p \<and> mp_parents (perform_op a p) = mp_parents p \<and> mp_max_cut (perform_op a p) = mp_max_cut p" for a p
  proof (cases a)
    case (OpAdd c)
    obtain r p' where run: "mp_add_command c p = (r, p')" by (cases "mp_add_command c p")
    then show ?thesis by (cases rule: mp_add_command_cases) (use OpAdd run in auto)
  qed (simp_all add: mp_insert_def mp_delete_def)
  then show ?thesis unfolding perform_def by (induction os arbitrary: p) simp_all
qed

lemma perform_rooted: "rooted st p \<Longrightarrow> rooted st (perform os p)"
  using perform_start [of os p] perform_chained [of p os] by (auto simp: rooted_def)

lemma address_at_extends: "extends st st' \<Longrightarrow> is_valid mem_ops st l \<Longrightarrow> address_at st' l = address_at st l"
  by (simp add: address_at_def extends_graph)

lemma chained_nth:
  "chained h ds \<Longrightarrow> j < length ds \<Longrightarrow>
   cmd_parent (cd_command (ds ! j)) = (if j = 0 then h else PSingle (stored_address (cd_command (ds ! (j - 1)))))"
proof (induction ds arbitrary: h j)
  case (Cons d ds)
  show ?case
  proof (cases j)
    case (Suc i)
    with Cons show ?thesis by (cases i) auto
  qed (use Cons in simp)
qed simp

lemma rooted_linked:
  assumes "rooted st p" "mem_write p st = (Ok seg, st')" "j < length (mp_commands p)"
  shows "linked st' (location_new (seg_index seg) j)"
proof -
  let ?l = "location_new (seg_index seg)"
  have ren: "renumber (mp_max_cut p) (mp_commands p) = mp_commands p"
    using renumber_chained assms(1) unfolding rooted_def by blast
  have at: "command_at mem_ops st' (?l i) = Some (cd_command (mp_commands p ! i))" if "i < length (mp_commands p)" for i
    using written_location(2,4) [OF assms(2) that] arg_cong [OF ren, of "\<lambda>ds. cd_command (ds ! i)"] that
    by (simp add: command_at_def nth_renumber del: mem_get_segment_Ok)
  have ext: "extends st st'" using mem_write_spec(2) [OF assms(2)] by (simp add: extends_def)
  have "map_prior (address_at st') (mp_prior p) = mp_parents p"
    using assms(1) address_at_extends [OF ext] by (cases "mp_prior p") (auto simp: rooted_def)
  moreover have "mem_get_segment st' (?l j) = Ok seg" "seg_prior seg = mp_prior p"
    using written_location(1,2) [OF assms(2,3)] by (simp_all add: written_def del: mem_get_segment_Ok)
  ultimately have "parent_addresses st' (?l j) =
      (if j = 0 then mp_parents p else PSingle (stored_address (cd_command (mp_commands p ! (j - 1)))))"
    using at [of "j - 1"] assms(3)
    by (cases j) (auto simp: parent_addresses_def location_previous_def address_at_def location_new_def simp del: mem_get_segment_Ok)
  moreover have "chained (mp_parents p) (mp_commands p)" using assms(1) unfolding rooted_def by blast
  ultimately show ?thesis
    using at [OF assms(3)] chained_nth [OF _ assms(3)] by (simp add: linked_def)
qed

lemma rooted_extends:
  assumes "extends st st'" "rooted st p"
  shows "rooted st' p"
proof -
  have "map_prior (address_at st') (mp_prior p) = map_prior (address_at st) (mp_prior p)"
    using assms address_at_extends by (cases "mp_prior p") (auto simp: rooted_def)
  with assms show ?thesis unfolding rooted_def using extends_graph(2) by metis
qed

text \<open>
  C18. Every command that is added to a perspective opened on stored commands, by extending
  a branch or by merging two, is stored with a parent field that gives exactly the
  addresses (id and max cut) of its parents in the stored graph, also when other
  perspectives are written between opening and writing it.
\<close>

theorem stored_parents_linked:
  assumes "mem_get_linear_perspective st l = Ok (Some p) \<or> mem_new_merge_perspective st l r policy fi = Ok (Some p)"
    and "extends st st1" "mem_write (perform os p) st1 = (Ok seg, st2)" "j < length (seg_commands seg)"
  shows "linked st2 (location_new (seg_index seg) j)"
proof -
  have "rooted st p" using assms(1) linear_perspective_rooted merge_perspective_rooted by blast
  then have "rooted st1 (perform os p)" using rooted_extends [OF assms(2)] perform_rooted by blast
  moreover have "length (seg_commands seg) = length (mp_commands (perform os p))"
    using mem_write_spec(1) [OF assms(3)] by (auto simp: written_def split: if_splits)
  ultimately show ?thesis using rooted_linked assms(3,4) by simp
qed

definition demo_perspective_at :: "mem_storage \<Rightarrow> location \<Rightarrow> mem_perspective" where
  "demo_perspective_at st l = (case mem_get_linear_perspective st l of Ok (Some p) \<Rightarrow> p | _ \<Rightarrow> new_perspective 0)"

definition demo_pair :: "perspective_op list" where
  "demo_pair = [OpAdd (demo_command 2 (demo_parent 1 0)), OpAdd (demo_command 3 (demo_parent 2 1))]"

theorem stored_parents_linked_witness:
  "linked (snd (mem_write (perform demo_pair (demo_perspective_at demo_graph (location_new 0 0))) demo_graph)) (location_new 1 1)"
proof -
  let ?p = "demo_perspective_at demo_graph (location_new 0 0)" and ?q = "perform demo_pair (demo_perspective_at demo_graph (location_new 0 0))"
  have opened: "mem_get_linear_perspective demo_graph (location_new 0 0) = Ok (Some ?p)" by code_simp
  have "mp_commands ?q \<noteq> [] \<and> int (mp_max_cut ?q + length (mp_commands ?q)) \<le> 2 ^ 64" by code_simp
  then have "writable ?q" by (simp add: writable_def usize_limit_def)
  then have run: "mem_write ?q demo_graph = (Ok (written demo_graph ?q), snd (mem_write ?q demo_graph))"
    using mem_write_spec(1) [of ?q demo_graph] by (simp add: writable_def prod_eq_iff)
  have "1 < length (seg_commands (written demo_graph ?q))" "seg_index (written demo_graph ?q) = 1" by code_simp+
  with stored_parents_linked [OF disjI1 [OF opened] extends_refl run, of 1] show ?thesis by simp
qed

definition demo_two_init :: mem_storage where
  "demo_two_init = demo_commit 0 (snd (mem_write (perform [OpAdd (demo_command 1 PNone), OpAdd (demo_command 2 (demo_parent 1 1))]
     (new_perspective 0)) mem_storage_new))"

text \<open>
  The perspective that creates a graph is the exception. Adding the first command gives
  it max cut 1, and a second command names that address as its parent, but writing stores
  the first command with max cut 0. The address in the second command is then the
  address of no stored command, and a search for it finds nothing.
\<close>

theorem init_address_mismatch:
  "map_option cmd_parent (command_at mem_ops demo_two_init (location_new 0 1)) = Some (demo_parent 1 1) \<and>
   parent_addresses demo_two_init (location_new 0 1) = demo_parent 1 0 \<and>
   get_location mem_ops demo_two_init \<lparr>addr_id = [1], addr_max_cut = 1\<rparr> = Some (Ok None)"
  by code_simp

section \<open>Searching the graph\<close>

text \<open>
  C19. Searching the graph for an address always returns. It finds a stored command with
  that id and max cut whenever the history of the head contains one, and any command it
  returns has the address.
\<close>

theorem search_by_address:
  assumes "mem_wf st" "ms_head st = Some h"
  shows "\<exists>r. get_location mem_ops st a = Some (Ok r) \<and>
    (case r of
       None \<Rightarrow> \<forall>x. ancestor mem_ops st x h \<longrightarrow> \<not> has_address mem_ops st a x
     | Some l \<Rightarrow> has_address mem_ops st a l)"
proof -
  have "is_valid mem_ops st h" using assms by (simp add: mem_wf_def)
  then show ?thesis
    using mem.get_location_loop_spec [OF assms(1), of "[h]" a] assms(2)
    by (auto simp: get_location_def get_location_from_def mem_get_head_def split: option.splits)
qed

theorem search_by_address_witness:
  "ms_head demo_fork = Some (location_new 0 0) \<and> (\<exists>r. get_location mem_ops demo_fork \<lparr>addr_id = [1], addr_max_cut = 0\<rparr> = Some (Ok r))"
proof
  show head: "ms_head demo_fork = Some (location_new 0 0)" by code_simp
  show "\<exists>r. get_location mem_ops demo_fork \<lparr>addr_id = [1], addr_max_cut = 0\<rparr> = Some (Ok r)"
    using search_by_address [OF demo_fork_mem_wf head] by blast
qed

text \<open>
  C20. The test for ancestry always returns, and it answers whether the location is reached
  from the priors of the segment by going to parents. For a location outside the segment
  this is ancestry of the segment's last command.
\<close>

theorem ancestry_decided:
  assumes "mem_wf st" "is_valid mem_ops st a" "seg \<in> set (ms_segments st)"
  shows "is_ancestor mem_ops st a seg = Some (Ok (\<exists>p \<in> set (prior_list (seg_prior seg)). ancestor mem_ops st a p)) \<and>
    (loc_segment a \<noteq> seg_index seg \<longrightarrow>
       is_ancestor mem_ops st a seg = Some (Ok (ancestor mem_ops st a (seg_head_location seg))))"
proof -
  note seg = head_location_segment [OF assms(1,3)]
  have priors: "segment_priors mem_ops st (seg_head_location seg) = prior_list (seg_prior seg)"
    using seg(2) by (simp add: segment_priors_def del: mem_get_segment_Ok)
  have "is_ancestor mem_ops st a seg = Some (Ok (\<exists>p \<in> set (prior_list (seg_prior seg)). ancestor mem_ops st a p))"
    using mem.is_ancestor_spec [OF assms(1,2) seg(1)] seg(2) priors by (simp del: mem_get_segment_Ok)
  then show ?thesis
    using mem.ancestor_split [OF assms(1), of a "seg_head_location seg"] priors by (simp add: seg_head_location_def)
qed

theorem ancestry_decided_witness:
  "is_ancestor mem_ops demo_fork (location_new 0 0) (ms_segments demo_fork ! 1) =
     Some (Ok (ancestor mem_ops demo_fork (location_new 0 0) (seg_head_location (ms_segments demo_fork ! 1)))) \<and>
   is_ancestor mem_ops demo_fork (location_new 0 0) (ms_segments demo_fork ! 1) = Some (Ok True)"
proof
  have "length (ms_segments demo_fork) = 3" "is_valid mem_ops demo_fork (location_new 0 0)"
    "loc_segment (location_new 0 0) \<noteq> seg_index (ms_segments demo_fork ! 1)" by code_simp+
  with ancestry_decided [OF demo_fork_mem_wf, of "location_new 0 0" "ms_segments demo_fork ! 1"]
  show "is_ancestor mem_ops demo_fork (location_new 0 0) (ms_segments demo_fork ! 1) =
     Some (Ok (ancestor mem_ops demo_fork (location_new 0 0) (seg_head_location (ms_segments demo_fork ! 1))))" by auto
  show "is_ancestor mem_ops demo_fork (location_new 0 0) (ms_segments demo_fork ! 1) = Some (Ok True)" by code_simp
qed

end
