(* ===== verification/Mem_Braid.thy ===== *)
theory Mem_Braid
  imports Mem_Graph
begin

text \<open>
  The braid on graphs of the in-memory storage: it is the topological order of the
  commands to be evaluated, and it does not depend on how the graph is cut into segments
  nor on which branch is called left.
\<close>

section \<open>Graphs with proper merges\<close>

definition proper_merge :: "mem_storage \<Rightarrow> location prior \<Rightarrow> bool" where
  "proper_merge st prior = (case prior of PMerge a b \<Rightarrow> incomparable mem_ops st a b | _ \<Rightarrow> True)"

definition mem_graph_wf :: "mem_storage \<Rightarrow> bool" where
  "mem_graph_wf st \<longleftrightarrow> mem_wf st \<and> (\<forall>seg \<in> set (ms_segments st). proper_merge st (seg_prior seg))"

lemma mem_merge_parents:
  assumes "mem_graph_wf st" "is_valid mem_ops st l" "parents mem_ops st l = [a, b]"
  shows "incomparable mem_ops st a b"
proof -
  have l: "loc_segment l < length (ms_segments st)"
    using assms(1,2) by (simp add: mem_graph_wf_def mem_wf_def mem_is_valid)
  have "loc_command l = 0"
    using assms(3) parents_previous [of l mem_ops st] by (cases "loc_command l") auto
  then have "prior_list (seg_prior (ms_segments st ! loc_segment l)) = [a, b]"
    using assms(3) l by (simp add: parents_first mem_segment_priors)
  then have "seg_prior (ms_segments st ! loc_segment l) = PMerge a b"
    by (cases "seg_prior (ms_segments st ! loc_segment l)") auto
  moreover have "proper_merge st (seg_prior (ms_segments st ! loc_segment l))"
    using assms(1) l nth_mem by (auto simp: mem_graph_wf_def)
  ultimately show ?thesis by (simp add: proper_merge_def)
qed

interpretation mem_braid: braid_graph mem_ops mem_graph_wf "is_valid mem_ops"
proof (unfold_locales, goal_cases)
  case (3 st l l' seg)
  then show ?case using mem.seg_index by (simp add: mem_graph_wf_def)
next
  case (4 st l l')
  then show ?case using mem.valid_down by (auto simp: mem_graph_wf_def)
next
  case (5 st l p)
  then show ?case using mem.parent_valid by (simp add: mem_graph_wf_def)
next
  case (6 st l seg)
  then show ?case using mem.longest by (simp add: mem_graph_wf_def del: mem_get_segment_Ok)
next
  case (7 st l seg long m)
  then show ?case using mem.from_max_cut [of st l seg long m] by (simp add: mem_graph_wf_def del: mem_get_segment_Ok)
next
  case (9 st l a b)
  then show ?case by (rule mem_merge_parents)
qed simp_all

interpretation mem_pair: braid_pair mem_ops mem_graph_wf mem_ops mem_graph_wf
  by unfold_locales

text \<open>Ancestry is decided by the test, so that it can be evaluated.\<close>

lemma ancestor_eval:
  assumes "mem_wf st" "is_valid mem_ops st a" "is_valid mem_ops st l"
  shows "ancestor mem_ops st a l \<longleftrightarrow> loc_segment a = loc_segment l \<and> loc_command a \<le> loc_command l \<or>
    is_ancestor mem_ops st a (ms_segments st ! loc_segment l) = Some (Ok True)"
proof -
  have seg: "mem_get_segment st l = Ok (ms_segments st ! loc_segment l)"
    using assms(1,3) by (simp add: mem_wf_def mem_is_valid)
  have "is_ancestor mem_ops st a (ms_segments st ! loc_segment l) =
      Some (Ok (\<exists>p \<in> set (segment_priors mem_ops st l). ancestor mem_ops st a p))"
    using mem.is_ancestor_spec [OF assms] seg by simp
  then show ?thesis using mem.ancestor_split [OF assms(1), of a l] by simp
qed

section \<open>Properties\<close>

text \<open>
  C21. Braiding two branches always returns. The result starts with one command that all
  remaining history belongs to; then come, each once, all commands of the two branches
  that are not in the history of that first command, merges left out, and no command
  comes before one of its ancestors.
\<close>

theorem braid_correct:
  assumes "mem_graph_wf st" "is_valid mem_ops st left" "is_valid mem_ops st right" "incomparable mem_ops st left right"
  shows "\<exists>base rest. braid mem_ops st left right = Some (Ok (base # rest)) \<and>
    (ancestor mem_ops st base left \<or> ancestor mem_ops st base right) \<and> distinct rest \<and>
    set rest = {x. (ancestor mem_ops st x left \<or> ancestor mem_ops st x right) \<and>
      \<not> ancestor mem_ops st x base \<and> \<not> merge_at mem_ops st x} \<and>
    sorted_wrt (\<lambda>x y. \<not> ancestor mem_ops st y x) rest"
proof -
  obtain rest base where b: "braid mem_ops st left right = Some (Ok (base # rev rest))"
      "braids mem_ops st [left, right] rest base"
    using mem_braid.braid_spec [OF assms] by blast
  then show ?thesis
    by (intro exI [of _ base] exI [of _ "rev rest"]) (auto simp: braids_def below_def sorted_wrt_rev)
qed

lemma no_merges_graph_wf:
  assumes "mem_wf st" "list_all (\<lambda>seg. \<not> is_merge (seg_prior seg)) (ms_segments st)"
  shows "mem_graph_wf st"
proof -
  have "proper_merge st (seg_prior seg)" if "\<not> is_merge (seg_prior seg)" for seg
    using that by (cases "seg_prior seg") (simp_all add: proper_merge_def)
  then show ?thesis using assms by (auto simp: mem_graph_wf_def list_all_iff)
qed

lemma demo_fork_graph_wf: "mem_graph_wf demo_fork"
proof (rule no_merges_graph_wf [OF demo_fork_mem_wf])
  show "list_all (\<lambda>seg. \<not> is_merge (seg_prior seg)) (ms_segments demo_fork)" by code_simp
qed

lemma demo_fork_incomparable:
  "is_valid mem_ops demo_fork (location_new 1 1)" "is_valid mem_ops demo_fork (location_new 2 0)"
  "incomparable mem_ops demo_fork (location_new 1 1) (location_new 2 0)"
proof -
  show v: "is_valid mem_ops demo_fork (location_new 1 1)" "is_valid mem_ops demo_fork (location_new 2 0)" by code_simp+
  have "is_ancestor mem_ops demo_fork (location_new 1 1) (ms_segments demo_fork ! 2) = Some (Ok False)"
    "is_ancestor mem_ops demo_fork (location_new 2 0) (ms_segments demo_fork ! 1) = Some (Ok False)" by code_simp+
  then show "incomparable mem_ops demo_fork (location_new 1 1) (location_new 2 0)"
    using v by (simp add: incomparable_def ancestor_eval [OF demo_fork_mem_wf] del: One_nat_def)
qed

theorem braid_correct_witness:
  "(\<exists>base rest. braid mem_ops demo_fork (location_new 1 1) (location_new 2 0) = Some (Ok (base # rest)) \<and> distinct rest) \<and>
   braid mem_ops demo_fork (location_new 1 1) (location_new 2 0) =
     Some (Ok [location_new 2 0, location_new 1 0, location_new 1 1])"
proof
  show "\<exists>base rest. braid mem_ops demo_fork (location_new 1 1) (location_new 2 0) = Some (Ok (base # rest)) \<and> distinct rest"
    using braid_correct [OF demo_fork_graph_wf demo_fork_incomparable] by blast
  show "braid mem_ops demo_fork (location_new 1 1) (location_new 2 0) =
     Some (Ok [location_new 2 0, location_new 1 0, location_new 1 1])" by code_simp
qed

text \<open>
  C22. The braid is a function of the graph alone. If two storages hold the same commands
  below the two branches, in segments cut and ordered in any way, and the branches are
  named in either order, then both braids succeed with the same sequence of commands.
\<close>

theorem braid_deterministic:
  assumes "mem_graph_wf st" "mem_graph_wf st'" "incomparable mem_ops st left right"
    and "graph_map mem_ops st mem_ops st' f (below mem_ops st {left, right})" "{left', right'} = {f left, f right}"
  shows "\<exists>r. braid mem_ops st left right = Some (Ok r) \<and> braid mem_ops st' left' right' = Some (Ok (map f r))"
proof -
  have "left \<in> below mem_ops st {left, right}" "right \<in> below mem_ops st {left, right}"
    by (auto simp: below_def intro: ancestor.refl)
  then have "is_valid mem_ops st left" "is_valid mem_ops st right" using assms(4) by (auto simp: graph_map_def)
  then obtain r where "braid mem_ops st left right = Some (Ok r)"
    using mem_braid.braid_spec [OF assms(1) _ _ assms(3)] by blast
  with mem_pair.braid_map [OF assms(1,2,4,3,5)] show ?thesis by blast
qed

text \<open>A map on a larger part of the graph restricts to the history of two of its commands.\<close>

lemma graph_map_below:
  assumes "graph_map ops st ops' st' f D" "T \<subseteq> D"
  shows "graph_map ops st ops' st' f (below ops st T)"
proof -
  have "a \<in> D" if "ancestor ops st a x" "x \<in> D" for a x
    using that
  proof (induction rule: ancestor.induct)
    case (step p l a)
    then show ?case using assms(1) by (auto simp: graph_map_def)
  qed simp
  then have D: "below ops st T \<subseteq> D" using assms(2) by (auto simp: below_def)
  have "set (parents ops st x) \<subseteq> below ops st T" if "x \<in> below ops st T" for x
    using that unfolding below_def by (blast intro: ancestor_trans ancestor.step [OF _ ancestor.refl])
  with assms(1) D show ?thesis
    unfolding graph_map_def by (meson inj_on_subset subsetD)
qed

text \<open>The fork with its longer branch cut into two segments, stored after the other branch.\<close>

definition demo_cut :: mem_storage where
  "demo_cut = demo_store (location_new 2 0) [OpAdd (demo_command 3 (demo_parent 2 1))]
     (demo_store (location_new 0 0) [OpAdd (demo_command 2 (demo_parent 1 0))]
        (demo_store (location_new 0 0) [OpAdd (demo_command 4 (demo_parent 1 0))] demo_graph))"

definition demo_map :: "location \<Rightarrow> location" where
  "demo_map l = (if l = location_new 1 0 then location_new 2 0 else if l = location_new 1 1 then location_new 3 0
     else if l = location_new 2 0 then location_new 1 0 else l)"

definition demo_part :: "location list" where
  "demo_part = [location_new 0 0, location_new 1 0, location_new 1 1, location_new 2 0]"

lemma demo_cut_graph_wf: "mem_graph_wf demo_cut"
proof (rule no_merges_graph_wf)
  have "mem_step\<^sup>*\<^sup>* (demo_graph, []) (demo_cut, [])"
    unfolding demo_cut_def by (rule rtranclp_trans [OF rtranclp_trans [OF demo_store_run demo_store_run] demo_store_run])
  then show "mem_wf demo_cut" using system_runs_wf [OF _ demo_graph_wf] by (auto simp: system_wf_def)
  show "list_all (\<lambda>seg. \<not> is_merge (seg_prior seg)) (ms_segments demo_cut)" by code_simp
qed

lemma demo_graph_map: "graph_map mem_ops demo_fork mem_ops demo_cut demo_map (set demo_part)"
proof -
  have "distinct (map (location_key mem_ops demo_fork) demo_part)" by code_simp
  then have "inj_on (location_key mem_ops demo_fork) (set demo_part)" by (simp add: distinct_map)
  moreover have "\<forall>x \<in> set demo_part. is_valid mem_ops demo_fork x \<and> is_valid mem_ops demo_cut (demo_map x) \<and>
     set (parents mem_ops demo_fork x) \<subseteq> set demo_part \<and>
     set (parents mem_ops demo_cut (demo_map x)) = demo_map ` set (parents mem_ops demo_fork x) \<and>
     location_key mem_ops demo_cut (demo_map x) = location_key mem_ops demo_fork x" by code_simp
  ultimately show ?thesis by (simp add: graph_map_def)
qed

theorem braid_deterministic_witness:
  "\<exists>r. braid mem_ops demo_fork (location_new 1 1) (location_new 2 0) = Some (Ok r) \<and>
     braid mem_ops demo_cut (location_new 1 0) (location_new 3 0) = Some (Ok (map demo_map r))"
proof -
  have "{location_new 1 1, location_new 2 0} \<subseteq> set demo_part" by code_simp
  note m = graph_map_below [OF demo_graph_map this]
  have "{location_new 1 0, location_new 3 0} = {demo_map (location_new 1 1), demo_map (location_new 2 0)}" by code_simp
  then show ?thesis
    by (rule braid_deterministic [OF demo_fork_graph_wf demo_cut_graph_wf demo_fork_incomparable(3) m])
qed

end
