(* ===== verification/Client.thy ===== *)
theory Client
  imports Client_Prog Mem_Braid
begin

text \<open>
  What the client operations share (\<open>aranya-runtime/src/client.rs\<close>, \<open>engine.rs\<close> and
  \<open>PeerCache\<close> of \<open>sync/responder.rs\<close>): the policy engine as a parameter, the sink of
  effects, merge ids, the last common ancestor of two branches, and the cache of the
  heads a peer is known to have.
\<close>

section \<open>Addresses are ordered\<close>

text \<open>The derived order of \<open>Address\<close> compares the ids first and then the max cuts.\<close>

instantiation address_ext :: (linorder) linorder
begin

definition less_eq_address_ext :: "'a address_scheme \<Rightarrow> 'a address_scheme \<Rightarrow> bool" where
  "less_eq_address_ext a b \<longleftrightarrow> (addr_id a, addr_max_cut a, address.more a) \<le> (addr_id b, addr_max_cut b, address.more b)"

definition less_address_ext :: "'a address_scheme \<Rightarrow> 'a address_scheme \<Rightarrow> bool" where
  "less_address_ext a b \<longleftrightarrow> (addr_id a, addr_max_cut a, address.more a) < (addr_id b, addr_max_cut b, address.more b)"

instance
proof
  fix x y z :: "'a address_scheme"
  show "(x < y) = (x \<le> y \<and> \<not> y \<le> x)"
    unfolding less_address_ext_def less_eq_address_ext_def by (rule less_le_not_le)
  show "x \<le> x" unfolding less_eq_address_ext_def by (rule order_refl)
  show "x \<le> y \<Longrightarrow> y \<le> z \<Longrightarrow> x \<le> z" unfolding less_eq_address_ext_def by (rule order_trans)
  show "x \<le> y \<Longrightarrow> y \<le> x \<Longrightarrow> x = y"
    unfolding less_eq_address_ext_def by (drule (1) antisym) (simp add: address.equality)
  show "x \<le> y \<or> y \<le> x" unfolding less_eq_address_ext_def by (rule linear)
qed

end

text \<open>\<open>MergeIds::new\<close>: the two addresses with the smaller id first, if the ids differ.\<close>

definition merge_ids_new :: "address \<Rightarrow> address \<Rightarrow> (address \<times> address) option" where
  "merge_ids_new a b =
     (if addr_id a < addr_id b then Some (a, b) else if addr_id a = addr_id b then None else Some (b, a))"

section \<open>Policies and sinks\<close>

datatype command_recall = RecallNone | RecallOnCheck

text \<open>
  A sink receives brackets around the effects of an evaluation. It is modelled by what it
  was told, in order.
\<close>

datatype 'eff sink_event = SinkBegin | SinkConsume 'eff | SinkRollback | SinkCommit

text \<open>
  The traits \<open>Engine\<close> and \<open>Policy\<close>. The policy sees facts only through queries, and
  changes them only by insertions and deletions: a rule is a function from the command
  and the answers to queries to its outcome, the updates it made and the effects it
  emitted, the latter two also when it fails.
\<close>

record ('e, 'pol, 'eff) engine_ops =
  eo_add_policy :: "'e \<Rightarrow> bytes \<Rightarrow> (policy_id, engine_error) result \<times> 'e"
  eo_get_policy :: "'e \<Rightarrow> policy_id \<Rightarrow> ('pol, engine_error) result"
  po_serial :: "'pol \<Rightarrow> u32"
  po_call_rule :: "'pol \<Rightarrow> command \<Rightarrow> command_recall \<Rightarrow> fact_state \<Rightarrow>
    (unit, engine_error) result \<times> fact_update list \<times> 'eff list"
  po_merge :: "'pol \<Rightarrow> address \<times> address \<Rightarrow> (command, engine_error) result"

text \<open>The updates of a rule as the perspective receives them, one \<open>insert\<close> or \<open>delete\<close> each.\<close>

fun update_op :: "fact_update \<Rightarrow> perspective_op" where
  "update_op (n, k, Some v) = OpInsert n k v"
| "update_op (n, k, None) = OpDelete n k"

definition mp_updates :: "fact_update list \<Rightarrow> mem_perspective \<Rightarrow> mem_perspective" where
  "mp_updates us p = perform (map update_op us) p"

section \<open>The last common ancestor\<close>

text \<open>Where a side goes on: \<open>Ok None\<close> is the early return at a merge without a skip list.\<close>

definition lca_parent :: "('st, 'seg) storage_ops \<Rightarrow> 'seg \<Rightarrow> location \<Rightarrow> (location option, client_error) result" where
  "lca_parent ops seg l = (case location_previous l of
      Some p \<Rightarrow> Ok (Some p)
    | None \<Rightarrow> (case so_prior ops seg of
          PNone \<Rightarrow> Ok (Some l)
        | PSingle s \<Rightarrow> Ok (Some s)
        | PMerge _ _ \<Rightarrow> if loc_command l \<noteq> 0 then Panic ''assertion failed: command == 0''
            else if so_skip_list ops seg = [] then Ok None else Ok (Some (fst (last (so_skip_list ops seg))))))"

partial_function (option) last_common_ancestor ::
  "('st, 'seg) storage_ops \<Rightarrow> 'st \<Rightarrow> location \<Rightarrow> location \<Rightarrow> (location \<times> nat, client_error) result option"
where
  "last_common_ancestor ops st left right =
     (if left = right
      then robind (from_storage (Some (so_get_segment ops st left))) (\<lambda>seg.
           robind (Some (ok_or (ClientBug ''location must exist'') (so_get_command ops seg left))) (\<lambda>c.
           Some (Ok (left, sc_max_cut c))))
      else robind (from_storage (Some (so_get_segment ops st left))) (\<lambda>lseg.
           robind (Some (ok_or (ClientBug ''location must exist'') (so_get_command ops lseg left))) (\<lambda>lc.
           robind (from_storage (Some (so_get_segment ops st right))) (\<lambda>rseg.
           robind (Some (ok_or (ClientBug ''location must exist'') (so_get_command ops rseg right))) (\<lambda>rc.
           if sc_max_cut lc > sc_max_cut rc
           then robind (Some (lca_parent ops lseg left)) (\<lambda>p. case p of
                  None \<Rightarrow> Some (Ok (left, sc_max_cut lc))
                | Some left' \<Rightarrow> last_common_ancestor ops st left' right)
           else robind (Some (lca_parent ops rseg right)) (\<lambda>p. case p of
                  None \<Rightarrow> Some (Ok (right, sc_max_cut rc))
                | Some right' \<Rightarrow> last_common_ancestor ops st left right'))))))"

declare last_common_ancestor.simps [code]

context graph_storage
begin

text \<open>The common ancestor: each step lowers the max cut of one side, unless both are at the root.\<close>

lemma lca_parent_step:
  assumes "wf st" "good st l" "so_get_segment ops st l = Ok seg" "ancestor ops st root l" "l \<noteq> root"
    "lca_parent ops seg l = Ok (Some p)"
  shows "good st p \<and> cut_at ops st p < cut_at ops st l"
proof (cases "location_previous l")
  case (Some q)
  then show ?thesis using parent_valid [OF assms(1,2), of q] assms(6) by (simp add: lca_parent_def parents_def)
next
  case None
  then have par: "parents ops st l = prior_list (so_prior ops seg)"
    using assms(3) by (simp add: parents_def segment_priors_def)
  show ?thesis
  proof (cases "so_prior ops seg")
    case PNone
    then have "l = root" using assms(4) par ancestor_unfold [of ops st root l] by simp
    with assms(5) show ?thesis by simp
  next
    case (PSingle q)
    then show ?thesis
      using None par parent_valid [OF assms(1,2), of q] assms(6) by (simp add: lca_parent_def)
  next
    case (PMerge a b)
    then have "(fst (last (so_skip_list ops seg)), snd (last (so_skip_list ops seg))) \<in> set (so_skip_list ops seg)"
      "p = fst (last (so_skip_list ops seg))"
      using None assms(6) by (auto simp: lca_parent_def split: if_splits)
    then show ?thesis using skip_safe [OF assms(1-3)] by blast
  qed
qed

end

section \<open>The heads a peer has\<close>

definition peer_head_max :: nat where
  "peer_head_max = 10"

type_synonym peer_cache = "address list"

text \<open>
  The closure \<open>retain_head\<close>, whose captured flag \<open>add_command\<close> is the state. Its errors
  drop the head, whatever the flag is by then.
\<close>

definition retain_head ::
  "('st, 'seg) storage_ops \<Rightarrow> 'st \<Rightarrow> address \<Rightarrow> location \<Rightarrow> (bool, bool, storage_error) lprog" where
  "retain_head ops st request_head new_head =
     lbind (llift (so_get_segment ops st new_head)) (\<lambda>new_seg.
     lbind (lread (\<lambda>_. get_location ops st request_head)) (\<lambda>found.
     lbind (llift (ok_or (StorageBug ''location must exist'') found)) (\<lambda>req_loc.
     lbind (llift (so_get_segment ops st req_loc)) (\<lambda>req_seg.
     lbind (case so_get_command ops new_seg new_head of
              Some c \<Rightarrow> if addr_id request_head = cmd_id c then lmodify (\<lambda>_. False) else lreturn ()
            | None \<Rightarrow> lreturn ()) (\<lambda>_.
     lbind (lread (\<lambda>_. is_ancestor ops st new_head req_seg)) (\<lambda>anc.
     lbind (if anc then lmodify (\<lambda>_. False) else lreturn ()) (\<lambda>_.
     lbind (lread (\<lambda>_. is_ancestor ops st req_loc new_seg)) (\<lambda>covered.
     lreturn (\<not> covered)))))))))"

fun retain_heads ::
  "('st, 'seg) storage_ops \<Rightarrow> 'st \<Rightarrow> location \<Rightarrow> address list \<Rightarrow> (bool, address list, storage_error) lprog" where
  "retain_heads ops st new_head [] = lreturn []"
| "retain_heads ops st new_head (h # hs) =
     lmatch (retain_head ops st h new_head) (\<lambda>r. case r of
         Ok keep \<Rightarrow> lbind (retain_heads ops st new_head hs) (\<lambda>rest. lreturn (if keep then h # rest else rest))
       | Err _ \<Rightarrow> retain_heads ops st new_head hs
       | Panic m \<Rightarrow> llift (Panic m))"

definition peer_add_command ::
  "('st, 'seg) storage_ops \<Rightarrow> 'st \<Rightarrow> peer_cache \<Rightarrow> address \<Rightarrow> location \<Rightarrow> (peer_cache, storage_error) result option" where
  "peer_add_command ops st heads command cmd_loc = (case retain_heads ops st cmd_loc heads True of
      None \<Rightarrow> None
    | Some (Ok hs, add) \<Rightarrow>
        Some (if add \<and> length hs < peer_head_max then Ok (hs @ [command]) else Ok hs)
    | Some (Err e, _) \<Rightarrow> Some (Err e)
    | Some (Panic m, _) \<Rightarrow> Some (Panic m))"

end
