(* ===== verification/Transaction.thy ===== *)
theory Transaction
  imports Client
begin

text \<open>
  Transactions (\<open>aranya-runtime/src/client/transaction.rs\<close>) and the operations of
  \<open>ClientState\<close> (\<open>client.rs\<close>) on the in-memory storage: receiving commands from a
  peer, merging the branches they form, and committing the result.
\<close>

section \<open>State\<close>

record transaction =
  tx_storage_id :: command_id
  tx_perspective :: "mem_perspective option"
  tx_phead :: "command_id option"
  tx_heads :: "(address, location) btree_map"

definition transaction_new :: "command_id \<Rightarrow> transaction" where
  "transaction_new storage_id = \<lparr>tx_storage_id = storage_id, tx_perspective = None, tx_phead = None, tx_heads = []\<rparr>"

text \<open>
  What an operation on an open storage can change: the storage, the transaction, the
  sink, and the cache of the peer's heads.
\<close>

record 'eff tx_state =
  ts_storage :: mem_storage
  ts_tx :: transaction
  ts_sink :: "'eff sink_event list"
  ts_cache :: peer_cache

type_synonym ('eff, 'a) tx_prog = "('eff tx_state, 'a, client_error) lprog"

definition tell :: "'eff sink_event list \<Rightarrow> ('eff, unit) tx_prog" where
  "tell es = lmodify (\<lambda>s. s\<lparr>ts_sink := ts_sink s @ es\<rparr>)"

definition set_perspective :: "mem_perspective option \<Rightarrow> ('eff, unit) tx_prog" where
  "set_perspective p = lmodify (\<lambda>s. s\<lparr>ts_tx := (ts_tx s)\<lparr>tx_perspective := p\<rparr>\<rparr>)"

definition set_phead :: "command_id option \<Rightarrow> ('eff, unit) tx_prog" where
  "set_phead h = lmodify (\<lambda>s. s\<lparr>ts_tx := (ts_tx s)\<lparr>tx_phead := h\<rparr>\<rparr>)"

definition set_heads :: "((address, location) btree_map \<Rightarrow> (address, location) btree_map) \<Rightarrow> ('eff, unit) tx_prog" where
  "set_heads f = lmodify (\<lambda>s. s\<lparr>ts_tx := (ts_tx s)\<lparr>tx_heads := f (tx_heads (ts_tx s))\<rparr>\<rparr>)"

text \<open>Reading the storage, and running one of its operations.\<close>

definition on_storage :: "(mem_storage \<Rightarrow> ('a, storage_error) result) \<Rightarrow> ('eff, 'a) tx_prog" where
  "on_storage f = lread (\<lambda>s. Some (map_err StorageErr (f (ts_storage s))))"

definition search_storage :: "(mem_storage \<Rightarrow> ('a, storage_error) result option) \<Rightarrow> ('eff, 'a) tx_prog" where
  "search_storage f = lread (\<lambda>s. from_storage (f (ts_storage s)))"

definition run_storage :: "(mem_storage, 'a, storage_error) prog \<Rightarrow> ('eff, 'a) tx_prog" where
  "run_storage m = (\<lambda>s. case m (ts_storage s) of (r, st) \<Rightarrow> Some (map_err StorageErr r, s\<lparr>ts_storage := st\<rparr>))"

section \<open>Searching and writing\<close>

fun locate_in_heads :: "mem_storage \<Rightarrow> address \<Rightarrow> location list \<Rightarrow> (location option, storage_error) result option" where
  "locate_in_heads st a [] = Some (Ok None)"
| "locate_in_heads st a (h # hs) =
     robind (get_location_from mem_ops st h a) (\<lambda>found.
     case found of Some l \<Rightarrow> Some (Ok (Some l)) | None \<Rightarrow> locate_in_heads st a hs)"

definition locate :: "address \<Rightarrow> ('eff, location option) tx_prog" where
  "locate a =
     lbind (search_storage (\<lambda>st. get_location mem_ops st a)) (\<lambda>found.
     case found of
       Some l \<Rightarrow> lreturn (Some l)
     | None \<Rightarrow> lbind (lgets (\<lambda>s. map snd (tx_heads (ts_tx s)))) (\<lambda>hs.
         search_storage (\<lambda>st. locate_in_heads st a hs)))"

text \<open>
  Writing out the current perspective, with the head of the written segment added to the
  heads of the transaction. The perspective is taken before it is written.
\<close>

definition write_out :: "mem_perspective \<Rightarrow> ('eff, unit) tx_prog" where
  "write_out p =
     lbind (run_storage (mem_write p)) (\<lambda>seg.
     set_heads (bt_insert (stored_address (seg_head seg)) (seg_head_location seg)))"

text \<open>Taking the current perspective, if there is one, and writing it out; \<open>add_merge\<close> keeps \<open>phead\<close>.\<close>

definition flush_keep :: "('eff, unit) tx_prog" where
  "flush_keep =
     lbind (lgets (\<lambda>s. tx_perspective (ts_tx s))) (\<lambda>current. case current of
       None \<Rightarrow> lreturn ()
     | Some p \<Rightarrow> lbind (set_perspective None) (\<lambda>_. write_out p))"

definition flush :: "('eff, unit) tx_prog" where
  "flush =
     lbind (lgets (\<lambda>s. tx_perspective (ts_tx s))) (\<lambda>current. case current of
       None \<Rightarrow> lreturn ()
     | Some p \<Rightarrow> lbind (set_perspective None) (\<lambda>_. lbind (set_phead None) (\<lambda>_. write_out p)))"

section \<open>Evaluating a braid\<close>

text \<open>
  The loop of \<open>make_braid_segment\<close>. A command that fails its check has been recalled and
  does not end the evaluation; any other failure does.
\<close>

fun eval_braid :: "('e, 'pol, 'eff) engine_ops \<Rightarrow> 'pol \<Rightarrow> location list \<Rightarrow> mem_fact_perspective \<Rightarrow>
    ('eff, mem_fact_perspective) tx_prog" where
  "eval_braid eng pol [] fp = lreturn fp"
| "eval_braid eng pol (l # ls) fp =
     lbind (on_storage (\<lambda>st. mem_get_segment st l)) (\<lambda>seg.
     lbind (llift (ok_or (ClientBug ''braid only contains existing commands'') (seg_get_command seg l))) (\<lambda>c.
     case po_call_rule eng pol (command.truncate c) RecallOnCheck (mfp_query fp) of (r, us, effs) \<Rightarrow>
       lbind (tell (map SinkConsume effs)) (\<lambda>_.
       case r of
         Ok _ \<Rightarrow> eval_braid eng pol ls (mfp_apply_updates us fp)
       | Err e \<Rightarrow> if e \<noteq> EngineCheck
           then lbind (tell [SinkRollback]) (\<lambda>_. lfail (client_error_of_engine e))
           else eval_braid eng pol ls (mfp_apply_updates us fp)
       | Panic m \<Rightarrow> llift (Panic m))))"

definition make_braid_segment :: "('e, 'pol, 'eff) engine_ops \<Rightarrow> 'pol \<Rightarrow> location \<Rightarrow> location \<Rightarrow>
    ('eff, mem_fact_index \<times> location \<times> nat) tx_prog" where
  "make_braid_segment eng pol left right =
     lbind (lread (\<lambda>s. braid mem_ops (ts_storage s) left right)) (\<lambda>order.
     lbind (lread (\<lambda>s. last_common_ancestor mem_ops (ts_storage s) left right)) (\<lambda>lca.
     case order of
       [] \<Rightarrow> lfail (ClientBug ''braid is non-empty'')
     | first # rest \<Rightarrow>
         lbind (on_storage (\<lambda>st. mem_get_fact_perspective st first)) (\<lambda>fp.
         lbind (tell [SinkBegin]) (\<lambda>_.
         lbind (eval_braid eng pol rest fp) (\<lambda>fp'.
         lbind (tell [SinkCommit]) (\<lambda>_.
         lreturn (mem_write_facts fp', lca)))))))"

definition get_policy :: "('e, 'pol, 'eff) engine_ops \<Rightarrow> 'e \<Rightarrow> location \<Rightarrow> ('eff, 'pol \<times> policy_id) tx_prog" where
  "get_policy eng e l =
     lbind (on_storage (\<lambda>st. mem_get_segment st l)) (\<lambda>seg.
     lbind (llift (map_err client_error_of_engine (eo_get_policy eng e (seg_policy seg)))) (\<lambda>pol.
     lreturn (pol, seg_policy seg)))"

text \<open>\<open>max_by_key\<close> returns its second argument when the keys are equal.\<close>

definition choose_policy :: "('e, 'pol, 'eff) engine_ops \<Rightarrow> 'e \<Rightarrow> location \<Rightarrow> location \<Rightarrow> ('eff, 'pol \<times> policy_id) tx_prog" where
  "choose_policy eng e left right =
     lbind (get_policy eng e left) (\<lambda>l.
     lbind (get_policy eng e right) (\<lambda>r.
     lreturn (if po_serial eng (fst l) \<le> po_serial eng (fst r) then r else l)))"

section \<open>Committing\<close>

text \<open>The end of the merging branch: the merge command is written as a segment of its own.\<close>

definition store_merge :: "command \<Rightarrow> policy_id \<Rightarrow> location \<Rightarrow> location \<Rightarrow> mem_fact_index \<Rightarrow> ('eff, address \<times> location) tx_prog" where
  "store_merge command policy_id left_loc right_loc facts =
     lbind (on_storage (\<lambda>st. mem_new_merge_perspective st left_loc right_loc policy_id facts)) (\<lambda>opened.
     lbind (llift (ok_or (ClientBug ''trx heads should exist in storage'') opened)) (\<lambda>perspective.
     case mp_add_command command perspective of (added, perspective') \<Rightarrow>
     lbind (llift (map_err StorageErr added)) (\<lambda>_.
     lbind (run_storage (mem_write perspective')) (\<lambda>seg.
     lreturn (stored_address (seg_head seg), seg_head_location seg)))))"

text \<open>The body of the merging branch, in which the locations are put in the order of the addresses.\<close>

definition merge_heads :: "('e, 'pol, 'eff) engine_ops \<Rightarrow> 'e \<Rightarrow> address \<times> location \<Rightarrow> address \<times> location \<Rightarrow>
    ('eff, address \<times> location) tx_prog" where
  "merge_heads eng e left right =
     lbind (choose_policy eng e (snd left) (snd right)) (\<lambda>(pol, policy_id).
     lbind (llift (ok_or (ClientBug ''merging different ids'') (merge_ids_new (fst left) (fst right)))) (\<lambda>ids.
     let (left_loc, right_loc) = (if fst left > fst right then (snd right, snd left) else (snd left, snd right)) in
     lbind (llift (map_err client_error_of_engine (po_merge eng pol ids))) (\<lambda>command.
     lbind (make_braid_segment eng pol left_loc right_loc) (\<lambda>(facts, lca).
     store_merge command policy_id left_loc right_loc facts))))"

text \<open>\<open>storage.commit(segment)\<close>, whose outcome the loop inspects.\<close>

definition commit_segment :: "mem_segment \<Rightarrow> ('eff tx_state, unit, storage_error) lprog" where
  "commit_segment seg = (\<lambda>s. map_option (\<lambda>(r, st). (r, s\<lparr>ts_storage := st\<rparr>)) (mem_commit seg (ts_storage s)))"

function commit_loop :: "('e, 'pol, 'eff) engine_ops \<Rightarrow> 'e \<Rightarrow> bool \<Rightarrow> (address \<times> location) list \<Rightarrow> ('eff, unit) tx_prog" where
  "commit_loop eng e merging_head [] = lreturn ()"
| "commit_loop eng e merging_head (left # right # heads) =
     lbind (merge_heads eng e left right) (\<lambda>head. commit_loop eng e merging_head (heads @ [head]))"
| "commit_loop eng e merging_head [left] =
     lbind (on_storage (\<lambda>st. mem_get_segment st (snd left))) (\<lambda>seg.
     lmatch (commit_segment seg) (\<lambda>r. case r of
         Ok _ \<Rightarrow> lreturn ()
       | Err er \<Rightarrow> if er = HeadNotAncestor
           then if merging_head then lfail (ClientBug ''merging with graph head again, would loop'')
             else lbind (on_storage mem_get_head) (\<lambda>head_loc.
                  lbind (on_storage (\<lambda>st. mem_get_segment st head_loc)) (\<lambda>hseg.
                  commit_loop eng e True [left, (stored_address (seg_head hseg), seg_head_location hseg)]))
           else lfail (StorageErr er)
       | Panic m \<Rightarrow> llift (Panic m)))"
  by pat_completeness auto
termination
  by (relation "measure (\<lambda>(eng, e, merging, heads). length heads + (if merging then 0 else 2))") auto

definition tx_commit :: "('e, 'pol, 'eff) engine_ops \<Rightarrow> 'e \<Rightarrow> ('eff, unit) tx_prog" where
  "tx_commit eng e =
     lbind flush (\<lambda>_.
     lbind (lgets (\<lambda>s. tx_heads (ts_tx s))) (\<lambda>heads.
     lbind (set_heads (\<lambda>_. [])) (\<lambda>_.
     commit_loop eng e False heads)))"

section \<open>Adding commands\<close>

text \<open>The second half of \<open>get_perspective\<close>: a new perspective at the parent, stored in the transaction.\<close>

definition open_at :: "address \<Rightarrow> ('eff, mem_perspective) tx_prog" where
  "open_at parent =
     lbind (locate parent) (\<lambda>found.
     lbind (llift (ok_or (NoSuchParent (addr_id parent)) found)) (\<lambda>loc.
     lbind (on_storage (\<lambda>st. mem_get_linear_perspective st loc)) (\<lambda>opened.
     lbind (llift (ok_or (ClientBug ''location should already be in storage'') opened)) (\<lambda>p.
     lbind (set_perspective (Some p)) (\<lambda>_.
     lbind (set_phead (Some (addr_id parent))) (\<lambda>_.
     lbind (set_heads (bt_remove parent)) (\<lambda>_.
     lreturn p)))))))"

definition get_perspective :: "address \<Rightarrow> ('eff, mem_perspective) tx_prog" where
  "get_perspective parent =
     lbind (lgets (\<lambda>s. tx_phead (ts_tx s))) (\<lambda>phead.
     if phead = Some (addr_id parent)
     then lbind (lgets (\<lambda>s. tx_perspective (ts_tx s))) (\<lambda>current.
          llift (ok_or (ClientBug ''trx has perspective when has phead'') current))
     else lbind flush (\<lambda>_. open_at parent))"

definition add_single :: "('e, 'pol, 'eff) engine_ops \<Rightarrow> 'e \<Rightarrow> stored_command \<Rightarrow> address \<Rightarrow> ('eff, unit) tx_prog" where
  "add_single eng e c parent =
     lbind (get_perspective parent) (\<lambda>p.
     lbind (llift (map_err client_error_of_engine (eo_get_policy eng e (mp_policy p)))) (\<lambda>pol.
     lbind (tell [SinkBegin]) (\<lambda>_.
     case po_call_rule eng pol (command.truncate c) RecallNone (mp_query p) of (r, us, effs) \<Rightarrow>
     lbind (tell (map SinkConsume effs)) (\<lambda>_.
     let checkpoint = mp_checkpoint p; p' = mp_updates us p in
     case r of
       Err er \<Rightarrow>
         (case mp_revert checkpoint p' of (reverted, p'') \<Rightarrow>
          lbind (set_perspective (Some p'')) (\<lambda>_.
          lbind (llift (map_err ClientBug reverted)) (\<lambda>_.
          lbind (tell [SinkRollback]) (\<lambda>_.
          lfail (client_error_of_engine er)))))
     | Panic m \<Rightarrow> lbind (set_perspective (Some p')) (\<lambda>_. llift (Panic m))
     | Ok _ \<Rightarrow>
         (case mp_add_command (command.truncate c) p' of (added, p'') \<Rightarrow>
          lbind (set_perspective (Some p'')) (\<lambda>_.
          lbind (llift (map_err StorageErr added)) (\<lambda>_.
          lbind (tell [SinkCommit]) (\<lambda>_.
          set_phead (Some (cmd_id c))))))))))"

text \<open>The end of \<open>add_merge\<close>: the merge command becomes the first of a new perspective of the transaction.\<close>

definition open_merge :: "stored_command \<Rightarrow> address \<Rightarrow> address \<Rightarrow> location \<Rightarrow> location \<Rightarrow> policy_id \<Rightarrow> mem_fact_index \<Rightarrow>
    ('eff, bool) tx_prog" where
  "open_merge c left right left_loc right_loc policy_id facts =
     lbind (on_storage (\<lambda>st. mem_new_merge_perspective st left_loc right_loc policy_id facts)) (\<lambda>opened.
     lbind (llift (ok_or (ClientBug ''we already found left and right locations above and we only call this with merge command'') opened)) (\<lambda>p.
     case mp_add_command (command.truncate c) p of (added, p') \<Rightarrow>
     lbind (llift (map_err StorageErr added)) (\<lambda>_.
     lbind (set_heads (bt_remove left)) (\<lambda>_.
     lbind (set_heads (bt_remove right)) (\<lambda>_.
     lbind (set_perspective (Some p')) (\<lambda>_.
     lbind (set_phead (Some (cmd_id c))) (\<lambda>_.
     lreturn True)))))))"

definition add_merge :: "('e, 'pol, 'eff) engine_ops \<Rightarrow> 'e \<Rightarrow> stored_command \<Rightarrow> address \<Rightarrow> address \<Rightarrow> ('eff, bool) tx_prog" where
  "add_merge eng e c left right =
     lbind flush_keep (\<lambda>_.
     lbind (locate left) (\<lambda>lfound.
     lbind (llift (ok_or (NoSuchParent (addr_id left)) lfound)) (\<lambda>left_loc.
     lbind (locate right) (\<lambda>rfound.
     lbind (llift (ok_or (NoSuchParent (addr_id right)) rfound)) (\<lambda>right_loc.
     lbind (choose_policy eng e left_loc right_loc) (\<lambda>(pol, policy_id).
     lbind (make_braid_segment eng pol left_loc right_loc) (\<lambda>(facts, lca).
     open_merge c left right left_loc right_loc policy_id facts)))))))"

text \<open>Recording in the peer's cache a command that is found in the storage.\<close>

definition note_peer :: "address \<Rightarrow> location \<Rightarrow> ('eff, unit) tx_prog" where
  "note_peer a l =
     lbind (lread (\<lambda>s. from_storage (peer_add_command mem_ops (ts_storage s) (ts_cache s) a l))) (\<lambda>cache.
     lmodify (\<lambda>s. s\<lparr>ts_cache := cache\<rparr>))"

definition count_one :: "nat \<Rightarrow> ('eff, nat) tx_prog" where
  "count_one n = llift (ok_or (ClientBug ''must not overflow'') (usize_checked_add n 1))"

definition add_one :: "('e, 'pol, 'eff) engine_ops \<Rightarrow> 'e \<Rightarrow> nat \<Rightarrow> stored_command \<Rightarrow> ('eff, nat) tx_prog" where
  "add_one eng e n c =
     lbind (lgets (\<lambda>s. tx_perspective (ts_tx s))) (\<lambda>current.
     if (case current of Some p \<Rightarrow> mp_includes p (cmd_id c) | None \<Rightarrow> False) then lreturn n
     else lbind (locate (stored_address c)) (\<lambda>found.
       case found of
         Some loc \<Rightarrow> lbind (note_peer (stored_address c) loc) (\<lambda>_. lreturn n)
       | None \<Rightarrow>
         lbind (case cmd_parent c of
                  PNone \<Rightarrow> lbind (lgets (\<lambda>s. tx_storage_id (ts_tx s))) (\<lambda>sid.
                    if cmd_id c = sid then lreturn n else lfail (ClientBug ''init command does not belong in graph''))
                | PSingle parent \<Rightarrow> lbind (add_single eng e c parent) (\<lambda>_. count_one n)
                | PMerge left right \<Rightarrow> lbind (add_merge eng e c left right) (\<lambda>_. count_one n)) (\<lambda>n'.
         lbind (locate (stored_address c)) (\<lambda>again.
         lbind (case again of None \<Rightarrow> lreturn () | Some loc \<Rightarrow> note_peer (stored_address c) loc) (\<lambda>_.
         lreturn n')))))"

fun add_each :: "('e, 'pol, 'eff) engine_ops \<Rightarrow> 'e \<Rightarrow> nat \<Rightarrow> stored_command list \<Rightarrow> ('eff, nat) tx_prog" where
  "add_each eng e n [] = lreturn n"
| "add_each eng e n (c # cs) = lbind (add_one eng e n c) (\<lambda>n'. add_each eng e n' cs)"

text \<open>The loop over the commands, and the head of the graph noted for the peer at the end.\<close>

definition add_remaining :: "('e, 'pol, 'eff) engine_ops \<Rightarrow> 'e \<Rightarrow> nat \<Rightarrow> stored_command list \<Rightarrow> ('eff, nat) tx_prog" where
  "add_remaining eng e n cs =
     lbind (add_each eng e n cs) (\<lambda>n'.
     lbind (on_storage mem_get_head) (\<lambda>head_loc.
     lbind (on_storage (\<lambda>st. mem_get_segment st head_loc)) (\<lambda>seg.
     lbind (note_peer (stored_address (seg_head seg)) head_loc) (\<lambda>_.
     lreturn n'))))"

end
