(* ===== verification/Client_State.thy ===== *)
theory Client_State
  imports Transaction
begin

text \<open>
  The operations of \<open>ClientState\<close> (\<open>aranya-runtime/src/client.rs\<close>) and the parts of a
  transaction that work on the storage provider: creating a graph, receiving commands
  for a graph that may not exist yet, committing, and performing an action.
\<close>

section \<open>State\<close>

text \<open>The client with the transaction and the peer cache that its callers hand to it.\<close>

record ('e, 'eff) client_state =
  cs_engine :: 'e
  cs_provider :: mem_storage_provider
  cs_sink :: "'eff sink_event list"
  cs_tx :: transaction
  cs_cache :: peer_cache

type_synonym ('e, 'eff, 'a) client_prog = "(('e, 'eff) client_state, 'a, client_error) lprog"

definition client_tell :: "'eff sink_event list \<Rightarrow> ('e, 'eff, unit) client_prog" where
  "client_tell es = lmodify (\<lambda>s. s\<lparr>cs_sink := cs_sink s @ es\<rparr>)"

text \<open>Working on the storage of the transaction's graph, which must exist.\<close>

definition on_graph :: "('eff, 'a) tx_prog \<Rightarrow> ('e, 'eff, 'a) client_prog" where
  "on_graph m = (\<lambda>s. case get_storage (cs_provider s) (tx_storage_id (cs_tx s)) of
      Ok st \<Rightarrow>
        (case m \<lparr>ts_storage = st, ts_tx = cs_tx s, ts_sink = cs_sink s, ts_cache = cs_cache s\<rparr> of
           None \<Rightarrow> None
         | Some (r, t) \<Rightarrow> Some (r, s\<lparr>cs_provider := bt_insert (tx_storage_id (cs_tx s)) (ts_storage t) (cs_provider s),
             cs_sink := ts_sink t, cs_tx := ts_tx t, cs_cache := ts_cache t\<rparr>))
    | Err er \<Rightarrow> Some (Err (StorageErr er), s)
    | Panic m \<Rightarrow> Some (Panic m, s))"

definition client_add_policy :: "('e, 'pol, 'eff) engine_ops \<Rightarrow> bytes \<Rightarrow> ('e, 'eff, policy_id) client_prog" where
  "client_add_policy eng data = (\<lambda>s. case eo_add_policy eng (cs_engine s) data of
      (r, e) \<Rightarrow> Some (map_err client_error_of_engine r, s\<lparr>cs_engine := e\<rparr>))"

definition client_get_policy :: "('e, 'pol, 'eff) engine_ops \<Rightarrow> policy_id \<Rightarrow> ('e, 'eff, 'pol) client_prog" where
  "client_get_policy eng pid = lread (\<lambda>s. Some (map_err client_error_of_engine (eo_get_policy eng (cs_engine s) pid)))"

definition client_new_storage :: "mem_perspective \<Rightarrow> ('e, 'eff, command_id) client_prog" where
  "client_new_storage p = (\<lambda>s. case new_storage p (cs_provider s) of
      None \<Rightarrow> None
    | Some (r, sp) \<Rightarrow> Some (map_err StorageErr r, s\<lparr>cs_provider := sp\<rparr>))"

section \<open>Receiving commands\<close>

definition tx_init :: "('e, 'pol, 'eff) engine_ops \<Rightarrow> stored_command \<Rightarrow> ('e, 'eff, unit) client_prog" where
  "tx_init eng c =
     lbind (lgets (\<lambda>s. tx_storage_id (cs_tx s))) (\<lambda>sid.
     if sid \<noteq> cmd_id c then lfail InitError
     else if cmd_parent c \<noteq> PNone then lfail InitError
     else case cmd_policy c of
       None \<Rightarrow> lfail InitError
     | Some data \<Rightarrow>
         lbind (client_add_policy eng data) (\<lambda>pid.
         lbind (client_get_policy eng pid) (\<lambda>pol.
         let p = new_perspective pid in
         lbind (client_tell [SinkBegin]) (\<lambda>_.
         case po_call_rule eng pol (command.truncate c) RecallNone (mp_query p) of (r, us, effs) \<Rightarrow>
         lbind (client_tell (map SinkConsume effs)) (\<lambda>_.
         case r of
           Err er \<Rightarrow> lbind (client_tell [SinkRollback]) (\<lambda>_. lfail (client_error_of_engine er))
         | Panic m \<Rightarrow> llift (Panic m)
         | Ok _ \<Rightarrow>
             (case mp_add_command (command.truncate c) (mp_updates us p) of (added, p') \<Rightarrow>
              lbind (llift (map_err StorageErr added)) (\<lambda>_.
              lbind (client_new_storage p') (\<lambda>_.
              client_tell [SinkCommit]))))))))"

definition add_commands :: "('e, 'pol, 'eff) engine_ops \<Rightarrow> stored_command list \<Rightarrow> ('e, 'eff, nat) client_prog" where
  "add_commands eng cs = (\<lambda>s. case get_storage (cs_provider s) (tx_storage_id (cs_tx s)) of
      Ok _ \<Rightarrow> on_graph (add_remaining eng (cs_engine s) 0 cs) s
    | Err er \<Rightarrow> (if er = NoSuchStorage
        then (case cs of
            [] \<Rightarrow> lfail InitError s
          | c # cs' \<Rightarrow> lbind (tx_init eng c) (\<lambda>_. lbind (lgets cs_engine) (\<lambda>e. on_graph (add_remaining eng e 1 cs'))) s)
        else lfail (StorageErr er) s)
    | Panic m \<Rightarrow> llift (Panic m) s)"

definition client_commit :: "('e, 'pol, 'eff) engine_ops \<Rightarrow> ('e, 'eff, unit) client_prog" where
  "client_commit eng = lbind (lgets cs_engine) (\<lambda>e. on_graph (tx_commit eng e))"

section \<open>Actions\<close>

text \<open>
  An action reads the perspective it is called on and performs insertions, deletions and
  additions of commands on it; it is given by its outcome, these operations, and the
  effects it emits.
\<close>

type_synonym ('pol, 'eff) action = "'pol \<Rightarrow> mem_perspective \<Rightarrow> (unit, engine_error) result \<times> perspective_op list \<times> 'eff list"

definition new_graph :: "('e, 'pol, 'eff) engine_ops \<Rightarrow> bytes \<Rightarrow> ('pol, 'eff) action \<Rightarrow> ('e, 'eff, command_id) client_prog" where
  "new_graph eng data act =
     lbind (client_add_policy eng data) (\<lambda>pid.
     lbind (client_get_policy eng pid) (\<lambda>pol.
     let p = new_perspective pid in
     lbind (client_tell [SinkBegin]) (\<lambda>_.
     case act pol p of (r, os, effs) \<Rightarrow>
     lbind (client_tell (map SinkConsume effs)) (\<lambda>_.
     case r of
       Err er \<Rightarrow> lbind (client_tell [SinkRollback]) (\<lambda>_. lfail (client_error_of_engine er))
     | Panic m \<Rightarrow> llift (Panic m)
     | Ok _ \<Rightarrow> lbind (client_tell [SinkCommit]) (\<lambda>_. client_new_storage (perform os p))))))"

text \<open>The part of \<open>action\<close> that works on the storage, after it was found.\<close>

definition act_on_storage :: "('e, 'pol, 'eff) engine_ops \<Rightarrow> 'e \<Rightarrow> ('pol, 'eff) action \<Rightarrow> ('eff, unit) tx_prog" where
  "act_on_storage eng e act =
     lbind (on_storage mem_get_head) (\<lambda>head.
     lbind (on_storage (\<lambda>st. mem_get_linear_perspective st head)) (\<lambda>opened.
     lbind (llift (ok_or (ClientBug ''can always get perspective at head'') opened)) (\<lambda>p.
     lbind (llift (map_err client_error_of_engine (eo_get_policy eng e (mp_policy p)))) (\<lambda>pol.
     lbind (tell [SinkBegin]) (\<lambda>_.
     case act pol p of (r, os, effs) \<Rightarrow>
     lbind (tell (map SinkConsume effs)) (\<lambda>_.
     case r of
       Ok _ \<Rightarrow>
         lbind (run_storage (mem_write (perform os p))) (\<lambda>seg.
         lmatch (commit_segment seg) (\<lambda>c.
         lbind (llift (map_err StorageErr c)) (\<lambda>_.
         tell [SinkCommit])))
     | Err er \<Rightarrow> lbind (tell [SinkRollback]) (\<lambda>_. lfail (client_error_of_engine er))
     | Panic m \<Rightarrow> llift (Panic m)))))))"

text \<open>An action works on the graph it is given, whatever transactions are open.\<close>

definition with_graph :: "command_id \<Rightarrow> ('eff, 'a) tx_prog \<Rightarrow> ('e, 'eff, 'a) client_prog" where
  "with_graph graph m = (\<lambda>s. case get_storage (cs_provider s) graph of
      Ok st \<Rightarrow>
        (case m \<lparr>ts_storage = st, ts_tx = transaction_new graph, ts_sink = cs_sink s, ts_cache = []\<rparr> of
           None \<Rightarrow> None
         | Some (r, t) \<Rightarrow> Some (r, s\<lparr>cs_provider := bt_insert graph (ts_storage t) (cs_provider s), cs_sink := ts_sink t\<rparr>))
    | Err er \<Rightarrow> Some (Err (StorageErr er), s)
    | Panic m \<Rightarrow> Some (Panic m, s))"

definition client_action :: "('e, 'pol, 'eff) engine_ops \<Rightarrow> command_id \<Rightarrow> ('pol, 'eff) action \<Rightarrow> ('e, 'eff, unit) client_prog" where
  "client_action eng storage_id act = lbind (lgets cs_engine) (\<lambda>e. with_graph storage_id (act_on_storage eng e act))"

definition begin_transaction :: "command_id \<Rightarrow> ('e, 'eff, unit) client_prog" where
  "begin_transaction storage_id = lmodify (\<lambda>s. s\<lparr>cs_tx := transaction_new storage_id\<rparr>)"

end
