(* ===== verification/Vm_Policy.thy ===== *)
theory Vm_Policy
  imports Vm_Io Client_State
begin

text \<open>
  The policy that runs the virtual machine (\<open>aranya-runtime/src/vm_policy.rs\<close>,
  \<open>vm_policy/protocol.rs\<close> and \<open>vm_policy/error.rs\<close>): commands and envelopes, rules with
  recall, opening and sealing, actions with the commands they publish, and merges.
  Logging is left out.
\<close>

section \<open>Commands and envelopes\<close>

datatype vm_policy_error =
    VpDeserialization
  | VpEngineError engine_error
  | VpStorageError storage_error
  | VpUnknown

datatype vm_protocol_data =
    VpdInit (vpd_policy: bytes) (vpd_author: id) (vpd_kind: string) (vpd_fields: bytes) (vpd_signature: bytes)
  | VpdMerge (vpd_left: address) (vpd_right: address)
  | VpdBasic (vpd_parent: address) (vpd_author: id) (vpd_kind: string) (vpd_fields: bytes) (vpd_signature: bytes)

record vm_protocol =
  vpr_data :: bytes
  vpr_id :: command_id
  vpr_unpacked :: vm_protocol_data
  vpr_priority_map :: "(string, u32) btree_map"

definition vm_protocol_new :: "bytes \<Rightarrow> command_id \<Rightarrow> vm_protocol_data \<Rightarrow> (string, u32) btree_map \<Rightarrow> vm_protocol" where
  "vm_protocol_new data i unpacked priority_map =
     \<lparr>vpr_data = data, vpr_id = i, vpr_unpacked = unpacked, vpr_priority_map = priority_map\<rparr>"

fun data_priority :: "(string, u32) btree_map \<Rightarrow> vm_protocol_data \<Rightarrow> priority" where
  "data_priority pm (VpdInit _ _ _ _ _) = PrioInit"
| "data_priority pm (VpdMerge _ _) = PrioMerge"
| "data_priority pm (VpdBasic _ _ kind _ _) = PrioBasic (case bt_get pm kind of Some n \<Rightarrow> n | None \<Rightarrow> 0)"

fun data_parent :: "vm_protocol_data \<Rightarrow> address prior" where
  "data_parent (VpdInit _ _ _ _ _) = PNone"
| "data_parent (VpdMerge l r) = PMerge l r"
| "data_parent (VpdBasic p _ _ _ _) = PSingle p"

fun data_policy :: "vm_protocol_data \<Rightarrow> bytes option" where
  "data_policy (VpdInit policy _ _ _ _) = Some policy"
| "data_policy _ = None"

text \<open>The implementation of the trait \<open>Command\<close>.\<close>

definition vm_protocol_command :: "vm_protocol \<Rightarrow> command" where
  "vm_protocol_command c =
     \<lparr>cmd_priority = data_priority (vpr_priority_map c) (vpr_unpacked c), cmd_id = vpr_id c,
      cmd_parent = data_parent (vpr_unpacked c), cmd_policy = data_policy (vpr_unpacked c), cmd_bytes = vpr_data c\<rparr>"

record envelope =
  env_parent_id :: command_id
  env_author_id :: id
  env_command_id :: command_id
  env_payload :: bytes
  env_signature :: bytes

definition envelope_struct :: "envelope \<Rightarrow> struct" where
  "envelope_struct e = struct_new ''Envelope''
     [(''parent_id'', VId (env_parent_id e)), (''author_id'', VId (env_author_id e)),
      (''command_id'', VId (env_command_id e)), (''payload'', VBytes (env_payload e)),
      (''signature'', VBytes (env_signature e))]"

datatype envelope_error = InvalidName string | MissingField string | InvalidFieldType string

definition envelope_get :: "(pvalue \<Rightarrow> ('a, value_conversion_error) result) \<Rightarrow> string \<Rightarrow>
    ((string, pvalue) btree_map, 'a, envelope_error) prog" where
  "envelope_get conv key = (\<lambda>fields. case bt_get fields key of
      None \<Rightarrow> (Err (MissingField key), fields)
    | Some v \<Rightarrow> (map_err (\<lambda>_. InvalidFieldType key) (conv v), bt_remove key fields))"

definition envelope_of_struct :: "struct \<Rightarrow> (envelope, envelope_error) result" where
  "envelope_of_struct s =
     (if struct_name s \<noteq> ''Envelope'' then Err (InvalidName (struct_name s))
      else fst ((pbind (envelope_get try_id ''parent_id'') (\<lambda>parent.
                 pbind (envelope_get try_id ''author_id'') (\<lambda>author.
                 pbind (envelope_get try_id ''command_id'') (\<lambda>command.
                 pbind (envelope_get try_bytes ''payload'') (\<lambda>payload.
                 pbind (envelope_get try_bytes ''signature'') (\<lambda>signature.
                 preturn \<lparr>env_parent_id = parent, env_author_id = author, env_command_id = command,
                          env_payload = payload, env_signature = signature\<rparr>))))))
                (struct_fields s)))"

section \<open>The policy\<close>

record 'g vm_policy =
  vp_machine :: machine
  vp_ffis :: "'g ffi_module list"
  vp_priority_map :: "(string, u32) btree_map"

text \<open>A priority attribute must be an integer that fits into 32 bits without sign.\<close>

fun command_priorities :: "(string \<times> (string, pvalue) btree_map) list \<Rightarrow> (string, u32) btree_map \<Rightarrow>
    ((string, u32) btree_map, vm_policy_error) result" where
  "command_priorities [] pm = Ok pm"
| "command_priorities ((name, attrs) # rest) pm =
     (case bt_get attrs ''priority'' of
        Some (VInt p) \<Rightarrow>
          if 0 \<le> sint p \<and> sint p < 2 ^ 32 then command_priorities rest (bt_insert name (ucast p) pm)
          else Err VpUnknown
      | _ \<Rightarrow> command_priorities rest pm)"

definition get_command_priorities :: "machine \<Rightarrow> ((string, u32) btree_map, vm_policy_error) result" where
  "get_command_priorities M = command_priorities (mc_command_attributes M) []"

definition vm_policy_new :: "machine \<Rightarrow> 'g ffi_module list \<Rightarrow> ('g vm_policy, vm_policy_error) result" where
  "vm_policy_new M ffis = rbind (get_command_priorities M) (\<lambda>pm.
     Ok \<lparr>vp_machine = M, vp_ffis = ffis, vp_priority_map = pm\<rparr>)"

text \<open>
  What a call of the policy works on: the facts, the effects given to the sink and the
  locked state of engine and modules. The operations of the fact perspective, \<open>postcard\<close>
  and the hash of \<open>CommandId::hash_for_testing_only\<close> are parameters.
\<close>

record ('p, 'g) policy_state =
  pst_facts :: 'p
  pst_sink :: "vm_effect list"
  pst_engine :: 'g

record 'p policy_env =
  pe_facts :: "'p fact_ops"
  pe_struct_to_vec :: "struct \<Rightarrow> bytes option"
  pe_struct_of_vec :: "bytes \<Rightarrow> struct option"
  pe_data_to_vec :: "vm_protocol_data \<Rightarrow> bytes option"
  pe_data_of_vec :: "bytes \<Rightarrow> vm_protocol_data option"
  pe_hash :: "bytes \<Rightarrow> command_id"

type_synonym ('p, 'g, 'a) policy_prog = "(('p, 'g) policy_state, 'a, engine_error) lprog"

definition policy_vm_env :: "'p policy_env \<Rightarrow> 'g vm_policy \<Rightarrow> ('p, 'g) vm_policy_io vm_env" where
  "policy_vm_env pe vp = vpio_env (pe_facts pe) (pe_struct_to_vec pe) (pe_struct_of_vec pe) (vp_ffis vp)"

text \<open>A run state on a fresh \<open>VmPolicyIO\<close>; what it did to facts, sink and engine stays.\<close>

definition with_run_state :: "machine \<Rightarrow> command_context \<Rightarrow> (('p, 'g) vm_policy_io run_state, 'a, engine_error) lprog \<Rightarrow>
    ('p, 'g, 'a) policy_prog" where
  "with_run_state M ctx m = (\<lambda>s.
     case m (run_state_new M (vpio_new (pst_facts s) (pst_sink s) (pst_engine s)) ctx) of
       None \<Rightarrow> None
     | Some (r, t) \<Rightarrow> Some (r, \<lparr>pst_facts = vpio_facts (rs_io t), pst_sink = vpio_sink (rs_io t),
         pst_engine = vpio_engine (rs_io t)\<rparr>))"

definition with_null_sink :: "('p, 'g, 'a) policy_prog \<Rightarrow> ('p, 'g, 'a) policy_prog" where
  "with_null_sink m = (\<lambda>s. case m (s\<lparr>pst_sink := []\<rparr>) of
      None \<Rightarrow> None
    | Some (r, t) \<Rightarrow> Some (r, t\<lparr>pst_sink := pst_sink s\<rparr>))"

definition recall_internal :: "'io vm_env \<Rightarrow> machine \<Rightarrow> command_recall \<Rightarrow> string \<Rightarrow> struct \<Rightarrow> envelope \<Rightarrow>
    ('io run_state, unit, engine_error) lprog" where
  "recall_internal E M recall name self_data envelope =
     (case recall of
        RecallNone \<Rightarrow> lfail EngineCheck
      | RecallOnCheck \<Rightarrow> lmatch (call_command_recall E M name self_data (envelope_struct envelope)) (\<lambda>r.
          case r of
            Ok ExitNormal \<Rightarrow> lfail EngineCheck
          | Ok ExitCheck \<Rightarrow> lfail EngineCheck
          | Ok ExitPanic \<Rightarrow> lfail EnginePanic
          | Err _ \<Rightarrow> lfail EnginePanic
          | Panic m \<Rightarrow> llift (Panic m)))"

definition evaluate_rule :: "'p policy_env \<Rightarrow> 'g vm_policy \<Rightarrow> string \<Rightarrow> kv_pair list \<Rightarrow> envelope \<Rightarrow> command_context \<Rightarrow>
    command_recall \<Rightarrow> ('p, 'g, unit) policy_prog" where
  "evaluate_rule pe vp name kvs envelope ctx recall =
     (let E = policy_vm_env pe vp; M = vp_machine vp; self_data = struct_new name kvs in
      with_run_state M ctx
        (lmatch (call_command_policy E M (struct_name self_data) self_data (envelope_struct envelope)) (\<lambda>r.
         case r of
           Ok ExitNormal \<Rightarrow> lreturn ()
         | Ok ExitCheck \<Rightarrow> (case ctx of
               CtxPolicy policy_ctx \<Rightarrow>
                 lbind (lmodify (set_context (CtxRecall policy_ctx))) (\<lambda>_.
                 recall_internal E M recall name self_data envelope)
             | _ \<Rightarrow> lfail EngineInternal)
         | Ok ExitPanic \<Rightarrow> lfail EnginePanic
         | Err _ \<Rightarrow> lfail EngineInternal
         | Panic m \<Rightarrow> llift (Panic m))))"

text \<open>The struct that an open or seal block leaves on the stack.\<close>

definition returned_struct :: "machine \<Rightarrow> ('io run_state, struct, engine_error) lprog" where
  "returned_struct M = lread (\<lambda>s. Some (
     rbind (map_err (\<lambda>_. EngineInternal) (consume_return M s)) (\<lambda>v.
     map_err (\<lambda>_. EngineInternal) (try_struct v))))"

definition open_command :: "'p policy_env \<Rightarrow> 'g vm_policy \<Rightarrow> string \<Rightarrow> envelope \<Rightarrow> ('p, 'g, struct) policy_prog" where
  "open_command pe vp name envelope =
     (let E = policy_vm_env pe vp; M = vp_machine vp in
      with_null_sink (with_run_state M (CtxOpen name)
        (lmatch (call_open E M name (envelope_struct envelope)) (\<lambda>r.
         case r of
           Ok ExitNormal \<Rightarrow> returned_struct M
         | Ok ExitCheck \<Rightarrow> lfail EngineCheck
         | Ok ExitPanic \<Rightarrow> lfail EngineCheck
         | Err _ \<Rightarrow> lfail EngineInternal
         | Panic m \<Rightarrow> llift (Panic m)))))"

definition seal_command :: "'p policy_env \<Rightarrow> 'g vm_policy \<Rightarrow> string \<Rightarrow> kv_pair list \<Rightarrow> command_id \<Rightarrow>
    ('p, 'g, envelope) policy_prog" where
  "seal_command pe vp name kvs ctx_parent =
     (let E = policy_vm_env pe vp; M = vp_machine vp in
      with_null_sink (with_run_state M (CtxSeal name ctx_parent)
        (lmatch (call_seal E M name (struct_new name kvs)) (\<lambda>r.
         case r of
           Ok ExitNormal \<Rightarrow>
             lbind (returned_struct M) (\<lambda>strukt.
             llift (map_err (\<lambda>_. EngineInternal) (envelope_of_struct strukt)))
         | Ok ExitCheck \<Rightarrow> lfail EngineCheck
         | Ok ExitPanic \<Rightarrow> lfail EnginePanic
         | Err _ \<Rightarrow> lfail EngineInternal
         | Panic m \<Rightarrow> llift (Panic m)))))"

section \<open>The trait Policy\<close>

text \<open>\<open>CommandId::default()\<close>\<close>

definition default_id :: id where
  "default_id = replicate 32 0"

text \<open>The common part of the two kinds of commands that have a rule.\<close>

definition open_and_evaluate :: "'p policy_env \<Rightarrow> 'g vm_policy \<Rightarrow> string \<Rightarrow> envelope \<Rightarrow> command_recall \<Rightarrow>
    ('p, 'g, unit) policy_prog" where
  "open_and_evaluate pe vp kind envelope recall =
     lbind (open_command pe vp kind envelope) (\<lambda>command_struct.
     evaluate_rule pe vp kind (struct_fields command_struct) envelope
       (CtxPolicy \<lparr>pctx_name = kind, pctx_id = env_command_id envelope, pctx_author = env_author_id envelope,
          pctx_version = default_id\<rparr>) recall)"

definition vm_call_rule :: "'p policy_env \<Rightarrow> 'g vm_policy \<Rightarrow> command \<Rightarrow> command_recall \<Rightarrow> ('p, 'g, unit) policy_prog" where
  "vm_call_rule pe vp command recall =
     (case pe_data_of_vec pe (cmd_bytes command) of
        None \<Rightarrow> lfail EngineRead
      | Some (VpdInit _ author_id kind serialized_fields signature) \<Rightarrow>
          open_and_evaluate pe vp kind \<lparr>env_parent_id = default_id, env_author_id = author_id,
            env_command_id = cmd_id command, env_payload = serialized_fields, env_signature = signature\<rparr> recall
      | Some (VpdBasic parent author_id kind serialized_fields signature) \<Rightarrow>
          open_and_evaluate pe vp kind \<lparr>env_parent_id = addr_id parent, env_author_id = author_id,
            env_command_id = cmd_id command, env_payload = serialized_fields, env_signature = signature\<rparr> recall
      | Some (VpdMerge _ _) \<Rightarrow> lreturn ())"

text \<open>Sealing one published command, with its rule and its place in the perspective.\<close>

definition published_data :: "address option \<Rightarrow> string \<Rightarrow> envelope \<Rightarrow> vm_protocol_data" where
  "published_data parent name envelope = (case parent of
      None \<Rightarrow> VpdInit (replicate 8 0) (env_author_id envelope) name (env_payload envelope) (env_signature envelope)
    | Some p \<Rightarrow> VpdBasic p (env_author_id envelope) name (env_payload envelope) (env_signature envelope))"

text \<open>The operations of the trait \<open>Perspective\<close> on top of those for facts.\<close>

record 'p perspective_env =
  pv_head_address :: "'p \<Rightarrow> (address prior, string) result"
  pv_add_command :: "command \<Rightarrow> ('p, nat, storage_error) prog"

definition add_to_facts :: "'p perspective_env \<Rightarrow> command \<Rightarrow> ('p, 'g, unit) policy_prog" where
  "add_to_facts pv c = (\<lambda>s. case pv_add_command pv c (pst_facts s) of
      (r, p) \<Rightarrow> Some (rmap (\<lambda>_. ()) (map_err (\<lambda>_. EngineWrite) r), s\<lparr>pst_facts := p\<rparr>))"

fun publish_all :: "'p policy_env \<Rightarrow> 'p perspective_env \<Rightarrow> 'g vm_policy \<Rightarrow> address option \<Rightarrow>
    (string \<times> kv_pair list) list \<Rightarrow> ('p, 'g, unit) policy_prog" where
  "publish_all pe pv vp parent [] = lreturn ()"
| "publish_all pe pv vp parent ((name, kvs) # rest) =
     lbind (seal_command pe vp name kvs (case parent of Some a \<Rightarrow> addr_id a | None \<Rightarrow> default_id)) (\<lambda>envelope.
     let data = published_data parent name envelope in
     lbind (llift (ok_or EngineRead (pe_data_to_vec pe data))) (\<lambda>wrapped.
     let new_command = vm_protocol_command (vm_protocol_new wrapped (env_command_id envelope) data (vp_priority_map vp)) in
     lbind (vm_call_rule pe vp new_command RecallNone) (\<lambda>_.
     lbind (add_to_facts pv new_command) (\<lambda>_.
     publish_all pe pv vp parent rest))))"

record vm_action =
  va_name :: string
  va_args :: "pvalue list"

text \<open>The block that runs the action itself and yields what it published.\<close>

definition run_action :: "'p policy_env \<Rightarrow> 'g vm_policy \<Rightarrow> vm_action \<Rightarrow> command_id \<Rightarrow>
    ('p, 'g, (string \<times> kv_pair list) list) policy_prog" where
  "run_action pe vp action head_id =
     (let E = policy_vm_env pe vp; M = vp_machine vp in
      with_run_state M (CtxAction (va_name action) head_id)
        (lmatch (call_action E M (va_name action) (va_args action)) (\<lambda>r.
         case r of
           Ok ExitNormal \<Rightarrow> lgets (\<lambda>s. into_publish_stack (rs_io s))
         | Ok ExitCheck \<Rightarrow> lfail EngineCheck
         | Ok ExitPanic \<Rightarrow> lfail EnginePanic
         | Err _ \<Rightarrow> lfail EngineInternal
         | Panic m \<Rightarrow> llift (Panic m))))"

definition vm_call_action :: "'p policy_env \<Rightarrow> 'p perspective_env \<Rightarrow> 'g vm_policy \<Rightarrow> vm_action \<Rightarrow> ('p, 'g, unit) policy_prog" where
  "vm_call_action pe pv vp action =
     lbind (lread (\<lambda>s. Some (map_err EngineBug (pv_head_address pv (pst_facts s))))) (\<lambda>head.
     lbind (case head of
         PNone \<Rightarrow> lreturn None
       | PSingle a \<Rightarrow> lreturn (Some a)
       | PMerge _ _ \<Rightarrow> lfail (EngineBug ''cannot have a merge parent in call_action'')) (\<lambda>parent.
     lbind (run_action pe vp action (case parent of Some a \<Rightarrow> addr_id a | None \<Rightarrow> default_id)) (\<lambda>stack.
     publish_all pe pv vp parent stack)))"

text \<open>The buffer for a merge command is given by its length.\<close>

definition vm_merge :: "'p policy_env \<Rightarrow> 'g vm_policy \<Rightarrow> nat \<Rightarrow> address \<times> address \<Rightarrow> (vm_protocol, engine_error) result" where
  "vm_merge pe vp target ids =
     (let c = VpdMerge (fst ids) (snd ids) in
      rbind (ok_or EngineWrite (pe_data_to_vec pe c)) (\<lambda>data.
      if length data \<le> target then Ok (vm_protocol_new data (pe_hash pe data) c (vp_priority_map vp))
      else Err EngineWrite))"

definition vm_serial :: "'g vm_policy \<Rightarrow> u32" where
  "vm_serial vp = 0"

end
