(* ===== verification/Vm_View.thy ===== *)
theory Vm_View
  imports Vm_Io Client_Prog
begin

text \<open>
  The machine depends on its I/O state only through the operations of \<open>MachineIO\<close>. If a
  function maps one kind of I/O state to another and commutes with these operations, it
  commutes with every instruction and every run.
\<close>

section \<open>Commuting programs\<close>

definition map_io :: "('a \<Rightarrow> 'c) \<Rightarrow> 'a run_state \<Rightarrow> 'c run_state" where
  "map_io f s = \<lparr>rs_scope = rs_scope s, rs_stack = rs_stack s, rs_call_state = rs_call_state s, rs_pc = rs_pc s,
     rs_io = f (rs_io s), rs_ctx = rs_ctx s, rs_query_iter_stack = rs_query_iter_stack s\<rparr>"

lemma map_io_fields [simp]:
  "rs_scope (map_io f s) = rs_scope s" "rs_stack (map_io f s) = rs_stack s"
  "rs_call_state (map_io f s) = rs_call_state s" "rs_pc (map_io f s) = rs_pc s"
  "rs_io (map_io f s) = f (rs_io s)" "rs_ctx (map_io f s) = rs_ctx s"
  "rs_query_iter_stack (map_io f s) = rs_query_iter_stack s"
  by (simp_all add: map_io_def)

lemma map_io_updates [simp]:
  "(map_io f s)\<lparr>rs_scope := sc\<rparr> = map_io f (s\<lparr>rs_scope := sc\<rparr>)"
  "(map_io f s)\<lparr>rs_stack := st\<rparr> = map_io f (s\<lparr>rs_stack := st\<rparr>)"
  "(map_io f s)\<lparr>rs_call_state := cs\<rparr> = map_io f (s\<lparr>rs_call_state := cs\<rparr>)"
  "(map_io f s)\<lparr>rs_pc := n\<rparr> = map_io f (s\<lparr>rs_pc := n\<rparr>)"
  "(map_io f s)\<lparr>rs_ctx := c\<rparr> = map_io f (s\<lparr>rs_ctx := c\<rparr>)"
  "(map_io f s)\<lparr>rs_query_iter_stack := q\<rparr> = map_io f (s\<lparr>rs_query_iter_stack := q\<rparr>)"
  "(map_io f s)\<lparr>rs_io := f io\<rparr> = map_io f (s\<lparr>rs_io := io\<rparr>)"
  by (simp_all add: map_io_def)

lemma map_io_new [simp]: "run_state_new M (f io) ctx = map_io f (run_state_new M io ctx)"
  by (simp add: run_state_new_def map_io_def)

definition views :: "('a \<Rightarrow> bool) \<Rightarrow> ('a \<Rightarrow> 'c) \<Rightarrow> ('c, 'x) vm \<Rightarrow> ('a, 'x) vm \<Rightarrow> bool" where
  "views I f m n \<longleftrightarrow> (\<forall>s. I (rs_io s) \<longrightarrow> m (map_io f s) = apsnd (map_io f) (n s) \<and> I (rs_io (snd (n s))))"

named_theorems view_rules

lemma viewsI: "(\<And>s. I (rs_io s) \<Longrightarrow> m (map_io f s) = apsnd (map_io f) (n s) \<and> I (rs_io (snd (n s)))) \<Longrightarrow> views I f m n"
  by (simp add: views_def)

lemma viewsD: "views I f m n \<Longrightarrow> I (rs_io s) \<Longrightarrow> m (map_io f s) = apsnd (map_io f) (n s)"
  "views I f m n \<Longrightarrow> I (rs_io s) \<Longrightarrow> I (rs_io (snd (n s)))"
  by (simp_all add: views_def)

lemma views_basic [view_rules]:
  "views I f (preturn a) (preturn a)" "views I f (pfail e) (pfail e)" "views I f (ppanic p) (ppanic p)"
  "views I f (plift r) (plift r)" "views I f (mk_err M t) (mk_err M t)"
  by (simp_all add: views_def preturn_def pfail_def ppanic_def plift_def mk_err_def)

lemma views_pbind [view_rules]:
  assumes "views I f m n" "\<And>a. views I f (g a) (h a)"
  shows "views I f (pbind m g) (pbind n h)"
proof (rule viewsI)
  fix s :: "'a run_state"
  assume "I (rs_io s)"
  then have s: "m (map_io f s) = apsnd (map_io f) (n s)" "I (rs_io (snd (n s)))"
    using assms(1) by (simp_all add: views_def)
  show "pbind m g (map_io f s) = apsnd (map_io f) (pbind n h s) \<and> I (rs_io (snd (pbind n h s)))"
    using s assms(2) by (cases "n s"; cases "fst (n s)") (auto simp: pbind_def views_def)
qed

lemma views_fail [view_rules]: "views I f (fail_at M t) (fail_at M t)" "views I f (fail_plain t) (fail_plain t)"
  by (auto simp: fail_at_def fail_plain_def intro!: view_rules)

lemma views_fall [view_rules]: "views I f m n \<Longrightarrow> views I f (fall m) (fall n)"
  unfolding fall_def by (intro view_rules)

lemma views_pgets [view_rules]:
  "views I f (pgets rs_scope) (pgets rs_scope)" "views I f (pgets rs_stack) (pgets rs_stack)"
  "views I f (pgets rs_ctx) (pgets rs_ctx)" "views I f (pgets rs_query_iter_stack) (pgets rs_query_iter_stack)"
  by (simp_all add: views_def pgets_def)

lemma views_pmodify:
  "(\<And>s. I (rs_io s) \<Longrightarrow> g (map_io f s) = map_io f (h s) \<and> I (rs_io (h s))) \<Longrightarrow> views I f (pmodify g) (pmodify h)"
  by (simp add: views_def pmodify_def)

lemma views_if [view_rules]: "views I f m n \<Longrightarrow> views I f m' n' \<Longrightarrow> views I f (if b then m else m') (if b then n else n')"
  by simp

lemma views_option [view_rules]:
  "views I f m n \<Longrightarrow> (\<And>a. views I f (g a) (h a)) \<Longrightarrow>
   views I f (case v of None \<Rightarrow> m | Some a \<Rightarrow> g a) (case v of None \<Rightarrow> n | Some a \<Rightarrow> h a)"
  by (cases v) auto

lemma views_result [view_rules]:
  "(\<And>a. views I f (g a) (h a)) \<Longrightarrow> (\<And>a. views I f (g' a) (h' a)) \<Longrightarrow> (\<And>a. views I f (g'' a) (h'' a)) \<Longrightarrow>
   views I f (case v of Ok a \<Rightarrow> g a | Err a \<Rightarrow> g' a | Panic a \<Rightarrow> g'' a) (case v of Ok a \<Rightarrow> h a | Err a \<Rightarrow> h' a | Panic a \<Rightarrow> h'' a)"
  by (cases v) auto

lemma views_list [view_rules]:
  "views I f m n \<Longrightarrow> (\<And>a as. views I f (g a as) (h a as)) \<Longrightarrow>
   views I f (case v of [] \<Rightarrow> m | a # as \<Rightarrow> g a as) (case v of [] \<Rightarrow> n | a # as \<Rightarrow> h a as)"
  by (cases v) auto

lemma views_prod [view_rules]:
  "(\<And>a b. views I f (g a b) (h a b)) \<Longrightarrow> views I f (case v of (a, b) \<Rightarrow> g a b) (case v of (a, b) \<Rightarrow> h a b)"
  by (cases v) auto

lemma views_context [view_rules]:
  assumes "\<And>a b. views I f (g1 a b) (h1 a b)" "\<And>a b. views I f (g2 a b) (h2 a b)" "\<And>a. views I f (g3 a) (h3 a)"
    "\<And>a. views I f (g4 a) (h4 a)" "\<And>a. views I f (g5 a) (h5 a)"
  shows "views I f (case c of CtxAction a b \<Rightarrow> g1 a b | CtxSeal a b \<Rightarrow> g2 a b | CtxOpen a \<Rightarrow> g3 a | CtxPolicy a \<Rightarrow> g4 a | CtxRecall a \<Rightarrow> g5 a)
    (case c of CtxAction a b \<Rightarrow> h1 a b | CtxSeal a b \<Rightarrow> h2 a b | CtxOpen a \<Rightarrow> h3 a | CtxPolicy a \<Rightarrow> h4 a | CtxRecall a \<Rightarrow> h5 a)"
  using assms by (cases c) auto

lemma views_stack [view_rules]:
  "views I f (ipush M v) (ipush M v)" "views I f (ipop_value M) (ipop_value M)" "views I f (lift_conv M r) (lift_conv M r)"
  "views I f (set_top v) (set_top v)"
  using viewsD [OF views_fail(1)] 
  by (auto simp: views_def ipush_def ipop_value_def lift_conv_def set_top_def pmodify_def preturn_def ppanic_def split: option.splits result.splits)

lemma views_ipop [view_rules]: "views I f (ipop M conv) (ipop M conv)"
  unfolding ipop_def by (intro view_rules)

lemma views_ipeek [view_rules]: "views I f (ipeek M conv) (ipeek M conv)"
  using viewsD [OF views_fail(1)] viewsD [OF views_stack(3)] by (auto simp: views_def ipeek_def)

lemma views_scope_op [view_rules]:
  assumes "\<And>e. views I f (h e) (h' e)"
  shows "views I f (scope_op m h) (scope_op m h')"
  using assms by (auto simp: views_def scope_op_def split: prod.splits result.splits)

lemma views_io_op:
  assumes "\<And>io. I io \<Longrightarrow> m (f io) = apsnd f (n io) \<and> I (snd (n io))"
  shows "views I f (io_op m) (io_op n)"
  unfolding views_def io_op_def
proof (intro allI impI)
  fix s :: "'a run_state"
  assume "I (rs_io s)"
  from assms [OF this] show "(case m (rs_io (map_io f s)) of (Ok a, io) \<Rightarrow> (Ok a, (map_io f s)\<lparr>rs_io := io\<rparr>)
      | (Err e, io) \<Rightarrow> (Err (machine_error_of_io e), (map_io f s)\<lparr>rs_io := io\<rparr>) | (Panic p, io) \<Rightarrow> (Panic p, (map_io f s)\<lparr>rs_io := io\<rparr>)) =
    apsnd (map_io f) (case n (rs_io s) of (Ok a, io) \<Rightarrow> (Ok a, s\<lparr>rs_io := io\<rparr>)
      | (Err e, io) \<Rightarrow> (Err (machine_error_of_io e), s\<lparr>rs_io := io\<rparr>) | (Panic p, io) \<Rightarrow> (Panic p, s\<lparr>rs_io := io\<rparr>)) \<and>
    I (rs_io (snd (case n (rs_io s) of (Ok a, io) \<Rightarrow> (Ok a, s\<lparr>rs_io := io\<rparr>)
      | (Err e, io) \<Rightarrow> (Err (machine_error_of_io e), s\<lparr>rs_io := io\<rparr>) | (Panic p, io) \<Rightarrow> (Panic p, s\<lparr>rs_io := io\<rparr>))))"
    by (cases "n (rs_io s)"; cases "fst (n (rs_io s))") auto
qed

lemma views_iters [view_rules]:
  "views I f (pmodify (\<lambda>s. s\<lparr>rs_query_iter_stack := rs_query_iter_stack s @ [items]\<rparr>)) (pmodify (\<lambda>s. s\<lparr>rs_query_iter_stack := rs_query_iter_stack s @ [items]\<rparr>))"
  "views I f (pmodify (\<lambda>s. s\<lparr>rs_query_iter_stack := q\<rparr>)) (pmodify (\<lambda>s. s\<lparr>rs_query_iter_stack := q\<rparr>))"
  "views I f (pmodify (\<lambda>s. s\<lparr>rs_stack := st\<rparr>)) (pmodify (\<lambda>s. s\<lparr>rs_stack := st\<rparr>))"
  by (auto intro!: views_pmodify)

section \<open>Instructions and runs\<close>

locale io_view =
  fixes I :: "'a \<Rightarrow> bool" and f :: "'a \<Rightarrow> 'c" and E1 :: "'c vm_env" and E2 :: "'a vm_env"
  assumes view_insert: "I io \<Longrightarrow> io_fact_insert E1 n k v (f io) = apsnd f (io_fact_insert E2 n k v io) \<and> I (snd (io_fact_insert E2 n k v io))"
    and view_delete: "I io \<Longrightarrow> io_fact_delete E1 n k (f io) = apsnd f (io_fact_delete E2 n k io) \<and> I (snd (io_fact_delete E2 n k io))"
    and view_query: "I io \<Longrightarrow> io_fact_query E1 (f io) n k = io_fact_query E2 io n k"
    and view_publish: "I io \<Longrightarrow> io_publish E1 n kvs (f io) = f (io_publish E2 n kvs io) \<and> I (io_publish E2 n kvs io)"
    and view_effect: "I io \<Longrightarrow> io_effect E1 n kvs c b (f io) = f (io_effect E2 n kvs c b io) \<and> I (io_effect E2 n kvs c b io)"
    and view_call: "I io \<Longrightarrow> io_call E1 m p ctx (f io, st) = apsnd (apfst f) (io_call E2 m p ctx (io, st)) \<and> I (fst (snd (io_call E2 m p ctx (io, st))))"
    and view_vec: "to_allocvec E1 = to_allocvec E2" "from_bytes E1 = from_bytes E2"
begin

lemma view_io [view_rules]:
  "views I f (io_op (io_fact_insert E1 n k v)) (io_op (io_fact_insert E2 n k v))"
  "views I f (io_op (io_fact_delete E1 n k)) (io_op (io_fact_delete E2 n k))"
  "views I f (query_facts E1 n k) (query_facts E2 n k)"
  "views I f (pmodify (\<lambda>s. s\<lparr>rs_io := io_publish E1 n kvs (rs_io s)\<rparr>)) (pmodify (\<lambda>s. s\<lparr>rs_io := io_publish E2 n kvs (rs_io s)\<rparr>))"
  "views I f (pmodify (\<lambda>s. s\<lparr>rs_io := io_effect E1 n kvs c b (rs_io s)\<rparr>)) (pmodify (\<lambda>s. s\<lparr>rs_io := io_effect E2 n kvs c b (rs_io s)\<rparr>))"
  unfolding query_facts_def
  by (auto intro!: views_io_op views_pmodify simp: view_insert view_delete view_query view_publish view_effect)

lemma view_count [view_rules]: "views I f (count_facts M q limit items c) (count_facts M q limit items c)"
  by (induction M q limit items c rule: count_facts.induct) (auto intro!: view_rules split: result.splits option.splits)

lemma view_lift_item [view_rules]: "views I f (lift_item r) (lift_item r)"
  unfolding lift_item_def by (intro view_rules)

lemma view_validate [view_rules]:
  "views I f (validate_fact_literal M q) (validate_fact_literal M q)"
  "views I f (validate_struct_schema M st) (validate_struct_schema M st)"
  unfolding validate_fact_literal_def validate_struct_schema_def by (intro view_rules)+

lemma view_compare [view_rules]: "views I f (compare_ints M g msg a b) (compare_ints M g msg a b)"
  by (cases "(M, g, msg, a, b)" rule: compare_ints.cases) (auto intro!: view_rules)

lemma view_control:
  "views I f exec_pop exec_pop" "views I f (exec_jump M t) (exec_jump M t)" "views I f (exec_call M t) (exec_call M t)"
  "views I f (exec_branch M t) (exec_branch M t)"
  unfolding exec_pop_def exec_branch_def
  by (cases t; auto intro!: view_rules views_pmodify simp: goto_def split: option.splits)+

lemma view_return: "views I f (exec_return M) (exec_return M)"
proof (rule viewsI)
  fix s :: "'a run_state"
  assume "I (rs_io s)"
  moreover have "views I f (fall (scope_op exit_function (fail_at M))) (fall (scope_op exit_function (fail_at M)))"
    by (intro view_rules)
  ultimately show "exec_return M (map_io f s) = apsnd (map_io f) (exec_return M s) \<and> I (rs_io (snd (exec_return M s)))"
    by (simp add: exec_return_def views_def)
qed

lemma view_ext_call: "views I f (exec_ext_call E1 m p) (exec_ext_call E2 m p)"
  unfolding exec_ext_call_def
proof (rule views_fall, rule viewsI)
  fix s :: "'a run_state"
  assume "I (rs_io s)"
  from view_call [OF this, of m p "rs_ctx s" "rs_stack s"]
  show "(case io_call E1 m p (rs_ctx (map_io f s)) (rs_io (map_io f s), rs_stack (map_io f s)) of
      (r, io, st) \<Rightarrow> (r, (map_io f s)\<lparr>rs_io := io, rs_stack := st\<rparr>)) =
    apsnd (map_io f) (case io_call E2 m p (rs_ctx s) (rs_io s, rs_stack s) of (r, io, st) \<Rightarrow> (r, s\<lparr>rs_io := io, rs_stack := st\<rparr>)) \<and>
    I (rs_io (snd (case io_call E2 m p (rs_ctx s) (rs_io s, rs_stack s) of (r, io, st) \<Rightarrow> (r, s\<lparr>rs_io := io, rs_stack := st\<rparr>))))"
    by (auto split: prod.splits)
qed

lemma view_instr: "views I f (exec_instr E1 M i) (exec_instr E2 M i)"
  using view_control view_return view_ext_call
  by (cases i)
    (auto simp: exec_const_def exec_def_def exec_get_def exec_swap_def exec_dup_def exec_block_def exec_end_def
      exec_arith_def exec_logic_def exec_not_def exec_gt_def exec_lt_def exec_eq_def exec_compare_def exec_fact_new_def
      exec_fact_key_set_def exec_fact_value_set_def exec_struct_new_def exec_struct_set_def exec_struct_get_def
      exec_publish_def exec_create_def exec_delete_def exec_update_def exec_emit_def exec_query_def exec_fact_count_def
      exec_query_start_def exec_query_next_def exec_serialize_def exec_deserialize_def view_vec
      intro!: view_rules)

lemma view_step: "views I f (step E1 M) (step E2 M)"
proof (rule viewsI)
  fix s :: "'a run_state"
  assume s: "I (rs_io s)"
  have "views I f advance_pc advance_pc"
    by (auto simp: views_def advance_pc_def split: option.splits)
  then have "views I f (case fl of Leave st \<Rightarrow> preturn st | Fallthrough \<Rightarrow> advance_pc) (case fl of Leave st \<Rightarrow> preturn st | Fallthrough \<Rightarrow> advance_pc)" for fl
    by (cases fl) (auto intro: view_rules)
  then have "views I f (pbind (exec_instr E1 M i) (\<lambda>fl. case fl of Leave st \<Rightarrow> preturn st | Fallthrough \<Rightarrow> advance_pc))
      (pbind (exec_instr E2 M i) (\<lambda>fl. case fl of Leave st \<Rightarrow> preturn st | Fallthrough \<Rightarrow> advance_pc))" for i
    by (intro views_pbind view_instr)
  moreover have "views I f (fail_at M (InvalidAddress ''pc'') :: ('c, machine_status) vm) (fail_at M (InvalidAddress ''pc''))"
    by (rule view_rules)
  ultimately show "step E1 M (map_io f s) = apsnd (map_io f) (step E2 M s) \<and> I (rs_io (snd (step E2 M s)))"
    using s by (simp add: step_def views_def)
qed

text \<open>Calls that may not return: both return, with the same outcome, or neither does.\<close>

lemma run_forward:
  assumes "run E M s = Some y" "E = E2" "I (rs_io s)"
  shows "run E1 M (map_io f s) = Some (apsnd (map_io f) y) \<and> I (rs_io (snd y))"
  using assms
proof (induction E M s y rule: run_induct)
  case (step run' E M s y)
  obtain r u where u: "step E2 M s = (r, u)" by (cases "step E2 M s")
  with viewsD [OF view_step step.prems(2), of M] have "step E1 M (map_io f s) = (r, map_io f u)" "I (rs_io u)" by simp_all
  with u step show ?case
    by (subst run.simps) (auto simp: position_error_def split: result.splits machine_status.splits)
qed

lemma run_backward:
  assumes "run E M t = Some y" "E = E1" "t = map_io f s" "I (rs_io s)"
  shows "\<exists>z. run E2 M s = Some z"
  using assms
proof (induction E M t y arbitrary: s rule: run_induct)
  case (step run' E M t y)
  obtain r u where u: "step E2 M s = (r, u)" by (cases "step E2 M s")
  with viewsD [OF view_step step.prems(3), of M] have "step E1 M (map_io f s) = (r, map_io f u)" "I (rs_io u)" by simp_all
  with u step show ?case
    by (subst run.simps) (auto split: result.splits machine_status.splits)
qed

lemma view_run: "I (rs_io s) \<Longrightarrow> run E1 M (map_io f s) = map_option (apsnd (map_io f)) (run E2 M s)"
proof (cases "run E2 M s")
  case None
  moreover assume "I (rs_io s)"
  ultimately have "run E1 M (map_io f s) = None"
    using run_backward [of E1 M "map_io f s" _ s] by (cases "run E1 M (map_io f s)") auto
  with None show ?thesis by simp
next
  case (Some y)
  moreover assume "I (rs_io s)"
  ultimately show ?thesis using run_forward [of E2 M s y] by simp
qed

lemma run_keeps: "I (rs_io s) \<Longrightarrow> run E2 M s = Some (r, t) \<Longrightarrow> I (rs_io t)"
  using run_forward [of E2 M s "(r, t)"] by simp

lemma view_run_after:
  assumes "views I f m n"
  shows "lviews (\<lambda>s. I (rs_io s)) (map_io f) (run_after E1 M m) (run_after E2 M n)"
proof (rule lviewsI)
  fix s :: "'a run_state"
  assume s: "I (rs_io s)"
  note v = viewsD [OF assms s]
  show "run_after E1 M m (map_io f s) = map_option (apsnd (map_io f)) (run_after E2 M n s)"
    using v view_run by (cases "n s"; cases "fst (n s)") (auto simp: run_after_def)
  show "I (rs_io t)" if "run_after E2 M n s = Some (r, t)" for r t
    using that v run_keeps by (cases "n s"; cases "fst (n s)") (auto simp: run_after_def)
qed

lemma view_set_pc [view_rules]: "views I f (set_pc_by_label M l) (set_pc_by_label M l)"
  unfolding set_pc_by_label_def by (auto intro!: view_rules views_pmodify)

lemma view_setup [view_rules]:
  "views I f (setup_function M l) (setup_function M l)" "views I f (check_fields M def fs) (check_fields M def fs)"
  "views I f (check_args defs args) (check_args defs args)" "views I f (push_all M args) (push_all M args)"
proof -
  show "views I f (setup_function M l) (setup_function M l)"
    unfolding setup_function_def by (auto intro!: view_rules views_pmodify)
  show "views I f (check_fields M def fs) (check_fields M def fs)"
    by (induction fs) (auto simp: split_paired_all intro!: view_rules)
  show "views I f (check_args defs args) (check_args defs args)"
    by (induction defs args rule: check_args.induct) (auto intro!: view_rules)
  show "views I f (push_all M args) (push_all M args)"
    by (induction M args rule: push_all.induct) (auto intro!: view_rules)
qed

lemma view_calls:
  "lviews (\<lambda>s. I (rs_io s)) (map_io f) (call_command_policy E1 M n d e) (call_command_policy E2 M n d e)"
  "lviews (\<lambda>s. I (rs_io s)) (map_io f) (call_command_recall E1 M n d e) (call_command_recall E2 M n d e)"
  "lviews (\<lambda>s. I (rs_io s)) (map_io f) (call_action E1 M n args) (call_action E2 M n args)"
  "lviews (\<lambda>s. I (rs_io s)) (map_io f) (call_seal E1 M n d) (call_seal E2 M n d)"
  "lviews (\<lambda>s. I (rs_io s)) (map_io f) (call_open E1 M n e) (call_open E2 M n e)"
  unfolding call_command_policy_def call_command_recall_def call_action_def call_seal_def call_open_def setup_command_def setup_action_def
  by (intro view_run_after view_rules)+

end

end
