(* ===== verification/Transaction_Spec.thy ===== *)
theory Transaction_Spec
  imports Client_State
begin

text \<open>
  Correctness of transactions: the storage stays well formed and keeps its history whatever
  commands arrive and however they fail, and a commit that succeeds makes everything the
  transaction received part of the history of the new head.
\<close>

section \<open>Steps of the storage\<close>

lemma mem_write_history:
  assumes "mem_wf st" "mp_wf st p" "mem_write p st = (r, st')"
  shows "mem_wf st'" "extends st st'" "history_kept st st'"
proof -
  have "mem_step (st, [p]) (st', [])" using mem_step.store [of p st r st' "[]" "[]"] assms(3) by simp
  then show "history_kept st st'" using mem_step_history [of "(st, [p])" "(st', [])"] assms(1,2) by (simp add: system_wf_def)
  show "mem_wf st'" "extends st st'" using mem_write_wf [OF assms] by simp_all
qed

lemma mem_commit_history:
  assumes "mem_wf st" "seg \<in> set (ms_segments st)" "mem_commit seg st = Some (r, st')"
  shows "mem_wf st'" "ms_segments st' = ms_segments st" "history_kept st st'"
proof -
  have "mem_step (st, []) (st', [])" using mem_step.commit assms(2,3) by blast
  then show "mem_wf st'" using mem_step_wf [of "(st, [])" "(st', [])"] assms(1) by (simp add: system_wf_def)
  show "ms_segments st' = ms_segments st"
    using mem_commit_spec [OF assms(1,2)] assms(3) by (auto split: if_splits)
  show "history_kept st st'" by (rule commit_history [OF assms])
qed

lemma segment_head_address:
  assumes "mem_wf st" "seg \<in> set (ms_segments st)"
  shows "has_address mem_ops st (stored_address (seg_head seg)) (seg_head_location seg)"
proof -
  have "seg_commands seg \<noteq> []" using assms by (auto simp: mem_wf_def segments_ok_def segment_ok_def in_set_conv_nth)
  then have "seg_get_command seg (seg_head_location seg) = Some (seg_head seg)"
    by (simp add: seg_get_command_def seg_head_location_def seg_head_def last_conv_nth)
  then show ?thesis
    using head_location_segment(2) [OF assms] by (simp add: has_address_def command_at_def del: mem_get_segment_Ok)
qed

lemma written_head:
  assumes "mem_wf st" "mp_wf st p" "mem_write p st = (Ok seg, st')"
  shows "seg \<in> set (ms_segments st')" "has_address mem_ops st' (stored_address (seg_head seg)) (seg_head_location seg)"
proof -
  have "writable p" "seg = written st p" using mem_write_spec(1) [OF assms(3)] by (auto split: if_splits)
  then show seg: "seg \<in> set (ms_segments st')" using mem_write_spec(2) [OF assms(3)] by simp
  show "has_address mem_ops st' (stored_address (seg_head seg)) (seg_head_location seg)"
    by (rule segment_head_address [OF mem_write_history(1) [OF assms] seg])
qed

lemma has_address_extends: "extends st st' \<Longrightarrow> has_address mem_ops st a l \<Longrightarrow> has_address mem_ops st' a l"
  using has_address_cut [of mem_ops st a l] extends_graph(1) [of st st' l] by (simp add: has_address_def)

section \<open>The invariant\<close>

text \<open>
  The storage has one root, a pending perspective continues it, and the heads are stored
  at their locations. Against the state \<open>s0\<close> that a run starts in, history is kept.
\<close>

definition one_root :: "mem_storage \<Rightarrow> bool" where
  "one_root st \<longleftrightarrow> (\<forall>seg \<in> set (tl (ms_segments st)). seg_prior seg \<noteq> PNone)"

definition attached :: "mem_storage \<Rightarrow> mem_perspective \<Rightarrow> bool" where
  "attached st p \<longleftrightarrow> mp_wf st p \<and> rooted st p \<and> mp_prior p \<noteq> PNone"

definition tx_ok :: "'eff tx_state \<Rightarrow> bool" where
  "tx_ok s \<longleftrightarrow> mem_wf (ts_storage s) \<and> one_root (ts_storage s) \<and>
     (\<forall>p. tx_perspective (ts_tx s) = Some p \<longrightarrow> attached (ts_storage s) p) \<and>
     (\<forall>(a, l) \<in> set (tx_heads (ts_tx s)). has_address mem_ops (ts_storage s) a l)"

definition tx_inv :: "'eff tx_state \<Rightarrow> 'eff tx_state \<Rightarrow> bool" where
  "tx_inv s0 s \<longleftrightarrow> tx_ok s \<and> history_kept (ts_storage s0) (ts_storage s) \<and>
     tx_storage_id (ts_tx s) = tx_storage_id (ts_tx s0)"

lemma attached_extends: "extends st st' \<Longrightarrow> attached st p \<Longrightarrow> attached st' p"
  using mp_wf_extends rooted_extends by (auto simp: attached_def)

lemma tx_ok_extends:
  assumes "tx_ok s" "extends (ts_storage s) st'" "mem_wf st'" "one_root st'"
  shows "tx_ok (s\<lparr>ts_storage := st'\<rparr>)"
  using assms attached_extends [OF assms(2)] has_address_extends [OF assms(2)]
  by (auto simp: tx_ok_def)

lemma write_one_root:
  assumes "one_root st" "mp_prior p \<noteq> PNone" "mem_write p st = (r, st')"
  shows "one_root st'"
  using assms(1,2) mem_write_spec(2) [OF assms(3)] by (cases "ms_segments st") (auto simp: one_root_def written_def)

lemma bt_insert_set: "x \<in> set (bt_insert k v m) \<Longrightarrow> x = (k, v) \<or> x \<in> set m"
  by (induction m) (auto split: if_splits)

lemma bt_remove_set: "x \<in> set (bt_remove k m) \<Longrightarrow> x \<in> set m"
  by (induction m) (auto split: if_splits)

lemma tx_inv_tell: "lkeeps (tx_inv s0) (tell es)"
  unfolding tell_def by (rule lkeeps_lmodify) (simp add: tx_inv_def tx_ok_def)

lemma tx_inv_set_phead: "lkeeps (tx_inv s0) (set_phead h)"
  unfolding set_phead_def by (rule lkeeps_lmodify) (simp add: tx_inv_def tx_ok_def)

lemma tx_inv_drop_perspective: "lkeeps (tx_inv s0) (set_perspective None)"
  unfolding set_perspective_def by (rule lkeeps_lmodify) (simp add: tx_inv_def tx_ok_def)

lemma tx_inv_remove_head: "lkeeps (tx_inv s0) (set_heads (bt_remove a))"
  unfolding set_heads_def by (rule lkeeps_lmodify) (auto simp: tx_inv_def tx_ok_def dest!: bt_remove_set)

lemma tx_inv_clear_heads: "lkeeps (tx_inv s0) (set_heads (\<lambda>_. []))"
  unfolding set_heads_def by (rule lkeeps_lmodify) (simp add: tx_inv_def tx_ok_def)

lemma tx_inv_read [lkeeps_rules]: "lkeeps (tx_inv s0) (on_storage f)" "lkeeps (tx_inv s0) (search_storage g)"
  by (simp_all add: on_storage_def search_storage_def lkeeps_basic)

lemma tx_inv_note_peer: "lkeeps (tx_inv s0) (note_peer a l)"
  unfolding note_peer_def by (intro lkeeps_rules lkeeps_lmodify) (simp add: tx_inv_def tx_ok_def)

lemmas tx_inv_rules = lkeeps_rules tx_inv_tell tx_inv_set_phead tx_inv_drop_perspective tx_inv_remove_head
  tx_inv_clear_heads tx_inv_note_peer

lemma tx_inv_locate: "lkeeps (tx_inv s0) (locate a)"
  unfolding locate_def by (intro tx_inv_rules)

lemma tx_inv_get_policy: "lkeeps (tx_inv s0) (get_policy eng e l)"
  unfolding get_policy_def by (intro tx_inv_rules)

lemma tx_inv_choose_policy: "lkeeps (tx_inv s0) (choose_policy eng e l r)"
  unfolding choose_policy_def by (intro tx_inv_rules tx_inv_get_policy)

text \<open>Writing a perspective.\<close>

lemma run_write:
  assumes "tx_inv s0 s" "attached (ts_storage s) p"
  shows "lwlp (run_storage (mem_write p)) (\<lambda>r t. tx_inv s0 t \<and> ts_tx t = ts_tx s \<and> extends (ts_storage s) (ts_storage t) \<and>
    (\<forall>seg. r = Ok seg \<longrightarrow> mem_write p (ts_storage s) = (Ok seg, ts_storage t) \<and> seg \<in> set (ms_segments (ts_storage t)) \<and>
       has_address mem_ops (ts_storage t) (stored_address (seg_head seg)) (seg_head_location seg))) s"
proof -
  obtain r st' where w: "mem_write p (ts_storage s) = (r, st')" by (cases "mem_write p (ts_storage s)")
  have wf: "mem_wf (ts_storage s)" using assms(1) by (simp add: tx_inv_def tx_ok_def)
  have p: "mp_wf (ts_storage s) p" and one: "one_root st'"
    using assms write_one_root [OF _ _ w] by (simp_all add: tx_inv_def tx_ok_def attached_def)
  note h = mem_write_history [OF wf p w]
  have "tx_inv s0 (s\<lparr>ts_storage := st'\<rparr>)"
    using assms(1) tx_ok_extends [OF _ h(2,1) one] history_kept_trans [OF _ h(3)] by (simp add: tx_inv_def)
  moreover have "seg \<in> set (ms_segments st') \<and> has_address mem_ops st' (stored_address (seg_head seg)) (seg_head_location seg)"
    if "r = Ok seg" for seg
    using written_head [OF wf p] w that by blast
  ultimately show ?thesis
    using w h(2) by (cases r) (simp_all add: lwlp_def run_storage_def)
qed

lemma write_out_inv:
  assumes "tx_inv s0 s" "attached (ts_storage s) p"
  shows "lwlp (write_out p) (\<lambda>_. tx_inv s0) s"
  unfolding write_out_def
  by (rule lwlp_lbindI [OF run_write [OF assms]])
    (auto simp: set_heads_def lwlp_simps tx_inv_def tx_ok_def dest!: bt_insert_set)

text \<open>Taking the current perspective out of the transaction and writing it.\<close>

lemma write_out_taken:
  assumes "tx_inv s0 s" "tx_perspective (ts_tx s) = Some p"
  shows "lwlp (write_out p) (\<lambda>_. tx_inv s0) (s\<lparr>ts_tx := (ts_tx s)\<lparr>tx_perspective := None, tx_phead := h\<rparr>\<rparr>)"
    "lwlp (write_out p) (\<lambda>_. tx_inv s0) (s\<lparr>ts_tx := (ts_tx s)\<lparr>tx_perspective := None\<rparr>\<rparr>)"
  using assms by (intro write_out_inv; auto simp: tx_inv_def tx_ok_def)+

lemma flush_inv: "lkeeps (tx_inv s0) flush"
  by (intro lkeeps_lwlp)
    (auto simp: flush_def lwlp_simps set_perspective_def set_phead_def intro: write_out_taken split: option.splits)

lemma flush_keep_inv: "lkeeps (tx_inv s0) flush_keep"
  by (intro lkeeps_lwlp)
    (auto simp: flush_keep_def lwlp_simps set_perspective_def intro: write_out_taken split: option.splits)

lemma perform_attached: "attached st p \<Longrightarrow> attached st (perform os p)"
proof -
  have "mp_wf st (perform os p)" if "mp_wf st p"
    using that unfolding perform_def by (induction os arbitrary: p) (simp_all add: perform_op_wf)
  then show "attached st p \<Longrightarrow> attached st (perform os p)" by (simp add: attached_def perform_rooted perform_start)
qed

lemma add_command_attached: "mp_add_command c p = (r, q) \<Longrightarrow> attached st p \<Longrightarrow> attached st q"
  using perform_attached [of st p "[OpAdd c]"] by (simp add: perform_def)

lemma revert_attached:
  assumes "mp_revert n p = (r, q)" "attached st p"
  shows "attached st q"
proof -
  have "chained h (take m ds)" if "chained h ds" for h m ds
    using that chained_append [of h "take m ds" "drop m ds"] by simp
  then have "rooted st q" "mp_prior q = mp_prior p"
    using assms unfolding rooted_def attached_def by (auto simp: mp_revert_def Let_def split: if_splits)
  moreover have "mp_wf st q" using revert_wf [of st p n] assms by (simp add: attached_def)
  ultimately show ?thesis using assms(2) by (simp add: attached_def)
qed

lemma linear_attached:
  assumes "mem_wf st" "mem_get_linear_perspective st l = Ok (Some p)"
  shows "attached st p"
proof -
  have "mp_prior p = PSingle l"
    using assms(2) by (auto simp: mem_get_linear_perspective_def mp_new_def Let_def)
  then show ?thesis
    using linear_perspective_wf [OF assms] linear_perspective_rooted [OF assms(2)] by (simp add: attached_def)
qed

lemma open_at_inv:
  assumes "tx_inv s0 s"
  shows "lwlp (open_at parent) (\<lambda>r t. tx_inv s0 t \<and> (\<forall>p. r = Ok p \<longrightarrow> tx_perspective (ts_tx t) = Some p)) s"
  unfolding open_at_def
proof (rule lwlp_lbindI [OF lwlp_keeps [OF tx_inv_locate assms]], goal_cases)
  case (1 found u)
  have "tx_inv s0 (u\<lparr>ts_tx := (ts_tx u)\<lparr>tx_perspective := Some p, tx_phead := h, tx_heads := bt_remove parent (tx_heads (ts_tx u))\<rparr>\<rparr>)"
    if "mem_get_linear_perspective (ts_storage u) l = Ok (Some p)" for l p h
  proof -
    have "attached (ts_storage u) p" using linear_attached [OF _ that] 1 by (simp add: tx_inv_def tx_ok_def)
    then show ?thesis using 1 by (auto simp: tx_inv_def tx_ok_def dest!: bt_remove_set)
  qed
  with 1 show ?case
    by (auto simp: lwlp_simps on_storage_def set_perspective_def set_phead_def set_heads_def split: result.splits)
qed auto

lemma get_perspective_inv:
  assumes "tx_inv s0 s"
  shows "lwlp (get_perspective parent) (\<lambda>r t. tx_inv s0 t \<and> (\<forall>p. r = Ok p \<longrightarrow> tx_perspective (ts_tx t) = Some p)) s"
proof (cases "tx_phead (ts_tx s) = Some (addr_id parent)")
  case True
  with assms show ?thesis by (simp add: get_perspective_def lwlp_simps split: result.splits)
next
  case False
  have "lwlp (lbind flush (\<lambda>_. open_at parent)) (\<lambda>r t. tx_inv s0 t \<and> (\<forall>p. r = Ok p \<longrightarrow> tx_perspective (ts_tx t) = Some p)) s"
    by (rule lwlp_lbindI [OF lwlp_keeps [OF flush_inv assms]]) (auto intro: open_at_inv)
  with False show ?thesis by (simp add: get_perspective_def lwlp_lbind [of "lgets _"] lwlp_basic)
qed

text \<open>One command with a single parent, on every branch of the outcome.\<close>

lemma add_single_inv:
  fixes eng :: "('e, 'pol, 'eff) engine_ops"
  shows "lkeeps (tx_inv s0) (add_single eng e c parent)"
proof (rule lkeeps_lwlp)
  fix s :: "'eff tx_state" assume "tx_inv s0 s"
  note gp = get_perspective_inv [OF this, of parent]
  show "lwlp (add_single eng e c parent) (\<lambda>_. tx_inv s0) s"
    unfolding add_single_def
  proof (rule lwlp_lbindI [OF gp], goal_cases)
    case (1 p t)
    then have ok: "attached (ts_storage t) p" "tx_inv s0 t" by (auto simp: tx_inv_def tx_ok_def)
    then have up: "attached (ts_storage t) (mp_updates us p)" for us
      by (simp add: mp_updates_def perform_attached)
    show ?case
      using ok(2) up add_command_attached [OF _ up] revert_attached [OF _ up]
      by (auto simp: lwlp_simps tell_def set_perspective_def set_phead_def Let_def tx_inv_def tx_ok_def
          split: result.splits prod.splits)
  qed auto
qed

section \<open>Merging\<close>

text \<open>Evaluating a braid only tells the sink; the facts it returns are well formed.\<close>

definition sink_only :: "'eff tx_state \<Rightarrow> 'eff tx_state \<Rightarrow> bool" where
  "sink_only s t \<longleftrightarrow> ts_storage t = ts_storage s \<and> ts_tx t = ts_tx s \<and> ts_cache t = ts_cache s"

lemma sink_only_inv: "sink_only s t \<Longrightarrow> tx_inv s0 s \<Longrightarrow> tx_inv s0 t"
  by (simp add: sink_only_def tx_inv_def tx_ok_def)

lemmas tx_steps = lwlp_steps lwlp_basic on_storage_def tell_def lwlp_lmodify

lemma on_storage_reads: "lwlp (on_storage f) (\<lambda>r t. t = s \<and> (\<forall>a. r = Ok a \<longrightarrow> f (ts_storage s) = Ok a)) s"
  by (auto simp: on_storage_def lwlp_simps split: result.splits)

lemma eval_braid_frame:
  fixes eng :: "('e, 'pol, 'eff) engine_ops"
  assumes "mfp_wf fp"
  shows "lwlp (eval_braid eng pol ls fp) (\<lambda>r t. sink_only s t \<and> (\<forall>fp'. r = Ok fp' \<longrightarrow> mfp_wf fp')) s"
  using assms
proof (induction ls arbitrary: fp s)
  case Nil
  then show ?case by (simp add: lwlp_simps sink_only_def)
next
  case (Cons l ls)
  let ?Q = "\<lambda>s r t. sink_only s t \<and> (\<forall>fp'. r = Ok fp' \<longrightarrow> mfp_wf fp')"
  have IH: "lwlp (eval_braid eng pol ls (mfp_apply_updates us fp)) (?Q s) (s\<lparr>ts_sink := es\<rparr>)" for us es
    by (rule lwlp_mono [OF Cons.IH [OF mfp_apply_updates_wf [OF Cons.prems]]]) (auto simp: sink_only_def)
  show ?case
    using IH by (auto simp: lwlp_simps on_storage_def tell_def sink_only_def split: result.splits prod.splits)
qed

lemma make_braid_frame:
  fixes eng :: "('e, 'pol, 'eff) engine_ops"
  assumes "mem_wf (ts_storage s)"
  shows "lwlp (make_braid_segment eng pol left right) (\<lambda>r t. sink_only s t \<and> (\<forall>fi lca. r = Ok (fi, lca) \<longrightarrow> mfi_wf fi)) s"
proof -
  have "lwlp (lbind (eval_braid eng pol rest fp) (\<lambda>fp'. lbind (tell [SinkCommit]) (\<lambda>_. lreturn (mem_write_facts fp', (lca :: location \<times> nat)))))
      (\<lambda>r t. sink_only s t \<and> (\<forall>fi lca. r = Ok (fi, lca) \<longrightarrow> mfi_wf fi)) (s\<lparr>ts_sink := es\<rparr>)"
    if "mem_get_fact_perspective (ts_storage s) first = Ok fp" for first fp rest lca es
    by (rule lwlp_lbindI [OF eval_braid_frame [OF fact_perspective_wf [OF assms that]]])
      (auto simp: lwlp_simps tell_def sink_only_def intro: mem_write_facts_wf)
  then show ?thesis
    by (simp add: make_braid_segment_def tx_steps split: result.split list.split) (simp add: sink_only_def)
qed

text \<open>The written merge has both merged commands in its history.\<close>

lemma written_merge_ancestors:
  assumes "mem_wf st'" "mem_write p st = (Ok seg, st')" "mp_prior p = PMerge l r" "seg \<in> set (ms_segments st')"
  shows "ancestor mem_ops st' l (seg_head_location seg)" "ancestor mem_ops st' r (seg_head_location seg)"
proof -
  have "seg = written st p" using mem_write_spec(1) [OF assms(2)] by (auto split: if_splits)
  then have "prior_list (seg_prior seg) = [l, r]" using assms(3) by (simp add: written_def)
  then have "segment_priors mem_ops st' (seg_head_location seg) = [l, r]"
    using head_location_segment(2) [OF assms(1,4)] by (simp add: segment_priors_def del: mem_get_segment_Ok)
  then show "ancestor mem_ops st' l (seg_head_location seg)" "ancestor mem_ops st' r (seg_head_location seg)"
    using mem.ancestor_split [OF assms(1), of l "seg_head_location seg"]
      mem.ancestor_split [OF assms(1), of r "seg_head_location seg"] by (auto intro: ancestor.refl)
qed

lemma merge_perspective_prior:
  "mem_new_merge_perspective st l r policy fi = Ok (Some p) \<Longrightarrow> mp_add_command c p = (a, q) \<Longrightarrow> mp_prior q = PMerge l r"
  by (erule mp_add_command_cases)
    (auto simp: mem_new_merge_perspective_def mp_new_def split: if_splits)

text \<open>Opening the merge perspective, adding the merge command and writing it.\<close>

lemma merge_opened:
  assumes "tx_inv s0 s" "mem_new_merge_perspective (ts_storage s) l r policy fi = Ok (Some p)" "mfi_wf fi"
    "mp_add_command c p = (a, q)"
  shows "attached (ts_storage s) q" "mp_prior q = PMerge l r"
proof -
  have "mp_prior p = PMerge l r" using assms(2) by (auto simp: mem_new_merge_perspective_def mp_new_def split: if_splits)
  then have "attached (ts_storage s) p"
    using merge_perspective_wf [OF assms(2,3)] merge_perspective_rooted [OF assms(2)] by (simp add: attached_def)
  then show "attached (ts_storage s) q" by (rule add_command_attached [OF assms(4)])
  show "mp_prior q = PMerge l r" by (rule merge_perspective_prior [OF assms(2,4)])
qed

text \<open>The outcome of a merge of \<open>l\<close> and \<open>r\<close>: on success, a stored command with both in its history.\<close>

definition merged_into :: "'eff tx_state \<Rightarrow> 'eff tx_state \<Rightarrow> location \<Rightarrow> location \<Rightarrow>
    (address \<times> location, client_error) result \<Rightarrow> 'eff tx_state \<Rightarrow> bool" where
  "merged_into s0 s l r res t \<longleftrightarrow> tx_inv s0 t \<and> ts_tx t = ts_tx s \<and> extends (ts_storage s) (ts_storage t) \<and>
     (\<forall>a h. res = Ok (a, h) \<longrightarrow> has_address mem_ops (ts_storage t) a h \<and>
        ancestor mem_ops (ts_storage t) l h \<and> ancestor mem_ops (ts_storage t) r h)"

lemma merged_into_sym: "merged_into s0 s l r = merged_into s0 s r l"
  by (intro ext) (auto simp: merged_into_def)

lemma merged_into_error:
  "sink_only s t \<Longrightarrow> tx_inv s0 s \<Longrightarrow> merged_into s0 s l r (Err er) t"
  "sink_only s t \<Longrightarrow> tx_inv s0 s \<Longrightarrow> merged_into s0 s l r (Panic m) t"
  using sink_only_inv [of s t] by (auto simp: merged_into_def sink_only_def)

lemma write_merge:
  assumes "tx_inv s0 s" "attached (ts_storage s) q" "mp_prior q = PMerge l r"
  shows "lwlp (lbind (run_storage (mem_write q)) (\<lambda>seg. lreturn (stored_address (seg_head seg), seg_head_location seg)))
    (merged_into s0 s l r) s"
proof (rule lwlp_lbindI [OF run_write [OF assms(1,2)]], goal_cases)
  case (1 seg t)
  then have "mem_wf (ts_storage t)" by (simp add: tx_inv_def tx_ok_def)
  from written_merge_ancestors [OF this _ assms(3)] 1 show ?case by (auto simp: lwlp_simps merged_into_def)
qed (auto simp: merged_into_def)

lemma store_merge_spec:
  assumes "tx_inv s0 s" "mfi_wf facts"
  shows "lwlp (store_merge command policy_id l r facts) (merged_into s0 s l r) s"
  using write_merge [OF assms(1) merge_opened [OF assms(1) _ assms(2)]]
    merged_into_error [of s s s0, OF _ assms(1)]
  by (auto simp: store_merge_def tx_steps sink_only_def split: result.splits prod.splits)

lemma choose_policy_reads: "lwlp (choose_policy eng e l r) (\<lambda>_ t. t = s) s"
  by (auto simp: choose_policy_def get_policy_def lwlp_simps on_storage_def split: result.splits)

lemma merge_heads_spec:
  fixes eng :: "('e, 'pol, 'eff) engine_ops"
  assumes "tx_inv s0 s"
  shows "lwlp (merge_heads eng e left right) (merged_into s0 s (snd left) (snd right)) s"
proof -
  have wf: "mem_wf (ts_storage s)" using assms by (simp add: tx_inv_def tx_ok_def)
  have merge: "lwlp (lbind (make_braid_segment eng pol l r) (\<lambda>(facts, lca). store_merge command policy_id l r facts))
      (merged_into s0 s l r) s" for pol command policy_id l r
  proof (rule lwlp_lbindI [OF make_braid_frame [OF wf]], goal_cases)
    case (1 x t)
    then have "tx_inv s0 t" "ts_tx t = ts_tx s" "ts_storage t = ts_storage s"
      using sink_only_inv assms by (auto simp: sink_only_def)
    then have eq: "merged_into s0 s l r = merged_into s0 t l r" by (intro ext) (simp add: merged_into_def)
    from 1 show ?case by (cases x) (auto simp: eq intro: store_merge_spec [OF \<open>tx_inv s0 t\<close>])
  qed (auto intro: merged_into_error assms)
  show ?thesis
    unfolding merge_heads_def
  proof (rule lwlp_lbindI [OF choose_policy_reads], goal_cases)
    case (1 x t)
    show ?case
      using merge merge [of _ "snd right" "snd left", unfolded merged_into_sym [of s0 s "snd right" "snd left"]]
        merged_into_error [of s s s0, OF _ assms] 1
      by (auto simp: tx_steps sink_only_def split: result.splits prod.splits)
  qed (auto intro: merged_into_error assms simp: sink_only_def)
qed

text \<open>A received merge command.\<close>

lemma open_merge_inv:
  assumes "tx_inv s0 s" "mfi_wf facts"
  shows "lwlp (open_merge c left right l r policy_id facts) (\<lambda>_. tx_inv s0) s"
  using assms merge_opened [OF assms(1) _ assms(2)]
  by (auto simp: open_merge_def tx_steps set_heads_def set_perspective_def set_phead_def tx_inv_def tx_ok_def
      dest!: bt_remove_set split: result.splits prod.splits)

lemma braid_open_inv:
  fixes eng :: "('e, 'pol, 'eff) engine_ops"
  shows "lkeeps (tx_inv s0) (lbind (make_braid_segment eng pol l r) (\<lambda>(facts, lca).
    open_merge c left right l r policy_id facts))"
proof (rule lkeeps_lwlp)
  fix s :: "'eff tx_state" assume s: "tx_inv s0 s"
  then have wf: "mem_wf (ts_storage s)" by (simp add: tx_inv_def tx_ok_def)
  show "lwlp (lbind (make_braid_segment eng pol l r) (\<lambda>(facts, lca). open_merge c left right l r policy_id facts))
      (\<lambda>_. tx_inv s0) s"
    using sink_only_inv s by (intro lwlp_lbindI [OF make_braid_frame [OF wf]]) (auto intro: open_merge_inv)
qed

lemma add_merge_inv: "lkeeps (tx_inv s0) (add_merge eng e c left right)"
  unfolding add_merge_def by (intro tx_inv_rules flush_keep_inv tx_inv_locate tx_inv_choose_policy braid_open_inv)

text \<open>The loop over the received commands.\<close>

lemma received_inv:
  "lkeeps (tx_inv s0) (case cmd_parent c of
      PNone \<Rightarrow> lbind (lgets (\<lambda>s. tx_storage_id (ts_tx s))) (\<lambda>sid.
        if cmd_id c = sid then lreturn n else lfail (ClientBug ''init command does not belong in graph''))
    | PSingle parent \<Rightarrow> lbind (add_single eng e c parent) (\<lambda>_. count_one n)
    | PMerge left right \<Rightarrow> lbind (add_merge eng e c left right) (\<lambda>_. count_one n))"
  unfolding count_one_def
  by (cases "cmd_parent c") (auto intro!: lkeeps_rules add_single_inv add_merge_inv)

lemma add_one_inv: "lkeeps (tx_inv s0) (add_one eng e n c)"
  unfolding add_one_def by (intro tx_inv_rules tx_inv_locate received_inv)

lemma add_each_inv: "lkeeps (tx_inv s0) (add_each eng e n cs)"
  by (induction eng e n cs rule: add_each.induct) (auto intro: lkeeps_rules add_one_inv)

lemma add_remaining_inv: "lkeeps (tx_inv s0) (add_remaining eng e n cs)"
  unfolding add_remaining_def by (intro tx_inv_rules add_each_inv)

section \<open>Commit\<close>

definition committed :: "location set \<Rightarrow> mem_storage \<Rightarrow> bool" where
  "committed ls st \<longleftrightarrow> (\<exists>h. ms_head st = Some h \<and> (\<forall>l \<in> ls. ancestor mem_ops st l h))"

lemma commit_outcome:
  assumes "mem_wf st" "seg \<in> set (ms_segments st)"
  shows "mem_commit seg st = Some (Ok (), st\<lparr>ms_head := Some (seg_head_location seg)\<rparr>) \<or>
    mem_commit seg st = Some (Err HeadNotAncestor, st)"
  unfolding mem_commit_spec [OF assms] by presburger

lemma commit_segment_step:
  assumes "tx_inv s0 s" "seg \<in> set (ms_segments (ts_storage s))"
  obtains r st' where "commit_segment seg s = Some (r, s\<lparr>ts_storage := st'\<rparr>)" "tx_inv s0 (s\<lparr>ts_storage := st'\<rparr>)"
    "extends (ts_storage s) st'"
    "r = Ok () \<and> st' = (ts_storage s)\<lparr>ms_head := Some (seg_head_location seg)\<rparr> \<or> r = Err HeadNotAncestor \<and> st' = ts_storage s"
proof -
  have wf: "mem_wf (ts_storage s)" using assms by (auto simp: tx_inv_def tx_ok_def)
  obtain r st' where c: "mem_commit seg (ts_storage s) = Some (r, st')"
    and r: "r = Ok () \<and> st' = (ts_storage s)\<lparr>ms_head := Some (seg_head_location seg)\<rparr> \<or> r = Err HeadNotAncestor \<and> st' = ts_storage s"
    using commit_outcome [OF wf assms(2)] by auto
  note h = mem_commit_history [OF wf assms(2) c]
  have ext: "extends (ts_storage s) st'" using h(3) by (simp add: history_kept_def)
  have "tx_inv s0 (s\<lparr>ts_storage := st'\<rparr>)"
    using assms(1) tx_ok_extends [OF _ ext h(1)] h(2) history_kept_trans [OF _ h(3)] by (simp add: tx_inv_def tx_ok_def one_root_def)
  with that [of r st'] c r ext show ?thesis by (simp add: commit_segment_def)
qed

lemma commit_segment_spec:
  assumes "tx_inv s0 s" "has_address mem_ops (ts_storage s) a l" "mem_get_segment (ts_storage s) l = Ok seg"
  shows "lwlp (commit_segment seg) (\<lambda>r t. tx_inv s0 t \<and> ts_tx t = ts_tx s \<and> extends (ts_storage s) (ts_storage t) \<and>
    (r = Ok () \<longrightarrow> committed {l} (ts_storage t)) \<and> (\<forall>er. r = Err er \<longrightarrow> t = s)) s"
proof -
  let ?st = "ts_storage s"
  have wf: "mem_wf ?st" and seg: "seg \<in> set (ms_segments ?st)" using assms by (auto simp: tx_inv_def tx_ok_def)
  obtain r st' where step: "commit_segment seg s = Some (r, s\<lparr>ts_storage := st'\<rparr>)" "tx_inv s0 (s\<lparr>ts_storage := st'\<rparr>)"
    "extends ?st st'" "r = Ok () \<and> st' = ?st\<lparr>ms_head := Some (seg_head_location seg)\<rparr> \<or> r = Err HeadNotAncestor \<and> st' = ?st"
    by (rule commit_segment_step [OF assms(1) seg])
  have valid: "is_valid mem_ops ?st l" using has_address_cut [OF assms(2)] by simp
  have "ancestor mem_ops ?st l (seg_head_location seg)"
    using valid assms(3) wf segment_at [of ?st l]
    by (intro mem.same_segment_ancestor) (auto simp: mem_is_valid mem_wf_def seg_head_location_def segment_ok_def)
  then have "ancestor mem_ops st' l (seg_head_location seg)"
    using extends_ancestor [OF step(3) _ head_location_segment(1) [OF wf seg], of l] wf by (simp add: mem_wf_def)
  then have "committed {l} st'" if "r = Ok ()" using that step(4) by (auto simp: committed_def)
  then show ?thesis using step by (auto simp: lwlp_def)
qed

text \<open>
  A run of the loop that ends well has moved the head of the graph to a command with every
  head of the transaction in its history.
\<close>

definition commits :: "'eff tx_state \<Rightarrow> 'eff tx_state \<Rightarrow> (address \<times> location) list \<Rightarrow>
    (unit, client_error) result \<Rightarrow> 'eff tx_state \<Rightarrow> bool" where
  "commits s0 s heads r t \<longleftrightarrow> tx_inv s0 t \<and> ts_tx t = ts_tx s \<and> extends (ts_storage s) (ts_storage t) \<and>
     (r = Ok () \<longrightarrow> heads \<noteq> [] \<longrightarrow> committed (snd ` set heads) (ts_storage t))"

lemma commits_merged:
  assumes "merged_into s0 s (snd left) (snd right) (Ok head) t" "commits s0 t (heads @ [head]) r u"
  shows "commits s0 s (left # right # heads) r u"
proof -
  have t: "tx_inv s0 t" "extends (ts_storage s) (ts_storage t)" "has_address mem_ops (ts_storage t) (fst head) (snd head)"
      "ancestor mem_ops (ts_storage t) (snd left) (snd head)" "ancestor mem_ops (ts_storage t) (snd right) (snd head)"
      "ts_tx t = ts_tx s"
    using assms(1) by (auto simp: merged_into_def) (metis prod.collapse)+
  have u: "tx_inv s0 u" "extends (ts_storage t) (ts_storage u)" using assms(2) by (simp_all add: commits_def)
  have "is_valid mem_ops (ts_storage t) (snd head)" "segments_ok (ms_segments (ts_storage t))"
    using t(1) has_address_cut [OF t(3)] by (simp_all add: tx_inv_def tx_ok_def mem_wf_def)
  with extends_ancestor [OF u(2)] t have
      "ancestor mem_ops (ts_storage u) (snd left) (snd head)" "ancestor mem_ops (ts_storage u) (snd right) (snd head)"
    by simp_all
  then have "committed (snd ` set (left # right # heads)) (ts_storage u)"
    if "committed (snd ` set (heads @ [head])) (ts_storage u)"
    using that ancestor_trans [of mem_ops "ts_storage u"] by (auto simp: committed_def)
  then show ?thesis using assms(2) extends_trans [OF t(2) u(2)] t(6) by (auto simp: commits_def)
qed

lemma commit_loop_spec:
  fixes eng :: "('e, 'pol, 'eff) engine_ops"
  assumes "tx_inv s0 s" "\<forall>(a, l) \<in> set heads. has_address mem_ops (ts_storage s) a l"
  shows "lwlp (commit_loop eng e merging heads) (commits s0 s heads) s"
  using assms
proof (induction eng e merging heads arbitrary: s rule: commit_loop.induct)
  case (1 eng e merging)
  then show ?case by (simp add: lwlp_basic commits_def)
next
  case (2 eng e merging left right heads)
  show ?case
    unfolding commit_loop.simps
  proof (rule lwlp_lbindI [OF merge_heads_spec [OF 2(2)]], goal_cases)
    case (1 head t)
    have t: "tx_inv s0 t" "extends (ts_storage s) (ts_storage t)" using 1 by (simp_all add: merged_into_def)
    moreover have "\<forall>(a, l) \<in> set (heads @ [head]). has_address mem_ops (ts_storage t) a l"
      using 2(3) has_address_extends [OF t(2)] 1 by (auto simp: merged_into_def)
    ultimately show ?case using commits_merged [OF 1] by (intro lwlp_mono [OF 2(1)]) auto
  qed (auto simp: merged_into_def commits_def)
next
  case (3 eng e merging left)
  let ?st = "ts_storage s"
  have wf: "mem_wf ?st" and left: "has_address mem_ops ?st (fst left) (snd left)"
    using 3(2,3) by (auto simp: tx_inv_def tx_ok_def)
  have again: "lwlp (commit_loop eng e True [left, (stored_address (seg_head hseg), seg_head_location hseg)]) (commits s0 s [left]) s"
    if "\<not> merging" "mem_get_head ?st = Ok h" "mem_get_segment ?st h = Ok hseg" for h hseg
  proof -
    have "has_address mem_ops ?st (stored_address (seg_head hseg)) (seg_head_location hseg)"
      using segment_head_address [OF wf] that(3) by auto
    then show ?thesis
      using left that(1) 3(2) by (intro lwlp_mono [OF 3(1)]) (auto simp: commits_def committed_def)
  qed
  have retry: "lwlp (lbind (on_storage mem_get_head) (\<lambda>h. lbind (on_storage (\<lambda>st. mem_get_segment st h)) (\<lambda>hseg.
      commit_loop eng e True [left, (stored_address (seg_head hseg), seg_head_location hseg)]))) (commits s0 s [left]) s"
    if "\<not> merging"
    using again [OF that] 3(2) by (auto simp: tx_steps commits_def split: result.splits simp del: mem_get_segment_Ok)
  have step: "lwlp (lmatch (commit_segment seg) (\<lambda>r. case r of Ok _ \<Rightarrow> lreturn () | Err er \<Rightarrow> f er | Panic m \<Rightarrow> llift (Panic m)))
      (commits s0 s [left]) s"
    if "mem_get_segment ?st (snd left) = Ok seg" "\<And>er. lwlp (f er) (commits s0 s [left]) s" for seg f
    unfolding lwlp_lmatch
    by (rule lwlp_mono [OF commit_segment_spec [OF 3(2) left that(1)]])
      (use that(2) in \<open>auto simp: commits_def lwlp_basic split: result.splits\<close>)
  show ?case
    unfolding commit_loop.simps
  proof (rule lwlp_lbindI [OF on_storage_reads], goal_cases)
    case (1 seg t)
    then have t: "t = s" "mem_get_segment ?st (snd left) = Ok seg" by (auto simp del: mem_get_segment_Ok)
    show ?case
      unfolding t(1) by (rule step [OF t(2)]) (use 3(2) retry in \<open>auto simp: lwlp_basic commits_def\<close>)
  qed (use 3(2) in \<open>auto simp: commits_def\<close>)
qed

text \<open>The addresses a transaction holds: its heads, and the commands that wait in its perspective.\<close>

definition pending_addresses :: "transaction \<Rightarrow> address set" where
  "pending_addresses tx = (case tx_perspective tx of None \<Rightarrow> {}
     | Some p \<Rightarrow> (\<lambda>d. stored_address (cd_command d)) ` set (renumber (mp_max_cut p) (mp_commands p)))"

definition in_history :: "mem_storage \<Rightarrow> address \<Rightarrow> bool" where
  "in_history st a \<longleftrightarrow> (\<exists>h l. ms_head st = Some h \<and> has_address mem_ops st a l \<and> ancestor mem_ops st l h)"

lemma segment_addresses:
  assumes "mem_wf st" "seg \<in> set (ms_segments st)" "d \<in> set (seg_commands seg)"
  shows "\<exists>l. has_address mem_ops st (stored_address (cd_command d)) l \<and> ancestor mem_ops st l (seg_head_location seg)"
proof -
  obtain k where k: "k < length (seg_commands seg)" "d = seg_commands seg ! k" using assms(3) by (auto simp: in_set_conv_nth)
  let ?l = "location_new (seg_index seg) k"
  have "mem_get_segment st (seg_head_location seg) = Ok seg" by (rule head_location_segment(2) [OF assms(1,2)])
  then have "mem_get_segment st ?l = Ok seg" by (auto simp: seg_head_location_def)
  moreover have "seg_get_command seg ?l = Some (cd_command d)" using k by (simp add: seg_get_command_def)
  ultimately have "has_address mem_ops st (stored_address (cd_command d)) ?l"
    by (simp add: has_address_def command_at_def del: mem_get_segment_Ok)
  moreover have "ancestor mem_ops st ?l (seg_head_location seg)"
    using k by (intro mem.same_segment_ancestor [OF assms(1)]) (simp_all add: seg_head_location_def)
  ultimately show ?thesis by blast
qed

text \<open>After the perspective has been written, everything the transaction holds is below its heads.\<close>

definition below_heads :: "'eff tx_state \<Rightarrow> address \<Rightarrow> bool" where
  "below_heads t a \<longleftrightarrow> (\<exists>(b, l) \<in> set (tx_heads (ts_tx t)). \<exists>l'. has_address mem_ops (ts_storage t) a l' \<and>
     ancestor mem_ops (ts_storage t) l' l)"

definition held :: "transaction \<Rightarrow> address set" where
  "held tx = fst ` set (tx_heads tx) \<union> pending_addresses tx"

lemma heads_below: "tx_ok t \<Longrightarrow> a \<in> fst ` set (tx_heads (ts_tx t)) \<Longrightarrow> below_heads t a"
  by (force simp: below_heads_def tx_ok_def intro: ancestor.refl)

lemma bt_insert_mem: "(k, v) \<in> set (bt_insert k v m)"
  by (induction m) (auto split: if_splits)

lemma flush_below:
  assumes "tx_inv s0 s"
  shows "lwlp flush (\<lambda>r t. tx_inv s0 t \<and>
    (r = Ok () \<longrightarrow> tx_perspective (ts_tx t) = None \<and> (\<forall>a \<in> held (ts_tx s). below_heads t a))) s"
proof (cases "tx_perspective (ts_tx s)")
  case None
  with assms heads_below [of s] show ?thesis
    by (auto simp: flush_def tx_steps held_def pending_addresses_def tx_inv_def)
next
  case (Some p)
  let ?u = "s\<lparr>ts_tx := (ts_tx s)\<lparr>tx_perspective := None, tx_phead := None\<rparr>\<rparr>"
  have u: "tx_inv s0 ?u" "attached (ts_storage ?u) p"
    using assms Some by (auto simp: tx_inv_def tx_ok_def)
  have "lwlp (write_out p) (\<lambda>r t. tx_inv s0 t \<and>
    (r = Ok () \<longrightarrow> tx_perspective (ts_tx t) = None \<and> (\<forall>a \<in> held (ts_tx s). below_heads t a))) ?u"
    unfolding write_out_def
  proof (rule lwlp_lbindI [OF run_write [OF u]], goal_cases)
    case (1 seg t)
    let ?t = "t\<lparr>ts_tx := (ts_tx t)\<lparr>tx_heads := bt_insert (stored_address (seg_head seg)) (seg_head_location seg) (tx_heads (ts_tx t))\<rparr>\<rparr>"
    have ok: "tx_inv s0 ?t" using 1 by (auto simp: tx_inv_def tx_ok_def dest!: bt_insert_set)
    have seg: "seg \<in> set (ms_segments (ts_storage t))" "seg = written (ts_storage s) p"
      using 1 mem_write_spec(1) [of p "ts_storage s" "Ok seg" "ts_storage t"] by (auto split: if_splits)
    have "below_heads ?t a" if pending: "a \<in> pending_addresses (ts_tx s)" for a
    proof -
      obtain d where "d \<in> set (seg_commands seg)" "a = stored_address (cd_command d)"
        using pending Some seg(2) by (auto simp: pending_addresses_def written_def)
      then show ?thesis
        using segment_addresses [OF _ seg(1)] 1 bt_insert_mem by (force simp: below_heads_def tx_inv_def tx_ok_def)
    qed
    moreover have "below_heads ?t a" if "a \<in> fst ` set (tx_heads (ts_tx s))" for a
      using that ok 1 by (intro heads_below) (auto simp: tx_inv_def bt_insert_keys)
    ultimately show ?case using ok 1 by (auto simp: set_heads_def lwlp_simps held_def)
  qed auto
  then show ?thesis using Some by (simp add: flush_def tx_steps set_perspective_def set_phead_def)
qed

text \<open>
  C24. A commit that succeeds keeps the committed history, leaves the transaction empty, and
  makes every head of the transaction and every command waiting in its perspective part of
  the history of the new head of the graph.
\<close>

theorem commit_complete:
  assumes "tx_ok s" "tx_commit eng e s = Some (Ok (), t)"
  shows "tx_ok t \<and> history_kept (ts_storage s) (ts_storage t) \<and> tx_heads (ts_tx t) = [] \<and>
    tx_perspective (ts_tx t) = None \<and> (\<forall>a \<in> held (ts_tx s). in_history (ts_storage t) a)"
proof -
  have s: "tx_inv s s" using assms(1) by (simp add: tx_inv_def history_kept_refl)
  obtain u where u: "flush s = Some (Ok (), u)"
    and c: "commit_loop eng e False (tx_heads (ts_tx u)) (u\<lparr>ts_tx := (ts_tx u)\<lparr>tx_heads := []\<rparr>\<rparr>) = Some (Ok (), t)"
    using assms(2) by (auto simp: tx_commit_def lbind_Ok set_heads_def)
  let ?u = "u\<lparr>ts_tx := (ts_tx u)\<lparr>tx_heads := []\<rparr>\<rparr>"
  have f: "tx_inv s u" "tx_perspective (ts_tx u) = None" "\<forall>a \<in> held (ts_tx s). below_heads u a"
    using lwlpD [OF flush_below [OF s] u] by auto
  have "commits s ?u (tx_heads (ts_tx u)) (Ok ()) t"
    by (rule lwlpD [OF commit_loop_spec c]) (use f(1) in \<open>auto simp: tx_inv_def tx_ok_def\<close>)
  then have t: "tx_inv s t" "ts_tx t = ts_tx ?u" "extends (ts_storage u) (ts_storage t)"
      "tx_heads (ts_tx u) \<noteq> [] \<Longrightarrow> committed (snd ` set (tx_heads (ts_tx u))) (ts_storage t)"
    by (auto simp: commits_def)
  have "in_history (ts_storage t) a" if a: "below_heads u a" for a
  proof -
    obtain b l l' where l: "(b, l) \<in> set (tx_heads (ts_tx u))" "has_address mem_ops (ts_storage u) a l'"
        "ancestor mem_ops (ts_storage u) l' l"
      using a by (auto simp: below_heads_def)
    have "is_valid mem_ops (ts_storage u) l" "segments_ok (ms_segments (ts_storage u))"
      using f(1) l(1) has_address_cut [of mem_ops "ts_storage u" b l] by (auto simp: tx_inv_def tx_ok_def mem_wf_def)
    then have "ancestor mem_ops (ts_storage t) l' l" using extends_ancestor [OF t(3)] l(3) by simp
    moreover obtain h where "ms_head (ts_storage t) = Some h" "ancestor mem_ops (ts_storage t) l h"
      using t(4) l(1) by (force simp: committed_def)
    ultimately show ?thesis
      using has_address_extends [OF t(3) l(2)] ancestor_trans [of mem_ops "ts_storage t" l h l'] by (auto simp: in_history_def)
  qed
  with f t show ?thesis by (auto simp: tx_inv_def)
qed

text \<open>
  A policy for examples: a command without bytes fails its check, any other inserts its
  bytes as a fact and emits its id; merges are labelled by the ids they merge.
\<close>

definition demo_engine :: "(unit, unit, command_id) engine_ops" where
  "demo_engine = \<lparr>eo_add_policy = (\<lambda>e data. (Ok 0, e)), eo_get_policy = (\<lambda>e pid. Ok ()), po_serial = (\<lambda>_. 0),
     po_call_rule = (\<lambda>_ c recall q. if cmd_bytes c = [] then (Err EngineCheck, [], [])
       else (Ok (), [(''f'', [], Some (cmd_bytes c))], [cmd_id c])),
     po_merge = (\<lambda>_ (a, b). Ok \<lparr>cmd_priority = PrioMerge, cmd_id = 255 # addr_id a @ addr_id b,
       cmd_parent = PMerge a b, cmd_policy = None, cmd_bytes = []\<rparr>)\<rparr>"

definition demo_received :: "u8 \<Rightarrow> address prior \<Rightarrow> bytes \<Rightarrow> nat \<Rightarrow> stored_command" where
  "demo_received i parent bs m = \<lparr>cmd_priority = PrioBasic 0, cmd_id = [i], cmd_parent = parent, cmd_policy = None,
     cmd_bytes = bs, sc_max_cut = m\<rparr>"

text \<open>A transaction on a graph with one command that has received two branches.\<close>

definition demo_empty_tx :: "command_id tx_state" where
  "demo_empty_tx = \<lparr>ts_storage = demo_graph, ts_tx = transaction_new [1], ts_sink = [], ts_cache = []\<rparr>"

definition demo_tx :: "command_id tx_state" where
  "demo_tx = snd (the (add_remaining demo_engine () 0
     [demo_received 2 (demo_parent 1 0) [7] 1, demo_received 3 (demo_parent 1 0) [8] 1] demo_empty_tx))"

lemma demo_tx_ok: "tx_ok demo_tx"
proof -
  have "mem_wf demo_graph" using demo_graph_wf by (simp add: system_wf_def)
  moreover have "length (ms_segments demo_graph) = 1" by code_simp
  then have "one_root demo_graph" by (cases "ms_segments demo_graph") (auto simp: one_root_def)
  ultimately have empty: "tx_inv demo_empty_tx demo_empty_tx"
    by (simp add: demo_empty_tx_def tx_inv_def tx_ok_def transaction_new_def history_kept_refl)
  have "add_remaining demo_engine () 0
     [demo_received 2 (demo_parent 1 0) [7] 1, demo_received 3 (demo_parent 1 0) [8] 1] demo_empty_tx \<noteq> None" by code_simp
  then obtain r where "add_remaining demo_engine () 0
     [demo_received 2 (demo_parent 1 0) [7] 1, demo_received 3 (demo_parent 1 0) [8] 1] demo_empty_tx = Some (r, demo_tx)"
    by (auto simp: demo_tx_def)
  from lkeepsD [OF add_remaining_inv empty this] show ?thesis by (simp add: tx_inv_def)
qed

theorem commit_complete_witness:
  "\<exists>t. tx_commit demo_engine () demo_tx = Some (Ok (), t) \<and>
     \<lparr>addr_id = [2], addr_max_cut = 1\<rparr> \<in> held (ts_tx demo_tx) \<and> in_history (ts_storage t) \<lparr>addr_id = [2], addr_max_cut = 1\<rparr> \<and>
     \<lparr>addr_id = [3], addr_max_cut = 1\<rparr> \<in> held (ts_tx demo_tx) \<and> in_history (ts_storage t) \<lparr>addr_id = [3], addr_max_cut = 1\<rparr>"
proof -
  have "map_option fst (tx_commit demo_engine () demo_tx) = Some (Ok ())" by code_simp
  then obtain t where t: "tx_commit demo_engine () demo_tx = Some (Ok (), t)" by auto
  have held: "\<lparr>addr_id = [2], addr_max_cut = 1\<rparr> \<in> held (ts_tx demo_tx)" "\<lparr>addr_id = [3], addr_max_cut = 1\<rparr> \<in> held (ts_tx demo_tx)"
    by code_simp+
  with commit_complete [OF demo_tx_ok t] t show ?thesis by blast
qed

end
