(* ===== verification/Transaction_Total.thy ===== *)
theory Transaction_Total
  imports Transaction_Spec
begin

text \<open>
  Termination: none of the loops that receiving and committing commands go through can
  run forever on a storage with one root. The searches through the graph, the braid and
  the search for a common ancestor are the loops concerned.
\<close>

section \<open>Searches\<close>

definition ro_total :: "('a, 'e) result option \<Rightarrow> bool" where
  "ro_total r \<longleftrightarrow> r \<noteq> None"

lemma ro_total_simps [simp]: "ro_total (Some r)" "\<not> ro_total None" "ro_total (map_option f x) = ro_total x"
  by (simp_all add: ro_total_def)

lemma ro_total_bind: "ro_total m \<Longrightarrow> (\<And>a. m = Some (Ok a) \<Longrightarrow> ro_total (f a)) \<Longrightarrow> ro_total (robind m f)"
  by (cases m rule: option.exhaust) (auto simp: robind_def split: result.splits)

text \<open>A storage where every location that holds a command is one of its graph.\<close>

locale checked_storage = graph_storage ops wf "is_valid ops"
  for ops :: "('st, 'seg) storage_ops" and wf
begin

lemma located_valid:
  "so_get_segment ops st l = Ok seg \<Longrightarrow> so_get_command ops seg l = Some c \<Longrightarrow>
   is_valid ops st l \<and> cut_at ops st l = sc_max_cut c"
  by (simp add: is_valid_def command_at_def cut_at_def)

lemma strand_new_total: "ro_total (strand_new ops st l None)"
  unfolding strand_new_def by (intro ro_total_bind) auto

lemma strand_new_valid: "strand_new ops st l None = Some (Ok s) \<Longrightarrow> is_valid ops st l"
  by (cases "so_get_segment ops st l") (auto simp: strand_new_def is_valid_def command_at_def robind_def split: option.splits result.splits)

lemma braid_total:
  assumes "wf st"
  shows "ro_total (braid ops st left right)"
  unfolding braid_def
proof (intro ro_total_bind strand_new_total)
  fix l r assume "strand_new ops st left None = Some (Ok l)" "strand_new ops st right None = Some (Ok r)"
  then have v: "is_valid ops st left" "is_valid ops st right"
      "l = strand_of ops st left" "r = strand_of ops st right"
    using strand_new_valid strand_new_spec [OF assms] by (metis option.inject result.inject(1))+
  show "ro_total (braid_loop ops st [l, r] [])"
    using braid_loop_returns [OF assms, of "[left, right]" "[]"] v by auto
qed simp

lemma last_common_ancestor_total:
  assumes "wf st" "\<And>l. is_valid ops st l \<Longrightarrow> ancestor ops st root l"
  shows "ro_total (last_common_ancestor ops st left right)"
proof (induction "cut_at ops st left + cut_at ops st right" arbitrary: left right rule: less_induct)
  case less
  have low: "cut_at ops st root < cut_at ops st l" if "is_valid ops st l" "l \<noteq> root" for l
    using ancestor_cut_less [OF assms(1) that(1) assms(2) [OF that(1)]] that(2) by simp
  show ?case
  proof (cases "left = right")
    case True
    then show ?thesis by (subst last_common_ancestor.simps) (auto intro!: ro_total_bind)
  next
    case False
    have step: "ro_total (if sc_max_cut lc > sc_max_cut rc
           then robind (Some (lca_parent ops lseg left)) (\<lambda>p. case p of
                  None \<Rightarrow> Some (Ok (left, sc_max_cut lc))
                | Some left' \<Rightarrow> last_common_ancestor ops st left' right)
           else robind (Some (lca_parent ops rseg right)) (\<lambda>p. case p of
                  None \<Rightarrow> Some (Ok (right, sc_max_cut rc))
                | Some right' \<Rightarrow> last_common_ancestor ops st left right'))"
      if l: "so_get_segment ops st left = Ok lseg" "so_get_command ops lseg left = Some lc"
        and r: "so_get_segment ops st right = Ok rseg" "so_get_command ops rseg right = Some rc" for lseg lc rseg rc
    proof -
      note lv = located_valid [OF l] and rv = located_valid [OF r]
      have root: "ancestor ops st root left" "ancestor ops st root right" using lv rv assms(2) by auto
      have left: "left \<noteq> root" if "sc_max_cut lc > sc_max_cut rc" using that low [of right] lv rv by force
      have right: "right \<noteq> root" if "\<not> sc_max_cut lc > sc_max_cut rc" using that low [of left] lv rv False by force
      show ?thesis
        using lca_parent_step [OF assms(1) _ l(1) root(1) left] lca_parent_step [OF assms(1) _ r(1) root(2) right] lv rv
        by (auto intro!: ro_total_bind less.hyps split: option.splits)
    qed
    show ?thesis
      by (subst last_common_ancestor.simps)
        (use False in \<open>auto intro!: ro_total_bind step simp del: robind_simps(2) split del: if_split\<close>)
  qed
qed

end

interpretation mem: checked_storage mem_ops mem_wf
  by unfold_locales

section \<open>Searches of a storage with one root\<close>

lemma root_ancestor:
  assumes "mem_wf st" "one_root st" "is_valid mem_ops st l"
  shows "ancestor mem_ops st (location_new 0 0) l"
  using assms(3)
proof (induction "loc_segment l" arbitrary: l rule: less_induct)
  case less
  have ok: "segments_ok (ms_segments st)" using assms(1) by (simp add: mem_wf_def)
  have l: "loc_segment l < length (ms_segments st)" using less.prems mem_is_valid [OF ok] by simp
  show ?case
  proof (cases "loc_segment l = 0")
    case True
    then show ?thesis by (intro mem.same_segment_ancestor [OF assms(1)]) simp_all
  next
    case False
    let ?seg = "ms_segments st ! loc_segment l"
    have "?seg = tl (ms_segments st) ! (loc_segment l - 1)" "loc_segment l - 1 < length (tl (ms_segments st))"
      using False l by (cases "ms_segments st"; simp)+
    then have "?seg \<in> set (tl (ms_segments st))" by simp
    then have "seg_prior ?seg \<noteq> PNone" using assms(2) by (simp add: one_root_def)
    then obtain q where q: "q \<in> set (prior_list (seg_prior ?seg))" by (cases "seg_prior ?seg") auto
    have pri: "q \<in> set (segment_priors mem_ops st l)" using q l by (simp add: mem_segment_priors)
    have "list_all (prior_ok (take (loc_segment l) (ms_segments st)) (seg_shortest_max_cut ?seg)) (prior_list (seg_prior ?seg))"
      using segment_at [OF ok l] by (simp add: segment_ok_def)
    then have "loc_segment q < loc_segment l" using q by (auto simp: list_all_iff prior_ok_def)
    moreover have "is_valid mem_ops st q"
      using mem.prior_of_segment [OF assms(1) less.prems pri] by simp
    ultimately have "ancestor mem_ops st (location_new 0 0) q" by (rule less.hyps)
    then show ?thesis using mem.ancestor_split [OF assms(1), of "location_new 0 0" l] pri by blast
  qed
qed

lemma mem_is_ancestor_total:
  assumes "mem_wf st" "seg \<in> set (ms_segments st)"
  shows "ro_total (is_ancestor mem_ops st l seg)"
proof (cases "is_valid mem_ops st l")
  case True
  then show ?thesis using mem.is_ancestor_spec [OF assms(1) _ head_location_segment(1) [OF assms]] head_location_segment(2) [OF assms] by simp
next
  case False
  then show ?thesis
    unfolding is_ancestor_def by (intro ro_total_bind) (auto simp: is_valid_def command_at_def simp del: mem_get_segment_Ok)
qed

lemma mem_get_location_from_total:
  assumes "mem_wf st" "is_valid mem_ops st l"
  shows "ro_total (get_location_from mem_ops st l a)"
  using mem.get_location_loop_spec [OF assms(1), of "[l]" a] assms(2) by (auto simp: get_location_from_def)

lemma mem_get_location_total: "mem_wf st \<Longrightarrow> ro_total (get_location mem_ops st a)"
  unfolding get_location_def
  by (intro ro_total_bind mem_get_location_from_total) (auto simp: mem_get_head_def mem_wf_def split: option.splits)

lemma locate_in_heads_total:
  assumes "mem_wf st" "\<forall>h \<in> set hs. is_valid mem_ops st h"
  shows "ro_total (locate_in_heads st a hs)"
  using assms(2) mem_get_location_from_total [OF assms(1)]
  by (induction hs) (auto intro!: ro_total_bind split: option.split)

lemma lreturns_lift: "(\<And>a. r = Ok a \<Longrightarrow> lreturns I (f a)) \<Longrightarrow> lreturns I (lbind (llift r) f)"
  by (cases r) (simp_all add: lreturns_def lbind_def llift_def)

lemma lkeeps_True: "lkeeps (\<lambda>_. True) m"
  by (simp add: lkeeps_def)

lemma retain_head_returns:
  assumes "mem_wf st"
  shows "lreturns (\<lambda>_. True) (retain_head mem_ops st h l)"
proof -
  have anc: "lreturns (\<lambda>_. True) (lread (\<lambda>_. is_ancestor mem_ops st x seg))" if "mem_get_segment st y = Ok seg" for x y seg
    using mem_is_ancestor_total [OF assms, of seg x] that by (intro lreturns_lread) (auto simp: ro_total_def)
  have loc: "lreturns (\<lambda>_. True) (lread (\<lambda>_. get_location mem_ops st h))"
    using mem_get_location_total [OF assms, of h] by (intro lreturns_lread) (auto simp: ro_total_def)
  show ?thesis
    unfolding retain_head_def mem_ops_sel
    by (intro lreturns_lift lreturns_lbind lkeeps_True loc anc lreturns_if lreturns_option lreturns_basic)
qed

lemma retain_heads_returns: "mem_wf st \<Longrightarrow> lreturns (\<lambda>_. True) (retain_heads mem_ops st l hs)"
  unfolding retain_heads.simps
  by (induction hs) (auto intro!: lreturns_rules retain_head_returns lkeeps_True)

lemma peer_add_total: "mem_wf st \<Longrightarrow> ro_total (peer_add_command mem_ops st cache a l)"
  using retain_heads_returns [of st l cache]
  by (auto simp: peer_add_command_def lreturns_def ro_total_def split: option.splits result.splits)

section \<open>Transactions\<close>

lemma lreturns_any: "lreturns (\<lambda>_. True) m \<Longrightarrow> lreturns I m"
  by (simp add: lreturns_def)

lemma storage_returns:
  "lreturns I (on_storage f)" "lreturns I (run_storage g)" "lreturns I (tell es)" "lreturns I (set_perspective p)"
  "lreturns I (set_phead h)" "lreturns I (set_heads k)"
  by (simp_all add: on_storage_def run_storage_def tell_def set_perspective_def set_phead_def set_heads_def
      lreturns_def lprog_defs split: prod.splits)

lemma search_returns: "(\<And>s. I s \<Longrightarrow> ro_total (g (ts_storage s))) \<Longrightarrow> lreturns I (search_storage g)"
  by (auto simp: search_storage_def lreturns_def lread_def ro_total_def)

text \<open>Programs without searches return from every state.\<close>

lemmas plain_rules = lreturns_rules storage_returns lkeeps_True

lemma plain_returns:
  "lreturns (\<lambda>_. True) (write_out p)" "lreturns (\<lambda>_. True) flush" "lreturns (\<lambda>_. True) flush_keep"
  "lreturns (\<lambda>_. True) (get_policy eng e l)" "lreturns (\<lambda>_. True) (choose_policy eng e l r)"
  "lreturns (\<lambda>_. True) (store_merge c policy_id l r facts)" "lreturns (\<lambda>_. True) (open_merge d left right l r policy_id facts)"
proof -
  show w: "lreturns (\<lambda>_. True) (write_out p)" for p :: mem_perspective unfolding write_out_def by (intro plain_rules)
  show "lreturns (\<lambda>_. True) flush" "lreturns (\<lambda>_. True) flush_keep"
    unfolding flush_def flush_keep_def by (intro plain_rules w)+
  show g: "lreturns (\<lambda>_. True) (get_policy eng e l)" for eng e l unfolding get_policy_def by (intro plain_rules)
  show "lreturns (\<lambda>_. True) (choose_policy eng e l r)" unfolding choose_policy_def by (intro plain_rules g)
  show "lreturns (\<lambda>_. True) (store_merge c policy_id l r facts)" unfolding store_merge_def by (intro plain_rules)
  show "lreturns (\<lambda>_. True) (open_merge d left right l r policy_id facts)" unfolding open_merge_def by (intro plain_rules)
qed

lemma eval_braid_returns: "lreturns (\<lambda>_. True) (eval_braid eng pol ls fp)"
proof (induction ls arbitrary: fp)
  case (Cons l ls)
  then show ?case unfolding eval_braid.simps by (intro plain_rules)
qed (simp add: lreturns_rules)

lemma tx_inv_wf: "tx_inv s0 s \<Longrightarrow> mem_wf (ts_storage s) \<and> one_root (ts_storage s)"
  by (simp add: tx_inv_def tx_ok_def)

lemma lreturns_gets: "(\<And>a. lreturns (\<lambda>s. I s \<and> g s = a) (f a)) \<Longrightarrow> lreturns I (lbind (lgets g) f)"
  by (simp add: lreturns_def lbind_def lgets_def)

lemma tx_inv_heads: "tx_inv s0 s \<Longrightarrow> h \<in> set (map snd (tx_heads (ts_tx s))) \<Longrightarrow> is_valid mem_ops (ts_storage s) h"
  using has_address_cut [of mem_ops "ts_storage s"] by (auto simp: tx_inv_def tx_ok_def)

lemma locate_returns: "lreturns (tx_inv s0) (locate a)"
proof -
  have g: "lreturns (tx_inv s0) (search_storage (\<lambda>st. get_location mem_ops st a))"
    by (intro search_returns mem_get_location_total) (drule tx_inv_wf, simp)
  have h: "lreturns (\<lambda>s. tx_inv s0 s \<and> map snd (tx_heads (ts_tx s)) = hs) (search_storage (\<lambda>st. locate_in_heads st a hs))" for hs
    by (intro search_returns locate_in_heads_total) (use tx_inv_wf tx_inv_heads in blast)+
  show ?thesis
    unfolding locate_def by (intro lreturns_lbind [OF g] tx_inv_read lreturns_option lreturns_basic lreturns_gets h)
qed

lemma lreturns_total: "(\<And>s. I s \<Longrightarrow> ro_total (f s)) \<Longrightarrow> lreturns I (lread f)"
  by (rule lreturns_lread) (auto simp: ro_total_def)

text \<open>A search first, then a program that returns from every state.\<close>

lemma lreturns_then: "lreturns I m \<Longrightarrow> lkeeps I m \<Longrightarrow> (\<And>a. lreturns (\<lambda>_. True) (f a)) \<Longrightarrow> lreturns I (lbind m f)"
  by (intro lreturns_lbind) (auto intro: lreturns_any)

lemma make_braid_returns: "lreturns (tx_inv s0) (make_braid_segment eng pol l r)"
proof -
  have b: "lreturns (tx_inv s0) (lread (\<lambda>s. braid mem_ops (ts_storage s) l r))"
    by (rule lreturns_total) (drule tx_inv_wf, simp add: mem.braid_total)
  have a: "lreturns (tx_inv s0) (lread (\<lambda>s. last_common_ancestor mem_ops (ts_storage s) l r))"
    by (rule lreturns_total) (drule tx_inv_wf, blast intro: mem.last_common_ancestor_total root_ancestor)
  have "lreturns (\<lambda>_. True) (case order of [] \<Rightarrow> lfail er
     | first # rest \<Rightarrow>
         lbind (on_storage (\<lambda>st. mem_get_fact_perspective st first)) (\<lambda>fp.
         lbind (tell [SinkBegin]) (\<lambda>_.
         lbind (eval_braid eng pol rest fp) (\<lambda>fp'.
         lbind (tell [SinkCommit]) (\<lambda>_.
         lreturn (mem_write_facts fp', lca))))))" for order lca er
    by (cases order) (simp add: lreturns_rules, simp, intro plain_rules eval_braid_returns)
  then show ?thesis
    unfolding make_braid_segment_def by (intro lreturns_lbind [OF b] lreturns_then [OF a] lkeeps_rules)
qed

lemma note_peer_returns: "lreturns (tx_inv s0) (note_peer a l)"
proof -
  have "lreturns (tx_inv s0) (lread (\<lambda>s. from_storage (peer_add_command mem_ops (ts_storage s) (ts_cache s) a l)))"
    by (rule lreturns_total) (drule tx_inv_wf, simp add: peer_add_total)
  then show ?thesis unfolding note_peer_def by (rule lreturns_then) (intro lkeeps_rules lreturns_rules)+
qed

text \<open>Receiving.\<close>

lemma get_perspective_returns: "lreturns (tx_inv s0) (get_perspective parent)"
proof -
  have "lreturns (tx_inv s0) (open_at parent)"
    unfolding open_at_def by (rule lreturns_then [OF locate_returns tx_inv_locate]) (intro plain_rules)
  then show ?thesis
    unfolding get_perspective_def by (intro plain_rules tx_inv_rules flush_inv lreturns_any [OF plain_returns(2)])
qed

lemma add_single_returns: "lreturns (tx_inv s0) (add_single eng e c parent)"
proof -
  have "lkeeps (tx_inv s0) (get_perspective parent)"
    by (rule lkeeps_lwlp) (auto intro: lwlp_mono [OF get_perspective_inv])
  then show ?thesis
    unfolding add_single_def Let_def by (rule lreturns_then [OF get_perspective_returns]) (intro plain_rules)
qed

lemma make_braid_keeps: "lkeeps (tx_inv s0) (make_braid_segment eng pol l r)"
  using sink_only_inv tx_inv_wf by (intro lkeeps_lwlp lwlp_mono [OF make_braid_frame]) blast+

lemma add_merge_returns: "lreturns (tx_inv s0) (add_merge eng e c left right)"
  unfolding add_merge_def
  by (intro lreturns_lbind [OF lreturns_any [OF plain_returns(3)] flush_keep_inv] lreturns_lbind [OF locate_returns tx_inv_locate]
      lreturns_lift lreturns_lbind [OF lreturns_any [OF plain_returns(5)] tx_inv_choose_policy] lreturns_prod
      lreturns_then [OF make_braid_returns make_braid_keeps] plain_returns)

lemma received_returns:
  "lreturns (tx_inv s0) (case cmd_parent c of
      PNone \<Rightarrow> lbind (lgets (\<lambda>s. tx_storage_id (ts_tx s))) (\<lambda>sid.
        if cmd_id c = sid then lreturn n else lfail (ClientBug ''init command does not belong in graph''))
    | PSingle parent \<Rightarrow> lbind (add_single eng e c parent) (\<lambda>_. count_one n)
    | PMerge left right \<Rightarrow> lbind (add_merge eng e c left right) (\<lambda>_. count_one n))"
  unfolding count_one_def
  by (cases "cmd_parent c")
    (simp_all add: lreturns_lbind [OF add_single_returns add_single_inv] lreturns_lbind [OF add_merge_returns add_merge_inv]
      lreturns_lbind [OF lreturns_basic(4) lkeeps_basic(5)] lreturns_basic)

lemma add_one_returns: "lreturns (tx_inv s0) (add_one eng e n c)"
  unfolding add_one_def
  by (intro lreturns_lbind [OF locate_returns tx_inv_locate] lreturns_lbind [OF received_returns received_inv]
      lreturns_lbind [OF note_peer_returns tx_inv_note_peer] lreturns_rules note_peer_returns tx_inv_rules)

lemma add_each_returns: "lreturns (tx_inv s0) (add_each eng e n cs)"
  by (induction eng e n cs rule: add_each.induct) (auto intro: lreturns_rules add_one_returns add_one_inv)

lemma add_remaining_returns: "lreturns (tx_inv s0) (add_remaining eng e n cs)"
  unfolding add_remaining_def
  by (intro lreturns_lbind [OF add_each_returns add_each_inv] lreturns_lbind [OF note_peer_returns tx_inv_note_peer]
      lreturns_rules storage_returns tx_inv_rules)

text \<open>Committing.\<close>

lemma merge_heads_returns: "lreturns (tx_inv s0) (merge_heads eng e left right)"
proof -
  have "lreturns (tx_inv s0) (lbind (make_braid_segment eng pol l r) (\<lambda>(facts, lca). store_merge c policy_id l r facts))"
    for pol l r c policy_id
    by (rule lreturns_then [OF make_braid_returns make_braid_keeps]) (auto intro: plain_returns)
  then show ?thesis
    unfolding merge_heads_def
    by (intro lreturns_lbind [OF lreturns_any [OF plain_returns(5)] tx_inv_choose_policy] lreturns_prod lreturns_lift)
      (auto simp: Let_def intro!: lreturns_lift)
qed

lemma merge_heads_keeps: "lkeeps (tx_inv s0) (merge_heads eng e left right)"
  by (intro lkeeps_lwlp lwlp_mono [OF merge_heads_spec]) (auto simp: merged_into_def)

lemma commit_segment_then:
  assumes "\<And>r. lreturns (tx_inv s0) (f r)"
  shows "lreturns (tx_inv s0) (lbind (on_storage (\<lambda>st. mem_get_segment st l)) (\<lambda>seg. lmatch (commit_segment seg) f))"
proof (rule lreturnsI)
  fix s assume s: "tx_inv s0 s"
  show "\<exists>r t. lbind (on_storage (\<lambda>st. mem_get_segment st l)) (\<lambda>seg. lmatch (commit_segment seg) f) s = Some (r, t)"
  proof (cases "mem_get_segment (ts_storage s) l")
    case (Ok seg)
    then have "seg \<in> set (ms_segments (ts_storage s))" by auto
    from commit_segment_step [OF s this] obtain r st' where
      c: "commit_segment seg s = Some (r, s\<lparr>ts_storage := st'\<rparr>)" "tx_inv s0 (s\<lparr>ts_storage := st'\<rparr>)" by metis
    then show ?thesis
      using Ok assms [of r] by (auto simp: on_storage_def lbind_def lread_def lmatch_def lreturns_def simp del: mem_get_segment_Ok)
  qed (simp_all add: on_storage_def lbind_def lread_def)
qed

lemma commit_loop_returns: "lreturns (tx_inv s0) (commit_loop eng e merging heads)"
proof (induction eng e merging heads rule: commit_loop.induct)
  case (2 eng e merging left right heads)
  show ?case unfolding commit_loop.simps by (intro lreturns_lbind [OF merge_heads_returns merge_heads_keeps] 2)
next
  case (3 eng e merging left)
  have "lreturns (tx_inv s0) (if er = HeadNotAncestor
      then if merging then lfail (ClientBug ''merging with graph head again, would loop'')
        else lbind (on_storage mem_get_head) (\<lambda>head_loc.
             lbind (on_storage (\<lambda>st. mem_get_segment st head_loc)) (\<lambda>hseg.
             commit_loop eng e True [left, (stored_address (seg_head hseg), seg_head_location hseg)]))
      else lfail (StorageErr er))" for er
    using 3 by (cases "er = HeadNotAncestor"; cases merging)
      (simp_all add: lreturns_basic lreturns_lbind storage_returns tx_inv_read)
  then show ?case unfolding commit_loop.simps by (intro commit_segment_then lreturns_result lreturns_basic)
qed (simp add: lreturns_basic)

end
