(* ===== verification/Client_Spec.thy ===== *)
theory Client_Spec
  imports Transaction_Total
begin

text \<open>
  The client as a whole: whatever sequence of operations is performed on it, with
  whatever policies, commands and failures, every operation returns, every graph of the
  provider stays well formed and none loses committed history.
\<close>

section \<open>Operations on one graph\<close>

lemma tx_inv_sink: "tx_inv s0 (s\<lparr>ts_sink := es\<rparr>) = tx_inv s0 s"
  by (simp add: tx_inv_def tx_ok_def)

lemma lwp_on_storage: "lwp (on_storage f) Q s = Q (map_err StorageErr (f (ts_storage s))) s"
  by (simp add: lwp_def on_storage_def lread_def)

lemma act_write_ok:
  assumes "tx_inv s0 s" "attached (ts_storage s) p"
  shows "lwp (lbind (run_storage (mem_write p)) (\<lambda>seg. lmatch (commit_segment seg) (\<lambda>c.
      lbind (llift (map_err StorageErr c)) (\<lambda>_. tell es)))) (\<lambda>_. tx_inv s0) s"
proof (rule lwp_lbindI [OF lwpI [OF storage_returns(2) _ run_write [OF assms]]], goal_cases)
  case (2 seg t)
  then have t: "tx_inv s0 t" "seg \<in> set (ms_segments (ts_storage t))" by auto
  obtain r st' where step: "commit_segment seg t = Some (r, t\<lparr>ts_storage := st'\<rparr>)" "tx_inv s0 (t\<lparr>ts_storage := st'\<rparr>)"
    by (rule commit_segment_step [OF t])
  then have "lwp (commit_segment seg) (\<lambda>_. tx_inv s0) t" by (simp add: lwp_def)
  then show ?case
    unfolding lwp_lmatch by (rule lwp_mono) (simp add: lwp_lbind lwp_basic tell_def tx_inv_sink split: result.split)
qed auto

lemma act_on_storage_ok:
  assumes "tx_inv s0 s"
  shows "lwp (act_on_storage eng e act) (\<lambda>_. tx_inv s0) s"
proof -
  have p: "attached (ts_storage s) (perform os p)" if "mem_get_linear_perspective (ts_storage s) l = Ok (Some p)" for l p os
    using linear_attached [OF _ that] tx_inv_wf [OF assms] perform_attached by blast
  have stored: "lwp (lbind (run_storage (mem_write (perform os p))) (\<lambda>seg. lmatch (commit_segment seg) (\<lambda>c.
      lbind (llift (map_err StorageErr c)) (\<lambda>_. tell es)))) (\<lambda>_. tx_inv s0) (s\<lparr>ts_sink := es'\<rparr>)"
    if "mem_get_linear_perspective (ts_storage s) l = Ok (Some p)" for l p os es es'
    using p [OF that] assms by (intro act_write_ok) (simp_all add: tx_inv_sink)
  show ?thesis
    using assms stored
    by (auto simp: act_on_storage_def lwp_lbind [of "on_storage _"] lwp_lbind [of "llift _"] lwp_lbind [of "lmodify _"]
        lwp_on_storage lwp_basic tell_def tx_inv_sink split: result.split prod.split)
qed

lemma add_remaining_ok: "tx_inv s0 s \<Longrightarrow> lwp (add_remaining eng e n cs) (\<lambda>_. tx_inv s0) s"
  by (rule lwpI [OF add_remaining_returns]) (auto intro: lwlp_keeps add_remaining_inv)

lemma tx_commit_ok:
  assumes "tx_inv s0 s"
  shows "lwp (tx_commit eng e) (\<lambda>_. tx_inv s0) s"
proof -
  have "lwp (commit_loop eng e False heads) (\<lambda>_. tx_inv s0) t"
    if "tx_inv s0 t" "\<forall>(a, l) \<in> set heads. has_address mem_ops (ts_storage t) a l" for t heads
    by (rule lwpI [OF commit_loop_returns that(1) lwlp_mono [OF commit_loop_spec [OF that]]]) (simp add: commits_def)
  then show ?thesis
    unfolding tx_commit_def
    by (intro lwp_lbindI [OF lwpI [OF plain_returns(2) _ lwlp_keeps [OF flush_inv assms]]])
      (auto simp: lwp_lbind lwp_basic set_heads_def tx_inv_def tx_ok_def)
qed

section \<open>The invariant of the client\<close>

definition graph_ok :: "mem_storage \<Rightarrow> bool" where
  "graph_ok st \<longleftrightarrow> mem_wf st \<and> one_root st"

definition tx_view :: "('e, 'eff) client_state \<Rightarrow> mem_storage \<Rightarrow> 'eff tx_state" where
  "tx_view c st = \<lparr>ts_storage = st, ts_tx = cs_tx c, ts_sink = cs_sink c, ts_cache = cs_cache c\<rparr>"

definition client_ok :: "('e, 'eff) client_state \<Rightarrow> bool" where
  "client_ok c \<longleftrightarrow> (\<forall>g st. bt_get (cs_provider c) g = Some st \<longrightarrow> graph_ok st) \<and>
     (case bt_get (cs_provider c) (tx_storage_id (cs_tx c)) of
        None \<Rightarrow> tx_heads (cs_tx c) = [] \<and> tx_perspective (cs_tx c) = None
      | Some st \<Rightarrow> tx_ok (tx_view c st))"

definition provider_kept :: "mem_storage_provider \<Rightarrow> mem_storage_provider \<Rightarrow> bool" where
  "provider_kept sp sp' \<longleftrightarrow> (\<forall>g st. bt_get sp g = Some st \<longrightarrow> (\<exists>st'. bt_get sp' g = Some st' \<and> history_kept st st'))"

definition client_inv :: "('e, 'eff) client_state \<Rightarrow> ('e, 'eff) client_state \<Rightarrow> bool" where
  "client_inv c0 c \<longleftrightarrow> client_ok c \<and> provider_kept (cs_provider c0) (cs_provider c)"

lemma provider_kept_refl: "provider_kept sp sp"
  by (simp add: provider_kept_def history_kept_refl)

lemma provider_kept_trans: "provider_kept a b \<Longrightarrow> provider_kept b c \<Longrightarrow> provider_kept a c"
  unfolding provider_kept_def by (meson history_kept_trans)

lemma on_graph_ok:
  assumes "\<And>s0 s. tx_inv s0 s \<Longrightarrow> lwp m (\<lambda>_. tx_inv s0) s" "client_inv c0 c"
  shows "lwp (on_graph m) (\<lambda>_. client_inv c0) c"
proof (cases "bt_get (cs_provider c) (tx_storage_id (cs_tx c))")
  case None
  then show ?thesis using assms(2) by (simp add: on_graph_def get_storage_def lwp_def)
next
  case (Some st)
  then have "tx_inv (tx_view c st) (tx_view c st)"
    using assms(2) by (simp add: client_inv_def client_ok_def tx_inv_def history_kept_refl)
  from assms(1) [OF this] obtain r t where run: "m (tx_view c st) = Some (r, t)" "tx_inv (tx_view c st) t"
    by (auto simp: lwp_def)
  let ?c = "c\<lparr>cs_provider := bt_insert (tx_storage_id (cs_tx c)) (ts_storage t) (cs_provider c),
    cs_sink := ts_sink t, cs_tx := ts_tx t, cs_cache := ts_cache t\<rparr>"
  have "on_graph m c = Some (r, ?c)"
    using Some run(1) by (simp add: on_graph_def get_storage_def tx_view_def)
  moreover have "provider_kept (cs_provider c) (cs_provider ?c)"
    using Some run(2) by (auto simp: provider_kept_def tx_inv_def tx_view_def history_kept_refl)
  moreover have "tx_view ?c (ts_storage t) = t" "tx_storage_id (ts_tx t) = tx_storage_id (cs_tx c)"
    using run(2) by (simp_all add: tx_view_def tx_inv_def)
  then have "client_ok ?c"
    using assms(2) run(2) by (auto simp: client_inv_def client_ok_def tx_inv_def tx_ok_def graph_ok_def)
  ultimately show ?thesis
    using assms(2) provider_kept_trans [of "cs_provider c0" "cs_provider c" "cs_provider ?c"] by (simp add: lwp_def client_inv_def)
qed

lemma new_storage_ok:
  assumes "mp_wf mem_storage_new p"
  shows "\<exists>r sp'. new_storage p sp = Some (r, sp') \<and>
    (sp' = sp \<or> (\<exists>g st. bt_get sp g = None \<and> graph_ok st \<and> sp' = bt_insert g st sp))"
proof -
  obtain w st where w: "mem_write p mem_storage_new = (w, st)" by (cases "mem_write p mem_storage_new")
  have new: "mem_wf mem_storage_new" using system_wf_new by (simp add: system_wf_def)
  have st: "mem_wf st" "one_root st"
    using mem_write_history [OF new assms w] mem_write_spec(2) [OF w] by (simp_all add: one_root_def mem_storage_new_def)
  have commit: "\<exists>r st'. mem_commit seg st = Some (r, st') \<and> graph_ok st'" if "w = Ok seg" for seg
  proof -
    have "seg \<in> set (ms_segments st)" using written_head(1) [OF new assms] w that by simp
    note seg = this
    obtain r st' where c: "mem_commit seg st = Some (r, st')" using commit_outcome [OF st(1) seg] by auto
    then show ?thesis using mem_commit_history [OF st(1) seg c] st(2) by (simp add: graph_ok_def one_root_def)
  qed
  show ?thesis
  proof (cases w)
    case (Ok seg)
    then obtain r st' where "mem_commit seg st = Some (r, st')" "graph_ok st'" using commit by blast
    then show ?thesis
      using Ok w by (cases r) (auto simp: new_storage_def Let_def bt_contains_def)
  qed (simp_all add: new_storage_def Let_def w)
qed

lemma client_new_storage_ok:
  assumes "client_inv c0 c" "mp_wf mem_storage_new p"
  shows "lwp (client_new_storage p) (\<lambda>_. client_inv c0) c"
proof -
  obtain r sp' where run: "new_storage p (cs_provider c) = Some (r, sp')"
    and new: "sp' = cs_provider c \<or> (\<exists>g st. bt_get (cs_provider c) g = None \<and> graph_ok st \<and> sp' = bt_insert g st (cs_provider c))"
    using new_storage_ok [OF assms(2), of "cs_provider c"] by blast
  have "provider_kept (cs_provider c) sp'"
    using new provider_kept_refl by (auto simp: provider_kept_def history_kept_refl)
  moreover have "client_ok (c\<lparr>cs_provider := sp'\<rparr>)"
    using assms(1) new by (auto simp: client_inv_def client_ok_def tx_view_def tx_ok_def graph_ok_def split: option.splits if_split_asm)
  ultimately show ?thesis
    using assms(1) run provider_kept_trans [of "cs_provider c0" "cs_provider c" sp']
    by (simp add: lwp_def client_new_storage_def client_inv_def)
qed

section \<open>The operations of the client\<close>

lemma client_inv_fields:
  "client_inv c0 (c\<lparr>cs_sink := es\<rparr>) = client_inv c0 c" "client_inv c0 (c\<lparr>cs_engine := e\<rparr>) = client_inv c0 c"
  by (simp_all add: client_inv_def client_ok_def tx_view_def tx_ok_def split: option.split)

lemma client_steps:
  "lwp (client_tell es) Q c = Q (Ok ()) (c\<lparr>cs_sink := cs_sink c @ es\<rparr>)"
  "lwp (client_add_policy eng data) R c = (case eo_add_policy eng (cs_engine c) data of
     (r, e) \<Rightarrow> R (map_err client_error_of_engine r) (c\<lparr>cs_engine := e\<rparr>))"
  "lwp (client_get_policy eng pid) S c = S (map_err client_error_of_engine (eo_get_policy eng (cs_engine c) pid)) c"
  by (simp_all add: client_tell_def client_add_policy_def client_get_policy_def lwp_def lread_def lmodify_def split: prod.split)

lemma new_perspective_wf: "mp_wf mem_storage_new (perform os (new_perspective pid))"
proof -
  have "mp_wf mem_storage_new (new_perspective pid)"
    by (simp add: mp_wf_def new_perspective_def mp_new_unrooted_def mp_new_def mfp_new_def)
  then show ?thesis unfolding perform_def by (induction os rule: rev_induct) (simp_all add: perform_op_wf)
qed

lemma added_wf:
  assumes "mp_add_command d (mp_updates us (new_perspective pid)) = (r, p)"
  shows "mp_wf mem_storage_new p"
  using new_perspective_wf [of "map update_op us @ [OpAdd d]" pid] assms by (simp add: mp_updates_def perform_def)

lemma lwp_cond: "lwp (if b then m else n) Q s = (if b then lwp m Q s else lwp n Q s)"
  by simp

lemmas client_wp = client_steps lwp_basic lwp_cond Let_def client_inv_fields
  lwp_lbind [of "client_tell _"] lwp_lbind [of "client_add_policy _ _"] lwp_lbind [of "client_get_policy _ _"]
  lwp_lbind [of "llift _"] lwp_lbind [of "lgets _"]

lemma tx_init_ok:
  assumes "client_inv c0 c"
  shows "lwp (tx_init eng cmd) (\<lambda>_. client_inv c0) c"
proof -
  have store: "lwp (lbind (client_new_storage p) (\<lambda>_. client_tell es)) (\<lambda>_. client_inv c0) d"
    if "client_inv c0 d" "mp_wf mem_storage_new p" for d p es
    using client_new_storage_ok [OF that] by (rule lwp_lbindI) (auto simp: client_wp)
  then show ?thesis
    using assms added_wf
    by (auto simp: tx_init_def client_wp split: option.split prod.split result.split)
qed

lemma add_commands_ok:
  assumes "client_inv c0 c"
  shows "lwp (add_commands eng cs) (\<lambda>_. client_inv c0) c"
proof -
  have go: "lwp (on_graph (add_remaining eng e n ds)) (\<lambda>_. client_inv c0) d" if "client_inv c0 d" for d e n ds
    by (rule on_graph_ok [OF add_remaining_ok that])
  have first: "lwp (lbind (tx_init eng d) (\<lambda>_. lbind (lgets cs_engine) (\<lambda>e. on_graph (add_remaining eng e 1 ds)))) (\<lambda>_. client_inv c0) c" for d ds
    by (rule lwp_lbindI [OF tx_init_ok [OF assms]]) (auto simp: client_wp intro: go)
  show ?thesis
    using go [OF assms] first assms
    by (auto simp: lwp_def add_commands_def split: result.splits list.splits)
qed

lemma client_commit_ok: "client_inv c0 c \<Longrightarrow> lwp (client_commit eng) (\<lambda>_. client_inv c0) c"
  unfolding client_commit_def by (simp add: client_wp) (rule on_graph_ok [OF tx_commit_ok])

lemma new_graph_ok:
  assumes "client_inv c0 c"
  shows "lwp (new_graph eng data act) (\<lambda>_. client_inv c0) c"
  using assms
  by (auto simp: new_graph_def client_wp intro!: client_new_storage_ok [OF _ new_perspective_wf] split: prod.split result.split)

lemma with_graph_ok:
  assumes "\<And>s0 s. tx_inv s0 s \<Longrightarrow> lwp m (\<lambda>_. tx_inv s0) s" "client_inv c0 c"
  shows "lwp (with_graph g m) (\<lambda>_. client_inv c0) c"
proof (cases "bt_get (cs_provider c) g")
  case None
  then show ?thesis using assms(2) by (simp add: with_graph_def get_storage_def lwp_def)
next
  case (Some st)
  let ?s = "\<lparr>ts_storage = st, ts_tx = transaction_new g, ts_sink = cs_sink c, ts_cache = []\<rparr>"
  have "graph_ok st" using Some assms(2) by (simp add: client_inv_def client_ok_def)
  then have "tx_inv ?s ?s" by (simp add: tx_inv_def tx_ok_def graph_ok_def transaction_new_def history_kept_refl)
  from assms(1) [OF this] obtain r t where run: "m ?s = Some (r, t)" "tx_inv ?s t" by (auto simp: lwp_def)
  let ?st = "ts_storage t"
  let ?c = "c\<lparr>cs_provider := bt_insert g ?st (cs_provider c), cs_sink := ts_sink t\<rparr>"
  have kept: "history_kept st ?st" "graph_ok ?st" using run(2) by (simp_all add: tx_inv_def tx_ok_def graph_ok_def)
  have "tx_ok (tx_view ?c ?st)" if "tx_ok (tx_view c st)"
    using tx_ok_extends [OF that, of ?st] kept
    by (simp add: tx_view_def tx_ok_def graph_ok_def history_kept_def)
  then have "client_ok ?c"
    using assms(2) Some kept(2)
    by (auto simp: client_inv_def client_ok_def tx_view_def tx_ok_def split: option.splits if_split_asm)
  moreover have "provider_kept (cs_provider c) (cs_provider ?c)"
    using Some kept(1) by (auto simp: provider_kept_def history_kept_refl)
  moreover have "with_graph g m c = Some (r, ?c)"
    using Some run(1) by (simp add: with_graph_def get_storage_def)
  ultimately show ?thesis
    using assms(2) provider_kept_trans [of "cs_provider c0" "cs_provider c" "cs_provider ?c"] by (simp add: lwp_def client_inv_def)
qed

lemma client_action_ok: "client_inv c0 c \<Longrightarrow> lwp (client_action eng g act) (\<lambda>_. client_inv c0) c"
  unfolding client_action_def by (simp add: client_wp) (rule with_graph_ok [OF act_on_storage_ok])

section \<open>Sequences of operations\<close>

text \<open>
  The requests an application makes of a client. A request that fails, or even panics,
  does not end the sequence.
\<close>

datatype ('pol, 'eff) request =
  BeginTransaction command_id
| AddCommands "stored_command list"
| CommitTransaction
| PerformAction command_id "('pol, 'eff) action"
| NewGraph bytes "('pol, 'eff) action"
| AddPolicy bytes

fun serve :: "('e, 'pol, 'eff) engine_ops \<Rightarrow> ('pol, 'eff) request \<Rightarrow> ('e, 'eff, unit) client_prog" where
  "serve eng (BeginTransaction g) = begin_transaction g"
| "serve eng (AddCommands cs) = lbind (add_commands eng cs) (\<lambda>_. lreturn ())"
| "serve eng CommitTransaction = client_commit eng"
| "serve eng (PerformAction g act) = client_action eng g act"
| "serve eng (NewGraph data act) = lbind (new_graph eng data act) (\<lambda>_. lreturn ())"
| "serve eng (AddPolicy data) = lbind (client_add_policy eng data) (\<lambda>_. lreturn ())"

fun serve_all :: "('e, 'pol, 'eff) engine_ops \<Rightarrow> ('pol, 'eff) request list \<Rightarrow> ('e, 'eff) client_state \<Rightarrow>
    ((unit, client_error) result list \<times> ('e, 'eff) client_state) option" where
  "serve_all eng [] c = Some ([], c)"
| "serve_all eng (q # qs) c = (case serve eng q c of
      None \<Rightarrow> None
    | Some (r, c') \<Rightarrow> map_option (\<lambda>(rs, c''). (r # rs, c'')) (serve_all eng qs c'))"

lemma lwp_unit: "lwp m (\<lambda>_. I) c \<Longrightarrow> lwp (lbind m (\<lambda>_. lreturn ())) (\<lambda>_. I) c"
  by (erule lwp_lbindI) (simp_all add: lwp_basic)

lemma serve_ok:
  assumes "client_inv c0 c"
  shows "lwp (serve eng q) (\<lambda>_. client_inv c0) c"
proof (cases q)
  case (BeginTransaction g)
  have "client_inv c0 (c\<lparr>cs_tx := transaction_new g\<rparr>)"
    using assms by (auto simp: client_inv_def client_ok_def transaction_new_def tx_view_def tx_ok_def graph_ok_def split: option.splits)
  then show ?thesis using BeginTransaction by (simp add: begin_transaction_def lwp_basic)
next
  case (AddPolicy data)
  then show ?thesis using assms by (auto intro!: lwp_unit simp: client_wp split: prod.split result.split)
qed (simp_all add: assms lwp_unit add_commands_ok client_commit_ok client_action_ok new_graph_ok)

text \<open>
  C23. Whatever sequence of requests a client is given, with whatever policy engine,
  commands, actions and failures: every request returns, every graph stays well formed
  with one root, the open transaction stays consistent, and no graph loses any part of
  its committed history.
\<close>

theorem client_safe:
  assumes "client_ok c"
  shows "\<exists>rs c'. serve_all eng qs c = Some (rs, c') \<and> client_ok c' \<and> provider_kept (cs_provider c) (cs_provider c')"
  using assms
proof (induction qs arbitrary: c)
  case (Cons q qs)
  have "client_inv c c" using Cons.prems by (simp add: client_inv_def provider_kept_refl)
  from serve_ok [OF this, of eng q] obtain r c1 where one: "serve eng q c = Some (r, c1)" "client_inv c c1"
    by (auto simp: lwp_def)
  obtain rs c' where "serve_all eng qs c1 = Some (rs, c')" "client_ok c'" "provider_kept (cs_provider c1) (cs_provider c')"
    using Cons.IH [of c1] one(2) by (auto simp: client_inv_def)
  then show ?case
    using one provider_kept_trans [of "cs_provider c" "cs_provider c1" "cs_provider c'"] by (simp add: client_inv_def)
qed (simp add: provider_kept_refl)

text \<open>A client without graphs, the action that creates graph \<open>[1]\<close>, and a run in which one command fails its check.\<close>

definition demo_client :: "(unit, command_id) client_state" where
  "demo_client = \<lparr>cs_engine = (), cs_provider = [], cs_sink = [], cs_tx = transaction_new [1], cs_cache = []\<rparr>"

definition demo_init :: "(unit, command_id) action" where
  "demo_init pol p = (Ok (), [OpAdd (demo_command 1 PNone)], [[1]])"

definition demo_requests :: "(unit, command_id) request list" where
  "demo_requests = [NewGraph [] demo_init, AddCommands [demo_received 2 (demo_parent 1 0) [7] 1,
     demo_received 3 (demo_parent 1 0) [8] 1, demo_received 4 (demo_parent 1 0) [] 1], CommitTransaction, CommitTransaction]"

theorem client_safe_witness:
  "client_ok demo_client \<and>
   (\<exists>rs c'. serve_all demo_engine demo_requests demo_client = Some (rs, c') \<and> client_ok c' \<and>
      provider_kept (cs_provider demo_client) (cs_provider c')) \<and>
   map_option fst (serve_all demo_engine demo_requests demo_client) =
     Some [Ok (), Err NotAuthorized, Err (StorageErr EmptyPerspective), Ok ()]"
proof (intro conjI)
  show ok: "client_ok demo_client" by (simp add: client_ok_def demo_client_def transaction_new_def)
  show "\<exists>rs c'. serve_all demo_engine demo_requests demo_client = Some (rs, c') \<and> client_ok c' \<and>
      provider_kept (cs_provider demo_client) (cs_provider c')"
    by (rule client_safe [OF ok])
  show "map_option fst (serve_all demo_engine demo_requests demo_client) =
     Some [Ok (), Err NotAuthorized, Err (StorageErr EmptyPerspective), Ok ()]" by code_simp
qed

section \<open>Failures that leave traces\<close>

text \<open>What can be seen of the graph \<open>[1]\<close> after a run: where an address is found, and the value of a fact at the head.\<close>

definition found_at :: "(unit, command_id) client_state \<Rightarrow> u8 \<Rightarrow> nat \<Rightarrow> (location option, storage_error) result option" where
  "found_at c i m = get_location mem_ops (the (bt_get (cs_provider c) [1])) \<lparr>addr_id = [i], addr_max_cut = m\<rparr>"

definition fact_at_head :: "(unit, command_id) client_state \<Rightarrow> (bytes option, storage_error) result" where
  "fact_at_head c = (let st = the (bt_get (cs_provider c) [1]) in
     rbind (mem_get_head st) (\<lambda>h. rbind (mem_get_fact_perspective st h) (\<lambda>fp. Ok (mfp_query fp ''f'' []))))"

definition observe :: "(unit, command_id) request list \<Rightarrow> ((unit, client_error) result list \<times>
    (location option, storage_error) result option \<times> (location option, storage_error) result option \<times>
    (bytes option, storage_error) result) option" where
  "observe qs = map_option (\<lambda>(rs, c). (rs, found_at c 2 1, found_at c 3 1, fact_at_head c))
     (serve_all demo_engine (NewGraph [] demo_init # qs) demo_client)"




end
