(* ===== verification/Vm_Policy_Spec.thy ===== *)
theory Vm_Policy_Spec
  imports Vm_Policy Vm_View Client_Spec
begin

text \<open>
  The policy that runs the machine meets the interface the client is modelled with: a
  rule sees facts through queries only, and all it does to them is a list of updates.
\<close>

section \<open>Rules on different fact stores\<close>

definition map_vpio :: "('a \<Rightarrow> 'p) \<Rightarrow> vm_effect list \<Rightarrow> ('a, 'g) vm_policy_io \<Rightarrow> ('p, 'g) vm_policy_io" where
  "map_vpio c sk io = \<lparr>vpio_facts = c (vpio_facts io), vpio_sink = sk @ vpio_sink io,
     vpio_publish_stack = vpio_publish_stack io, vpio_engine = vpio_engine io\<rparr>"

definition map_policy_state :: "('a \<Rightarrow> 'p) \<Rightarrow> vm_effect list \<Rightarrow> ('a, 'g) policy_state \<Rightarrow> ('p, 'g) policy_state" where
  "map_policy_state c sk s = \<lparr>pst_facts = c (pst_facts s), pst_sink = sk @ pst_sink s, pst_engine = pst_engine s\<rparr>"

locale policy_view =
  fixes I :: "'a \<Rightarrow> bool" and c :: "'a \<Rightarrow> 'p" and pe1 :: "'p policy_env" and pe2 :: "'a policy_env"
  assumes facts_query: "I x \<Longrightarrow> fo_query_prefix (pe_facts pe1) (c x) n k = fo_query_prefix (pe_facts pe2) x n k"
    and facts_insert: "I x \<Longrightarrow> fo_insert (pe_facts pe1) n k v (c x) = c (fo_insert (pe_facts pe2) n k v x) \<and> I (fo_insert (pe_facts pe2) n k v x)"
    and facts_delete: "I x \<Longrightarrow> fo_delete (pe_facts pe1) n k (c x) = c (fo_delete (pe_facts pe2) n k x) \<and> I (fo_delete (pe_facts pe2) n k x)"
    and codecs: "fo_to_allocvec (pe_facts pe1) = fo_to_allocvec (pe_facts pe2)" "fo_from_bytes (pe_facts pe1) = fo_from_bytes (pe_facts pe2)"
      "pe_struct_to_vec pe1 = pe_struct_to_vec pe2" "pe_struct_of_vec pe1 = pe_struct_of_vec pe2"
      "pe_data_to_vec pe1 = pe_data_to_vec pe2" "pe_data_of_vec pe1 = pe_data_of_vec pe2"
begin

lemma cursors: "cursor_item (pe_facts pe1) = cursor_item (pe_facts pe2)"
  by (intro ext) (simp add: cursor_item_def deser_values_def codecs)

lemma io_ops:
  fixes vp :: "'g vm_policy"
  shows "io_view (\<lambda>io. I (vpio_facts io)) (map_vpio c sk) (policy_vm_env pe1 vp) (policy_vm_env pe2 vp)"
proof
  note env = policy_vm_env_def vpio_env_def map_vpio_def codecs
  fix io :: "('a, 'g) vm_policy_io" and n k v kvs cm b m p ctx st
  assume I: "I (vpio_facts io)"
  show "io_fact_insert (policy_vm_env pe1 vp) n k v (map_vpio c sk io) = apsnd (map_vpio c sk) (io_fact_insert (policy_vm_env pe2 vp) n k v io) \<and>
      I (vpio_facts (snd (io_fact_insert (policy_vm_env pe2 vp) n k v io)))"
    using I facts_insert
    by (cases "ser_values (pe_facts pe2) v")
      (simp_all add: env vpio_fact_insert_def ser_values_def pbind_def plift_def pmodify_def)
  show "io_fact_delete (policy_vm_env pe1 vp) n k (map_vpio c sk io) = apsnd (map_vpio c sk) (io_fact_delete (policy_vm_env pe2 vp) n k io) \<and>
      I (vpio_facts (snd (io_fact_delete (policy_vm_env pe2 vp) n k io)))"
    using I facts_delete by (simp add: env vpio_fact_delete_def pmodify_def)
  show "io_fact_query (policy_vm_env pe1 vp) (map_vpio c sk io) n k = io_fact_query (policy_vm_env pe2 vp) io n k"
    using I facts_query by (simp add: env vpio_fact_query_def cursors)
  show "io_publish (policy_vm_env pe1 vp) n kvs (map_vpio c sk io) = map_vpio c sk (io_publish (policy_vm_env pe2 vp) n kvs io) \<and>
      I (vpio_facts (io_publish (policy_vm_env pe2 vp) n kvs io))"
    using I by (simp add: env vpio_publish_def)
  show "io_effect (policy_vm_env pe1 vp) n kvs cm b (map_vpio c sk io) = map_vpio c sk (io_effect (policy_vm_env pe2 vp) n kvs cm b io) \<and>
      I (vpio_facts (io_effect (policy_vm_env pe2 vp) n kvs cm b io))"
    using I by (simp add: env vpio_effect_def)
  show "io_call (policy_vm_env pe1 vp) m p ctx (map_vpio c sk io, st) = apsnd (apfst (map_vpio c sk)) (io_call (policy_vm_env pe2 vp) m p ctx (io, st)) \<and>
      I (vpio_facts (fst (snd (io_call (policy_vm_env pe2 vp) m p ctx (io, st)))))"
    using I by (simp add: env vpio_call_def split: prod.splits)
qed (simp_all add: policy_vm_env_def vpio_env_def codecs)

end

sublocale policy_view \<subseteq> io: io_view "\<lambda>io. I (vpio_facts io)" "map_vpio c sk" "policy_vm_env pe1 vp" "policy_vm_env pe2 vp" for sk vp
  by (rule io_ops)

context policy_view
begin

abbreviation "pviews sk \<equiv> lviews (\<lambda>s. I (pst_facts s)) (map_policy_state c sk)"
abbreviation "rviews sk \<equiv> lviews (\<lambda>s. I (vpio_facts (rs_io s))) (map_io (map_vpio c sk))"

lemma pviews_run [lview_rules]:
  assumes "rviews sk m n"
  shows "pviews sk (with_run_state M ctx m) (with_run_state M ctx n)"
proof (rule lviewsI)
  fix s :: "('a, 'b) policy_state"
  assume s: "I (pst_facts s)"
  let ?s = "run_state_new M (vpio_new (pst_facts s) (pst_sink s) (pst_engine s)) ctx"
  have init: "run_state_new M (vpio_new (pst_facts (map_policy_state c sk s)) (pst_sink (map_policy_state c sk s))
      (pst_engine (map_policy_state c sk s))) ctx = map_io (map_vpio c sk) ?s"
    by (simp add: map_policy_state_def map_io_def run_state_new_def map_vpio_def vpio_new_def)
  have I: "I (vpio_facts (rs_io ?s))" using s by (simp add: run_state_new_def vpio_new_def)
  show "with_run_state M ctx m (map_policy_state c sk s) = map_option (apsnd (map_policy_state c sk)) (with_run_state M ctx n s)"
    unfolding with_run_state_def init lviewsD(1) [OF assms I]
    by (auto simp: map_policy_state_def map_io_def map_vpio_def split: option.splits)
  show "I (pst_facts t)" if "with_run_state M ctx n s = Some (r, t)" for r t
    using that lviewsD(2) [OF assms I] by (auto simp: with_run_state_def split: option.splits)
qed

lemma pviews_null [lview_rules]:
  assumes "pviews [] m n"
  shows "pviews sk (with_null_sink m) (with_null_sink n)"
proof (rule lviewsI)
  fix s :: "('a, 'b) policy_state"
  assume s: "I (pst_facts s)"
  then have I: "I (pst_facts (s\<lparr>pst_sink := []\<rparr>))" by simp
  have init: "(map_policy_state c sk s)\<lparr>pst_sink := []\<rparr> = map_policy_state c [] (s\<lparr>pst_sink := []\<rparr>)"
    by (simp add: map_policy_state_def)
  show "with_null_sink m (map_policy_state c sk s) = map_option (apsnd (map_policy_state c sk)) (with_null_sink n s)"
    unfolding with_null_sink_def init lviewsD(1) [OF assms I]
    by (auto simp: map_policy_state_def split: option.splits)
  show "I (pst_facts t)" if "with_null_sink n s = Some (r, t)" for r t
    using that lviewsD(2) [OF assms I] by (auto simp: with_null_sink_def split: option.splits)
qed

lemma rviews_context [lview_rules]: "rviews sk (lmodify (set_context ctx)) (lmodify (set_context ctx))"
  by (rule lviews_lmodify) (simp add: set_context_def)

lemma rviews_returned [lview_rules]: "rviews sk (returned_struct M) (returned_struct M)"
proof -
  have "fst (ipop_value M (map_io f s)) = fst (ipop_value M s)" for f :: "('a, 'b) vm_policy_io \<Rightarrow> ('p, 'b) vm_policy_io" and s
    using viewsD(1) [OF views_stack(2), of "\<lambda>_. True" s M f] by simp
  then show ?thesis unfolding returned_struct_def by (intro lviews_lread) (simp add: consume_return_def)
qed

lemma rviews_exit [lview_rules]:
  assumes "rviews sk m1 n1" "rviews sk m2 n2" "rviews sk m3 n3"
  shows "rviews sk (case x of ExitNormal \<Rightarrow> m1 | ExitCheck \<Rightarrow> m2 | ExitPanic \<Rightarrow> m3) (case x of ExitNormal \<Rightarrow> n1 | ExitCheck \<Rightarrow> n2 | ExitPanic \<Rightarrow> n3)"
  using assms by (cases x) auto

lemma rviews_recall [lview_rules]:
  "rviews sk (recall_internal (policy_vm_env pe1 vp) M recall name sd envelope) (recall_internal (policy_vm_env pe2 vp) M recall name sd envelope)"
  unfolding recall_internal_def
  by (cases recall) (auto intro!: lview_rules io.view_calls)

lemma pviews_open [lview_rules]: "pviews sk (open_command pe1 vp name envelope) (open_command pe2 vp name envelope)"
  unfolding open_command_def Let_def by (intro lview_rules io.view_calls)

lemma pviews_evaluate [lview_rules]:
  "pviews sk (evaluate_rule pe1 vp name kvs envelope ctx recall) (evaluate_rule pe2 vp name kvs envelope ctx recall)"
  unfolding evaluate_rule_def Let_def
  by (cases ctx) (auto intro!: lview_rules io.view_calls)

lemma pviews_seal [lview_rules]: "pviews sk (seal_command pe1 vp name kvs parent) (seal_command pe2 vp name kvs parent)"
  unfolding seal_command_def Let_def by (intro lview_rules io.view_calls)

lemma pviews_run_action: "pviews sk (run_action pe1 vp action head_id) (run_action pe2 vp action head_id)"
  unfolding run_action_def Let_def
  by (intro lview_rules io.view_calls lviews_lgets) (simp add: map_vpio_def into_publish_stack_def)

lemma pviews_rule: "pviews sk (vm_call_rule pe1 vp command recall) (vm_call_rule pe2 vp command recall)"
  unfolding vm_call_rule_def open_and_evaluate_def codecs
  by (auto intro!: lview_rules split: option.splits vm_protocol_data.splits)

end

locale action_view = policy_view I c pe1 pe2
  for I :: "'a \<Rightarrow> bool" and c :: "'a \<Rightarrow> 'p" and pe1 pe2 +
  fixes pv1 :: "'p perspective_env" and pv2 :: "'a perspective_env"
  assumes head_view: "I x \<Longrightarrow> pv_head_address pv1 (c x) = pv_head_address pv2 x"
    and add_view: "I x \<Longrightarrow> pv_add_command pv1 command (c x) = apsnd c (pv_add_command pv2 command x) \<and> I (snd (pv_add_command pv2 command x))"
begin

lemma pviews_add [lview_rules]: "pviews sk (add_to_facts pv1 command) (add_to_facts pv2 command)"
proof (rule lviewsI)
  fix s :: "('a, 'b) policy_state"
  assume s: "I (pst_facts s)"
  show "add_to_facts pv1 command (map_policy_state c sk s) = map_option (apsnd (map_policy_state c sk)) (add_to_facts pv2 command s)"
    using add_view [OF s, of command] by (simp add: add_to_facts_def map_policy_state_def split: prod.splits)
  show "I (pst_facts t)" if "add_to_facts pv2 command s = Some (r, t)" for r t
    using that add_view [OF s, of command] by (auto simp: add_to_facts_def split: prod.splits)
qed

lemma pviews_publish: "pviews sk (publish_all pe1 pv1 vp parent cs) (publish_all pe2 pv2 vp parent cs)"
proof (induction cs)
  case (Cons x cs)
  then show ?case by (cases x) (auto simp: Let_def codecs intro!: lview_rules pviews_rule)
qed (simp add: lview_rules)

lemma pviews_action: "pviews sk (vm_call_action pe1 pv1 vp action) (vm_call_action pe2 pv2 vp action)"
  unfolding vm_call_action_def
  by (intro lview_rules lviews_lread pviews_publish pviews_run_action)
    (auto simp: map_policy_state_def head_view intro!: lview_rules split: prior.splits)

end

section \<open>Stores and logs\<close>

text \<open>What \<open>postcard\<close> and the hash function do, and an environment from operations on facts.\<close>

record policy_codecs =
  pc_values_to_vec :: "fact_value list \<Rightarrow> bytes option"
  pc_values_of_vec :: "bytes \<Rightarrow> fact_value list option"
  pc_struct_to_vec :: "struct \<Rightarrow> bytes option"
  pc_struct_of_vec :: "bytes \<Rightarrow> struct option"
  pc_data_to_vec :: "vm_protocol_data \<Rightarrow> bytes option"
  pc_data_of_vec :: "bytes \<Rightarrow> vm_protocol_data option"
  pc_hash :: "bytes \<Rightarrow> command_id"

definition policy_env_of :: "policy_codecs \<Rightarrow> ('p \<Rightarrow> string \<Rightarrow> keys \<Rightarrow> stored_fact list) \<Rightarrow>
    (string \<Rightarrow> keys \<Rightarrow> bytes \<Rightarrow> 'p \<Rightarrow> 'p) \<Rightarrow> (string \<Rightarrow> keys \<Rightarrow> 'p \<Rightarrow> 'p) \<Rightarrow> 'p policy_env" where
  "policy_env_of pc prefix ins del =
     \<lparr>pe_facts = \<lparr>fo_query_prefix = (\<lambda>p n k. Ok (map Ok (prefix p n k))), fo_insert = ins, fo_delete = del,
        fo_to_allocvec = pc_values_to_vec pc, fo_from_bytes = pc_values_of_vec pc\<rparr>,
      pe_struct_to_vec = pc_struct_to_vec pc, pe_struct_of_vec = pc_struct_of_vec pc,
      pe_data_to_vec = pc_data_to_vec pc, pe_data_of_vec = pc_data_of_vec pc, pe_hash = pc_hash pc\<rparr>"

definition mem_policy_env :: "policy_codecs \<Rightarrow> mem_perspective policy_env" where
  "mem_policy_env pc = policy_env_of pc mp_query_prefix mp_insert mp_delete"

definition fact_policy_env :: "policy_codecs \<Rightarrow> mem_fact_perspective policy_env" where
  "fact_policy_env pc = policy_env_of pc mfp_query_prefix mfp_insert mfp_delete"

definition mem_perspective_env :: "mem_perspective perspective_env" where
  "mem_perspective_env = \<lparr>pv_head_address = mp_head_address, pv_add_command = mp_add_command\<rparr>"

text \<open>A store with the updates made so far, which are only written down.\<close>

definition log_env :: "policy_codecs \<Rightarrow> ('p \<Rightarrow> string \<Rightarrow> keys \<Rightarrow> stored_fact list) \<Rightarrow> (fact_update list \<Rightarrow> 'p \<Rightarrow> 'p) \<Rightarrow>
    ('p \<times> fact_update list) policy_env" where
  "log_env pc prefix app = policy_env_of pc (\<lambda>(p, us). prefix (app us p))
     (\<lambda>n k v (p, us). (p, us @ [(n, k, Some v)])) (\<lambda>n k (p, us). (p, us @ [(n, k, None)]))"

definition op_env :: "policy_codecs \<Rightarrow> (mem_perspective \<times> perspective_op list) policy_env" where
  "op_env pc = policy_env_of pc (\<lambda>(p, os). mp_query_prefix (perform os p))
     (\<lambda>n k v (p, os). (p, os @ [OpInsert n k v])) (\<lambda>n k (p, os). (p, os @ [OpDelete n k]))"

definition op_perspective_env :: "(mem_perspective \<times> perspective_op list) perspective_env" where
  "op_perspective_env = \<lparr>pv_head_address = (\<lambda>(p, os). mp_head_address (perform os p)),
     pv_add_command = (\<lambda>command (p, os). (fst (mp_add_command command (perform os p)), p, os @ [OpAdd command]))\<rparr>"

text \<open>The interface of the client, with the policy in the state its locks protect.\<close>

definition vm_rule :: "policy_codecs \<Rightarrow> 'g vm_policy \<times> 'g \<Rightarrow> command \<Rightarrow> command_recall \<Rightarrow> fact_state \<Rightarrow>
    (unit, engine_error) result \<times> fact_update list \<times> vm_effect list" where
  "vm_rule pc pol command recall q =
     (case vm_call_rule (log_env pc state_prefix apply_all) (fst pol) command recall
        \<lparr>pst_facts = (q, []), pst_sink = [], pst_engine = snd pol\<rparr> of
        None \<Rightarrow> (Panic ''the rule does not return'', [], [])
      | Some (r, s) \<Rightarrow> (r, snd (pst_facts s), pst_sink s))"

definition vm_engine :: "policy_codecs \<Rightarrow> ('e \<Rightarrow> bytes \<Rightarrow> (policy_id, engine_error) result \<times> 'e) \<Rightarrow>
    ('e \<Rightarrow> policy_id \<Rightarrow> ('g vm_policy \<times> 'g, engine_error) result) \<Rightarrow> ('e, 'g vm_policy \<times> 'g, vm_effect) engine_ops" where
  "vm_engine pc add_pol get_pol =
     \<lparr>eo_add_policy = add_pol, eo_get_policy = get_pol, po_serial = vm_serial \<circ> fst, po_call_rule = vm_rule pc,
      po_merge = (\<lambda>pol ids. rmap vm_protocol_command (vm_merge (mem_policy_env pc) (fst pol) max_command_length ids))\<rparr>"

definition vm_action_of :: "policy_codecs \<Rightarrow> vm_action \<Rightarrow> ('g vm_policy \<times> 'g, vm_effect) action" where
  "vm_action_of pc act = (\<lambda>pol p.
     case vm_call_action (op_env pc) op_perspective_env (fst pol) act \<lparr>pst_facts = (p, []), pst_sink = [], pst_engine = snd pol\<rparr> of
        None \<Rightarrow> (Panic ''the action does not return'', [], [])
      | Some (r, s) \<Rightarrow> (r, snd (pst_facts s), pst_sink s))"

subsection \<open>Views\<close>

lemma mp_updates_snoc: "mp_updates (us @ [u]) p = perform_op (update_op u) (mp_updates us p)"
  by (simp add: mp_updates_def perform_def)

lemma mfp_apply_snoc:
  "mfp_apply_updates [] fp = fp"
  "mfp_apply_updates (us @ [(n, k, Some v)]) fp = mfp_insert n k v (mfp_apply_updates us fp)"
  "mfp_apply_updates (us @ [(n, k, None)]) fp = mfp_delete n k (mfp_apply_updates us fp)"
  by (cases fp; simp)+

lemma update_op_facts: "mp_facts (perform_op (update_op u) p) = mfp_apply_updates [u] (mp_facts p)"
  by (cases u rule: update_op.cases; cases "mp_facts p") (auto simp: mp_insert_def mp_delete_def)

lemma mp_updates_facts: "mp_facts (mp_updates us p) = mfp_apply_updates us (mp_facts p)"
proof (induction us rule: rev_induct)
  case (snoc u us)
  then show ?case by (cases "mp_facts p") (simp add: mp_updates_snoc update_op_facts)
qed (simp add: mp_updates_def perform_def mfp_apply_snoc)

interpretation mem_log: policy_view "\<lambda>(p, us). p = q" "\<lambda>(p, us). mp_updates us p" "mem_policy_env pc" "log_env pc mp_query_prefix mp_updates" for pc q
  by unfold_locales (auto simp: mem_policy_env_def log_env_def policy_env_of_def mp_updates_snoc)

interpretation fact_log: policy_view "\<lambda>(fp, us). fp = q" "\<lambda>(fp, us). mfp_apply_updates us fp" "fact_policy_env pc" "log_env pc mfp_query_prefix mfp_apply_updates" for pc q
  by unfold_locales (auto simp: fact_policy_env_def log_env_def policy_env_of_def mfp_apply_snoc)

interpretation mem_state: policy_view "\<lambda>(p, us). mfp_wf (mp_facts p)" "\<lambda>(p, us). (mp_query p, us)" "log_env pc state_prefix apply_all" "log_env pc mp_query_prefix mp_updates" for pc
  by unfold_locales (auto simp: log_env_def policy_env_of_def mp_query_prefix_def mp_query_def mp_updates_facts mfp.prefix_state mfp_apply_updates_wf mfp_apply_updates_query)

interpretation mfp_state: policy_view "\<lambda>(fp, us). mfp_wf fp" "\<lambda>(fp, us). (mfp_query fp, us)" "log_env pc state_prefix apply_all" "log_env pc mfp_query_prefix mfp_apply_updates" for pc
  by unfold_locales (auto simp: log_env_def policy_env_of_def mfp.prefix_state mfp_apply_updates_wf mfp_apply_updates_query)

interpretation mem_ops_log: action_view "\<lambda>(p, os). p = q" "\<lambda>(p, os). perform os p" "mem_policy_env pc" "op_env pc" mem_perspective_env op_perspective_env for pc q
  by unfold_locales (auto simp: mem_policy_env_def op_env_def policy_env_of_def perform_def mem_perspective_env_def op_perspective_env_def)

section \<open>Rules return\<close>

text \<open>Foreign functions respect the capacity of the stack.\<close>

definition ffis_ok :: "'g vm_policy \<Rightarrow> bool" where
  "ffis_ok vp \<longleftrightarrow> (\<forall>m \<in> set (vp_ffis vp). \<forall>p ctx g st. length (snd (snd (m p ctx (g, st)))) \<le> max (length st) STACK_SIZE)"

lemma ffis_ok_env: "ffis_ok vp \<Longrightarrow> ffi_stack_ok (policy_vm_env pe vp)"
  unfolding ffis_ok_def ffi_stack_ok_def policy_vm_env_def vpio_env_def vpio_call_def
  by (auto split: prod.splits dest!: nth_mem) (metis sndI)

lemma run_after_returns:
  assumes "ffi_stack_ok E" "ranked rk M" "keeps run_state_wf m"
  shows "lkeeps run_state_wf (run_after E M m)" "lreturns run_state_wf (run_after E M m)"
  using run_after_total [OF assms(1,2) _ assms(3)] by (fastforce simp: lkeeps_def lreturns_def)+

lemma calls_total:
  assumes "ffi_stack_ok E" "ranked rk M"
  shows "lkeeps run_state_wf (call_command_policy E M n d e)" "lreturns run_state_wf (call_command_policy E M n d e)"
    "lreturns run_state_wf (call_command_recall E M n d e)" "lkeeps run_state_wf (call_command_recall E M n d e)"
    "lkeeps run_state_wf (call_action E M n args)" "lreturns run_state_wf (call_action E M n args)"
    "lkeeps run_state_wf (call_seal E M n d)" "lreturns run_state_wf (call_seal E M n d)"
    "lkeeps run_state_wf (call_open E M n e)" "lreturns run_state_wf (call_open E M n e)"
  unfolding call_command_policy_def call_command_recall_def call_action_def call_seal_def call_open_def
  by (intro run_after_returns [OF assms] keeps_rules)+

lemma lreturns_exit [lreturns_rules]:
  assumes "lreturns I m1" "lreturns I m2" "lreturns I m3"
  shows "lreturns I (case x of ExitNormal \<Rightarrow> m1 | ExitCheck \<Rightarrow> m2 | ExitPanic \<Rightarrow> m3)"
  using assms by (cases x) auto

lemma lkeeps_any: "lkeeps (\<lambda>_. True) m"
  by (simp add: lkeeps_def)

lemma with_run_state_returns: "lreturns run_state_wf m \<Longrightarrow> lreturns (\<lambda>_. True) (with_run_state M ctx m)"
  unfolding lreturns_def with_run_state_def
  by (metis (no_types, lifting) run_state_new_wf case_prod_conv option.simps(5))

lemma with_null_sink_returns: "lreturns (\<lambda>_. True) m \<Longrightarrow> lreturns (\<lambda>_. True) (with_null_sink m)"
  unfolding lreturns_def with_null_sink_def
  by (metis (no_types, lifting) case_prod_conv option.simps(5))

lemma returned_struct_returns [lreturns_rules]: "lreturns I (returned_struct M)"
  unfolding returned_struct_def by (rule lreturns_lread) simp

lemma set_context_keeps: "lkeeps run_state_wf (lmodify (set_context ctx))"
  by (rule lkeeps_lmodify) (simp add: set_context_def run_state_wf_def)

lemma open_command_returns:
  assumes "ffis_ok vp" "ranked rk (vp_machine vp)"
  shows "lreturns (\<lambda>_. True) (open_command pe vp n e)"
  unfolding open_command_def Let_def
  by (intro with_null_sink_returns with_run_state_returns lreturns_rules calls_total [OF ffis_ok_env [OF assms(1)] assms(2)])

lemma evaluate_rule_returns:
  assumes "ffis_ok vp" "ranked rk (vp_machine vp)"
  shows "lreturns (\<lambda>_. True) (evaluate_rule pe vp n kvs e ctx recall)"
proof -
  note total = calls_total [OF ffis_ok_env [OF assms(1)] assms(2)]
  have "lreturns run_state_wf (recall_internal (policy_vm_env pe vp) (vp_machine vp) recall n d e)" for d
    unfolding recall_internal_def by (cases recall) (auto intro!: lreturns_rules total)
  then show ?thesis
    unfolding evaluate_rule_def Let_def
    by (cases ctx) (auto intro!: with_run_state_returns lreturns_rules total set_context_keeps)
qed

lemma vm_call_rule_returns:
  assumes "ffis_ok vp" "ranked rk (vp_machine vp)"
  shows "lreturns (\<lambda>_. True) (vm_call_rule pe vp command recall)"
  unfolding vm_call_rule_def open_and_evaluate_def
  by (auto intro!: lreturns_rules lkeeps_any open_command_returns [OF assms] evaluate_rule_returns [OF assms]
      split: option.splits vm_protocol_data.splits)

lemma add_to_facts_returns [lreturns_rules]: "lreturns I (add_to_facts pv command)"
  by (simp add: lreturns_def add_to_facts_def split: prod.splits)

lemma publish_all_returns:
  assumes "ffis_ok vp" "ranked rk (vp_machine vp)"
  shows "lreturns (\<lambda>_. True) (publish_all pe pv vp parent cs)"
proof (induction cs)
  case (Cons x cs)
  have "lreturns (\<lambda>_. True) (seal_command pe vp n kvs h)" for n kvs h
    unfolding seal_command_def Let_def
    by (intro with_null_sink_returns with_run_state_returns lreturns_rules calls_total [OF ffis_ok_env [OF assms(1)] assms(2)]) (simp_all add: returned_struct_def lkeeps_rules)
  with Cons show ?case
    by (cases x) (auto simp: Let_def intro!: lreturns_rules lkeeps_any vm_call_rule_returns [OF assms])
qed (simp add: lreturns_rules)

lemma vm_call_action_returns:
  assumes "ffis_ok vp" "ranked rk (vp_machine vp)"
  shows "lreturns (\<lambda>_. True) (vm_call_action pe pv vp action)"
  unfolding vm_call_action_def run_action_def Let_def
  by (intro lreturns_rules lkeeps_any lreturns_lread with_run_state_returns publish_all_returns [OF assms]
      calls_total [OF ffis_ok_env [OF assms(1)] assms(2)]) (auto intro!: lreturns_rules split: prior.splits)

section \<open>Properties\<close>

text \<open>Rules and seal blocks leave the commands of a perspective alone.\<close>

lemma mp_updates_commands: "mp_commands (mp_updates us p) = mp_commands p \<and> mp_parents (mp_updates us p) = mp_parents p"
proof (induction us rule: rev_induct)
  case (snoc u us)
  then show ?case by (cases u rule: update_op.cases) (auto simp: mp_updates_snoc mp_insert_def mp_delete_def)
qed (simp add: mp_updates_def perform_def)

lemma view_keeps_head:
  assumes "lviews (\<lambda>s. (\<lambda>(p, us). p = pst_facts s0) (pst_facts s)) (map_policy_state (\<lambda>(p, us). mp_updates us p) (pst_sink s0)) m n"
    "m s0 = Some (r, t)"
  shows "mp_commands (pst_facts t) = mp_commands (pst_facts s0) \<and> mp_head_address (pst_facts t) = mp_head_address (pst_facts s0)"
proof -
  let ?s = "\<lparr>pst_facts = (pst_facts s0, []), pst_sink = [], pst_engine = pst_engine s0\<rparr>"
  have init: "map_policy_state (\<lambda>(p, us). mp_updates us p) (pst_sink s0) ?s = s0"
    by (simp add: map_policy_state_def mp_updates_def perform_def)
  obtain v where v: "n ?s = Some (r, v)" "t = map_policy_state (\<lambda>(p, us). mp_updates us p) (pst_sink s0) v"
    using lviewsD(1) [OF assms(1), of ?s] assms(2) unfolding init by (cases "n ?s") auto
  obtain us where "pst_facts v = (pst_facts s0, us)" using lviewsD(2) [OF assms(1) _ v(1)] by auto
  then show ?thesis using v(2) mp_updates_commands by (simp add: map_policy_state_def mp_head_address_def)
qed

lemma add_to_facts_Ok:
  assumes "add_to_facts mem_perspective_env command s = Some (Ok (), t)"
  shows "mp_head_address (pst_facts s) = Ok (cmd_parent command)" "length (mp_commands (pst_facts t)) = Suc (length (mp_commands (pst_facts s)))"
    "mp_head_address (pst_facts t) \<noteq> Ok (cmd_parent command)"
proof -
  obtain k p where add: "mp_add_command command (pst_facts s) = (Ok k, p)" "t = s\<lparr>pst_facts := p\<rparr>"
    using assms by (auto simp: add_to_facts_def mem_perspective_env_def split: prod.splits result.splits)
  from add(1) obtain m where ok: "mp_head_address (pst_facts s) = Ok (cmd_parent command)" "next_max_cut (cmd_parent command) = Ok m"
      "mp_commands p = mp_commands (pst_facts s) @ [\<lparr>cd_command = mem_command_from command m, cd_updates = mp_current_updates (pst_facts s)\<rparr>]"
    by (cases rule: mp_add_command_cases) auto
  then have "mp_head_address p = Ok (PSingle \<lparr>addr_id = cmd_id command, addr_max_cut = m\<rparr>)"
    by (simp add: mp_head_address_def mem_command_from_def stored_address_def)
  moreover have "cmd_parent command \<noteq> PSingle \<lparr>addr_id = cmd_id command, addr_max_cut = m\<rparr>"
    using ok(2) by (auto simp: next_max_cut_def after_parents_def usize_checked_add_def ok_or_eq_Ok eq_commute [of "Ok _" "ok_or _ _"] split: if_splits)
  ultimately show "mp_head_address (pst_facts s) = Ok (cmd_parent command)" "length (mp_commands (pst_facts t)) = Suc (length (mp_commands (pst_facts s)))"
    "mp_head_address (pst_facts t) \<noteq> Ok (cmd_parent command)"
    using ok by (simp_all add: add(2))
qed

lemma publish_head:
  assumes "publish_all (mem_policy_env pc) mem_perspective_env vp parent ((n, kvs) # cs) s = Some (Ok (), t)"
  defines "h \<equiv> (case parent of None \<Rightarrow> PNone | Some a \<Rightarrow> PSingle a)"
  shows "mp_head_address (pst_facts s) = Ok h"
    "\<exists>u. publish_all (mem_policy_env pc) mem_perspective_env vp parent cs u = Some (Ok (), t) \<and> mp_head_address (pst_facts u) \<noteq> Ok h \<and>
      length (mp_commands (pst_facts u)) = Suc (length (mp_commands (pst_facts s)))"
proof -
  obtain e s1 s2 u bs where run: "seal_command (mem_policy_env pc) vp n kvs (case parent of Some a \<Rightarrow> addr_id a | None \<Rightarrow> default_id) s = Some (Ok e, s1)"
      "vm_call_rule (mem_policy_env pc) vp (vm_protocol_command (vm_protocol_new bs (env_command_id e) (published_data parent n e) (vp_priority_map vp))) RecallNone s1 = Some (Ok (), s2)"
      "add_to_facts mem_perspective_env (vm_protocol_command (vm_protocol_new bs (env_command_id e) (published_data parent n e) (vp_priority_map vp))) s2 = Some (Ok (), u)"
      "publish_all (mem_policy_env pc) mem_perspective_env vp parent cs u = Some (Ok (), t)"
    using assms(1) by (auto simp: lbind_Ok Let_def)
  have "cmd_parent (vm_protocol_command (vm_protocol_new bs (env_command_id e) (published_data parent n e) (vp_priority_map vp))) = h"
    by (simp add: vm_protocol_command_def vm_protocol_new_def published_data_def h_def split: option.splits)
  with add_to_facts_Ok [OF run(3)] view_keeps_head [OF mem_log.pviews_seal run(1)] view_keeps_head [OF mem_log.pviews_rule run(2)] run(4)
  show "mp_head_address (pst_facts s) = Ok h"
    "\<exists>u. publish_all (mem_policy_env pc) mem_perspective_env vp parent cs u = Some (Ok (), t) \<and> mp_head_address (pst_facts u) \<noteq> Ok h \<and>
      length (mp_commands (pst_facts u)) = Suc (length (mp_commands (pst_facts s)))"
    by auto
qed

lemma publish_once:
  assumes "publish_all (mem_policy_env pc) mem_perspective_env vp parent cs s = Some (Ok (), t)"
  shows "length cs \<le> 1" "length (mp_commands (pst_facts t)) = length (mp_commands (pst_facts s)) + length cs"
proof -
  consider "cs = []" | n kvs where "cs = [(n, kvs)]" | n kvs m ls ds where "cs = (n, kvs) # (m, ls) # ds"
    by (cases cs; cases "tl cs") auto
  then have "length cs \<le> 1 \<and> length (mp_commands (pst_facts t)) = length (mp_commands (pst_facts s)) + length cs"
  proof cases
    case 1
    then show ?thesis using assms by (simp add: lreturn_def)
  next
    case 2
    then show ?thesis using publish_head(2) [OF assms [unfolded 2]] by (auto simp: lreturn_def)
  next
    case 3
    then show ?thesis using publish_head(2) [OF assms [unfolded 3]] publish_head(1) by blast
  qed
  then show "length cs \<le> 1" "length (mp_commands (pst_facts t)) = length (mp_commands (pst_facts s)) + length cs" by simp_all
qed

text \<open>Two views of one run: as it is on a store, and as the interface describes it.\<close>

lemma rule_views:
  assumes "lviews (\<lambda>s. (\<lambda>(p, us). p = q) (pst_facts s)) (map_policy_state (\<lambda>(p, us). app us p) sk) m n"
    "lviews (\<lambda>s. (\<lambda>(p, us). ok p) (pst_facts s)) (map_policy_state (\<lambda>(p, us). (query p, us)) []) m' n"
    "ok q" "app [] q = q" "lreturns (\<lambda>_. True) n"
  shows "\<exists>r us effs g'. m \<lparr>pst_facts = q, pst_sink = sk, pst_engine = g\<rparr> = Some (r, \<lparr>pst_facts = app us q, pst_sink = sk @ effs, pst_engine = g'\<rparr>) \<and>
    m' \<lparr>pst_facts = (query q, []), pst_sink = [], pst_engine = g\<rparr> = Some (r, \<lparr>pst_facts = (query q, us), pst_sink = effs, pst_engine = g'\<rparr>)"
proof -
  let ?s = "\<lparr>pst_facts = (q, []), pst_sink = [], pst_engine = g\<rparr>"
  obtain r t where n: "n ?s = Some (r, t)" using assms(5) unfolding lreturns_def by blast
  obtain us where us: "pst_facts t = (q, us)" using lviewsD(2) [OF assms(1) _ n] by auto
  show ?thesis
    using lviewsD(1) [OF assms(1), of ?s] lviewsD(1) [OF assms(2), of ?s] n us assms(3,4)
    by (simp add: map_policy_state_def)
qed

text \<open>
  C31. The policy that runs the machine meets the interface the client works with. On the
  facts of an in-memory perspective, a rule does what the interface says: its outcome
  and effects depend on the facts only through queries, and what it does to them is a
  list of insertions and deletions. So do rules on the facts of a braid, and actions,
  which also add commands. With code that has no cycle, they all return.
\<close>

theorem vm_policy_refines:
  assumes "mfp_wf (mp_facts p)" "mfp_wf fp" "ffis_ok vp" "ranked rk (vp_machine vp)"
  shows "(\<exists>r us effs g'. po_call_rule (vm_engine pc add get) (vp, g) command recall (mp_query p) = (r, us, effs) \<and>
      vm_call_rule (mem_policy_env pc) vp command recall \<lparr>pst_facts = p, pst_sink = sk, pst_engine = g\<rparr> =
        Some (r, \<lparr>pst_facts = mp_updates us p, pst_sink = sk @ effs, pst_engine = g'\<rparr>)) \<and>
    (\<exists>r us effs g'. po_call_rule (vm_engine pc add get) (vp, g) command recall (mfp_query fp) = (r, us, effs) \<and>
      vm_call_rule (fact_policy_env pc) vp command recall \<lparr>pst_facts = fp, pst_sink = sk, pst_engine = g\<rparr> =
        Some (r, \<lparr>pst_facts = mfp_apply_updates us fp, pst_sink = sk @ effs, pst_engine = g'\<rparr>)) \<and>
    (\<exists>r os effs g'. vm_action_of pc act (vp, g) p = (r, os, effs) \<and>
      vm_call_action (mem_policy_env pc) mem_perspective_env vp act \<lparr>pst_facts = p, pst_sink = sk, pst_engine = g\<rparr> =
        Some (r, \<lparr>pst_facts = perform os p, pst_sink = sk @ effs, pst_engine = g'\<rparr>))"
proof (intro conjI)
  note total = vm_call_rule_returns [OF assms(3,4)]
  have "mp_updates [] p = p" by (simp add: mp_updates_def perform_def)
  from rule_views [OF mem_log.pviews_rule mem_state.pviews_rule assms(1) this total]
  obtain r us effs g' where
    "vm_call_rule (mem_policy_env pc) vp command recall \<lparr>pst_facts = p, pst_sink = sk, pst_engine = g\<rparr> =
      Some (r, \<lparr>pst_facts = mp_updates us p, pst_sink = sk @ effs, pst_engine = g'\<rparr>)"
    "vm_call_rule (log_env pc state_prefix apply_all) vp command recall \<lparr>pst_facts = (mp_query p, []), pst_sink = [], pst_engine = g\<rparr> =
      Some (r, \<lparr>pst_facts = (mp_query p, us), pst_sink = effs, pst_engine = g'\<rparr>)" by blast
  then show "\<exists>r us effs g'. po_call_rule (vm_engine pc add get) (vp, g) command recall (mp_query p) = (r, us, effs) \<and>
      vm_call_rule (mem_policy_env pc) vp command recall \<lparr>pst_facts = p, pst_sink = sk, pst_engine = g\<rparr> =
        Some (r, \<lparr>pst_facts = mp_updates us p, pst_sink = sk @ effs, pst_engine = g'\<rparr>)"
    by (simp add: vm_engine_def vm_rule_def)
  from rule_views [OF fact_log.pviews_rule mfp_state.pviews_rule assms(2) mfp_apply_snoc(1) total]
  obtain r us effs g' where
    "vm_call_rule (fact_policy_env pc) vp command recall \<lparr>pst_facts = fp, pst_sink = sk, pst_engine = g\<rparr> =
      Some (r, \<lparr>pst_facts = mfp_apply_updates us fp, pst_sink = sk @ effs, pst_engine = g'\<rparr>)"
    "vm_call_rule (log_env pc state_prefix apply_all) vp command recall \<lparr>pst_facts = (mfp_query fp, []), pst_sink = [], pst_engine = g\<rparr> =
      Some (r, \<lparr>pst_facts = (mfp_query fp, us), pst_sink = effs, pst_engine = g'\<rparr>)" by blast
  then show "\<exists>r us effs g'. po_call_rule (vm_engine pc add get) (vp, g) command recall (mfp_query fp) = (r, us, effs) \<and>
      vm_call_rule (fact_policy_env pc) vp command recall \<lparr>pst_facts = fp, pst_sink = sk, pst_engine = g\<rparr> =
        Some (r, \<lparr>pst_facts = mfp_apply_updates us fp, pst_sink = sk @ effs, pst_engine = g'\<rparr>)"
    by (simp add: vm_engine_def vm_rule_def)
  let ?s = "\<lparr>pst_facts = (p, []), pst_sink = [], pst_engine = g\<rparr>"
  obtain r t where n: "vm_call_action (op_env pc) op_perspective_env vp act ?s = Some (r, t)"
    using vm_call_action_returns [OF assms(3,4)] unfolding lreturns_def by blast
  obtain os where os: "pst_facts t = (p, os)" using lviewsD(2) [OF mem_ops_log.pviews_action _ n] by auto
  show "\<exists>r os effs g'. vm_action_of pc act (vp, g) p = (r, os, effs) \<and>
      vm_call_action (mem_policy_env pc) mem_perspective_env vp act \<lparr>pst_facts = p, pst_sink = sk, pst_engine = g\<rparr> =
        Some (r, \<lparr>pst_facts = perform os p, pst_sink = sk @ effs, pst_engine = g'\<rparr>)"
    using lviewsD(1) [OF mem_ops_log.pviews_action [where q = p and sk = sk and pc = pc and vp = vp and action = act], of ?s] n os
    by (simp add: map_policy_state_def vm_action_of_def perform_def)
qed

text \<open>A policy with one command, whose rule creates a fact.\<close>

definition demo_policy_machine :: machine where
  "demo_policy_machine = (machine_new [IConst (VStruct (Struct ''C'' [])), IReturn, IFactNew ''F'', ICreate, IReturn,
       IStructNew ''C'', IPublish, IStructNew ''C'', IPublish, IReturn, IStructNew ''C'', IPublish, IReturn,
       IConst (VStruct (envelope_struct \<lparr>env_parent_id = [], env_author_id = [], env_command_id = [1], env_payload = [], env_signature = []\<rparr>)), IReturn])
     \<lparr>mc_labels := [(label_new ''C'' LCommandPolicy, 2), (label_new ''C'' LCommandOpen, 0), (label_new ''C'' LCommandSeal, 13),
        (label_new ''two'' LAction, 5), (label_new ''one'' LAction, 10)],
      mc_action_defs := [(''one'', []), (''two'', [])], mc_command_defs := [(''C'', [])], mc_struct_defs := [(''C'', [])]\<rparr>"

definition demo_vm_policy :: "unit vm_policy" where
  "demo_vm_policy = \<lparr>vp_machine = demo_policy_machine, vp_ffis = [], vp_priority_map = []\<rparr>"

definition demo_codecs :: policy_codecs where
  "demo_codecs = \<lparr>pc_values_to_vec = (\<lambda>vs. if vs = [] then Some [7] else None), pc_values_of_vec = (\<lambda>bs. if bs = [7] then Some [] else None),
     pc_struct_to_vec = (\<lambda>_. None), pc_struct_of_vec = (\<lambda>_. None),
     pc_data_to_vec = (\<lambda>_. Some []), pc_data_of_vec = (\<lambda>bs. Some (VpdInit [] [] ''C'' bs [])), pc_hash = id\<rparr>"

lemma demo_policy_returns: "ffis_ok demo_vm_policy" "ranked (\<lambda>i. 20 - i) (vp_machine demo_vm_policy)"
  by (simp add: ffis_ok_def demo_vm_policy_def, code_simp)

theorem vm_policy_refines_witness:
  "\<exists>us effs. po_call_rule (vm_engine demo_codecs (\<lambda>e _. (Err EngineRead, e :: unit)) (\<lambda>_ _. Err EngineRead)) (demo_vm_policy, ())
      (demo_command 1 PNone) RecallNone (mp_query (new_perspective 0)) = (Ok (), us, effs) \<and>
    mp_query (mp_updates us (new_perspective 0)) ''F'' [] = Some [7]"
proof -
  let ?run = "vm_call_rule (mem_policy_env demo_codecs) demo_vm_policy (demo_command 1 PNone) RecallNone \<lparr>pst_facts = new_perspective 0, pst_sink = [], pst_engine = ()\<rparr>"
  have "mfp_wf (mp_facts (new_perspective 0))" "mfp_wf (mfp_new FPNone)" by (simp_all add: new_perspective_def mp_new_unrooted_def mp_new_def mfp_new_def named_wf_def bt_wf_def)
  from vm_policy_refines [OF this demo_policy_returns, of demo_codecs "\<lambda>e _. (Err EngineRead, e :: unit)" "\<lambda>_ _. Err EngineRead" "()" "demo_command 1 PNone" RecallNone "[]",
      THEN conjunct1]
  obtain r us effs where "po_call_rule (vm_engine demo_codecs (\<lambda>e _. (Err EngineRead, e :: unit)) (\<lambda>_ _. Err EngineRead)) (demo_vm_policy, ())
      (demo_command 1 PNone) RecallNone (mp_query (new_perspective 0)) = (r, us, effs)"
    "?run = Some (r, \<lparr>pst_facts = mp_updates us (new_perspective 0), pst_sink = effs, pst_engine = ()\<rparr>)" by auto
  moreover have "map_option (\<lambda>(r, s). (r, mp_query (pst_facts s) ''F'' [])) ?run = Some (Ok (), Some [7])" by code_simp
  ultimately show ?thesis by auto
qed



end
