(* ===== verification/Sync.thy ===== *)
theory Sync
  imports Client_State "HOL-Library.Product_Lexorder"
begin

text \<open>
  The sync protocol (\<open>aranya-runtime/src/sync\<close>): a requester samples what it has, a
  responder works out which segments the requester misses and sends their commands, and
  the requester turns the messages back into commands. The storage is the in-memory one.
  The serialisation of messages (the crate postcard) is a parameter. Counters of type
  \<open>u64\<close> and \<open>usize\<close> are naturals with checked operations.
\<close>

section \<open>Messages\<close>

definition command_sample_max :: nat where
  "command_sample_max = 100"

definition command_response_max :: nat where
  "command_response_max = 100"

definition segment_buffer_max :: nat where
  "segment_buffer_max = 100"

definition max_sync_message_size :: nat where
  "max_sync_message_size = 1024 + max_command_length * command_response_max"

record command_meta =
  cm_id :: command_id
  cm_priority :: priority
  cm_parent :: "address prior"
  cm_policy_length :: u32
  cm_length :: u32
  cm_max_cut :: nat

definition meta_address :: "command_meta \<Rightarrow> address" where
  "meta_address m = \<lparr>addr_id = cm_id m, addr_max_cut = cm_max_cut m\<rparr>"

datatype sync_error =
  SessionMismatch
| MissingSyncResponse
| SessionState
| NotReady
| CommandOverflow
| SyncStorage storage_error
| SerializeError
| SyncBug string

type_synonym u128 = "128 word"

datatype sync_request =
  SyncRequest u128 command_id nat "address list"
| RequestMissing u128 "nat list"
| SyncResume u128 nat nat
| ReqEndSession u128

fun request_session_id :: "sync_request \<Rightarrow> u128" where
  "request_session_id (SyncRequest i _ _ _) = i"
| "request_session_id (RequestMissing i _) = i"
| "request_session_id (SyncResume i _ _) = i"
| "request_session_id (ReqEndSession i) = i"

datatype sync_response =
  SyncResponse u128 nat "command_meta list"
| SyncEnd u128 nat bool
| SyncOffer u128 command_id
| RespEndSession u128

fun response_session_id :: "sync_response \<Rightarrow> u128" where
  "response_session_id (SyncResponse i _ _) = i"
| "response_session_id (SyncEnd i _ _) = i"
| "response_session_id (SyncOffer i _) = i"
| "response_session_id (RespEndSession i) = i"

datatype 'a sync_type =
  Poll sync_request 'a
| Subscribe nat nat "address list" command_id 'a
| Unsubscribe 'a
| Push sync_response command_id 'a

text \<open>Serialisation, and writing into a buffer of a given size, which fails if the bytes do not fit.\<close>

record 'a postcard =
  pc_type :: "'a sync_type \<Rightarrow> bytes"
  pc_response :: "sync_response \<Rightarrow> bytes"
  pc_take_response :: "bytes \<Rightarrow> (sync_response \<times> bytes) option"

definition to_slice :: "bytes \<Rightarrow> nat \<Rightarrow> (bytes, sync_error) result" where
  "to_slice b target = (if length b \<le> target then Ok b else Err SerializeError)"

text \<open>Pushing onto a vector of fixed capacity.\<close>

definition push_within :: "nat \<Rightarrow> 'e \<Rightarrow> 'a \<Rightarrow> 'a list \<Rightarrow> ('a list, 'e) result" where
  "push_within cap e x xs = (if length xs < cap then Ok (xs @ [x]) else Err e)"

definition extend_within :: "nat \<Rightarrow> 'e \<Rightarrow> 'a list \<Rightarrow> 'a list \<Rightarrow> ('a list, 'e) result" where
  "extend_within cap e ys xs = (if length xs + length ys \<le> cap then Ok (xs @ ys) else Err e)"

section \<open>Requester\<close>

text \<open>The out-of-order buffer of the requester is never used and left out.\<close>

datatype requester_state =
  RqNew | RqStart | RqWaiting | RqIdle | RqClosed | RqResync | RqPartialSync | RqReset

record 'a requester =
  rq_session_id :: u128
  rq_storage_id :: command_id
  rq_state :: requester_state
  rq_max_bytes :: nat
  rq_next_index :: nat
  rq_server_address :: 'a

type_synonym ('a, 'r) requester_prog = "('a requester, 'r, sync_error) lprog"

definition requester_new :: "command_id \<Rightarrow> u128 \<Rightarrow> 'a \<Rightarrow> 'a requester" where
  "requester_new storage_id random server_address =
     \<lparr>rq_session_id = random, rq_storage_id = storage_id, rq_state = RqNew, rq_max_bytes = 0, rq_next_index = 0,
      rq_server_address = server_address\<rparr>"

definition requester_new_session_id :: "command_id \<Rightarrow> u128 \<Rightarrow> 'a \<Rightarrow> 'a requester" where
  "requester_new_session_id storage_id session_id server_address =
     \<lparr>rq_session_id = session_id, rq_storage_id = storage_id, rq_state = RqWaiting, rq_max_bytes = 0, rq_next_index = 0,
      rq_server_address = server_address\<rparr>"

definition requester_ready :: "'a requester \<Rightarrow> bool" where
  "requester_ready q = (case rq_state q of
      RqNew \<Rightarrow> True | RqResync \<Rightarrow> True | RqReset \<Rightarrow> True
    | RqStart \<Rightarrow> False | RqWaiting \<Rightarrow> False | RqIdle \<Rightarrow> False | RqClosed \<Rightarrow> False | RqPartialSync \<Rightarrow> False)"

definition set_state :: "requester_state \<Rightarrow> ('a, unit) requester_prog" where
  "set_state s = lmodify (\<lambda>q. q\<lparr>rq_state := s\<rparr>)"

subsection \<open>The sample\<close>

text \<open>The heads known of the peer, with their locations.\<close>

fun sample_peer_heads :: "mem_storage \<Rightarrow> address list \<Rightarrow> location list \<times> address list \<Rightarrow>
    (location list \<times> address list, sync_error) result option" where
  "sample_peer_heads st [] acc = Some (Ok acc)"
| "sample_peer_heads st (a # as) (locs, commands) =
     robind (map_option (map_err SyncStorage) (get_location mem_ops st a)) (\<lambda>found.
     robind (Some (ok_or (SyncBug ''location must exist'') found)) (\<lambda>l.
     robind (Some (push_within peer_head_max (SyncBug ''command locations should not be full'') l locs)) (\<lambda>locs'.
     robind (Some (if length commands < command_sample_max then push_within command_sample_max CommandOverflow a commands
                   else Ok commands)) (\<lambda>commands'.
     sample_peer_heads st as (locs', commands')))))"

text \<open>One round over the current locations: the sample so far and the locations of the next round.\<close>

fun sample_round :: "mem_storage \<Rightarrow> location list \<Rightarrow> location list \<Rightarrow> address list \<Rightarrow> location list \<Rightarrow>
    (address list \<times> location list, sync_error) result" where
  "sample_round st known [] commands next_locs = Ok (commands, next_locs)"
| "sample_round st known (l # ls) commands next_locs =
     rbind (map_err SyncStorage (mem_get_segment st l)) (\<lambda>seg.
     if list_ex (\<lambda>k. loc_segment k = loc_segment l) known then sample_round st known ls commands next_locs
     else rbind (push_within command_sample_max CommandOverflow (stored_address (seg_head seg)) commands) (\<lambda>commands'.
          let next_locs' = next_locs @ prior_list (seg_prior seg) in
          if command_sample_max \<le> length commands' then Ok (commands', next_locs')
          else sample_round st known ls commands' next_locs'))"

lemma push_within_Ok: "push_within cap e x xs = Ok ys \<longleftrightarrow> length xs < cap \<and> ys = xs @ [x]"
  by (auto simp: push_within_def)

lemma sample_round_progress:
  "sample_round st known ls commands next_locs = Ok (commands', next_locs') \<Longrightarrow>
   length commands \<le> length commands' \<and> (length commands' = length commands \<longrightarrow> next_locs' = next_locs)"
proof (induction ls arbitrary: commands next_locs)
  case (Cons l ls)
  then obtain seg where seg: "mem_get_segment st l = Ok seg" by auto
  let ?cs = "commands @ [stored_address (seg_head seg)]" and ?ls = "next_locs @ prior_list (seg_prior seg)"
  show ?case
  proof (cases "list_ex (\<lambda>k. loc_segment k = loc_segment l) known")
    case True
    then show ?thesis using Cons seg by (simp del: mem_get_segment_Ok)
  next
    case False
    then consider "commands' = ?cs" | "sample_round st known ls ?cs ?ls = Ok (commands', next_locs')"
      using Cons.prems seg by (auto simp: push_within_Ok Let_def simp del: mem_get_segment_Ok split: if_splits)
    then show ?thesis using Cons.IH [of ?cs ?ls] by cases auto
  qed
qed simp

function sample_loop :: "mem_storage \<Rightarrow> location list \<Rightarrow> address list \<Rightarrow> location list \<Rightarrow> (address list, sync_error) result" where
  "sample_loop st known commands current =
     (if length commands < command_sample_max \<and> current \<noteq> []
      then case sample_round st known current commands [] of
          Ok (commands', next_locs) \<Rightarrow> sample_loop st known commands' next_locs
        | Err e \<Rightarrow> Err e
        | Panic m \<Rightarrow> Panic m
      else Ok commands)"
  by pat_completeness auto
termination
proof (relation "measures [\<lambda>(st, known, commands, current). command_sample_max - length commands,
    \<lambda>(st, known, commands, current). length current]", goal_cases)
  case (2 st known commands current x commands' next_locs)
  then have "sample_round st known current commands [] = Ok (commands', next_locs)" by simp
  from sample_round_progress [OF this] 2(1) show ?case by auto
qed simp

definition sample_storage :: "mem_storage \<Rightarrow> peer_cache \<Rightarrow> (address list, sync_error) result option" where
  "sample_storage st heads =
     robind (sample_peer_heads st heads ([], [])) (\<lambda>(known, commands).
     robind (Some (map_err SyncStorage (mem_get_head st))) (\<lambda>head.
     Some (sample_loop st known commands [head])))"

definition get_sample :: "mem_storage_provider \<Rightarrow> peer_cache \<Rightarrow> ('a, address list) requester_prog" where
  "get_sample provider heads = lread (\<lambda>q. case get_storage provider (rq_storage_id q) of
      Ok st \<Rightarrow> sample_storage st heads
    | Err er \<Rightarrow> Some (if er = NoSuchStorage then Ok [] else Err (SyncStorage er))
    | Panic m \<Rightarrow> Some (Panic m))"

subsection \<open>Sending\<close>

text \<open>
  The result of a poll is the bytes written at the start of the target, whose length the
  code returns, and the number of commands in the sample.
\<close>

definition poll_message :: "'a postcard \<Rightarrow> nat \<Rightarrow> sync_request \<Rightarrow> ('a, bytes) requester_prog" where
  "poll_message pc target request =
     lbind (lgets rq_server_address) (\<lambda>address. llift (to_slice (pc_type pc (Poll request address)) target))"

definition requester_end_session :: "'a postcard \<Rightarrow> nat \<Rightarrow> ('a, bytes \<times> nat) requester_prog" where
  "requester_end_session pc target =
     lbind (lgets rq_session_id) (\<lambda>i.
     lbind (poll_message pc target (ReqEndSession i)) (\<lambda>b. lreturn (b, 0)))"

definition requester_resume :: "'a postcard \<Rightarrow> nat \<Rightarrow> nat \<Rightarrow> ('a, bytes \<times> nat) requester_prog" where
  "requester_resume pc max_bytes target =
     lbind (lgets rq_state) (\<lambda>s.
     if s \<notin> {RqResync, RqIdle} then lfail SessionState
     else lbind (set_state RqWaiting) (\<lambda>_.
          lbind (lgets rq_session_id) (\<lambda>i.
          lbind (lgets rq_next_index) (\<lambda>n.
          lbind (llift (ok_or (SyncBug ''next_index must be positive'') (usize_checked_sub n 1))) (\<lambda>response_index.
          lbind (poll_message pc target (SyncResume i response_index max_bytes)) (\<lambda>b. lreturn (b, 0)))))))"

definition requester_start :: "'a postcard \<Rightarrow> nat \<Rightarrow> nat \<Rightarrow> mem_storage_provider \<Rightarrow> peer_cache \<Rightarrow> ('a, bytes \<times> nat) requester_prog" where
  "requester_start pc max_bytes target provider heads =
     lbind (lgets rq_state) (\<lambda>s.
     if s \<notin> {RqStart, RqNew} then lbind (set_state RqReset) (\<lambda>_. lfail SessionState)
     else lbind (set_state RqStart) (\<lambda>_.
          lbind (lmodify (\<lambda>q. q\<lparr>rq_max_bytes := max_bytes\<rparr>)) (\<lambda>_.
          lbind (get_sample provider heads) (\<lambda>commands.
          lbind (lgets rq_session_id) (\<lambda>i.
          lbind (lgets rq_storage_id) (\<lambda>sid.
          lbind (poll_message pc target (SyncRequest i sid max_bytes commands)) (\<lambda>b.
          lreturn (b, length commands))))))))"

definition requester_poll :: "'a postcard \<Rightarrow> nat \<Rightarrow> mem_storage_provider \<Rightarrow> peer_cache \<Rightarrow> ('a, bytes \<times> nat) requester_prog" where
  "requester_poll pc target provider heads =
     lbind (lgets rq_state) (\<lambda>s.
     lbind (lgets rq_max_bytes) (\<lambda>max_bytes.
     if s = RqNew then lbind (set_state RqStart) (\<lambda>_. requester_start pc max_bytes target provider heads)
     else if s = RqResync then requester_resume pc max_bytes target
     else if s = RqReset then lbind (set_state RqClosed) (\<lambda>_. requester_end_session pc target)
     else lfail NotReady))"

definition requester_subscribe :: "'a postcard \<Rightarrow> nat \<Rightarrow> mem_storage_provider \<Rightarrow> peer_cache \<Rightarrow> nat \<Rightarrow> nat \<Rightarrow>
    ('a, bytes) requester_prog" where
  "requester_subscribe pc target provider heads remain_open max_bytes =
     lbind (get_sample provider heads) (\<lambda>commands.
     lbind (lgets rq_server_address) (\<lambda>address.
     lbind (lgets rq_storage_id) (\<lambda>sid.
     llift (to_slice (pc_type pc (Subscribe remain_open max_bytes commands sid address)) target))))"

definition requester_unsubscribe :: "'a postcard \<Rightarrow> nat \<Rightarrow> ('a, bytes) requester_prog" where
  "requester_unsubscribe pc target =
     lbind (lgets rq_server_address) (\<lambda>address. llift (to_slice (pc_type pc (Unsubscribe address)) target))"

subsection \<open>Receiving\<close>

text \<open>Taking \<open>n\<close> bytes from position \<open>i\<close>; slicing beyond the end panics.\<close>

definition take_bytes :: "string \<Rightarrow> bytes \<Rightarrow> nat \<Rightarrow> nat \<Rightarrow> (bytes \<times> nat, sync_error) result" where
  "take_bytes what remaining i n =
     rbind (ok_or (SyncBug what) (usize_checked_add i n)) (\<lambda>e.
     if e \<le> length remaining then Ok (take n (drop i remaining), e)
     else Panic ''range end index out of range for slice'')"

fun parse_commands :: "bytes \<Rightarrow> nat \<Rightarrow> command_meta list \<Rightarrow> stored_command list \<Rightarrow> (stored_command list, sync_error) result" where
  "parse_commands remaining i [] acc = Ok acc"
| "parse_commands remaining i (m # ms) acc =
     rbind (if cm_policy_length m = 0 then Ok (None, i)
            else rbind (take_bytes ''start + policy_len mustn't overflow'' remaining i (unat (cm_policy_length m)))
                   (\<lambda>(b, e). Ok (Some b, e))) (\<lambda>(policy, i1).
     rbind (take_bytes ''start + len mustn't overflow'' remaining i1 (unat (cm_length m))) (\<lambda>(payload, i2).
     rbind (push_within command_sample_max (SyncBug ''commands is not larger than result'')
        \<lparr>cmd_priority = cm_priority m, cmd_id = cm_id m, cmd_parent = cm_parent m, cmd_policy = policy,
         cmd_bytes = payload, sc_max_cut = cm_max_cut m\<rparr> acc) (\<lambda>acc'.
     parse_commands remaining i2 ms acc')))"

definition expect_response :: "('a, unit) requester_prog" where
  "expect_response = lbind (lgets rq_state) (\<lambda>s. if s \<in> {RqStart, RqWaiting} then lreturn () else lfail SessionState)"

definition get_sync_commands :: "sync_response \<Rightarrow> bytes \<Rightarrow> ('a, stored_command list option) requester_prog" where
  "get_sync_commands message remaining =
     lbind (lgets rq_session_id) (\<lambda>sid.
     if response_session_id message \<noteq> sid then lfail SessionMismatch
     else case message of
       SyncResponse _ index commands \<Rightarrow>
         lbind expect_response (\<lambda>_.
         lbind (lgets rq_next_index) (\<lambda>n.
         if index \<noteq> n then lbind (set_state RqResync) (\<lambda>_. lfail MissingSyncResponse)
         else lbind (llift (ok_or (SyncBug ''next_index + 1 mustn't overflow'') (usize_checked_add n 1))) (\<lambda>n'.
              lbind (lmodify (\<lambda>q. q\<lparr>rq_next_index := n'\<rparr>)) (\<lambda>_.
              lbind (set_state RqWaiting) (\<lambda>_.
              lbind (llift (parse_commands remaining 0 commands [])) (\<lambda>cs. lreturn (Some cs)))))))
     | SyncEnd _ max_index _ \<Rightarrow>
         lbind expect_response (\<lambda>_.
         lbind (lgets rq_next_index) (\<lambda>n.
         lbind (llift (ok_or (SyncBug ''next_index must be positive'') (usize_checked_sub n 1))) (\<lambda>last_index.
         if max_index \<noteq> last_index then lbind (set_state RqResync) (\<lambda>_. lfail MissingSyncResponse)
         else lbind (set_state RqPartialSync) (\<lambda>_. lreturn None))))
     | SyncOffer _ _ \<Rightarrow>
         lbind (lgets rq_state) (\<lambda>s.
         if s \<noteq> RqIdle then lfail SessionState else lbind (set_state RqResync) (\<lambda>_. lreturn None))
     | RespEndSession _ \<Rightarrow> lbind (set_state RqClosed) (\<lambda>_. lreturn None))"

definition requester_receive :: "'a postcard \<Rightarrow> bytes \<Rightarrow> ('a, stored_command list option) requester_prog" where
  "requester_receive pc data = (case pc_take_response pc data of
      None \<Rightarrow> lfail SerializeError
    | Some (message, remaining) \<Rightarrow> get_sync_commands message remaining)"

section \<open>Responder\<close>

datatype responder_state = RsNew | RsStart | RsSend | RsIdle | RsReset | RsStopped

record 'a responder =
  rs_session_id :: "u128 option"
  rs_storage_id :: "command_id option"
  rs_state :: responder_state
  rs_bytes_sent :: nat
  rs_next_send :: nat
  rs_has :: "address list"
  rs_to_send :: "location list"
  rs_server_address :: 'a
  rs_cache :: peer_cache

text \<open>The cache of the peer's heads, which callers hand to every operation, is kept with the responder.\<close>

type_synonym ('a, 'r) responder_prog = "('a responder, 'r, sync_error) lprog"

definition responder_new :: "'a \<Rightarrow> peer_cache \<Rightarrow> 'a responder" where
  "responder_new server_address cache =
     \<lparr>rs_session_id = None, rs_storage_id = None, rs_state = RsNew, rs_bytes_sent = 0, rs_next_send = 0, rs_has = [],
      rs_to_send = [], rs_server_address = server_address, rs_cache = cache\<rparr>"

definition responder_ready :: "'a responder \<Rightarrow> bool" where
  "responder_ready r = (case rs_state r of
      RsReset \<Rightarrow> True | RsStart \<Rightarrow> True | RsSend \<Rightarrow> True | RsNew \<Rightarrow> False | RsIdle \<Rightarrow> False | RsStopped \<Rightarrow> False)"

definition set_rstate :: "responder_state \<Rightarrow> ('a, unit) responder_prog" where
  "set_rstate s = lmodify (\<lambda>r. r\<lparr>rs_state := s\<rparr>)"

definition the_session :: "('a, u128) responder_prog" where
  "the_session = lbind (lgets rs_session_id) (\<lambda>i. llift (ok_or (SyncBug ''session id is set'') i))"

definition responder_receive :: "sync_request \<Rightarrow> ('a, unit) responder_prog" where
  "responder_receive message =
     lbind (lmodify (\<lambda>r. if rs_session_id r = None then r\<lparr>rs_session_id := Some (request_session_id message)\<rparr> else r)) (\<lambda>_.
     lbind (lgets rs_session_id) (\<lambda>i.
     if i \<noteq> Some (request_session_id message) then lfail SessionMismatch
     else case message of
       SyncRequest _ storage_id max_bytes commands \<Rightarrow>
         lmodify (\<lambda>r. r\<lparr>rs_state := RsStart, rs_storage_id := Some storage_id, rs_bytes_sent := max_bytes,
           rs_to_send := [], rs_has := commands, rs_next_send := 0\<rparr>)
     | RequestMissing _ _ \<Rightarrow> llift (Panic ''not yet implemented'')
     | SyncResume _ _ _ \<Rightarrow> llift (Panic ''not yet implemented'')
     | ReqEndSession _ \<Rightarrow> set_rstate RsStopped))"

subsection \<open>Finding the segments to send\<close>

fun locate_all :: "mem_storage \<Rightarrow> address list \<Rightarrow> (location list, sync_error) result option" where
  "locate_all st [] = Some (Ok [])"
| "locate_all st (a # as) =
     robind (map_option (map_err SyncStorage) (get_location mem_ops st a)) (\<lambda>found.
     robind (locate_all st as) (\<lambda>ls. Some (Ok (case found of Some l \<Rightarrow> l # ls | None \<Rightarrow> ls))))"

text \<open>A deque of bounded size that drops its last element to make room at the front.\<close>

definition push_front :: "location \<Rightarrow> location list \<Rightarrow> location list" where
  "push_front l ls = l # (if length ls = segment_buffer_max then butlast ls else ls)"

text \<open>One round over the current heads: the heads of the next round and the segments found so far.\<close>

fun needed_round :: "mem_storage \<Rightarrow> location list \<Rightarrow> location list \<Rightarrow> location list \<Rightarrow> location list \<Rightarrow>
    (location list \<times> location list, sync_error) result" where
  "needed_round st have_locs [] heads found = Ok (heads, found)"
| "needed_round st have_locs (h # hs) heads found =
     rbind (map_err SyncStorage (mem_get_segment st h)) (\<lambda>seg.
     if list_ex (seg_contains seg) found then needed_round st have_locs hs heads found
     else case find (seg_contains seg) have_locs of
         Some l \<Rightarrow> needed_round st have_locs hs heads (if l \<noteq> seg_head_location seg then push_front l found else found)
       | None \<Rightarrow> needed_round st have_locs hs (heads @ prior_list (seg_prior seg)) (push_front (seg_first_location seg) found))"

partial_function (option) needed_loop ::
  "mem_storage \<Rightarrow> location list \<Rightarrow> location list \<Rightarrow> location list \<Rightarrow> (location list, sync_error) result option" where
  "needed_loop st have_locs heads found =
     (if heads = [] then Some (Ok found)
      else case needed_round st have_locs heads [] found of
          Ok (heads', found') \<Rightarrow> needed_loop st have_locs heads' found'
        | Err e \<Rightarrow> Some (Err e)
        | Panic m \<Rightarrow> Some (Panic m))"

declare needed_loop.simps [code]

definition find_needed_segments :: "address list \<Rightarrow> mem_storage \<Rightarrow> (location list, sync_error) result option" where
  "find_needed_segments commands st =
     robind (locate_all st commands) (\<lambda>have_locs.
     robind (Some (map_err SyncStorage (mem_get_head st))) (\<lambda>head.
     robind (needed_loop st have_locs [head] []) (\<lambda>found.
     Some (Ok (sort_key (\<lambda>l. (loc_segment l, loc_command l)) found)))))"

subsection \<open>Sending\<close>

definition extend_data :: "bytes \<Rightarrow> bytes \<Rightarrow> (bytes, sync_error) result" where
  "extend_data bs data = extend_within max_sync_message_size (SyncBug ''command_data is too large'') bs data"

lemma extend_data_code [code]:
  "extend_data bs data = (if int (length data + length bs) \<le> 205824 then Ok (data @ bs)
     else Err (SyncBug ''command_data is too large''))"
  by (simp add: extend_data_def extend_within_def max_sync_message_size_def max_command_length_def command_response_max_def
      flip: of_nat_le_iff [where ?'a = int])

text \<open>The commands of one segment: their descriptions and their bytes.\<close>

fun add_found :: "stored_command list \<Rightarrow> command_meta list \<Rightarrow> bytes \<Rightarrow> (command_meta list \<times> bytes, sync_error) result" where
  "add_found [] metas data = Ok (metas, data)"
| "add_found (c # cs) metas data =
     rbind (case cmd_policy c of
         Some policy \<Rightarrow> extend_data policy data
       | None \<Rightarrow> Ok data) (\<lambda>data1.
     rbind (extend_data (cmd_bytes c) data1) (\<lambda>data2.
     rbind (push_within command_response_max (SyncBug ''too many commands in segment'')
        \<lparr>cm_id = cmd_id c, cm_priority = cmd_priority c, cm_parent = cmd_parent c,
         cm_policy_length = of_nat (case cmd_policy c of Some policy \<Rightarrow> length policy | None \<Rightarrow> 0),
         cm_length = of_nat (length (cmd_bytes c)), cm_max_cut = sc_max_cut c\<rparr> metas) (\<lambda>metas'.
     if length metas' = command_response_max then Ok (metas', data2)
     else add_found cs metas' data2)))"

text \<open>The loop over the segments from \<open>next_send\<close> on, with the index it leaves off at.\<close>

fun collect_segments :: "mem_storage \<Rightarrow> location list \<Rightarrow> nat \<Rightarrow> command_meta list \<Rightarrow> bytes \<Rightarrow>
    (command_meta list \<times> bytes \<times> nat, sync_error) result" where
  "collect_segments st [] index metas data = Ok (metas, data, index)"
| "collect_segments st (l # ls) index metas data =
     (if length metas = command_response_max then Ok (metas, data, index)
      else rbind (ok_or (SyncBug ''index + 1 mustn't overflow'') (usize_checked_add index 1)) (\<lambda>index'.
           rbind (map_err SyncStorage (mem_get_segment st l)) (\<lambda>seg.
           rbind (seg_get_from seg l) (\<lambda>found.
           rbind (add_found found metas data) (\<lambda>(metas', data').
           collect_segments st ls index' metas' data')))))"

text \<open>Reaching the storage of the session's graph; not finding it resets the responder.\<close>

definition the_storage :: "string \<Rightarrow> mem_storage_provider \<Rightarrow> ('a, mem_storage) responder_prog" where
  "the_storage what provider =
     lbind (lgets rs_storage_id) (\<lambda>sid. case sid of
       None \<Rightarrow> lbind (set_rstate RsReset) (\<lambda>_. lfail (SyncBug what))
     | Some g \<Rightarrow> (case get_storage provider g of
           Ok st \<Rightarrow> lreturn st
         | Err e \<Rightarrow> lbind (set_rstate RsReset) (\<lambda>_. lfail (SyncStorage e))
         | Panic m \<Rightarrow> llift (Panic m)))"

definition get_response :: "mem_storage_provider \<Rightarrow> ('a, command_meta list \<times> bytes \<times> nat) responder_prog" where
  "get_response provider =
     lbind (the_storage ''get_next called before storage_id was set'' provider) (\<lambda>st.
     lbind (lgets rs_next_send) (\<lambda>n.
     lbind (lgets (\<lambda>r. drop n (rs_to_send r))) (\<lambda>ls.
     lmatch (llift (collect_segments st ls n [] [])) (\<lambda>res.
     case res of
       Err (SyncStorage e) \<Rightarrow> lbind (set_rstate RsReset) (\<lambda>_. lfail (SyncStorage e))
     | _ \<Rightarrow> llift res))))"

text \<open>Writing a message and, behind it, the bytes of its commands.\<close>

definition write_with_data :: "bytes \<Rightarrow> bytes \<Rightarrow> nat \<Rightarrow> (bytes, sync_error) result" where
  "write_with_data message data target =
     rbind (to_slice message target) (\<lambda>b.
     rbind (ok_or (SyncBug ''length + command_data_length mustn't overflow'') (usize_checked_add (length b) (length data))) (\<lambda>total.
     if total \<le> target then Ok (b @ data) else Err (SyncBug ''sync message fits in target'')))"

definition get_next :: "'a postcard \<Rightarrow> nat \<Rightarrow> mem_storage_provider \<Rightarrow> ('a, bytes) responder_prog" where
  "get_next pc target provider =
     lbind (lgets rs_next_send) (\<lambda>n.
     lbind (lgets rs_to_send) (\<lambda>ls.
     if length ls \<le> n then lbind (set_rstate RsIdle) (\<lambda>_. lreturn [])
     else lbind (get_response provider) (\<lambda>(commands, data, index).
          lbind the_session (\<lambda>i.
          lbind (lmodify (\<lambda>r. r\<lparr>rs_next_send := index\<rparr>)) (\<lambda>_.
          llift (write_with_data (pc_response pc (SyncResponse i n commands)) data target))))))"

text \<open>Recording what the peer has, as far as it is in the graph.\<close>

fun note_peer_has :: "mem_storage \<Rightarrow> address list \<Rightarrow> ('a, unit) responder_prog" where
  "note_peer_has st [] = lreturn ()"
| "note_peer_has st (a # as) =
     lbind (lread (\<lambda>_. map_option (map_err SyncStorage) (get_location mem_ops st a))) (\<lambda>found.
     lbind (case found of
         None \<Rightarrow> lreturn ()
       | Some l \<Rightarrow>
           lbind (lread (\<lambda>r. map_option (map_err SyncStorage) (peer_add_command mem_ops st (rs_cache r) a l))) (\<lambda>cache.
           lmodify (\<lambda>r. r\<lparr>rs_cache := cache\<rparr>))) (\<lambda>_.
     note_peer_has st as))"

definition plan_send :: "mem_storage \<Rightarrow> ('a, unit) responder_prog" where
  "plan_send st =
     lbind (lread (\<lambda>r. find_needed_segments (rs_has r) st)) (\<lambda>ls.
     lmodify (\<lambda>r. r\<lparr>rs_to_send := ls\<rparr>))"

definition responder_poll :: "'a postcard \<Rightarrow> nat \<Rightarrow> mem_storage_provider \<Rightarrow> ('a, bytes) responder_prog" where
  "responder_poll pc target provider =
     lbind (lgets rs_state) (\<lambda>s. case s of
       RsStart \<Rightarrow>
         lbind (the_storage ''poll called before storage_id was set'' provider) (\<lambda>st.
         lbind (set_rstate RsSend) (\<lambda>_.
         lbind (lgets rs_has) (\<lambda>has.
         lbind (note_peer_has st has) (\<lambda>_.
         lbind (plan_send st) (\<lambda>_.
         get_next pc target provider)))))
     | RsSend \<Rightarrow> get_next pc target provider
     | RsReset \<Rightarrow>
         lbind (set_rstate RsStopped) (\<lambda>_.
         lbind the_session (\<lambda>i. llift (to_slice (pc_response pc (RespEndSession i)) target)))
     | _ \<Rightarrow> lfail NotReady)"

definition responder_push :: "'a postcard \<Rightarrow> nat \<Rightarrow> mem_storage_provider \<Rightarrow> ('a, bytes) responder_prog" where
  "responder_push pc target provider =
     lbind (the_storage ''poll called before storage_id was set'' provider) (\<lambda>st.
     lbind (plan_send st) (\<lambda>_.
     lbind (get_response provider) (\<lambda>(commands, data, index).
     lbind (note_peer_has st (map meta_address commands)) (\<lambda>_.
     if commands = [] then lreturn []
     else lbind the_session (\<lambda>i.
          lbind (lgets rs_next_send) (\<lambda>n.
          lbind (lgets rs_storage_id) (\<lambda>sid.
          lbind (llift (ok_or (SyncBug ''storage id must exist'') sid)) (\<lambda>g.
          lbind (lgets rs_server_address) (\<lambda>address.
          lbind (lmodify (\<lambda>r. r\<lparr>rs_next_send := index\<rparr>)) (\<lambda>_.
          llift (write_with_data (pc_type pc (Push (SyncResponse i n commands) g address)) data target)))))))))))"

end
