(* ===== verification/Sync_Spec.thy ===== *)
theory Sync_Spec
  imports Sync Transaction_Total
begin

text \<open>
  Correctness of the sync protocol: what the responder writes is what the requester
  reads, the commands a responder selects are complete and come after their parents, and
  where sessions of more than one message and malformed messages go wrong.
\<close>

section \<open>Commands on the wire\<close>

definition meta_of :: "stored_command \<Rightarrow> command_meta" where
  "meta_of c = \<lparr>cm_id = cmd_id c, cm_priority = cmd_priority c, cm_parent = cmd_parent c,
     cm_policy_length = of_nat (case cmd_policy c of Some policy \<Rightarrow> length policy | None \<Rightarrow> 0),
     cm_length = of_nat (length (cmd_bytes c)), cm_max_cut = sc_max_cut c\<rparr>"

definition wire_bytes :: "stored_command \<Rightarrow> bytes" where
  "wire_bytes c = (case cmd_policy c of Some policy \<Rightarrow> policy | None \<Rightarrow> []) @ cmd_bytes c"

text \<open>An empty policy cannot be told from none.\<close>

definition as_received :: "stored_command \<Rightarrow> stored_command" where
  "as_received c = (if cmd_policy c = Some [] then c\<lparr>cmd_policy := None\<rparr> else c)"

lemma add_found_spec:
  assumes "add_found cs metas data = Ok (metas', data')" "length metas < command_response_max"
  defines "sent \<equiv> take (command_response_max - length metas) cs"
  shows "metas' = metas @ map meta_of sent" "data' = data @ concat (map wire_bytes sent)"
    "cs = [] \<or> length data' \<le> max_sync_message_size"
proof -
  have "metas' = metas @ map meta_of (take (command_response_max - length metas) cs) \<and>
      data' = data @ concat (map wire_bytes (take (command_response_max - length metas) cs)) \<and>
      (cs = [] \<or> length data' \<le> max_sync_message_size)"
    using assms(1,2)
  proof (induction cs arbitrary: metas data)
    case (Cons c cs)
    let ?m = "metas @ [meta_of c]" and ?d = "data @ wire_bytes c"
    have step: "length ?d \<le> max_sync_message_size"
        "(if length ?m = command_response_max then Ok (?m, ?d) else add_found cs ?m ?d) = Ok (metas', data')"
      using Cons.prems
      by (auto simp: extend_data_def extend_within_def push_within_def meta_of_def wire_bytes_def split: if_splits option.splits)
    have one: "take (command_response_max - length metas) (c # cs) = c # take (command_response_max - length ?m) cs"
      using Cons.prems(2) by (simp add: take_Cons')
    show ?case
    proof (cases "length ?m = command_response_max")
      case True
      then show ?thesis using step unfolding one by auto
    next
      case False
      then have "length ?m < command_response_max" using Cons.prems(2) by simp
      moreover have "add_found cs ?m ?d = Ok (metas', data')" using step(2) False by simp
      ultimately show ?thesis using Cons.IH [of ?m ?d] step(1) unfolding one by auto
    qed
  qed simp
  then show "metas' = metas @ map meta_of sent" "data' = data @ concat (map wire_bytes sent)"
    "cs = [] \<or> length data' \<le> max_sync_message_size" by (auto simp: sent_def)
qed

lemma take_bytes_Ok:
  assumes "remaining = pre @ b @ post" "length remaining < usize_limit"
  shows "take_bytes what remaining (length pre) (length b) = Ok (b, length pre + length b)"
  using assms by (simp add: take_bytes_def usize_checked_add_def)

lemma unat_u32: "n < 2 ^ 32 \<Longrightarrow> unat (of_nat n :: u32) = n"
  by (simp add: unat_of_nat take_bit_nat_eq_self)

lemma parse_sent:
  assumes "remaining = pre @ concat (map wire_bytes cs) @ post" "length remaining < 2 ^ 32"
    "length acc + length cs \<le> command_sample_max"
  shows "parse_commands remaining (length pre) (map meta_of cs) acc = Ok (acc @ map as_received cs)"
  using assms
proof (induction cs arbitrary: pre acc)
  case (Cons c cs)
  let ?p = "case cmd_policy c of Some policy \<Rightarrow> policy | None \<Rightarrow> []"
  let ?rest = "concat (map wire_bytes cs) @ post"
  have rem: "remaining = pre @ ?p @ cmd_bytes c @ ?rest" using Cons.prems(1) by (simp add: wire_bytes_def [of c])
  have small: "length ?p < 2 ^ 32" "length (cmd_bytes c) < 2 ^ 32" "length remaining < usize_limit"
    using Cons.prems(2) arg_cong [OF rem, of length] by (auto simp: usize_limit_def)
  have len: "unat (cm_policy_length (meta_of c)) = length ?p" "unat (cm_length (meta_of c)) = length (cmd_bytes c)"
    using small unat_u32 by (auto simp: meta_of_def split: option.splits)
  have zero: "cm_policy_length (meta_of c) = 0 \<longleftrightarrow> ?p = []"
    using len(1) by (metis length_0_conv unat_eq_zero)
  have policy: "(if cm_policy_length (meta_of c) = 0 then Ok (None, length pre)
      else rbind (take_bytes ''start + policy_len mustn't overflow'' remaining (length pre) (unat (cm_policy_length (meta_of c))))
        (\<lambda>(b, e). Ok (Some b, e))) = Ok (cmd_policy (as_received c), length (pre @ ?p))"
    unfolding len zero take_bytes_Ok [OF rem small(3)]
    by (auto simp: as_received_def split: option.splits)
  have payload: "take_bytes ''start + len mustn't overflow'' remaining (length (pre @ ?p)) (unat (cm_length (meta_of c))) =
      Ok (cmd_bytes c, length (pre @ ?p) + length (cmd_bytes c))"
    unfolding len by (rule take_bytes_Ok [OF _ small(3)]) (simp add: rem)
  have next_pre: "length (pre @ ?p) + length (cmd_bytes c) = length (pre @ ?p @ cmd_bytes c)" by simp
  have same: "\<lparr>cmd_priority = cm_priority (meta_of c), cmd_id = cm_id (meta_of c), cmd_parent = cm_parent (meta_of c),
      cmd_policy = cmd_policy (as_received c), cmd_bytes = cmd_bytes c, sc_max_cut = cm_max_cut (meta_of c)\<rparr> = as_received c"
    by (simp add: meta_of_def as_received_def)
  have IH: "parse_commands remaining (length (pre @ ?p @ cmd_bytes c)) (map meta_of cs) (acc @ [as_received c]) =
      Ok ((acc @ [as_received c]) @ map as_received cs)"
    by (rule Cons.IH) (use Cons.prems rem in simp_all)
  show ?case
    unfolding list.map parse_commands.simps policy rbind.simps case_prod_conv payload next_pre same
    using IH Cons.prems(3) by (simp add: push_within_def)
qed simp

section \<open>The commands of a response\<close>

definition commands_from :: "mem_storage \<Rightarrow> location \<Rightarrow> stored_command list" where
  "commands_from st l = map cd_command (drop (loc_command l) (seg_commands (ms_segments st ! loc_segment l)))"

definition segment_run :: "mem_storage \<Rightarrow> location list \<Rightarrow> stored_command list" where
  "segment_run st ls = concat (map (commands_from st) ls)"

text \<open>How many segments of the given lengths a response with room for \<open>room\<close> commands starts.\<close>

fun segments_started :: "nat \<Rightarrow> nat list \<Rightarrow> nat" where
  "segments_started room [] = 0"
| "segments_started room (k # ks) = (if room = 0 then 0 else Suc (segments_started (room - k) ks))"

lemma get_from_valid:
  assumes "mem_wf st" "is_valid mem_ops st l" "mem_get_segment st l = Ok seg"
  shows "seg_get_from seg l = Ok (commands_from st l)"
proof -
  have ok: "segments_ok (ms_segments st)" using assms(1) by (simp add: mem_wf_def)
  have "seg_index seg = loc_segment l" using segment_at [OF ok, of l] assms(3) by (auto simp: segment_ok_def)
  then show ?thesis
    using assms(2,3) mem_is_valid [OF ok] by (auto simp: seg_get_from_def commands_from_def)
qed

lemma collect_segments_spec:
  assumes "mem_wf st" "\<forall>l \<in> set ls. is_valid mem_ops st l" "length metas \<le> command_response_max"
    "length data \<le> max_sync_message_size" "collect_segments st ls n metas data = Ok (metas', data', n')"
  defines "sent \<equiv> take (command_response_max - length metas) (segment_run st ls)"
  shows "metas' = metas @ map meta_of sent" "data' = data @ concat (map wire_bytes sent)"
    "length data' \<le> max_sync_message_size"
    "n' = n + segments_started (command_response_max - length metas) (map (\<lambda>l. length (commands_from st l)) ls)"
proof -
  have "metas' = metas @ map meta_of (take (command_response_max - length metas) (segment_run st ls)) \<and>
     data' = data @ concat (map wire_bytes (take (command_response_max - length metas) (segment_run st ls))) \<and>
     length data' \<le> max_sync_message_size \<and>
     n' = n + segments_started (command_response_max - length metas) (map (\<lambda>l. length (commands_from st l)) ls)"
    using assms(2-5)
  proof (induction ls arbitrary: n metas data)
    case (Cons l ls)
    show ?case
    proof (cases "length metas = command_response_max")
      case True
      then show ?thesis using Cons.prems by simp
    next
      case False
      then have room: "length metas < command_response_max" using Cons.prems(2) by simp
      have from_l: "(seg_get_from seg l :: (_, sync_error) result) = Ok (commands_from st l)"
        if "mem_get_segment st l = Ok seg" for seg
        by (rule get_from_valid [OF assms(1) _ that]) (use Cons.prems(1) in simp)
      obtain seg m1 d1 where seg: "mem_get_segment st l = Ok seg"
        and found: "add_found (commands_from st l) metas data = Ok (m1, d1)"
        and rest: "collect_segments st ls (Suc n) m1 d1 = Ok (metas', data', n')"
        using Cons.prems(1,4) False from_l
        by (auto simp: usize_checked_add_def simp del: mem_get_segment_Ok split: if_splits)
      note one = add_found_spec [OF found room]
      have m1: "length m1 \<le> command_response_max" using one(1) room by simp
      have d1: "length d1 \<le> max_sync_message_size" using one(2,3) Cons.prems(3) by auto
      note IH = Cons.IH [OF _ m1 d1 rest]
      have left: "command_response_max - length m1 = command_response_max - length metas - length (commands_from st l)"
        using one(1) by simp
      show ?thesis
        using IH Cons.prems(1) one(1,2) room
        unfolding left by (auto simp: segment_run_def)
    qed
  qed (simp add: segment_run_def)
  then show "metas' = metas @ map meta_of sent" "data' = data @ concat (map wire_bytes sent)"
    "length data' \<le> max_sync_message_size"
    "n' = n + segments_started (command_response_max - length metas) (map (\<lambda>l. length (commands_from st l)) ls)"
    by (auto simp: sent_def)
qed

text \<open>The state a responder is in when it sends: its graph is there and its plan consists of stored locations.\<close>

definition sending :: "mem_storage_provider \<Rightarrow> 'a responder \<Rightarrow> mem_storage \<Rightarrow> bool" where
  "sending provider r st \<longleftrightarrow> (\<exists>g. rs_storage_id r = Some g \<and> bt_get provider g = Some st) \<and> mem_wf st \<and>
     (\<forall>l \<in> set (rs_to_send r). is_valid mem_ops st l)"

definition response_commands :: "mem_storage \<Rightarrow> location list \<Rightarrow> stored_command list" where
  "response_commands st ls = take command_response_max (segment_run st ls)"

definition segments_sent :: "mem_storage \<Rightarrow> location list \<Rightarrow> nat" where
  "segments_sent st ls = segments_started command_response_max (map (\<lambda>l. length (commands_from st l)) ls)"

lemma get_response_spec:
  assumes "sending provider r st" "get_response provider r = Some (Ok (metas, data, index), r')"
  defines "ls \<equiv> drop (rs_next_send r) (rs_to_send r)"
  shows "r' = r" "metas = map meta_of (response_commands st ls)" "data = concat (map wire_bytes (response_commands st ls))"
    "length data \<le> max_sync_message_size" "index = rs_next_send r + segments_sent st ls"
proof -
  have c: "r' = r" "collect_segments st ls (rs_next_send r) [] [] = Ok (metas, data, index)"
    using assms(1,2)
    by (auto simp: get_response_def the_storage_def sending_def get_storage_def ls_def lbind_def lgets_def lreturn_def lmatch_def
        llift_def lfail_def set_rstate_def lmodify_def split: result.splits sync_error.splits)
  then show "r' = r" by simp
  have valid: "\<forall>l \<in> set ls. is_valid mem_ops st l" using assms(1) by (auto simp: sending_def ls_def dest: in_set_dropD)
  have wf: "mem_wf st" using assms(1) by (simp add: sending_def)
  note spec = collect_segments_spec [OF wf valid _ _ c(2)]
  show "metas = map meta_of (response_commands st ls)" "data = concat (map wire_bytes (response_commands st ls))"
    "length data \<le> max_sync_message_size" "index = rs_next_send r + segments_sent st ls"
    using spec by (simp_all add: response_commands_def segments_sent_def)
qed

lemma get_next_spec:
  assumes "sending provider r st" "rs_next_send r < length (rs_to_send r)" "get_next pc target provider r = Some (Ok b, r')"
  defines "ls \<equiv> drop (rs_next_send r) (rs_to_send r)"
  shows "\<exists>i. rs_session_id r = Some i \<and>
      b = pc_response pc (SyncResponse i (rs_next_send r) (map meta_of (response_commands st ls))) @
        concat (map wire_bytes (response_commands st ls))"
    "r' = r\<lparr>rs_next_send := rs_next_send r + segments_sent st ls\<rparr>"
    "length (concat (map wire_bytes (response_commands st ls))) \<le> max_sync_message_size"
proof -
  obtain metas data index u i where g: "get_response provider r = Some (Ok (metas, data, index), u)"
    and rest: "rs_session_id u = Some i" "r' = u\<lparr>rs_next_send := index\<rparr>"
      "write_with_data (pc_response pc (SyncResponse i (rs_next_send r) metas)) data target = Ok b"
    using assms(2,3)
    by (auto simp: get_next_def lbind_Ok the_session_def ok_or_eq_Ok eq_commute [of "Ok _" "ok_or _ _"])
  note spec = get_response_spec [OF assms(1) g]
  have "b = pc_response pc (SyncResponse i (rs_next_send r) metas) @ data"
    using rest(3) by (auto simp: write_with_data_def to_slice_def split: if_splits)
  then show "\<exists>i. rs_session_id r = Some i \<and>
      b = pc_response pc (SyncResponse i (rs_next_send r) (map meta_of (response_commands st ls))) @
        concat (map wire_bytes (response_commands st ls))"
    "r' = r\<lparr>rs_next_send := rs_next_send r + segments_sent st ls\<rparr>"
    "length (concat (map wire_bytes (response_commands st ls))) \<le> max_sync_message_size"
    using spec rest by (simp_all add: ls_def)
qed

section \<open>From responder to requester\<close>

text \<open>What is relied on of the serialisation: a message is read back from the bytes it was written to, whatever follows.\<close>

definition postcard_ok :: "'a postcard \<Rightarrow> bool" where
  "postcard_ok pc \<longleftrightarrow> (\<forall>m rest. pc_take_response pc (pc_response pc m @ rest) = Some (m, rest))"

lemma response_received_aux:
  assumes "postcard_ok pc" "sending provider r st" "rs_next_send r < length (rs_to_send r)"
    "get_next pc target provider r = Some (Ok b, r')"
    "rs_session_id r = Some (rq_session_id q)" "rq_state q \<in> {RqStart, RqWaiting}"
    "rq_next_index q = rs_next_send r" "rq_next_index q + 1 < usize_limit"
  shows "requester_receive pc b q =
    Some (Ok (Some (map as_received (response_commands st (drop (rs_next_send r) (rs_to_send r))))),
      q\<lparr>rq_next_index := rq_next_index q + 1, rq_state := RqWaiting\<rparr>)"
proof -
  let ?cs = "response_commands st (drop (rs_next_send r) (rs_to_send r))"
  note sent = get_next_spec [OF assms(2-4)]
  have b: "b = pc_response pc (SyncResponse (rq_session_id q) (rq_next_index q) (map meta_of ?cs)) @ concat (map wire_bytes ?cs)"
    using sent(1) assms(5,7) by auto
  have "max_sync_message_size < 2 ^ 32" by (simp add: max_sync_message_size_def max_command_length_def command_response_max_def)
  then have "parse_commands (concat (map wire_bytes ?cs)) (length ([] :: bytes)) (map meta_of ?cs) [] = Ok ([] @ map as_received ?cs)"
    using sent(3) by (intro parse_sent [where post = "[]"])
      (simp_all add: response_commands_def command_sample_max_def command_response_max_def)
  moreover have "pc_take_response pc b = Some (SyncResponse (rq_session_id q) (rq_next_index q) (map meta_of ?cs), concat (map wire_bytes ?cs))"
    using assms(1) by (simp add: b postcard_ok_def)
  moreover have "usize_checked_add (rq_next_index q) 1 = Some (rq_next_index q + 1)"
    using assms(8) by (simp add: usize_checked_add_def)
  ultimately show ?thesis
    using assms(6) unfolding requester_receive_def get_sync_commands_def expect_response_def set_state_def
    by (simp add: lprog_defs)
qed


text \<open>
  C30. A session of more than one message cannot succeed when the first message carries
  the commands of more than one segment. The responder numbers its messages by segments,
  the requester by messages: the second message is refused as if one had been lost, and
  the request to resume, which the requester sends then, makes the responder panic.
\<close>

theorem second_response_rejected:
  assumes "postcard_ok pc" "sending provider r st" "rs_next_send r < length (rs_to_send r)"
    "get_next pc target provider r = Some (Ok b, r1)"
    "rs_session_id r = Some (rq_session_id q)" "rq_state q \<in> {RqStart, RqWaiting}"
    "rq_next_index q = rs_next_send r" "rq_next_index q + 1 < usize_limit"
    "segments_sent st (drop (rs_next_send r) (rs_to_send r)) > 1"
    "rs_next_send r1 < length (rs_to_send r1)" "get_next pc target provider r1 = Some (Ok b2, r2)"
  shows "\<exists>cs q1 q2 q3. requester_receive pc b q = Some (Ok (Some cs), q1) \<and>
    requester_receive pc b2 q1 = Some (Err MissingSyncResponse, q2) \<and>
    requester_poll pc target' provider' heads q2 = Some (rmap (\<lambda>m. (m, 0)) (to_slice (pc_type pc
      (Poll (SyncResume (rq_session_id q) (rq_next_index q) (rq_max_bytes q)) (rq_server_address q))) target'), q3) \<and>
    responder_receive (SyncResume (rq_session_id q) (rq_next_index q) (rq_max_bytes q)) r2 = Some (Panic ''not yet implemented'', r2)"
proof -
  let ?q1 = "q\<lparr>rq_next_index := rq_next_index q + 1, rq_state := RqWaiting\<rparr>"
  note first = get_next_spec [OF assms(2-4)]
  have r1: "sending provider r1 st" "rs_next_send r1 > rq_next_index q + 1" "rs_session_id r1 = Some (rq_session_id q)"
    using assms(2,5,7,9) first(2) by (auto simp: sending_def)
  note second = get_next_spec [OF r1(1) assms(10,11)]
  obtain ms data where b2: "b2 = pc_response pc (SyncResponse (rq_session_id q) (rs_next_send r1) ms) @ data"
    using second(1) r1(3) by auto
  have r2: "rs_session_id r2 = Some (rq_session_id q)" using second(2) r1(3) by simp
  have "requester_receive pc b2 ?q1 = Some (Err MissingSyncResponse, ?q1\<lparr>rq_state := RqResync\<rparr>)"
    using assms(1) r1(2) by (simp add: b2 requester_receive_def postcard_ok_def get_sync_commands_def expect_response_def set_state_def lprog_defs)
  moreover have "requester_poll pc target' provider' heads (?q1\<lparr>rq_state := RqResync\<rparr>) = Some (rmap (\<lambda>m. (m, 0)) (to_slice (pc_type pc
      (Poll (SyncResume (rq_session_id q) (rq_next_index q) (rq_max_bytes q)) (rq_server_address q))) target'), ?q1)"
    by (simp add: requester_poll_def requester_resume_def poll_message_def set_state_def lprog_defs to_slice_def)
  moreover have "responder_receive (SyncResume (rq_session_id q) (rq_next_index q) (rq_max_bytes q)) r2 =
      Some (Panic ''not yet implemented'', r2)"
    using r2 by (simp add: responder_receive_def lprog_defs)
  ultimately show ?thesis using response_received_aux [OF assms(1-8)] by blast
qed

section \<open>Malformed messages\<close>

definition declared_length :: "command_meta list \<Rightarrow> nat" where
  "declared_length ms = (\<Sum>m \<leftarrow> ms. unat (cm_policy_length m) + unat (cm_length m))"

lemma take_bytes_within:
  assumes "i + n < usize_limit"
  shows "take_bytes what remaining i n = (if i + n \<le> length remaining then Ok (take n (drop i remaining), i + n)
    else Panic ''range end index out of range for slice'')"
  using assms by (simp add: take_bytes_def usize_checked_add_def)

lemma parse_commands_panic:
  assumes "length acc + length ms \<le> command_sample_max" "i + declared_length ms < usize_limit"
    "length remaining < i + declared_length ms" "i \<le> length remaining"
  shows "parse_commands remaining i ms acc = Panic ''range end index out of range for slice''"
  using assms
proof (induction ms arbitrary: i acc)
  case (Cons m ms)
  let ?p = "unat (cm_policy_length m)" and ?n = "unat (cm_length m)"
  have total: "i + ?p + ?n + declared_length ms < usize_limit" "length remaining < i + ?p + ?n + declared_length ms"
    using Cons.prems(2,3) by (simp_all add: declared_length_def)
  have zero: "cm_policy_length m = 0 \<longleftrightarrow> ?p = 0" by (simp add: unat_eq_zero)
  show ?case
  proof (cases "i + ?p + ?n \<le> length remaining")
    case True
    then show ?thesis
      using total Cons.prems(1) Cons.IH [of _ "i + ?p + ?n"]
      by (cases "?p = 0") (simp_all add: take_bytes_within push_within_def zero)
  next
    case False
    then show ?thesis
      using total Cons.prems(4) by (cases "i + ?p \<le> length remaining") (auto simp: take_bytes_within zero)
  qed
qed (simp add: declared_length_def)

text \<open>
  A message whose commands declare more bytes than it carries makes the requester
  panic: the lengths come from the peer and are not checked before the bytes are sliced.
\<close>

theorem short_response_panics:
  assumes "rq_state q \<in> {RqStart, RqWaiting}" "rq_next_index q + 1 < usize_limit" "length ms \<le> command_sample_max"
    "length remaining < declared_length ms" "declared_length ms < usize_limit"
  shows "get_sync_commands (SyncResponse (rq_session_id q) (rq_next_index q) ms) remaining q =
    Some (Panic ''range end index out of range for slice'', q\<lparr>rq_next_index := rq_next_index q + 1, rq_state := RqWaiting\<rparr>)"
proof -
  have "parse_commands remaining 0 ms [] = Panic ''range end index out of range for slice''"
    using assms(3-5) by (intro parse_commands_panic) simp_all
  then show ?thesis
    using assms(1,2) by (simp add: get_sync_commands_def expect_response_def set_state_def lprog_defs usize_checked_add_def)
qed

end
