(* ===== verification/Sync_Plan.thy ===== *)
theory Sync_Plan
  imports Sync_Spec
begin

text \<open>
  The plan of a responder: the segments it selects contain everything the requester may
  miss, and in the order in which they are sent every command comes after its parents,
  unless the requester has them already.
\<close>

section \<open>Segments that have been dealt with\<close>

definition first_have :: "location list \<Rightarrow> nat \<Rightarrow> location option" where
  "first_have have_locs i = find (\<lambda>l. loc_segment l = i) have_locs"

text \<open>A segment is settled if it is in the plan, or the requester has its last command.\<close>

definition settled :: "mem_storage \<Rightarrow> location list \<Rightarrow> location list \<Rightarrow> nat \<Rightarrow> bool" where
  "settled st have_locs found i \<longleftrightarrow> i \<in> loc_segment ` set found \<or>
     first_have have_locs i = Some (seg_head_location (ms_segments st ! i))"

definition planned :: "mem_storage \<Rightarrow> location list \<Rightarrow> location list \<Rightarrow> location list \<Rightarrow> location \<Rightarrow> bool" where
  "planned st have_locs heads found f \<longleftrightarrow>
     first_have have_locs (loc_segment f) = Some f \<or>
     first_have have_locs (loc_segment f) = None \<and> loc_command f = 0 \<and>
       (\<forall>p \<in> set (segment_priors mem_ops st f). settled st have_locs found (loc_segment p) \<or> p \<in> set heads)"

definition plan_inv :: "mem_storage \<Rightarrow> location list \<Rightarrow> location list \<Rightarrow> location list \<Rightarrow> bool" where
  "plan_inv st have_locs heads found \<longleftrightarrow> (\<forall>l \<in> set heads \<union> set found. is_valid mem_ops st l) \<and>
     distinct (map loc_segment found) \<and> (\<forall>f \<in> set found. planned st have_locs heads found f)"

lemma find_seg: "seg_index seg = i \<Longrightarrow> find (seg_contains seg) ls = first_have ls i"
  by (simp add: first_have_def seg_contains_def [abs_def])

lemma first_have_Some: "first_have ls i = Some l \<Longrightarrow> l \<in> set ls \<and> loc_segment l = i"
  by (auto simp: first_have_def find_Some_iff in_set_conv_nth)

lemma settled_mono: "settled st have_locs found i \<Longrightarrow> set found \<subseteq> set found' \<Longrightarrow> settled st have_locs found' i"
  by (auto simp: settled_def)

lemma planned_mono:
  "planned st have_locs heads found f \<Longrightarrow> set found \<subseteq> set found' \<Longrightarrow> set heads \<subseteq> set heads' \<Longrightarrow>
   planned st have_locs heads' found' f"
  using settled_mono unfolding planned_def by blast

lemma distinct_segments_bound:
  assumes "segments_ok (ms_segments st)" "\<forall>l \<in> set found. is_valid mem_ops st l" "distinct (map loc_segment found)"
    "i < length (ms_segments st)" "i \<notin> loc_segment ` set found"
  shows "length found < length (ms_segments st)"
proof -
  have "insert i (loc_segment ` set found) \<subseteq> {..<length (ms_segments st)}"
    using assms(2,4) mem_is_valid [OF assms(1)] by auto
  then have "card (insert i (loc_segment ` set found)) \<le> length (ms_segments st)"
    using card_mono [of "{..<length (ms_segments st)}"] by fastforce
  moreover have "card (loc_segment ` set found) = length found"
    using assms(3) distinct_card [of "map loc_segment found"] by simp
  ultimately show ?thesis using assms(5) by simp
qed

text \<open>One step: the segment of a head is settled afterwards.\<close>

lemma push_front_room: "length found < segment_buffer_max \<Longrightarrow> push_front l found = l # found"
  by (simp add: push_front_def)

lemma planned_settled:
  assumes "planned st have_locs (h # heads) found f" "settled st have_locs found' (loc_segment h)"
    "set found \<subseteq> set found'" "set heads \<subseteq> set heads'"
  shows "planned st have_locs heads' found' f"
  using assms settled_mono [OF _ assms(3)] unfolding planned_def by auto

lemma plan_inv_settle:
  assumes "plan_inv st have_locs (h # heads) found" "set found \<subseteq> set found'" "settled st have_locs found' (loc_segment h)"
    "distinct (map loc_segment found')" "set heads \<subseteq> set heads'" "\<forall>l \<in> set heads'. is_valid mem_ops st l"
    "\<And>f. f \<in> set found' - set found \<Longrightarrow> is_valid mem_ops st f \<and> planned st have_locs heads' found' f"
  shows "plan_inv st have_locs heads' found'"
  using assms planned_settled [OF _ assms(3,2,5)] unfolding plan_inv_def by (auto; blast)

lemma needed_round_Cons:
  assumes "segments_ok (ms_segments st)" "is_valid mem_ops st h"
  defines "i \<equiv> loc_segment h"
  shows "needed_round st have_locs (h # current) heads found =
     (if i \<in> loc_segment ` set found then needed_round st have_locs current heads found
      else case first_have have_locs i of
         Some l \<Rightarrow> needed_round st have_locs current heads
           (if l \<noteq> seg_head_location (ms_segments st ! i) then push_front l found else found)
       | None \<Rightarrow> needed_round st have_locs current (heads @ segment_priors mem_ops st h) (push_front (location_new i 0) found))"
proof -
  have i: "i < length (ms_segments st)" using assms(2) mem_is_valid [OF assms(1)] by (simp add: i_def)
  let ?seg = "ms_segments st ! i"
  have seg: "mem_get_segment st h = Ok ?seg" "seg_index ?seg = i"
    using i segment_at [OF assms(1), of h] by (auto simp: i_def segment_ok_def)
  have "list_ex (seg_contains ?seg) found \<longleftrightarrow> i \<in> loc_segment ` set found"
    unfolding list_ex_iff seg_contains_def seg(2) image_iff by metis
  then show ?thesis
    using seg find_seg [OF seg(2)]
    by (simp add: segment_priors_def seg_first_location_def del: mem_get_segment_Ok split: option.split)
qed

lemma prior_segment_less:
  assumes "mem_wf st" "is_valid mem_ops st l" "p \<in> set (segment_priors mem_ops st l)"
  shows "is_valid mem_ops st p \<and> loc_segment p < loc_segment l"
proof -
  have ok: "segments_ok (ms_segments st)" using assms(1) by (simp add: mem_wf_def)
  have l: "loc_segment l < length (ms_segments st)" using assms(2) mem_is_valid [OF ok] by simp
  from segment_at [OF ok l] assms(3) l have "loc_segment p < loc_segment l"
    by (auto simp: mem_segment_priors segment_ok_def list_all_iff prior_ok_def)
  with mem.prior_of_segment [OF assms] show ?thesis by simp
qed

lemma plan_step:
  assumes "mem_wf st" "length (ms_segments st) \<le> segment_buffer_max"
    "\<forall>l \<in> set have_locs. is_valid mem_ops st l" "plan_inv st have_locs (h # current @ heads) found"
  shows "\<exists>ps found'. needed_round st have_locs (h # current) heads found = needed_round st have_locs current (heads @ ps) found' \<and>
    plan_inv st have_locs (current @ heads @ ps) found' \<and> set found \<subseteq> set found' \<and>
    settled st have_locs found' (loc_segment h) \<and> (\<forall>p \<in> set ps. loc_segment p < loc_segment h)"
proof -
  let ?i = "loc_segment h"
  have ok: "segments_ok (ms_segments st)" using assms(1) by (simp add: mem_wf_def)
  have h: "is_valid mem_ops st h" and i: "?i < length (ms_segments st)"
    and heads: "\<forall>l \<in> set (current @ heads). is_valid mem_ops st l" and found: "\<forall>l \<in> set found. is_valid mem_ops st l"
    and dist: "distinct (map loc_segment found)"
    using assms(4) mem_is_valid [OF ok] by (auto simp: plan_inv_def)
  note run = needed_round_Cons [OF ok h, of have_locs current heads found] and settle = plan_inv_settle [OF assms(4)]
  consider (planned) "?i \<in> loc_segment ` set found"
    | (match) l where "?i \<notin> loc_segment ` set found" "first_have have_locs ?i = Some l"
    | (whole) "?i \<notin> loc_segment ` set found" "first_have have_locs ?i = None"
    by (cases "first_have have_locs ?i") auto
  then show ?thesis
  proof cases
    case planned
    then have "settled st have_locs found ?i" by (simp add: settled_def)
    with planned show ?thesis
      using run settle [of found "current @ heads"] dist heads by (intro exI [of _ "[]"] exI [of _ found]) simp
  next
    case match
    note l = first_have_Some [OF match(2)]
    let ?found = "if l \<noteq> seg_head_location (ms_segments st ! ?i) then l # found else found"
    have set: "settled st have_locs ?found ?i" "planned st have_locs (current @ heads) ?found l"
      using match l by (auto simp: settled_def planned_def)
    then have "plan_inv st have_locs (current @ heads) ?found"
      using settle [of ?found "current @ heads"] dist match l assms(3) heads by (auto split: if_splits)
    with match set show ?thesis
      using run push_front_room distinct_segments_bound [OF ok found dist i match(1)] assms(2)
      by (intro exI [of _ "[]"] exI [of _ ?found]) auto
  next
    case whole
    let ?ps = "segment_priors mem_ops st h" and ?f = "location_new ?i 0"
    have f: "is_valid mem_ops st ?f" "segment_priors mem_ops st ?f = ?ps"
      using mem.valid_down [OF assms(1) h, of ?f] by (simp_all add: mem_segment_priors)
    note ps = prior_segment_less [OF assms(1) h]
    have set: "settled st have_locs (?f # found) ?i" "planned st have_locs (current @ heads @ ?ps) (?f # found) ?f"
      using whole f(2) by (auto simp: settled_def planned_def)
    then have "plan_inv st have_locs (current @ heads @ ?ps) (?f # found)"
      using settle [of "?f # found" "current @ heads @ ?ps"] dist whole f ps heads by auto
    with whole set ps show ?thesis
      using run push_front_room distinct_segments_bound [OF ok found dist i whole(1)] assms(2)
      by (intro exI [of _ ?ps] exI [of _ "?f # found"]) auto
  qed
qed

lemma needed_round_spec:
  assumes "mem_wf st" "length (ms_segments st) \<le> segment_buffer_max" "\<forall>l \<in> set have_locs. is_valid mem_ops st l"
    "plan_inv st have_locs (current @ heads) found" "\<forall>h \<in> set heads. loc_segment h < k" "\<forall>h \<in> set current. loc_segment h \<le> k"
  shows "\<exists>heads' found'. needed_round st have_locs current heads found = Ok (heads', found') \<and>
    plan_inv st have_locs heads' found' \<and> set found \<subseteq> set found' \<and> (\<forall>h \<in> set heads'. loc_segment h < k) \<and>
    (\<forall>h \<in> set current. settled st have_locs found' (loc_segment h))"
  using assms(4-6)
proof (induction current arbitrary: heads found)
  case Nil
  then show ?case by simp
next
  case (Cons h current)
  have "plan_inv st have_locs (h # current @ heads) found" using Cons.prems(1) by simp
  from plan_step [OF assms(1-3) this] obtain ps f1 where step:
    "needed_round st have_locs (h # current) heads found = needed_round st have_locs current (heads @ ps) f1"
    "plan_inv st have_locs (current @ heads @ ps) f1" "set found \<subseteq> set f1"
    "settled st have_locs f1 (loc_segment h)" "\<forall>p \<in> set ps. loc_segment p < loc_segment h" by blast
  have "\<forall>p \<in> set (heads @ ps). loc_segment p < k" using step(5) Cons.prems(2,3) by fastforce
  from Cons.IH [OF step(2) this] Cons.prems(3) obtain heads' found' where rest:
    "needed_round st have_locs current (heads @ ps) f1 = Ok (heads', found')" "plan_inv st have_locs heads' found'"
    "set f1 \<subseteq> set found'" "\<forall>h \<in> set heads'. loc_segment h < k" "\<forall>h \<in> set current. settled st have_locs found' (loc_segment h)"
    by auto
  then show ?case using step settled_mono [OF step(4) rest(3)] by auto
qed

lemma needed_loop_spec:
  assumes "mem_wf st" "length (ms_segments st) \<le> segment_buffer_max" "\<forall>l \<in> set have_locs. is_valid mem_ops st l"
    "plan_inv st have_locs heads found" "\<forall>h \<in> set heads. loc_segment h < k"
  shows "\<exists>found'. needed_loop st have_locs heads found = Some (Ok found') \<and> plan_inv st have_locs [] found' \<and>
    set found \<subseteq> set found' \<and> (\<forall>h \<in> set heads. settled st have_locs found' (loc_segment h))"
  using assms(4,5)
proof (induction k arbitrary: heads found)
  case 0
  then show ?case by (cases heads) (auto simp: needed_loop.simps)
next
  case (Suc k)
  show ?case
  proof (cases "heads = []")
    case True
    then show ?thesis using Suc.prems by (auto simp: needed_loop.simps)
  next
    case False
    have "plan_inv st have_locs (heads @ []) found" "\<forall>h \<in> set heads. loc_segment h \<le> k" using Suc.prems by auto
    from needed_round_spec [OF assms(1-3) this(1) _ this(2)] obtain heads1 found1 where round:
      "needed_round st have_locs heads [] found = Ok (heads1, found1)" "plan_inv st have_locs heads1 found1"
      "set found \<subseteq> set found1" "\<forall>h \<in> set heads1. loc_segment h < k" "\<forall>h \<in> set heads. settled st have_locs found1 (loc_segment h)"
      by auto
    from Suc.IH [OF round(2,4)] obtain found' where
      "needed_loop st have_locs heads1 found1 = Some (Ok found')" "plan_inv st have_locs [] found'" "set found1 \<subseteq> set found'"
      by blast
    then show ?thesis
      using False round settled_mono [of st have_locs found1 _ found'] by (auto simp: needed_loop.simps [of st have_locs heads])
  qed
qed

section \<open>What the plan covers\<close>

definition covered_by :: "mem_storage \<Rightarrow> location list \<Rightarrow> location list \<Rightarrow> location \<Rightarrow> bool" where
  "covered_by st have_locs found x \<longleftrightarrow> (\<exists>h \<in> set have_locs. ancestor mem_ops st x h) \<or>
     (\<exists>f \<in> set found. loc_segment f = loc_segment x \<and> loc_command f \<le> loc_command x)"

lemma settled_covers:
  assumes "mem_wf st" "\<forall>l \<in> set have_locs. is_valid mem_ops st l" "plan_inv st have_locs [] found"
    "is_valid mem_ops st l" "settled st have_locs found (loc_segment l)" "ancestor mem_ops st x l"
  shows "covered_by st have_locs found x"
  using assms(4-6)
proof (induction "loc_segment l" arbitrary: l rule: less_induct)
  case less
  have ok: "segments_ok (ms_segments st)" using assms(1) by (simp add: mem_wf_def)
  have x: "loc_segment x = loc_segment l \<and> loc_command x \<le> loc_command l \<or>
      (\<exists>p \<in> set (segment_priors mem_ops st l). ancestor mem_ops st x p)"
    using mem.ancestor_split [OF assms(1), of x l] less.prems(3) by blast
  have in_segment: "ancestor mem_ops st x h \<or> loc_segment x = loc_segment l \<and> loc_command h < loc_command x"
    if "loc_segment h = loc_segment l" for h
    using mem.ancestor_split [OF assms(1), of x h] that x by (auto simp: mem_segment_priors)
  consider (last) "first_have have_locs (loc_segment l) = Some (seg_head_location (ms_segments st ! loc_segment l))"
    | (found) f where "f \<in> set found" "loc_segment f = loc_segment l"
    using less.prems(2) by (auto simp: settled_def)
  then show ?case
  proof cases
    case last
    let ?h = "seg_head_location (ms_segments st ! loc_segment l)"
    have h: "?h \<in> set have_locs" "loc_segment ?h = loc_segment l" using first_have_Some [OF last] by auto
    have "loc_command l \<le> loc_command ?h" using less.prems(1) mem_is_valid [OF ok] by (auto simp: seg_head_location_def)
    then have "ancestor mem_ops st x ?h"
      using in_segment [OF h(2)] x mem.ancestor_split [OF assms(1), of x ?h] h(2) by (auto simp: mem_segment_priors)
    with h show ?thesis by (auto simp: covered_by_def)
  next
    case found
    have "planned st have_locs [] found f" using assms(3) found(1) by (simp add: plan_inv_def)
    then consider (match) "first_have have_locs (loc_segment f) = Some f"
      | (whole) "loc_command f = 0" "\<forall>p \<in> set (segment_priors mem_ops st f). settled st have_locs found (loc_segment p)"
      by (auto simp: planned_def)
    then show ?thesis
    proof cases
      case match
      then show ?thesis using first_have_Some [OF match] in_segment [OF found(2)] found by (fastforce simp: covered_by_def)
    next
      case whole
      have "covered_by st have_locs found x" if p: "p \<in> set (segment_priors mem_ops st l)" "ancestor mem_ops st x p" for p
      proof (rule less.hyps [OF _ _ _ p(2)])
        show "loc_segment p < loc_segment l" "is_valid mem_ops st p" using prior_segment_less [OF assms(1) less.prems(1) p(1)] by auto
        show "settled st have_locs found (loc_segment p)" using whole(2) p(1) found(2) by (simp add: mem_segment_priors)
      qed
      then show ?thesis using x whole(1) found by (fastforce simp: covered_by_def)
    qed
  qed
qed

lemma locate_all_spec:
  assumes "mem_wf st" "ms_head st = Some head"
  shows "\<exists>hs. locate_all st as = Some (Ok hs) \<and> (\<forall>h \<in> set hs. \<exists>a \<in> set as. has_address mem_ops st a h)"
proof (induction as)
  case (Cons a as)
  have "is_valid mem_ops st head" using assms by (simp add: mem_wf_def)
  then obtain r where r: "get_location mem_ops st a = Some (Ok r)"
      "case r of None \<Rightarrow> True | Some l \<Rightarrow> has_address mem_ops st a l"
    using mem.get_location_loop_spec [OF assms(1), of "[head]" a] assms(2)
    by (auto simp: get_location_def get_location_from_def mem_get_head_def split: option.splits)
  from Cons obtain hs where "locate_all st as = Some (Ok hs)" "\<forall>h \<in> set hs. \<exists>a \<in> set as. has_address mem_ops st a h" by blast
  with r show ?case by (auto split: option.splits)
qed simp

text \<open>The locations of the commands of a plan, in the order in which they are sent.\<close>

definition locations_from :: "mem_storage \<Rightarrow> location \<Rightarrow> location list" where
  "locations_from st l = map (location_new (loc_segment l)) [loc_command l ..< length (seg_commands (ms_segments st ! loc_segment l))]"

definition run_locations :: "mem_storage \<Rightarrow> location list \<Rightarrow> location list" where
  "run_locations st ls = concat (map (locations_from st) ls)"

lemma locations_from_mem:
  "x \<in> set (locations_from st l) \<longleftrightarrow> loc_segment x = loc_segment l \<and> loc_command l \<le> loc_command x \<and>
     loc_command x < length (seg_commands (ms_segments st ! loc_segment l))"
proof -
  have "x = location_new (loc_segment l) k \<longleftrightarrow> loc_segment x = loc_segment l \<and> loc_command x = k" for k
    by (auto intro: location_eqI)
  then show ?thesis unfolding locations_from_def by auto
qed

lemma run_locations_set:
  assumes "segments_ok (ms_segments st)" "is_valid mem_ops st x"
  shows "x \<in> set (run_locations st ls) \<longleftrightarrow> (\<exists>l \<in> set ls. loc_segment l = loc_segment x \<and> loc_command l \<le> loc_command x)"
proof -
  have "x \<in> set (locations_from st l) \<longleftrightarrow> loc_segment l = loc_segment x \<and> loc_command l \<le> loc_command x" for l
    using assms(2) mem_is_valid [OF assms(1), of x] by (auto simp: locations_from_mem)
  then show ?thesis by (simp add: run_locations_def)
qed

lemma run_locations_valid:
  assumes "segments_ok (ms_segments st)" "\<forall>l \<in> set ls. is_valid mem_ops st l" "x \<in> set (run_locations st ls)"
  shows "is_valid mem_ops st x"
  using assms(2,3) mem_is_valid [OF assms(1)] by (auto simp: run_locations_def locations_from_mem)

lemma segment_run_locations:
  assumes "segments_ok (ms_segments st)" "\<forall>l \<in> set ls. is_valid mem_ops st l"
  shows "segment_run st ls = map (\<lambda>l. the (command_at mem_ops st l)) (run_locations st ls)"
proof -
  have "commands_from st l = map (\<lambda>l. the (command_at mem_ops st l)) (locations_from st l)" if l: "l \<in> set ls" for l
  proof -
    have v: "loc_segment l < length (ms_segments st)" using assms l mem_is_valid [OF assms(1)] by auto
    then have "seg_index (ms_segments st ! loc_segment l) = loc_segment l"
      using segment_at [OF assms(1), of l] by (simp add: segment_ok_def)
    then show ?thesis
      using v by (intro nth_equalityI)
        (auto simp: commands_from_def locations_from_def mem_command_at seg_get_command_def)
  qed
  then show ?thesis
    by (simp add: segment_run_def run_locations_def map_concat cong: map_cong)
qed

lemma ancestor_order:
  assumes "mem_wf st" "is_valid mem_ops st x" "ancestor mem_ops st y x"
  shows "(loc_segment y, loc_command y) \<le> (loc_segment x, loc_command x)"
  using assms(2,3)
proof (induction "loc_segment x" arbitrary: x rule: less_induct)
  case less
  then consider "loc_segment y = loc_segment x" "loc_command y \<le> loc_command x"
    | p where "p \<in> set (segment_priors mem_ops st x)" "ancestor mem_ops st y p"
    using mem.ancestor_split [OF assms(1), of y x] by blast
  then show ?case
  proof cases
    case (2 p)
    then show ?thesis using prior_segment_less [OF assms(1) less.prems(1) 2(1)] less.hyps [of p] by (auto simp: less_eq_prod_simp)
  qed simp
qed

lemma run_locations_sorted:
  assumes "sorted_wrt (\<lambda>a b. loc_segment a < loc_segment b) ls"
  shows "sorted_wrt (\<lambda>x y. (loc_segment x, loc_command x) < (loc_segment y, loc_command y)) (run_locations st ls)"
  using assms
proof (induction ls)
  case (Cons l ls)
  have "sorted_wrt (\<lambda>x y. (loc_segment x, loc_command x) < (loc_segment y, loc_command y)) (locations_from st l)"
    by (simp add: locations_from_def sorted_wrt_map sorted_wrt_upt)
  with Cons show ?case by (auto simp: run_locations_def sorted_wrt_append locations_from_mem)
qed (simp add: run_locations_def)

text \<open>What a requester with the sampled addresses has: the history of every sampled command.\<close>

definition known_from :: "mem_storage \<Rightarrow> address list \<Rightarrow> location \<Rightarrow> bool" where
  "known_from st has x \<longleftrightarrow> (\<exists>a \<in> set has. \<exists>h. has_address mem_ops st a h \<and> ancestor mem_ops st x h)"

lemma sorted_wrt_distinct: "sorted_wrt (\<lambda>x y. x \<noteq> y) xs \<Longrightarrow> distinct xs"
  by (induction xs) auto

lemma sort_locations:
  assumes "distinct (map loc_segment found)"
  shows "sorted_wrt (\<lambda>a b. loc_segment a < loc_segment b) (sort_key (\<lambda>l. (loc_segment l, loc_command l)) found)"
proof -
  let ?s = "sort_key (\<lambda>l. (loc_segment l, loc_command l)) found"
  have "sorted_wrt (\<lambda>a b. (loc_segment a, loc_command a) \<le> (loc_segment b, loc_command b)) ?s"
    using sorted_sort_key [of "\<lambda>l. (loc_segment l, loc_command l)" found] by (simp add: sorted_map)
  moreover have "distinct (map loc_segment ?s)"
    using assms mset_eq_imp_distinct_iff [of "map loc_segment ?s" "map loc_segment found"] by simp
  then have "sorted_wrt (\<lambda>a b. loc_segment a \<noteq> loc_segment b) ?s" by (auto simp: distinct_conv_nth sorted_wrt_iff_nth_less)
  ultimately show ?thesis by (force simp: sorted_wrt_iff_nth_less less_eq_prod_simp)
qed



end
