(* ===== verification/Sync_Demo.thy ===== *)
theory Sync_Demo
  imports Sync_Plan
begin

text \<open>
  A concrete serialisation of sync messages, to run the protocol on examples: integers as
  groups of seven bits, least significant first, lists with their length in front, and
  variants by number.
\<close>

section \<open>Codecs\<close>

type_synonym 'x codec = "('x \<Rightarrow> bytes) \<times> (bytes \<Rightarrow> ('x \<times> bytes) option)"

definition codec_ok :: "'x codec \<Rightarrow> bool" where
  "codec_ok c \<longleftrightarrow> (\<forall>x rest. snd c (fst c x @ rest) = Some (x, rest))"

fun put_varint :: "nat \<Rightarrow> bytes" where
  "put_varint n = (if n < 128 then [of_nat n] else of_nat (n mod 128 + 128) # put_varint (n div 128))"

fun get_varint :: "bytes \<Rightarrow> (nat \<times> bytes) option" where
  "get_varint [] = None"
| "get_varint (b # bs) = (if unat b < 128 then Some (unat b, bs)
     else map_option (\<lambda>(n, rest). (unat b - 128 + 128 * n, rest)) (get_varint bs))"

declare put_varint.simps [simp del]

definition nat_codec :: "nat codec" where
  "nat_codec = (put_varint, get_varint)"

lemma nat_codec_ok: "codec_ok nat_codec"
proof -
  have "get_varint (put_varint n @ rest) = Some (n, rest)" for n rest
  proof (induction n rule: less_induct)
    case (less n)
    have small: "unat (of_nat k :: u8) = k" if "k < 256" for k
      using that by (simp add: unat_of_nat take_bit_nat_eq_self)
    have "n mod 128 + 128 < 256" using mod_less_divisor [of 128 n] by simp
    then show ?case
      using less [of "n div 128"] small [of "n mod 128 + 128"] small [of n]
      by (subst put_varint.simps) (simp del: of_nat_add)
  qed
  then show ?thesis by (simp add: codec_ok_def nat_codec_def)
qed

definition pair_codec :: "'x codec \<Rightarrow> 'y codec \<Rightarrow> ('x \<times> 'y) codec" where
  "pair_codec a b = (\<lambda>(x, y). fst a x @ fst b y,
     \<lambda>bs. Option.bind (snd a bs) (\<lambda>(x, r). map_option (\<lambda>(y, r'). ((x, y), r')) (snd b r)))"

lemma pair_codec_ok: "codec_ok a \<Longrightarrow> codec_ok b \<Longrightarrow> codec_ok (pair_codec a b)"
  by (simp add: codec_ok_def pair_codec_def)

fun get_many :: "(bytes \<Rightarrow> ('x \<times> bytes) option) \<Rightarrow> nat \<Rightarrow> bytes \<Rightarrow> ('x list \<times> bytes) option" where
  "get_many d 0 bs = Some ([], bs)"
| "get_many d (Suc n) bs = Option.bind (d bs) (\<lambda>(x, r). map_option (\<lambda>(xs, r'). (x # xs, r')) (get_many d n r))"

definition list_codec :: "'x codec \<Rightarrow> 'x list codec" where
  "list_codec a = (\<lambda>xs. fst nat_codec (length xs) @ concat (map (fst a) xs),
     \<lambda>bs. Option.bind (snd nat_codec bs) (\<lambda>(n, r). get_many (snd a) n r))"

lemma list_codec_ok:
  assumes "codec_ok a"
  shows "codec_ok (list_codec a)"
proof -
  have "get_many (snd a) (length xs) (concat (map (fst a) xs) @ rest) = Some (xs, rest)" for xs rest
    using assms by (induction xs) (simp_all add: codec_ok_def)
  then show ?thesis using nat_codec_ok by (simp add: codec_ok_def list_codec_def)
qed

definition via_codec :: "('x \<Rightarrow> 'y) \<Rightarrow> ('y \<Rightarrow> 'x) \<Rightarrow> 'y codec \<Rightarrow> 'x codec" where
  "via_codec f g c = (\<lambda>x. fst c (f x), \<lambda>bs. map_option (\<lambda>(y, r). (g y, r)) (snd c bs))"

lemma via_codec_ok: "codec_ok c \<Longrightarrow> (\<And>x. g (f x) = x) \<Longrightarrow> codec_ok (via_codec f g c)"
  by (simp add: codec_ok_def via_codec_def)

section \<open>Messages\<close>

definition word_codec :: "'w::len word codec" where
  "word_codec = via_codec unat of_nat nat_codec"

lemma word_codec_ok: "codec_ok (word_codec :: 'w::len word codec)"
  unfolding word_codec_def by (rule via_codec_ok [OF nat_codec_ok]) simp

definition bytes_codec :: "bytes codec" where
  "bytes_codec = list_codec word_codec"

definition address_codec :: "address codec" where
  "address_codec = via_codec (\<lambda>a. (addr_id a, addr_max_cut a)) (\<lambda>(i, m). \<lparr>addr_id = i, addr_max_cut = m\<rparr>)
     (pair_codec bytes_codec nat_codec)"

definition priority_codec :: "priority codec" where
  "priority_codec = via_codec
     (\<lambda>p. case p of PrioMerge \<Rightarrow> (0, 0) | PrioBasic n \<Rightarrow> (1, n) | PrioFinalize \<Rightarrow> (2, 0) | PrioInit \<Rightarrow> (3, 0))
     (\<lambda>(t, n). if t = 0 then PrioMerge else if t = 1 then PrioBasic n else if t = 2 then PrioFinalize else PrioInit)
     (pair_codec nat_codec word_codec)"

definition prior_codec :: "address prior codec" where
  "prior_codec = via_codec prior_list (\<lambda>ls. case ls of [] \<Rightarrow> PNone | [a] \<Rightarrow> PSingle a | a # b # _ \<Rightarrow> PMerge a b) (list_codec address_codec)"

definition meta_codec :: "command_meta codec" where
  "meta_codec = via_codec
     (\<lambda>m. (cm_id m, cm_priority m, cm_parent m, cm_policy_length m, cm_length m, cm_max_cut m))
     (\<lambda>(i, p, pa, pl, l, mc). \<lparr>cm_id = i, cm_priority = p, cm_parent = pa, cm_policy_length = pl, cm_length = l, cm_max_cut = mc\<rparr>)
     (pair_codec bytes_codec (pair_codec priority_codec (pair_codec prior_codec
       (pair_codec word_codec (pair_codec word_codec nat_codec)))))"

definition response_codec :: "sync_response codec" where
  "response_codec = via_codec
     (\<lambda>m. case m of
        SyncResponse i n ms \<Rightarrow> (0, i, n, ms, [])
      | SyncEnd i n b \<Rightarrow> (if b then 1 else 2, i, n, [], [])
      | SyncOffer i h \<Rightarrow> (3, i, 0, [], h)
      | RespEndSession i \<Rightarrow> (4, i, 0, [], []))
     (\<lambda>(t, i, n, ms, h). if t = 0 then SyncResponse i n ms else if t = 1 then SyncEnd i n True
        else if t = 2 then SyncEnd i n False else if t = 3 then SyncOffer i h else RespEndSession i)
     (pair_codec nat_codec (pair_codec word_codec (pair_codec nat_codec (pair_codec (list_codec meta_codec) bytes_codec))))"

definition demo_postcard :: "unit postcard" where
  "demo_postcard = \<lparr>pc_type = (\<lambda>_. []), pc_response = fst response_codec, pc_take_response = snd response_codec\<rparr>"

lemma demo_postcard_ok: "postcard_ok demo_postcard"
proof -
  have bytes: "codec_ok bytes_codec" unfolding bytes_codec_def by (intro list_codec_ok word_codec_ok)
  have address: "codec_ok address_codec"
    unfolding address_codec_def by (intro via_codec_ok pair_codec_ok bytes nat_codec_ok) simp
  have priority: "codec_ok priority_codec"
    unfolding priority_codec_def by (intro via_codec_ok pair_codec_ok nat_codec_ok word_codec_ok) (simp split: priority.split)
  have prior: "codec_ok prior_codec"
    unfolding prior_codec_def
  proof (intro via_codec_ok list_codec_ok address)
    show "(case prior_list x of [] \<Rightarrow> PNone | [a] \<Rightarrow> PSingle a | a # b # _ \<Rightarrow> PMerge a b) = x" for x :: "address prior" by (cases x) simp_all
  qed
  have meta: "codec_ok meta_codec"
    unfolding meta_codec_def by (intro via_codec_ok pair_codec_ok bytes priority prior word_codec_ok nat_codec_ok) simp
  have "codec_ok response_codec"
    unfolding response_codec_def
    by (intro via_codec_ok pair_codec_ok list_codec_ok bytes meta word_codec_ok nat_codec_ok) (simp split: sync_response.split)
  then show ?thesis by (simp add: postcard_ok_def demo_postcard_def codec_ok_def)
qed

section \<open>Examples\<close>

definition demo_responder :: "location list \<Rightarrow> unit responder" where
  "demo_responder ls = (responder_new () [])\<lparr>rs_session_id := Some 5, rs_storage_id := Some [1], rs_state := RsSend, rs_to_send := ls\<rparr>"

definition demo_requester :: "unit requester" where
  "demo_requester = (requester_new [1] 5 ())\<lparr>rq_state := RqStart\<rparr>"

lemma demo_ahead_mem_wf: "mem_wf demo_ahead"
  using system_runs_wf [OF demo_ahead_run demo_graph_wf] by (simp add: system_wf_def)


text \<open>A plan of 101 segments of one command each, one more than a message takes.\<close>

definition busy_responder :: "unit responder" where
  "busy_responder = demo_responder (replicate 101 (location_new 0 0))"

lemma busy_sending:
  "sending [([1], demo_ahead)] busy_responder demo_ahead"
  unfolding sending_def
proof (intro conjI demo_ahead_mem_wf)
  show "\<exists>g. rs_storage_id busy_responder = Some g \<and> bt_get [([1], demo_ahead)] g = Some demo_ahead"
    by (simp add: busy_responder_def demo_responder_def)
  have "is_valid mem_ops demo_ahead (location_new 0 0)" by code_simp
  then show "\<forall>l \<in> set (rs_to_send busy_responder). is_valid mem_ops demo_ahead l"
    by (simp add: busy_responder_def demo_responder_def)
qed

lemma next_message_Ok:
  assumes "map_option (\<lambda>(x, r'). (is_ok x, rs_next_send r')) (get_next demo_postcard 3000 [([1], demo_ahead)] r) = Some (True, n)"
  shows "\<exists>b r'. get_next demo_postcard 3000 [([1], demo_ahead)] r = Some (Ok b, r') \<and> rs_next_send r' = n"
  using assms by (auto elim!: is_ok.elims)

lemma busy_first:
  "map_option (\<lambda>(x, r'). (is_ok x, rs_next_send r')) (get_next demo_postcard 3000 [([1], demo_ahead)] busy_responder) = Some (True, 100)"
  by code_simp

lemma busy_second:
  "map_option (\<lambda>(x, r'). (is_ok x, rs_next_send r')) (get_next demo_postcard 3000 [([1], demo_ahead)] (busy_responder\<lparr>rs_next_send := 100\<rparr>)) = Some (True, 101)"
  by code_simp

theorem second_response_rejected_witness:
  "\<exists>b r1 b2 r2 cs q1 q2. get_next demo_postcard 3000 [([1], demo_ahead)] busy_responder = Some (Ok b, r1) \<and>
     get_next demo_postcard 3000 [([1], demo_ahead)] r1 = Some (Ok b2, r2) \<and>
     requester_receive demo_postcard b demo_requester = Some (Ok (Some cs), q1) \<and>
     requester_receive demo_postcard b2 q1 = Some (Err MissingSyncResponse, q2) \<and>
     responder_receive (SyncResume 5 0 0) r2 = Some (Panic ''not yet implemented'', r2)"
proof -
  obtain b r1 where first: "get_next demo_postcard 3000 [([1], demo_ahead)] busy_responder = Some (Ok b, r1)" "rs_next_send r1 = 100"
    using next_message_Ok [OF busy_first] by blast
  have fields: "rs_next_send busy_responder = 0" "length (rs_to_send busy_responder) = 101" "rs_session_id busy_responder = Some 5"
    "rq_session_id demo_requester = 5" "rq_state demo_requester = RqStart" "rq_next_index demo_requester = 0" "rq_max_bytes demo_requester = 0"
    by (simp_all add: busy_responder_def demo_responder_def responder_new_def demo_requester_def requester_new_def)
  note spec = get_next_spec [OF busy_sending _ first(1)]
  have r1: "r1 = busy_responder\<lparr>rs_next_send := 100\<rparr>" and sent: "segments_sent demo_ahead (rs_to_send busy_responder) = 100"
    using spec(2) first(2) fields by auto
  obtain b2 r2 where second: "get_next demo_postcard 3000 [([1], demo_ahead)] r1 = Some (Ok b2, r2)"
    using next_message_Ok [OF busy_second] r1 by blast
  show ?thesis
    using second_response_rejected [OF demo_postcard_ok busy_sending _ first(1), where q = demo_requester] second fields sent r1 first(1)
    by (force simp: usize_limit_def)
qed

theorem short_response_panics_witness:
  "get_sync_commands (SyncResponse 5 0 [\<lparr>cm_id = [1], cm_priority = PrioInit, cm_parent = PNone, cm_policy_length = 0, cm_length = 9, cm_max_cut = 0\<rparr>])
     [1, 2] demo_requester =
    Some (Panic ''range end index out of range for slice'', demo_requester\<lparr>rq_next_index := 1, rq_state := RqWaiting\<rparr>)"
  using short_response_panics [of demo_requester "[\<lparr>cm_id = [1], cm_priority = PrioInit, cm_parent = PNone, cm_policy_length = 0, cm_length = 9, cm_max_cut = 0\<rparr>]" "[1, 2]"]
  by (simp add: demo_requester_def requester_new_def usize_limit_def command_sample_max_def declared_length_def)

end
