(* ===== verification/Session.thy ===== *)
theory Session
  imports Client_State
begin

text \<open>
  Ephemeral sessions (\<open>aranya-runtime/src/client/session.rs\<close>): commands that are evaluated
  on top of the facts at the head of a graph without becoming part of it. The facts of a
  session are kept as a log and as a map over the facts of the graph; prefix queries
  merge the two in key order.
\<close>

section \<open>State\<close>

record session =
  se_storage_id :: command_id
  se_policy_id :: policy_id
  se_base_facts :: mem_fact_index
  se_fact_log :: "fact_update list"
  se_current_facts :: named_fact_map
  se_head :: address

definition session_new :: "mem_storage_provider \<Rightarrow> command_id \<Rightarrow> (session, client_error) result" where
  "session_new provider storage_id =
     rbind (map_err StorageErr (get_storage provider storage_id)) (\<lambda>st.
     rbind (map_err StorageErr (mem_get_head st)) (\<lambda>head_loc.
     rbind (map_err StorageErr (mem_get_segment st head_loc)) (\<lambda>seg.
     rbind (ok_or (ClientBug ''location must exist'') (seg_get_command seg head_loc)) (\<lambda>command.
     Ok \<lparr>se_storage_id = storage_id, se_policy_id = seg_policy seg, se_base_facts = seg_facts seg, se_fact_log = [],
         se_current_facts = [], se_head = stored_address command\<rparr>))))"

section \<open>Commands\<close>

record session_command =
  sn_storage_id :: command_id
  sn_priority :: u32
  sn_id :: command_id
  sn_parent :: address
  sn_data :: bytes

text \<open>The implementation of the trait \<open>Command\<close>.\<close>

definition session_command_command :: "session_command \<Rightarrow> command" where
  "session_command_command c = \<lparr>cmd_priority = PrioBasic (sn_priority c), cmd_id = sn_id c,
     cmd_parent = PSingle (sn_parent c), cmd_policy = None, cmd_bytes = sn_data c\<rparr>"

definition session_from_cmd :: "command_id \<Rightarrow> command \<Rightarrow> (session_command, string) result" where
  "session_from_cmd storage_id c =
     (if cmd_policy c \<noteq> None then Err ''session command should have no policy''
      else case cmd_priority c of
        PrioBasic p \<Rightarrow> (case cmd_parent c of
            PSingle parent \<Rightarrow> Ok \<lparr>sn_storage_id = storage_id, sn_priority = p, sn_id = cmd_id c, sn_parent = parent,
              sn_data = cmd_bytes c\<rparr>
          | _ \<Rightarrow> Err ''wrong command type'')
      | _ \<Rightarrow> Err ''wrong command type'')"

text \<open>The \<open>postcard\<close> serialisation of session commands is a parameter.\<close>

record session_postcard =
  spc_to_vec :: "session_command \<Rightarrow> bytes option"
  spc_of_vec :: "bytes \<Rightarrow> session_command option"

section \<open>Queries\<close>

text \<open>
  \<open>QueryIterator\<close>, by the items it yields: entries of the session override the facts of
  the graph under the same key, deleted ones are skipped, and errors come out at once.
\<close>

fun merge_facts :: "(stored_fact, storage_error) result list \<Rightarrow> (keys \<times> bytes option) list \<Rightarrow> (stored_fact, storage_error) result list" where
  "merge_facts prior [] = prior"
| "merge_facts [] ((k, v) # current) =
     (case v of Some b \<Rightarrow> [Ok \<lparr>sf_key = k, sf_value = b\<rparr>] | None \<Rightarrow> []) @ merge_facts [] current"
| "merge_facts (Ok old # prior) ((k, v) # current) =
     (if k > sf_key old then Ok old # merge_facts prior ((k, v) # current)
      else (case v of Some b \<Rightarrow> [Ok \<lparr>sf_key = k, sf_value = b\<rparr>] | None \<Rightarrow> []) @
        merge_facts (if k = sf_key old then prior else Ok old # prior) current)"
| "merge_facts (e # prior) ((k, v) # current) = e # merge_facts prior ((k, v) # current)"

definition session_query :: "session \<Rightarrow> string \<Rightarrow> keys \<Rightarrow> bytes option" where
  "session_query s n k = (case named_get (se_current_facts s) n k of
      Some slot \<Rightarrow> slot
    | None \<Rightarrow> mfi_query (se_base_facts s) n k)"

definition session_query_prefix :: "session \<Rightarrow> string \<Rightarrow> keys \<Rightarrow> (stored_fact, storage_error) result list" where
  "session_query_prefix s n p = merge_facts (map Ok (mfi_query_prefix (se_base_facts s) n p))
     (case bt_get (se_current_facts s) n of Some facts \<Rightarrow> find_prefixes facts p | None \<Rightarrow> [])"

section \<open>Changes\<close>

definition session_insert :: "string \<Rightarrow> keys \<Rightarrow> bytes \<Rightarrow> session \<Rightarrow> session" where
  "session_insert n k v s = s\<lparr>se_fact_log := se_fact_log s @ [(n, k, Some v)],
     se_current_facts := named_insert n k (Some v) (se_current_facts s)\<rparr>"

definition session_delete :: "string \<Rightarrow> keys \<Rightarrow> session \<Rightarrow> session" where
  "session_delete n k s = s\<lparr>se_fact_log := se_fact_log s @ [(n, k, None)],
     se_current_facts := named_insert n k None (se_current_facts s)\<rparr>"

text \<open>A session with the sink its messages go to.\<close>

definition session_add_command :: "session_postcard \<Rightarrow> command \<Rightarrow> (session \<times> bytes sink_event list, nat, storage_error) prog" where
  "session_add_command pc c =
     pbind (\<lambda>(s, ms). (map_err StorageBug (session_from_cmd (se_storage_id s) c), s, ms)) (\<lambda>command.
     pbind (plift (map_err StorageBug (command_address (session_command_command command)))) (\<lambda>address.
     pbind (pmodify (\<lambda>(s, ms). (s\<lparr>se_head := address\<rparr>, ms))) (\<lambda>_.
     pbind (plift (ok_or (StorageBug ''serialize session command'') (spc_to_vec pc command))) (\<lambda>bytes.
     pbind (pmodify (\<lambda>(s, ms). (s, ms @ [SinkConsume bytes]))) (\<lambda>_.
     preturn 0)))))"

definition session_head_address :: "session \<Rightarrow> (address prior, string) result" where
  "session_head_address s = Ok (PSingle (se_head s))"

definition session_checkpoint :: "session \<Rightarrow> nat" where
  "session_checkpoint s = length (se_fact_log s)"

definition session_replay :: "fact_update list \<Rightarrow> named_fact_map" where
  "session_replay log = fold (\<lambda>(n, k, v). named_insert n k v) log []"

definition session_revert :: "nat \<Rightarrow> (session, unit, string) prog" where
  "session_revert index = (\<lambda>s.
     if index = length (se_fact_log s) then (Ok (), s)
     else if index > length (se_fact_log s) then
       (Err ''A checkpoint's index should always be less than or equal to the length of a session's fact log!'', s)
     else let log = take index (se_fact_log s) in
       (Ok (), s\<lparr>se_fact_log := log, se_current_facts := session_replay log\<rparr>))"

section \<open>Actions and commands\<close>

text \<open>
  A session between its two sinks. As for the graph, an action is given by its outcome,
  what it does to the perspective, and its effects.
\<close>

record 'eff session_state =
  ss_session :: session
  ss_messages :: "bytes sink_event list"
  ss_effects :: "'eff sink_event list"

type_synonym ('eff, 'a) session_prog = "('eff session_state, 'a, client_error) prog"

type_synonym ('pol, 'eff) session_action =
  "'pol \<Rightarrow> session \<Rightarrow> (unit, engine_error) result \<times> perspective_op list \<times> 'eff list"

fun session_op :: "session_postcard \<Rightarrow> perspective_op \<Rightarrow> session \<times> bytes sink_event list \<Rightarrow> session \<times> bytes sink_event list" where
  "session_op pc (OpInsert n k v) (s, ms) = (session_insert n k v s, ms)"
| "session_op pc (OpDelete n k) (s, ms) = (session_delete n k s, ms)"
| "session_op pc (OpAdd c) (s, ms) = snd (session_add_command pc c (s, ms))"

definition on_session :: "(session \<times> bytes sink_event list \<Rightarrow> session \<times> bytes sink_event list) \<Rightarrow> ('eff, unit) session_prog" where
  "on_session f = pmodify (\<lambda>t. case f (ss_session t, ss_messages t) of (s, ms) \<Rightarrow> t\<lparr>ss_session := s, ss_messages := ms\<rparr>)"

definition tell_effects :: "'eff sink_event list \<Rightarrow> ('eff, unit) session_prog" where
  "tell_effects es = pmodify (\<lambda>t. t\<lparr>ss_effects := ss_effects t @ es\<rparr>)"

definition revert_to :: "nat \<Rightarrow> ('eff, unit) session_prog" where
  "revert_to index = (\<lambda>t. case session_revert index (ss_session t) of
      (r, s) \<Rightarrow> (map_err ClientBug r, t\<lparr>ss_session := s\<rparr>))"

definition session_policy :: "('e, 'pol, 'eff) engine_ops \<Rightarrow> 'e \<Rightarrow> ('eff, 'pol) session_prog" where
  "session_policy eng e = (\<lambda>t. (map_err client_error_of_engine (eo_get_policy eng e (se_policy_id (ss_session t))), t))"

definition session_perform :: "('e, 'pol, 'eff) engine_ops \<Rightarrow> session_postcard \<Rightarrow> 'e \<Rightarrow> ('pol, 'eff) session_action \<Rightarrow> ('eff, unit) session_prog" where
  "session_perform eng pc e act =
     pbind (session_policy eng e) (\<lambda>policy.
     pbind (pgets (\<lambda>t. session_checkpoint (ss_session t))) (\<lambda>checkpoint.
     pbind (tell_effects [SinkBegin]) (\<lambda>_.
     pbind (pgets (\<lambda>t. act policy (ss_session t))) (\<lambda>(r, os, effs).
     pbind (on_session (fold (session_op pc) os)) (\<lambda>_.
     pbind (tell_effects (map SinkConsume effs)) (\<lambda>_.
     case r of
       Ok _ \<Rightarrow> tell_effects [SinkCommit]
     | Err er \<Rightarrow>
         pbind (revert_to checkpoint) (\<lambda>_.
         pbind (on_session (\<lambda>(s, ms). (s, ms @ [SinkRollback]))) (\<lambda>_.
         pbind (tell_effects [SinkRollback]) (\<lambda>_.
         pfail (client_error_of_engine er))))
     | Panic m \<Rightarrow> ppanic m))))))"

definition session_receive :: "('e, 'pol, 'eff) engine_ops \<Rightarrow> session_postcard \<Rightarrow> 'e \<Rightarrow> bytes \<Rightarrow> ('eff, unit) session_prog" where
  "session_receive eng pc e command_bytes =
     pbind (plift (ok_or SessionDeserialize (spc_of_vec pc command_bytes))) (\<lambda>command.
     pbind (pgets (\<lambda>t. se_storage_id (ss_session t))) (\<lambda>sid.
     if sn_storage_id command \<noteq> sid then pfail (ClientBug ''ephemeral commands must be run on the same graph'')
     else
       pbind (session_policy eng e) (\<lambda>policy.
       pbind (tell_effects [SinkBegin]) (\<lambda>_.
       pbind (pgets (\<lambda>t. session_checkpoint (ss_session t))) (\<lambda>checkpoint.
       pbind (pgets (\<lambda>t. po_call_rule eng policy (session_command_command command) RecallNone (session_query (ss_session t)))) (\<lambda>(r, us, effs).
       pbind (on_session (fold (session_op pc) (map update_op us))) (\<lambda>_.
       pbind (tell_effects (map SinkConsume effs)) (\<lambda>_.
       case r of
         Ok _ \<Rightarrow> tell_effects [SinkCommit]
       | Err er \<Rightarrow>
           pbind (revert_to checkpoint) (\<lambda>_.
           pbind (tell_effects [SinkRollback]) (\<lambda>_.
           pfail (client_error_of_engine er)))
       | Panic m \<Rightarrow> ppanic m))))))))"

end
