(* ===== verification/Session_Spec.thy ===== *)
theory Session_Spec
  imports Session Transaction_Spec
begin

text \<open>
  The facts of a session are a fact store of their own: the merging iterator lists what
  exact queries find. Failed actions and commands leave the facts as they were.
\<close>

section \<open>The merging iterator\<close>

text \<open>The iterator on facts that were read without error.\<close>

fun merge_live :: "stored_fact list \<Rightarrow> (keys \<times> bytes option) list \<Rightarrow> stored_fact list" where
  "merge_live prior [] = prior"
| "merge_live [] ((k, v) # current) = live_facts [(k, v)] @ merge_live [] current"
| "merge_live (old # prior) ((k, v) # current) =
     (if k > sf_key old then old # merge_live prior ((k, v) # current)
      else live_facts [(k, v)] @ merge_live (if k = sf_key old then prior else old # prior) current)"

lemma slot_facts: "(case v of Some b \<Rightarrow> [Ok \<lparr>sf_key = k, sf_value = b\<rparr>] | None \<Rightarrow> []) = map Ok (live_facts [(k, v)])"
  by (cases v) simp_all

lemma merge_facts_live: "merge_facts (map Ok prior) current = map Ok (merge_live prior current)"
  by (induction prior current rule: merge_live.induct) (auto simp: slot_facts)

lemma merge_live_keys: "f \<in> set (merge_live prior current) \<Longrightarrow> f \<in> set prior \<or> (sf_key f, Some (sf_value f)) \<in> set current"
proof (induction prior current rule: merge_live.induct)
  case (2 k v current)
  then show ?case by (cases v) auto
next
  case (3 old prior k v current)
  then show ?case by (cases v) (auto split: if_splits)
qed simp

lemma merge_live_sorted:
  assumes "sorted_wrt (<) (map sf_key prior)" "bt_wf current"
  shows "sorted_wrt (<) (map sf_key (merge_live prior current))"
  using assms
proof (induction prior current rule: merge_live.induct)
  case (2 k v current)
  then show ?case
    using merge_live_keys [of _ "[]" current] by (cases v) (fastforce simp: bt_wf_Cons)+
next
  case (3 old prior k v current)
  consider "k > sf_key old" | "k = sf_key old" | "k < sf_key old" by fastforce
  then show ?case
  proof cases
    case 1
    then show ?thesis
      using 3 merge_live_keys [of _ prior "(k, v) # current"] by (fastforce simp: bt_wf_Cons)
  next
    case 2
    then show ?thesis
      using 3 merge_live_keys [of _ prior current] by (cases v) (fastforce simp: bt_wf_Cons)+
  next
    case less: 3
    then show ?thesis
      using 3 merge_live_keys [of _ "old # prior" current] by (cases v) (fastforce simp: bt_wf_Cons)+
  qed
qed simp

lemma bt_get_below: "bt_wf m \<Longrightarrow> (\<And>k v. (k, v) \<in> set m \<Longrightarrow> j < k) \<Longrightarrow> bt_get m j = None"
  using bt_get_iff_mem [of m j] by (cases "bt_get m j") auto

lemma merge_live_mem:
  assumes "sorted_wrt (<) (map sf_key prior)" "bt_wf current"
  shows "\<lparr>sf_key = j, sf_value = b\<rparr> \<in> set (merge_live prior current) \<longleftrightarrow>
    (case bt_get current j of Some slot \<Rightarrow> slot = Some b | None \<Rightarrow> \<lparr>sf_key = j, sf_value = b\<rparr> \<in> set prior)"
  using assms
proof (induction prior current rule: merge_live.induct)
  case (2 k v current)
  have "bt_get current k = None" using 2(3) by (intro bt_get_below) (auto simp: bt_wf_Cons)
  with 2 show ?case by (cases v) (auto simp: bt_wf_Cons split: option.splits)
next
  case (3 old prior k v current)
  have k: "bt_get current k = None" using 3(4) by (intro bt_get_below) (auto simp: bt_wf_Cons)
  consider "k > sf_key old" | "k = sf_key old" | "k < sf_key old" by fastforce
  then show ?case
  proof cases
    case 1
    then have "bt_get ((k, v) # current) (sf_key old) = None"
      using 3(4) by (intro bt_get_below) (auto simp: bt_wf_Cons dest: less_trans)
    with 1 3 show ?thesis by (cases "\<lparr>sf_key = j, sf_value = b\<rparr> = old") (auto split: option.splits)
  next
    case 2
    then have "\<lparr>sf_key = k, sf_value = b\<rparr> \<notin> set prior" using 3(3) by auto
    with 2 3 k show ?thesis by (cases v) (auto simp: bt_wf_Cons split: option.splits)
  next
    case less: 3
    then have "\<lparr>sf_key = k, sf_value = b\<rparr> \<notin> set (old # prior)" using 3(3) by auto
    with less 3 k show ?thesis by (cases v) (auto simp: bt_wf_Cons split: option.splits)
  qed
qed simp

section \<open>A session as a fact store\<close>

lemma find_prefixes_wf: "bt_wf m \<Longrightarrow> bt_wf (find_prefixes m p)"
  by (simp add: find_prefixes_filter bt_wf_def sorted_wrt_map sorted_wrt_filter)

text \<open>The map of a session is its log, replayed.\<close>

definition session_wf :: "session \<Rightarrow> bool" where
  "session_wf s \<longleftrightarrow> mfi_wf (se_base_facts s) \<and> se_current_facts s = session_replay (se_fact_log s)"

definition ok_values :: "('a, 'e) result list \<Rightarrow> 'a list" where
  "ok_values rs = List.map_filter (\<lambda>r. case r of Ok a \<Rightarrow> Some a | _ \<Rightarrow> None) rs"

definition session_facts :: "session \<Rightarrow> string \<Rightarrow> keys \<Rightarrow> stored_fact list" where
  "session_facts s n p = ok_values (session_query_prefix s n p)"

lemma ok_values_map [simp]: "ok_values (map Ok xs) = xs"
  by (induction xs) (simp_all add: ok_values_def map_filter_simps)

lemma session_replay_wf: "named_wf (session_replay log)"
proof -
  have "named_wf m \<Longrightarrow> named_wf (fold (\<lambda>(n, k, v). named_insert n k v) log m)" for m
    by (induction log arbitrary: m) auto
  then show ?thesis by (simp add: session_replay_def)
qed

lemma session_replay_snoc: "session_replay (log @ [(n, k, v)]) = named_insert n k v (session_replay log)"
  by (simp add: session_replay_def)

lemma session_current_wf: "session_wf s \<Longrightarrow> named_wf (se_current_facts s)"
  by (simp add: session_wf_def session_replay_wf)

lemma session_prefix_live:
  "session_query_prefix s n p = map Ok (merge_live (mfi_query_prefix (se_base_facts s) n p)
     (case bt_get (se_current_facts s) n of Some facts \<Rightarrow> find_prefixes facts p | None \<Rightarrow> []))"
  by (simp add: session_query_prefix_def merge_facts_live)

interpretation se: fact_store session_wf session_query session_facts session_insert session_delete
proof
  fix s n p
  assume wf: "session_wf s"
  then have base: "mfi_wf (se_base_facts s)" by (simp add: session_wf_def)
  define cur where "cur = (case bt_get (se_current_facts s) n of Some facts \<Rightarrow> find_prefixes facts p | None \<Rightarrow> [])"
  have cur: "bt_wf cur" "bt_get cur k = (if keys_start_with k p then named_get (se_current_facts s) n k else None)" for k
    unfolding cur_def using session_current_wf [OF wf] find_prefixes_wf map_of_find_prefixes
    by (auto simp: named_wf_def named_get_def bt_get_map_of split: option.splits)
  note prior = mfi.prefix_sorted [OF base, of n p]
  show "sorted_wrt (<) (map sf_key (session_facts s n p))"
    using merge_live_sorted [OF prior cur(1)] by (simp add: session_facts_def session_prefix_live cur_def)
  show "\<lparr>sf_key = k, sf_value = v\<rparr> \<in> set (session_facts s n p) \<longleftrightarrow> session_query s n k = Some v \<and> keys_start_with k p" for k v
    using merge_live_mem [OF prior cur(1), of k v] cur(2) [of k] mfi.prefix_exact [OF base, of k v n p]
    by (auto simp: session_facts_def session_prefix_live session_query_def simp flip: cur_def split: option.splits if_splits)
qed (auto simp: session_wf_def session_insert_def session_delete_def session_replay_snoc session_query_def split: option.splits)

section \<open>Failures\<close>

text \<open>Everything of a session but its head.\<close>

definition session_data :: "session \<Rightarrow> command_id \<times> policy_id \<times> mem_fact_index \<times> fact_update list \<times> named_fact_map" where
  "session_data s = (se_storage_id s, se_policy_id s, se_base_facts s, se_fact_log s, se_current_facts s)"

definition session_grows :: "session \<Rightarrow> session \<Rightarrow> bool" where
  "session_grows s s' \<longleftrightarrow> (\<exists>log. se_fact_log s' = se_fact_log s @ log) \<and> se_storage_id s' = se_storage_id s \<and>
     se_policy_id s' = se_policy_id s \<and> se_base_facts s' = se_base_facts s"

lemma session_add_data: "session_data (fst (snd (session_add_command pc c (s, ms)))) = session_data s"
  by (simp add: session_add_command_def pbind_def plift_def pmodify_def preturn_def session_data_def split: result.splits)

lemma session_op_grows: "session_grows s (fst (session_op pc op (s, ms)))"
proof (cases op)
  case (OpAdd c)
  then show ?thesis using session_add_data [of pc c s ms] by (simp add: session_grows_def session_data_def)
qed (simp_all add: session_grows_def session_insert_def session_delete_def)

lemma session_grows_trans: "session_grows s t \<Longrightarrow> session_grows t u \<Longrightarrow> session_grows s u"
  by (auto simp: session_grows_def)

lemma session_ops_grow: "session_grows s (fst (fold (session_op pc) os (s, ms)))"
proof (induction os arbitrary: s ms)
  case (Cons op os)
  obtain t ns where t: "session_op pc op (s, ms) = (t, ns)" by (cases "session_op pc op (s, ms)")
  then have "session_grows s t" using session_op_grows [of s pc op ms] by simp
  with Cons [of t ns] t show ?case by (auto intro: session_grows_trans)
qed (simp add: session_grows_def)

lemma session_op_wf: "session_wf s \<Longrightarrow> session_wf (fst (session_op pc op (s, ms)))"
proof (cases op)
  case (OpAdd c)
  moreover assume "session_wf s"
  ultimately show ?thesis using session_add_data [of pc c s ms] by (simp add: session_wf_def session_data_def)
qed (simp_all add: se.wf_insert se.wf_delete)

lemma session_ops_wf: "session_wf s \<Longrightarrow> session_wf (fst (fold (session_op pc) os (s, ms)))"
proof (induction os arbitrary: s ms)
  case (Cons op os)
  obtain t ns where t: "session_op pc op (s, ms) = (t, ns)" by (cases "session_op pc op (s, ms)")
  then show ?case using Cons session_op_wf [of s pc op ms] by simp
qed simp

lemma session_updates_head:
  "se_head (fst (fold (session_op pc) (map update_op us) (s, ms))) = se_head s \<and> snd (fold (session_op pc) (map update_op us) (s, ms)) = ms"
proof (induction us arbitrary: s)
  case (Cons u us)
  then show ?case by (cases u rule: update_op.cases) (simp_all add: session_insert_def session_delete_def)
qed simp

lemma session_revert_grown:
  assumes "session_wf s" "session_wf t" "session_grows s t"
  shows "\<exists>u. session_revert (session_checkpoint s) t = (Ok (), u) \<and> session_data u = session_data s \<and> se_head u = se_head t"
proof -
  obtain log where "se_fact_log t = se_fact_log s @ log" using assms(3) by (auto simp: session_grows_def)
  with assms show ?thesis
    by (cases "log = []") (auto simp: session_revert_def session_checkpoint_def session_grows_def session_data_def session_wf_def Let_def)
qed

lemma session_data_head: "session_data s = session_data t \<Longrightarrow> se_head s = se_head t \<Longrightarrow> s = t"
  by (cases s; cases t) (simp add: session_data_def)

text \<open>Reverting after a failure.\<close>

lemma revert_after:
  assumes "session_wf (ss_session t)" "ss_session u = fst (fold (session_op pc) os (ss_session t, ms))"
  shows "\<exists>s. revert_to (session_checkpoint (ss_session t)) u = (Ok (), u\<lparr>ss_session := s\<rparr>) \<and>
    session_data s = session_data (ss_session t) \<and> se_head s = se_head (ss_session u)"
proof -
  obtain s where "session_revert (session_checkpoint (ss_session t)) (ss_session u) = (Ok (), s)"
      "session_data s = session_data (ss_session t)" "se_head s = se_head (ss_session u)"
    using session_revert_grown [OF assms(1) session_ops_wf [OF assms(1)] session_ops_grow] assms(2) by metis
  then show ?thesis by (auto simp: revert_to_def)
qed

lemmas session_defs = session_policy_def on_session_def tell_effects_def pbind_def pgets_def pmodify_def pfail_def ppanic_def plift_def preturn_def

text \<open>
  C33. A prefix query on a session lists exactly the facts that exact queries find under
  the prefix, in key order and without errors: those of the session, and those of the
  graph that the session has neither replaced nor deleted.
\<close>

theorem session_prefix_query:
  assumes "session_wf s"
  shows "session_query_prefix s n p = map Ok (state_prefix (session_query s) n p) \<and>
    session_query s n k = (case named_get (se_current_facts s) n k of Some slot \<Rightarrow> slot | None \<Rightarrow> mfi_query (se_base_facts s) n k)"
  using se.prefix_state [OF assms, of n p]
  by (simp add: session_facts_def session_prefix_live session_query_def)

definition demo_session :: session where
  "demo_session = session_delete ''F'' [[1]] (session_insert ''F'' [[1], [3]] [13]
     \<lparr>se_storage_id = [1], se_policy_id = 0, se_base_facts = demo_index, se_fact_log = [], se_current_facts = [],
      se_head = \<lparr>addr_id = [1], addr_max_cut = 0\<rparr>\<rparr>)"

lemma demo_session_wf: "session_wf demo_session"
  unfolding demo_session_def
  by (intro se.wf_insert se.wf_delete) (simp add: session_wf_def session_replay_def demo_index_def named_wf_def bt_wf_def)

theorem session_prefix_query_witness:
  "session_query_prefix demo_session ''F'' [[1]] = [Ok \<lparr>sf_key = [[1], [2]], sf_value = [20]\<rparr>, Ok \<lparr>sf_key = [[1], [3]], sf_value = [13]\<rparr>] \<and>
   map Ok (state_prefix (session_query demo_session) ''F'' [[1]]) = ([Ok \<lparr>sf_key = [[1], [2]], sf_value = [20]\<rparr>, Ok \<lparr>sf_key = [[1], [3]], sf_value = [13]\<rparr>] :: (stored_fact, storage_error) result list)"
proof -
  have "session_query_prefix demo_session ''F'' [[1]] = [Ok \<lparr>sf_key = [[1], [2]], sf_value = [20]\<rparr>, Ok \<lparr>sf_key = [[1], [3]], sf_value = [13]\<rparr>]" by code_simp
  with session_prefix_query [OF demo_session_wf, of "''F''" "[[1]]"] show ?thesis by simp
qed

text \<open>The end of a failed call, with the state \<open>u\<close> that the policy left.\<close>

definition rolled_back :: "'eff session_state \<Rightarrow> 'eff session_state \<Rightarrow> bool" where
  "rolled_back t t' \<longleftrightarrow> session_data (ss_session t') = session_data (ss_session t) \<and>
     (ss_effects t' = ss_effects t \<or> (\<exists>effs. ss_effects t' = ss_effects t @ SinkBegin # map SinkConsume effs @ [SinkRollback]))"

lemma rolled_back_session:
  "rolled_back t t' \<Longrightarrow> se_head (ss_session t') = se_head (ss_session t) \<Longrightarrow> ss_session t' = ss_session t"
  unfolding rolled_back_def by (blast intro: session_data_head)

lemma receive_failed:
  assumes "session_wf (ss_session t)" "session_receive eng pc e bs t = (Err er, t')"
  shows "rolled_back t t' \<and> se_head (ss_session t') = se_head (ss_session t) \<and> ss_messages t' = ss_messages t"
proof (cases "t' = t")
  case False
  obtain command where c: "spc_of_vec pc bs = Some command" "sn_storage_id command = se_storage_id (ss_session t)"
    using assms(2) False
    by (cases "spc_of_vec pc bs") (auto simp: session_receive_def session_defs split: if_splits)
  obtain pol where pol: "eo_get_policy eng e (se_policy_id (ss_session t)) = Ok pol"
    using assms(2) False c
    by (cases "eo_get_policy eng e (se_policy_id (ss_session t))") (auto simp: session_receive_def session_defs)
  obtain r us effs where rule: "po_call_rule eng pol (session_command_command command) RecallNone (session_query (ss_session t)) = (r, us, effs)"
    by (cases "po_call_rule eng pol (session_command_command command) RecallNone (session_query (ss_session t))") auto
  obtain st ms where st: "fold (session_op pc) (map update_op us) (ss_session t, ss_messages t) = (st, ms)"
    by (cases "fold (session_op pc) (map update_op us) (ss_session t, ss_messages t)")
  let ?u = "t\<lparr>ss_session := st, ss_messages := ms, ss_effects := ss_effects t @ SinkBegin # map SinkConsume effs\<rparr>"
  obtain s where s: "revert_to (session_checkpoint (ss_session t)) ?u = (Ok (), ?u\<lparr>ss_session := s\<rparr>)"
      "session_data s = session_data (ss_session t)" "se_head s = se_head st"
    using revert_after [OF assms(1), of ?u pc "map update_op us" "ss_messages t"] st by auto
  have "t' = ?u\<lparr>ss_session := s, ss_effects := ss_effects ?u @ [SinkRollback]\<rparr>"
    using assms(2) c pol rule st s(1) by (cases r) (auto simp: session_receive_def session_defs)
  then show ?thesis
    using s(2,3) session_updates_head [of pc us "ss_session t" "ss_messages t"] st by (auto simp: rolled_back_def)
qed (simp add: rolled_back_def)

lemma perform_failed:
  assumes "session_wf (ss_session t)" "session_perform eng pc e act t = (Err er, t')"
  shows "rolled_back t t'"
proof (cases "t' = t")
  case False
  obtain pol where pol: "eo_get_policy eng e (se_policy_id (ss_session t)) = Ok pol"
    using assms(2) False
    by (cases "eo_get_policy eng e (se_policy_id (ss_session t))") (auto simp: session_perform_def session_defs)
  obtain r os effs where act: "act pol (ss_session t) = (r, os, effs)" by (cases "act pol (ss_session t)") auto
  obtain st ms where st: "fold (session_op pc) os (ss_session t, ss_messages t) = (st, ms)"
    by (cases "fold (session_op pc) os (ss_session t, ss_messages t)")
  let ?u = "t\<lparr>ss_session := st, ss_messages := ms, ss_effects := ss_effects t @ SinkBegin # map SinkConsume effs\<rparr>"
  obtain s where s: "revert_to (session_checkpoint (ss_session t)) ?u = (Ok (), ?u\<lparr>ss_session := s\<rparr>)"
      "session_data s = session_data (ss_session t)" "se_head s = se_head st"
    using revert_after [OF assms(1), of ?u pc os "ss_messages t"] st by auto
  have "t' = ?u\<lparr>ss_session := s, ss_messages := ms @ [SinkRollback], ss_effects := ss_effects ?u @ [SinkRollback]\<rparr>"
    using assms(2) pol act st s(1) by (cases r) (auto simp: session_perform_def session_defs)
  then show ?thesis using s(2,3) by (auto simp: rolled_back_def)
qed (simp add: rolled_back_def)

text \<open>
  C34. A failure leaves the session as it was: a received command that is refused changes
  neither facts nor head nor messages, an action that fails changes no facts, and in both
  cases the effects that were emitted are rolled back.
\<close>

theorem session_failure:
  assumes "session_wf (ss_session t)"
  shows "(\<forall>er t'. session_receive eng pc e bs t = (Err er, t') \<longrightarrow>
      rolled_back t t' \<and> ss_session t' = ss_session t \<and> ss_messages t' = ss_messages t) \<and>
    (\<forall>er t'. session_perform eng pc e act t = (Err er, t') \<longrightarrow> rolled_back t t')"
proof (intro conjI allI impI)
  fix er t' assume "session_receive eng pc e bs t = (Err er, t')"
  note failed = receive_failed [OF assms this]
  show "rolled_back t t'" "ss_messages t' = ss_messages t" using failed by blast+
  show "ss_session t' = ss_session t" using failed by (blast intro: rolled_back_session)
next
  fix er t' assume "session_perform eng pc e act t = (Err er, t')"
  then show "rolled_back t t'" by (rule perform_failed [OF assms])
qed

text \<open>The head of a session is not reverted: after a failed action it is a command that was taken back.\<close>

theorem failed_action_moves_head:
  assumes "eo_get_policy eng e (se_policy_id (ss_session t)) = Ok pol" "act pol (ss_session t) = (Err er, [OpAdd c], [])"
    "session_from_cmd (se_storage_id (ss_session t)) c = Ok sc" "command_address (session_command_command sc) = Ok a"
    "spc_to_vec pc sc = Some bs"
  shows "\<exists>t'. session_perform eng pc e act t = (Err (client_error_of_engine er), t') \<and> se_head (ss_session t') = a"
  using assms
  by (simp add: session_perform_def session_defs session_add_command_def revert_to_def session_revert_def session_checkpoint_def)

definition refusing_engine :: "(unit, unit, nat) engine_ops" where
  "refusing_engine = \<lparr>eo_add_policy = (\<lambda>e _. (Ok 0, e)), eo_get_policy = (\<lambda>_ _. Ok ()), po_serial = (\<lambda>_. 0),
     po_call_rule = (\<lambda>_ _ _ _. (Err EngineCheck, [(''F'', [[9]], Some [9])], [7])), po_merge = (\<lambda>_ _. Err EngineWrite)\<rparr>"

definition demo_session_postcard :: session_postcard where
  "demo_session_postcard = \<lparr>spc_to_vec = (\<lambda>_. None), spc_of_vec = (\<lambda>bs. Some
     \<lparr>sn_storage_id = [1], sn_priority = 0, sn_id = bs, sn_parent = \<lparr>addr_id = [1], addr_max_cut = 0\<rparr>, sn_data = bs\<rparr>)\<rparr>"

definition demo_session_state :: "nat session_state" where
  "demo_session_state = \<lparr>ss_session = demo_session, ss_messages = [], ss_effects = []\<rparr>"

theorem session_failure_witness:
  "\<exists>t'. session_receive refusing_engine demo_session_postcard () [2] demo_session_state = (Err (client_error_of_engine EngineCheck), t') \<and>
    ss_session t' = demo_session \<and> ss_effects t' = [SinkBegin, SinkConsume 7, SinkRollback]"
proof -
  obtain r t' where run: "session_receive refusing_engine demo_session_postcard () [2] demo_session_state = (r, t')"
    by (cases "session_receive refusing_engine demo_session_postcard () [2] demo_session_state")
  have "(\<lambda>(r, t'). (r, ss_effects t')) (session_receive refusing_engine demo_session_postcard () [2] demo_session_state) =
    (Err (client_error_of_engine EngineCheck), [SinkBegin, SinkConsume 7, SinkRollback])" by code_simp
  with run have "r = Err (client_error_of_engine EngineCheck)" "ss_effects t' = [SinkBegin, SinkConsume 7, SinkRollback]" by auto
  moreover have "session_wf (ss_session demo_session_state)" by (simp add: demo_session_state_def demo_session_wf)
  from session_failure [OF this, of refusing_engine demo_session_postcard "()" "[2]"] run calculation
  have "ss_session t' = demo_session" by (simp add: demo_session_state_def)
  ultimately show ?thesis using run by auto
qed

end
