(* ===== verification/Linear_Io.thy ===== *)
theory Linear_Io
  imports Fact_Store Client_Prog
begin

text \<open>
  The file-like interface that the linear storage is written on
  (\<open>aranya-runtime/src/storage/linear/io.rs\<close>) and the items kept in it
  (\<open>storage/linear/mod.rs\<close>). The traits \<open>Write\<close> and \<open>Read\<close> are a record of operations and a
  locale that states their contract: an item is found where it was appended, and the
  head is what was committed last. The writer of \<open>storage/linear/testing.rs\<close> is a first
  instance.
\<close>

section \<open>Items\<close>

record fact_index_repr =
  fi_offset :: nat
  fi_prior :: "nat option"
  fi_depth :: nat
  fi_facts :: named_fact_map

record linear_command_data =
  lcd_id :: command_id
  lcd_priority :: priority
  lcd_policy :: "bytes option"
  lcd_data :: bytes
  lcd_updates :: "fact_update list"

record segment_repr =
  sr_offset :: nat
  sr_prior :: "location prior"
  sr_parents :: "address prior"
  sr_policy :: policy_id
  sr_facts :: nat
  sr_commands :: "linear_command_data list"
  sr_max_cut :: nat
  sr_skip_list :: "(location \<times> nat) list"

datatype linear_item = FactItem fact_index_repr | SegmentItem segment_repr

type_synonym linear_items = "nat \<Rightarrow> linear_item option"

section \<open>The interface\<close>

text \<open>
  \<open>Write\<close> with its \<open>Read\<close>: a reader shares the data of its writer, so that fetching is an
  operation on the writer's state. The type parameter of \<open>append\<close> and \<open>fetch\<close> has two
  instances.
\<close>

record 'w io_ops =
  io_head :: "'w \<Rightarrow> (location, storage_error) result"
  io_fetch_facts :: "'w \<Rightarrow> nat \<Rightarrow> (fact_index_repr, storage_error) result"
  io_fetch_segment :: "'w \<Rightarrow> nat \<Rightarrow> (segment_repr, storage_error) result"
  io_append_facts :: "(nat \<Rightarrow> fact_index_repr) \<Rightarrow> ('w, fact_index_repr, storage_error) prog"
  io_append_segment :: "(nat \<Rightarrow> segment_repr) \<Rightarrow> ('w, segment_repr, storage_error) prog"
  io_commit :: "location \<Rightarrow> ('w, unit, storage_error) prog"

text \<open>\<open>IoManager\<close>\<close>

record ('m, 'w) io_manager =
  im_create :: "command_id \<Rightarrow> ('m, 'w, storage_error) prog"
  im_open :: "command_id \<Rightarrow> ('m, 'w option, storage_error) prog"

text \<open>What an append does to the items: it puts the item at a fresh offset above all others, or fails and changes none.\<close>

definition appended ::
  "('w \<Rightarrow> linear_items \<Rightarrow> location option \<Rightarrow> bool) \<Rightarrow> ('t \<Rightarrow> linear_item) \<Rightarrow> (nat \<Rightarrow> 't) \<Rightarrow> linear_items \<Rightarrow> location option \<Rightarrow>
   ('t, storage_error) result \<times> 'w \<Rightarrow> bool" where
  "appended rep item build m h rw \<longleftrightarrow> (case rw of
      (Ok i, w) \<Rightarrow> \<exists>off. i = build off \<and> (\<forall>p. m p \<noteq> None \<longrightarrow> p < off) \<and> rep w (m(off \<mapsto> item (build off))) h
    | (_, w) \<Rightarrow> rep w m h)"

text \<open>\<open>rep w m h\<close>: the writer \<open>w\<close> holds the items \<open>m\<close> by their offsets and the commit head \<open>h\<close>.\<close>

locale linear_io =
  fixes io :: "'w io_ops" and rep :: "'w \<Rightarrow> linear_items \<Rightarrow> location option \<Rightarrow> bool"
  assumes fetch_facts: "rep w m h \<Longrightarrow> m off = Some (FactItem i) \<Longrightarrow> io_fetch_facts io w off = Ok i"
    and fetch_segment: "rep w m h \<Longrightarrow> m off = Some (SegmentItem s) \<Longrightarrow> io_fetch_segment io w off = Ok s"
    and head_committed: "rep w m (Some l) \<Longrightarrow> io_head io w = Ok l"
    and append_facts: "rep w m h \<Longrightarrow> appended rep FactItem bf m h (io_append_facts io bf w)"
    and append_segment: "rep w m h \<Longrightarrow> appended rep SegmentItem bs m h (io_append_segment io bs w)"
    and commit_head: "rep w m h \<Longrightarrow> io_commit io l w = (r, w') \<Longrightarrow>
      rep w' m (Some l) \<or> (r \<noteq> Ok () \<and> rep w' m h)"

section \<open>The writer for tests\<close>

text \<open>
  Items are kept as bytes in a vector and their offsets are indices. The \<open>postcard\<close> codecs
  are parameters; the second writer of the development shares them.
\<close>

record linear_postcard =
  lpc_facts :: "fact_index_repr \<Rightarrow> bytes option"
  lpc_of_facts :: "bytes \<Rightarrow> fact_index_repr option"
  lpc_segment :: "segment_repr \<Rightarrow> bytes option"
  lpc_of_segment :: "bytes \<Rightarrow> segment_repr option"

text \<open>Deserialising what was serialised gives the value back.\<close>

definition linear_codec :: "'z linear_postcard_scheme \<Rightarrow> bool" where
  "linear_codec pc \<longleftrightarrow> (\<forall>i bs. lpc_facts pc i = Some bs \<longrightarrow> lpc_of_facts pc bs = Some i) \<and>
     (\<forall>s bs. lpc_segment pc s = Some bs \<longrightarrow> lpc_of_segment pc bs = Some s)"

record vec_writer =
  vw_head :: "location option"
  vw_items :: "bytes list"

definition vw_head_op :: "vec_writer \<Rightarrow> (location, storage_error) result" where
  "vw_head_op w = ok_or (StorageBug ''head exists'') (vw_head w)"

definition vw_append :: "('t \<Rightarrow> bytes option) \<Rightarrow> (nat \<Rightarrow> 't) \<Rightarrow> (vec_writer, 't, storage_error) prog" where
  "vw_append to_vec build =
     pbind (pgets (\<lambda>w. build (length (vw_items w)))) (\<lambda>item.
     pbind (plift (ok_or IoError (to_vec item))) (\<lambda>bs.
     pbind (pmodify (\<lambda>w. w\<lparr>vw_items := vw_items w @ [bs]\<rparr>)) (\<lambda>_.
     preturn item)))"

definition vw_commit :: "location \<Rightarrow> (vec_writer, unit, storage_error) prog" where
  "vw_commit head = pmodify (\<lambda>w. w\<lparr>vw_head := Some head\<rparr>)"

definition vw_fetch :: "(bytes \<Rightarrow> 't option) \<Rightarrow> vec_writer \<Rightarrow> nat \<Rightarrow> ('t, storage_error) result" where
  "vw_fetch of_vec w offset =
     (if offset < length (vw_items w) then ok_or IoError (of_vec (vw_items w ! offset))
      else Err (SegmentOutOfBounds (location_new offset 0)))"

definition vec_io :: "linear_postcard \<Rightarrow> vec_writer io_ops" where
  "vec_io pc = \<lparr>io_head = vw_head_op, io_fetch_facts = vw_fetch (lpc_of_facts pc), io_fetch_segment = vw_fetch (lpc_of_segment pc),
     io_append_facts = vw_append (lpc_facts pc), io_append_segment = vw_append (lpc_segment pc), io_commit = vw_commit\<rparr>"

definition vec_manager :: "(unit, vec_writer) io_manager" where
  "vec_manager = \<lparr>im_create = (\<lambda>_. preturn \<lparr>vw_head = None, vw_items = []\<rparr>), im_open = (\<lambda>_. preturn None)\<rparr>"

text \<open>The item that bytes hold.\<close>

definition item_bytes :: "'z linear_postcard_scheme \<Rightarrow> linear_item \<Rightarrow> bytes option" where
  "item_bytes pc it = (case it of FactItem i \<Rightarrow> lpc_facts pc i | SegmentItem s \<Rightarrow> lpc_segment pc s)"

definition vec_rep :: "linear_postcard \<Rightarrow> vec_writer \<Rightarrow> linear_items \<Rightarrow> location option \<Rightarrow> bool" where
  "vec_rep pc w m h \<longleftrightarrow> linear_codec pc \<and> vw_head w = h \<and>
     (\<forall>off it. m off = Some it \<longrightarrow> off < length (vw_items w) \<and> item_bytes pc it = Some (vw_items w ! off))"

lemma vw_append_appended:
  assumes "vec_rep pc w m h" "\<And>x. item_bytes pc (item x) = to_vec x"
  shows "appended (vec_rep pc) item build m h (vw_append to_vec build w)"
proof (cases "to_vec (build (length (vw_items w)))")
  case None
  then show ?thesis using assms(1) by (simp add: vw_append_def prog_defs appended_def)
next
  case (Some bs)
  let ?n = "length (vw_items w)"
  have below: "p < ?n" if "m p \<noteq> None" for p using assms(1) that by (auto simp: vec_rep_def)
  have "vec_rep pc (w\<lparr>vw_items := vw_items w @ [bs]\<rparr>) (m(?n \<mapsto> item (build ?n))) h"
    using assms Some by (auto simp: vec_rep_def nth_append less_Suc_eq)
  then show ?thesis using Some below by (auto simp: vw_append_def prog_defs appended_def)
qed

lemma vec_rep_item:
  "vec_rep pc w m h \<Longrightarrow> m off = Some it \<Longrightarrow> off < length (vw_items w) \<and> item_bytes pc it = Some (vw_items w ! off)"
  by (simp add: vec_rep_def)

lemma linear_codecD:
  "linear_codec pc \<Longrightarrow> item_bytes pc (FactItem i) = Some bs \<Longrightarrow> lpc_of_facts pc bs = Some i"
  "linear_codec pc \<Longrightarrow> item_bytes pc (SegmentItem s) = Some bs \<Longrightarrow> lpc_of_segment pc bs = Some s"
  by (simp_all add: linear_codec_def item_bytes_def)

interpretation vec: linear_io "vec_io pc" "vec_rep pc" for pc
proof (unfold_locales, goal_cases)
  case (1 w m h off i)
  then show ?case using vec_rep_item [OF 1] linear_codecD(1) [of pc i] by (simp add: vec_io_def vw_fetch_def vec_rep_def)
next
  case (2 w m h off s)
  then show ?case using vec_rep_item [OF 2] linear_codecD(2) [of pc s] by (simp add: vec_io_def vw_fetch_def vec_rep_def)
qed (auto simp: vec_io_def vec_rep_def vw_head_op_def vw_commit_def pmodify_def item_bytes_def intro!: vw_append_appended)

end
