(* ===== verification/File_Io.thy ===== *)
theory File_Io
  imports Linear_Io Fact_Codec
begin

text \<open>
  The file behind the linear storage (\<open>aranya-runtime/src/storage/linear/libc/imp.rs\<close>): items
  with a length in front, two copies of a control record with a checksum, and the loops
  around the system calls. What the operating system does is an input: a list of the
  outcomes of the write and sync calls to come, and a function that says how reads are
  cut up or interrupted. A call can also be the one at which the machine stops. The
  content of the file is kept with what of it is durable, so that the contents a crash
  can leave behind can be stated.
\<close>

section \<open>The operating system\<close>

type_synonym file_data = "nat \<Rightarrow> u8 option"

datatype io_event = IoDone nat | IoEintr | IoFail | IoStop

datatype errno = EINTR | ErrnoOther

record os_file =
  of_data :: file_data
  of_durable :: file_data
  of_pending :: "(nat \<times> bytes) list"
  of_events :: "io_event list"
  of_reads :: "nat \<Rightarrow> nat \<Rightarrow> io_event list"

text \<open>Bytes before the start of a write that are beyond the end of the file read as zero.\<close>

definition write_at :: "nat \<Rightarrow> bytes \<Rightarrow> file_data \<Rightarrow> file_data" where
  "write_at off bs d = (\<lambda>i.
     if off \<le> i \<and> i < off + length bs then Some (bs ! (i - off))
     else if bs \<noteq> [] \<and> i < off \<and> d i = None then Some 0 else d i)"

definition read_at :: "nat \<Rightarrow> nat \<Rightarrow> file_data \<Rightarrow> bytes" where
  "read_at off len d = map the (takeWhile (\<lambda>b. b \<noteq> None) (map d [off..<off + len]))"

text \<open>A read returns a part of what is there, and nothing only at the end of the file.\<close>

fun sys_pread :: "io_event \<Rightarrow> nat \<Rightarrow> nat \<Rightarrow> file_data \<Rightarrow> (bytes, errno) result" where
  "sys_pread (IoDone n) off len d = Ok (take (max 1 n) (read_at off len d))"
| "sys_pread IoEintr off len d = Err EINTR"
| "sys_pread IoFail off len d = Err ErrnoOther"
| "sys_pread IoStop off len d = Panic ''stopped''"

definition next_event :: "os_file \<Rightarrow> io_event option \<times> os_file" where
  "next_event f = (case of_events f of [] \<Rightarrow> (None, f) | e # es \<Rightarrow> (Some e, f\<lparr>of_events := es\<rparr>))"

definition wrote_part :: "nat \<Rightarrow> bytes \<Rightarrow> os_file \<Rightarrow> os_file" where
  "wrote_part off bs f = f\<lparr>of_data := write_at off bs (of_data f), of_pending := of_pending f @ [(off, bs)]\<rparr>"

definition sys_pwrite :: "nat \<Rightarrow> bytes \<Rightarrow> (os_file, nat, errno) prog" where
  "sys_pwrite off bs f = (case next_event f of
      (None, f') \<Rightarrow> (Ok (length bs), wrote_part off bs f')
    | (Some (IoDone n), f') \<Rightarrow> (Ok (min n (length bs)), wrote_part off (take n bs) f')
    | (Some IoEintr, f') \<Rightarrow> (Err EINTR, f')
    | (Some IoFail, f') \<Rightarrow> (Err ErrnoOther, f')
    | (Some IoStop, f') \<Rightarrow> (Panic ''stopped'', f'))"

definition synced :: "os_file \<Rightarrow> os_file" where
  "synced f = f\<lparr>of_durable := of_data f, of_pending := []\<rparr>"

definition sys_fsync :: "(os_file, unit, errno) prog" where
  "sys_fsync f = (case next_event f of
      (None, f') \<Rightarrow> (Ok (), synced f')
    | (Some (IoDone _), f') \<Rightarrow> (Ok (), synced f')
    | (Some IoEintr, f') \<Rightarrow> (Err EINTR, f')
    | (Some IoFail, f') \<Rightarrow> (Err ErrnoOther, f')
    | (Some IoStop, f') \<Rightarrow> (Panic ''stopped'', f'))"

text \<open>
  What a crash can leave: each byte is the durable one or that of a write since the last
  sync, independently of the others.
\<close>

definition crash_data :: "os_file \<Rightarrow> file_data \<Rightarrow> bool" where
  "crash_data f c \<longleftrightarrow> (\<forall>i. c i = of_durable f i \<or>
     (\<exists>(off, bs) \<in> set (of_pending f). c i = write_at off bs (of_durable f) i))"

section \<open>Files\<close>

definition io_err :: "('s, 'a, errno) prog \<Rightarrow> ('s, 'a, storage_error) prog" where
  "io_err m s = (case m s of (r, s') \<Rightarrow> (map_err (\<lambda>_. IoError) r, s'))"

text \<open>Offsets are signed 64-bit numbers that are never negative here.\<close>

definition off_limit :: nat where
  "off_limit = 2 ^ 63"

definition off_checked_add :: "nat \<Rightarrow> nat \<Rightarrow> nat option" where
  "off_checked_add a b = (if a + b < off_limit then Some (a + b) else None)"

lemma off_checked_add_code [code]:
  "off_checked_add a b = (if int (a + b) < 2 ^ 63 then Some (a + b) else None)"
  by (simp add: off_checked_add_def off_limit_def flip: of_nat_less_iff [where ?'a = int])

text \<open>The loop of \<open>read_exact\<close>: what is left to read, from where, with what was read.\<close>

function read_loop :: "file_data \<Rightarrow> io_event list \<Rightarrow> nat \<Rightarrow> nat \<Rightarrow> bytes \<Rightarrow> (bytes, storage_error) result" where
  "read_loop d es off len acc =
     (if len = 0 then Ok acc
      else case sys_pread (case es of [] \<Rightarrow> IoDone len | e # _ \<Rightarrow> e) off len d of
          Ok bs \<Rightarrow> if bs = [] then Err IoError
            else (case off_checked_add off (length bs) of
                Some off' \<Rightarrow> read_loop d (tl es) off' (len - length bs) (acc @ bs)
              | None \<Rightarrow> Err (StorageBug ''read within bounds''))
        | Err EINTR \<Rightarrow> if es = [] then Err IoError else read_loop d (tl es) off len acc
        | Err _ \<Rightarrow> Err IoError
        | Panic m \<Rightarrow> Panic m)"
  by pat_completeness auto
termination
  by (relation "measure (\<lambda>(d, es, off, len, acc). len + length es)")
    (auto split: list.splits intro!: add_less_le_mono diff_less simp: length_greater_0_conv [symmetric] simp del: length_greater_0_conv)

declare read_loop.simps [simp del]

definition file_read_exact :: "os_file \<Rightarrow> nat \<Rightarrow> nat \<Rightarrow> (bytes, storage_error) result" where
  "file_read_exact f off len = read_loop (of_data f) (of_reads f off len) off len []"

function write_loop :: "nat \<Rightarrow> bytes \<Rightarrow> os_file \<Rightarrow> (unit, storage_error) result \<times> os_file" where
  "write_loop off bs f =
     (if bs = [] then (Ok (), f)
      else case sys_pwrite off bs f of
          (Ok n, f') \<Rightarrow> if n = 0 then (Err IoError, f')
            else (case off_checked_add off n of
                Some off' \<Rightarrow> write_loop off' (drop n bs) f'
              | None \<Rightarrow> (Err (StorageBug ''write within bounds''), f'))
        | (Err EINTR, f') \<Rightarrow> write_loop off bs f'
        | (Err _, f') \<Rightarrow> (Err IoError, f')
        | (Panic m, f') \<Rightarrow> (Panic m, f'))"
  by pat_completeness auto
termination
proof (relation "measure (\<lambda>(off, bs, f). length bs + length (of_events f))", goal_cases)
  case 1
  then show ?case by simp
next
  case (2 off bs f r f' n off')
  then show ?case by (auto simp: sys_pwrite_def next_event_def wrote_part_def split: list.splits io_event.splits)
next
  case (3 off bs f r f' e)
  then show ?case by (auto simp: sys_pwrite_def next_event_def wrote_part_def split: list.splits io_event.splits)
qed

declare write_loop.simps [simp del]

definition file_write_all :: "nat \<Rightarrow> bytes \<Rightarrow> (os_file, unit, storage_error) prog" where
  "file_write_all off bs = write_loop off bs"

definition file_sync :: "(os_file, unit, storage_error) prog" where
  "file_sync = io_err sys_fsync"

definition file_fallocate :: "nat \<Rightarrow> nat \<Rightarrow> (os_file, unit, storage_error) prog" where
  "file_fallocate off len f = (case next_event f of
      (Some IoStop, f') \<Rightarrow> (Panic ''stopped'', f')
    | (Some IoFail, f') \<Rightarrow> (Err IoError, f')
    | (Some IoEintr, f') \<Rightarrow> (Err IoError, f')
    | (_, f') \<Rightarrow> (Ok (), f'\<lparr>of_data := (\<lambda>i. if of_data f' i = None \<and> i < off + len then Some 0 else of_data f' i)\<rparr>))"

definition u32_limit :: nat where
  "u32_limit = 2 ^ 32"

lemma u32_limit_code [code_unfold]: "n < u32_limit \<longleftrightarrow> int n < 2 ^ 32"
  by (simp add: u32_limit_def)

definition file_dump :: "('t \<Rightarrow> bytes option) \<Rightarrow> nat \<Rightarrow> 't \<Rightarrow> (os_file, nat, storage_error) prog" where
  "file_dump to_vec off value =
     pbind (plift (ok_or IoError (to_vec value))) (\<lambda>bs.
     if \<not> length bs < u32_limit then pfail (StorageBug ''serialized objects should fit in u32'')
     else pbind (file_write_all off (be_digits 4 (length bs))) (\<lambda>_.
          pbind (plift (ok_or (StorageBug ''offset not near u64::MAX'') (off_checked_add off 4))) (\<lambda>off2.
          pbind (file_write_all off2 bs) (\<lambda>_.
          plift (ok_or (StorageBug ''offset valid after write'') (off_checked_add off2 (length bs)))))))"

definition file_load :: "(bytes \<Rightarrow> 't option) \<Rightarrow> os_file \<Rightarrow> nat \<Rightarrow> ('t, storage_error) result" where
  "file_load of_vec f off =
     rbind (file_read_exact f off 4) (\<lambda>lb.
     rbind (ok_or (StorageBug ''offset not near u64::MAX'') (off_checked_add off 4)) (\<lambda>off2.
     rbind (file_read_exact f off2 (be_value 0 lb)) (\<lambda>bs.
     ok_or IoError (of_vec bs))))"

section \<open>Control data\<close>

record root =
  rt_generation :: nat
  rt_head :: location
  rt_free_offset :: int
  rt_checksum :: u64

definition page :: nat where
  "page = 4096"

definition root_a :: nat where
  "root_a = page"

definition root_b :: nat where
  "root_b = page * 2"

definition free_start :: nat where
  "free_start = page * 3"

definition root_new :: root where
  "root_new = \<lparr>rt_generation = 0, rt_head = location_new (usize_limit - 1) (usize_limit - 1), rt_free_offset = int free_start, rt_checksum = 0\<rparr>"

text \<open>\<open>SipHasher\<close> over the four numbers and the \<open>postcard\<close> codecs are parameters.\<close>

type_synonym sip_hash = "nat \<times> nat \<times> nat \<times> int \<Rightarrow> u64"

record file_postcard = linear_postcard +
  fpc_root :: "root \<Rightarrow> bytes option"
  fpc_of_root :: "bytes \<Rightarrow> root option"

definition calc_checksum :: "sip_hash \<Rightarrow> root \<Rightarrow> u64" where
  "calc_checksum sip r = sip (rt_generation r, loc_segment (rt_head r), loc_command (rt_head r), rt_free_offset r)"

definition root_validate :: "sip_hash \<Rightarrow> root \<Rightarrow> (root, storage_error) result" where
  "root_validate sip r = (if rt_checksum r \<noteq> calc_checksum sip r then Err (StorageBug ''invalid checksum'') else Ok r)"

section \<open>The writer\<close>

record file_writer =
  fw_file :: os_file
  fw_root :: root

definition on_file :: "(os_file, 'a, storage_error) prog \<Rightarrow> (file_writer, 'a, storage_error) prog" where
  "on_file m w = (case m (fw_file w) of (r, f) \<Rightarrow> (r, w\<lparr>fw_file := f\<rparr>))"

definition fw_create :: "os_file \<Rightarrow> (file_writer, storage_error) result" where
  "fw_create f = (case file_fallocate 0 free_start f of (r, f') \<Rightarrow> rmap (\<lambda>_. \<lparr>fw_file = f', fw_root = root_new\<rparr>) r)"

text \<open>\<open>Writer::open\<close> picks the latest valid root and writes the other one if it differs.\<close>

definition fw_open :: "file_postcard \<Rightarrow> sip_hash \<Rightarrow> os_file \<Rightarrow> (file_writer, storage_error) result" where
  "fw_open pc sip f =
     (let a = rbind (file_load (fpc_of_root pc) f root_a) (root_validate sip);
          b = rbind (file_load (fpc_of_root pc) f root_b) (root_validate sip) in
      rbind (case (a, b) of
          (Ok ra, Ok rb) \<Rightarrow>
            if rt_generation ra = rt_generation rb then Ok (ra, None)
            else if rt_generation ra > rt_generation rb then Ok (ra, Some root_b)
            else Ok (rb, Some root_a)
        | (Ok ra, Err _) \<Rightarrow> Ok (ra, Some root_b)
        | (Err _, Ok rb) \<Rightarrow> Ok (rb, Some root_a)
        | (Err e, Err _) \<Rightarrow> Err e
        | (Panic m, _) \<Rightarrow> Panic m
        | (_, Panic m) \<Rightarrow> Panic m) (\<lambda>(root, overwrite).
      case overwrite of
        None \<Rightarrow> Ok \<lparr>fw_file = f, fw_root = root\<rparr>
      | Some off \<Rightarrow> (case file_dump (fpc_root pc) off root f of
            (Ok _, f') \<Rightarrow> Ok \<lparr>fw_file = f', fw_root = root\<rparr>
          | (Err e, _) \<Rightarrow> Err e
          | (Panic m, _) \<Rightarrow> Panic m)))"

definition set_checksum :: "sip_hash \<Rightarrow> (file_writer, unit, storage_error) prog" where
  "set_checksum sip = pmodify (\<lambda>w. w\<lparr>fw_root := (fw_root w)\<lparr>rt_checksum := calc_checksum sip (fw_root w)\<rparr>\<rparr>)"

definition dump_root :: "file_postcard \<Rightarrow> sip_hash \<Rightarrow> nat \<Rightarrow> (file_writer, unit, storage_error) prog" where
  "dump_root pc sip off =
     pbind (set_checksum sip) (\<lambda>_.
     pbind (pgets fw_root) (\<lambda>root.
     pbind (on_file (file_dump (fpc_root pc) off root)) (\<lambda>_.
     on_file file_sync)))"

definition write_root :: "file_postcard \<Rightarrow> sip_hash \<Rightarrow> (file_writer, unit, storage_error) prog" where
  "write_root pc sip =
     pbind (pgets (\<lambda>w. rt_generation (fw_root w))) (\<lambda>g.
     pbind (plift (ok_or (StorageBug ''generation will not overflow u64'') (usize_checked_add g 1))) (\<lambda>g'.
     pbind (pmodify (\<lambda>w. w\<lparr>fw_root := (fw_root w)\<lparr>rt_generation := g'\<rparr>\<rparr>)) (\<lambda>_.
     pbind (dump_root pc sip root_a) (\<lambda>_.
     dump_root pc sip root_b))))"

definition fw_head :: "file_writer \<Rightarrow> (location, storage_error) result" where
  "fw_head w = (if rt_generation (fw_root w) = 0 then Err (StorageBug ''not initialized'') else Ok (rt_head (fw_root w)))"

definition fw_append :: "file_postcard \<Rightarrow> sip_hash \<Rightarrow> ('t \<Rightarrow> bytes option) \<Rightarrow> (nat \<Rightarrow> 't) \<Rightarrow> (file_writer, 't, storage_error) prog" where
  "fw_append pc sip to_vec build =
     pbind (pgets (\<lambda>w. rt_free_offset (fw_root w))) (\<lambda>offset.
     if offset < 0 then pfail (StorageBug ''`free_offset` can be converted to `usize`'')
     else let item = build (nat offset) in
       pbind (on_file (file_dump to_vec (nat offset) item)) (\<lambda>new_offset.
       pbind (pmodify (\<lambda>w. w\<lparr>fw_root := (fw_root w)\<lparr>rt_free_offset := int new_offset\<rparr>\<rparr>)) (\<lambda>_.
       pbind (write_root pc sip) (\<lambda>_.
       preturn item))))"

definition fw_commit :: "file_postcard \<Rightarrow> sip_hash \<Rightarrow> location \<Rightarrow> (file_writer, unit, storage_error) prog" where
  "fw_commit pc sip head =
     pbind (pmodify (\<lambda>w. w\<lparr>fw_root := (fw_root w)\<lparr>rt_head := head\<rparr>\<rparr>)) (\<lambda>_. write_root pc sip)"

definition fw_fetch :: "(bytes \<Rightarrow> 't option) \<Rightarrow> file_writer \<Rightarrow> nat \<Rightarrow> ('t, storage_error) result" where
  "fw_fetch of_vec w offset =
     rbind (if offset < off_limit then Ok offset else Err (StorageBug ''`offset` can be converted to `i64`'')) (\<lambda>off.
     file_load of_vec (fw_file w) off)"

definition file_io :: "file_postcard \<Rightarrow> sip_hash \<Rightarrow> file_writer io_ops" where
  "file_io pc sip = \<lparr>io_head = fw_head, io_fetch_facts = fw_fetch (lpc_of_facts pc), io_fetch_segment = fw_fetch (lpc_of_segment pc),
     io_append_facts = fw_append pc sip (lpc_facts pc), io_append_segment = fw_append pc sip (lpc_segment pc),
     io_commit = fw_commit pc sip\<rparr>"

section \<open>The manager\<close>

text \<open>
  \<open>FileManager\<close>: a directory of files, named by the graph's id, and the exclusive locks on
  them. A writer owns the content of its file while it holds the lock. The file that \<open>openat\<close> creates is a parameter, since its events are.
\<close>

record file_manager =
  fm_files :: "command_id \<Rightarrow> os_file option"
  fm_locked :: "command_id \<Rightarrow> bool"

definition fm_lock :: "command_id \<Rightarrow> (file_manager, unit, storage_error) prog" where
  "fm_lock gid m = (if fm_locked m gid then (Err IoError, m) else (Ok (), m\<lparr>fm_locked := (fm_locked m)(gid := True)\<rparr>))"

definition fm_create :: "os_file \<Rightarrow> command_id \<Rightarrow> (file_manager, file_writer, storage_error) prog" where
  "fm_create fresh gid =
     pbind (pgets (\<lambda>m. fm_files m gid)) (\<lambda>existing.
     if existing \<noteq> None then pfail IoError
     else pbind (pmodify (\<lambda>m. m\<lparr>fm_files := (fm_files m)(gid \<mapsto> fresh)\<rparr>)) (\<lambda>_.
          pbind (fm_lock gid) (\<lambda>_.
          plift (fw_create fresh))))"

definition fm_open :: "file_postcard \<Rightarrow> sip_hash \<Rightarrow> command_id \<Rightarrow> (file_manager, file_writer option, storage_error) prog" where
  "fm_open pc sip gid =
     pbind (pgets (\<lambda>m. fm_files m gid)) (\<lambda>existing.
     case existing of
       None \<Rightarrow> preturn None
     | Some f \<Rightarrow> pbind (fm_lock gid) (\<lambda>_. plift (rmap Some (fw_open pc sip f))))"

definition file_manager_ops :: "os_file \<Rightarrow> file_postcard \<Rightarrow> sip_hash \<Rightarrow> (file_manager, file_writer) io_manager" where
  "file_manager_ops fresh pc sip = \<lparr>im_create = fm_create fresh, im_open = fm_open pc sip\<rparr>"

end
