(* ===== verification/Linear_Facts.thy ===== *)
theory Linear_Facts
  imports Linear_Io
begin

text \<open>
  Facts of the linear storage (\<open>LinearFactIndex\<close> and \<open>LinearFactPerspective\<close> of
  \<open>aranya-runtime/src/storage/linear/mod.rs\<close>). An index is a chain of items in the file,
  linked by their offsets; when the chain becomes too deep it is compacted into one item.
  An abstraction maps an index to the index of the in-memory storage that holds the same
  facts, so that its query lemmas carry over.
\<close>

section \<open>Fact indices\<close>

definition max_fact_index_depth :: nat where
  "max_fact_index_depth = 16"

partial_function (option) lfi_query ::
  "'w io_ops \<Rightarrow> 'w \<Rightarrow> fact_index_repr \<Rightarrow> string \<Rightarrow> keys \<Rightarrow> (bytes option, storage_error) result option"
where
  "lfi_query io w facts n k = (case named_get (fi_facts facts) n k of
      Some v \<Rightarrow> Some (Ok v)
    | None \<Rightarrow> (case fi_prior facts of
          None \<Rightarrow> Some (Ok None)
        | Some p \<Rightarrow> robind (Some (io_fetch_facts io w p)) (\<lambda>prior. lfi_query io w prior n k)))"

partial_function (option) lfi_prefix_loop ::
  "'w io_ops \<Rightarrow> 'w \<Rightarrow> string \<Rightarrow> keys \<Rightarrow> fact_map \<Rightarrow> fact_index_repr \<Rightarrow> (fact_map, storage_error) result option"
where
  "lfi_prefix_loop io w n p matches facts =
     (let matches' = (case bt_get (fi_facts facts) n of
          None \<Rightarrow> matches
        | Some fm \<Rightarrow> add_matches (find_prefixes fm p) matches) in
      case fi_prior facts of
        None \<Rightarrow> Some (Ok matches')
      | Some q \<Rightarrow> robind (Some (io_fetch_facts io w q)) (\<lambda>prior. lfi_prefix_loop io w n p matches' prior))"

declare lfi_query.simps [code] lfi_prefix_loop.simps [code]

definition lfi_query_prefix_inner ::
  "'w io_ops \<Rightarrow> 'w \<Rightarrow> fact_index_repr \<Rightarrow> string \<Rightarrow> keys \<Rightarrow> (fact_map, storage_error) result option" where
  "lfi_query_prefix_inner io w facts n p = lfi_prefix_loop io w n p [] facts"

text \<open>The iterator over the matches skips the deleted facts.\<close>

definition lfi_query_prefix ::
  "'w io_ops \<Rightarrow> 'w \<Rightarrow> fact_index_repr \<Rightarrow> string \<Rightarrow> keys \<Rightarrow> (stored_fact list, storage_error) result option" where
  "lfi_query_prefix io w facts n p = robind (lfi_query_prefix_inner io w facts n p) (\<lambda>ms. Some (Ok (live_facts ms)))"

section \<open>Fact perspectives\<close>

datatype linear_fact_perspective =
    LinearFactPerspective (lfp_map: named_fact_map) (lfp_prior: linear_fact_prior)
and linear_fact_prior =
    LFNone
  | LFPerspective linear_fact_perspective
  | LFIndex nat

definition lfp_new :: "linear_fact_prior \<Rightarrow> linear_fact_perspective" where
  "lfp_new prior = LinearFactPerspective [] prior"

text \<open>\<open>map.get_mut(name)\<close> and then \<open>remove(key)\<close>\<close>

definition named_remove :: "string \<Rightarrow> keys \<Rightarrow> named_fact_map \<Rightarrow> named_fact_map" where
  "named_remove n k m = (case bt_get m n of None \<Rightarrow> m | Some kv \<Rightarrow> bt_insert n (bt_remove k kv) m)"

fun lfp_clear :: "linear_fact_perspective \<Rightarrow> linear_fact_perspective" where
  "lfp_clear (LinearFactPerspective m prior) = LinearFactPerspective [] prior"

text \<open>Without a prior there is nothing a deletion has to hide.\<close>

definition lfp_put :: "linear_fact_prior \<Rightarrow> string \<Rightarrow> keys \<Rightarrow> bytes option \<Rightarrow> named_fact_map \<Rightarrow> named_fact_map" where
  "lfp_put prior n k v m =
     (if prior = LFNone then (case v of Some b \<Rightarrow> named_insert n k (Some b) m | None \<Rightarrow> named_remove n k m)
      else named_insert n k v m)"

fun lfp_apply_updates :: "fact_update list \<Rightarrow> linear_fact_perspective \<Rightarrow> linear_fact_perspective" where
  "lfp_apply_updates us (LinearFactPerspective m prior) =
     LinearFactPerspective (fold (\<lambda>(n, k, v). lfp_put prior n k v) us m) prior"

fun lfp_insert :: "string \<Rightarrow> keys \<Rightarrow> bytes \<Rightarrow> linear_fact_perspective \<Rightarrow> linear_fact_perspective" where
  "lfp_insert n k v (LinearFactPerspective m prior) = LinearFactPerspective (named_insert n k (Some v) m) prior"

fun lfp_delete :: "string \<Rightarrow> keys \<Rightarrow> linear_fact_perspective \<Rightarrow> linear_fact_perspective" where
  "lfp_delete n k (LinearFactPerspective m prior) = LinearFactPerspective (lfp_put prior n k None m) prior"

fun lfp_query ::
  "'w io_ops \<Rightarrow> 'w \<Rightarrow> linear_fact_perspective \<Rightarrow> string \<Rightarrow> keys \<Rightarrow> (bytes option, storage_error) result option" where
  "lfp_query io w (LinearFactPerspective m prior) n k = (case named_get m n k of
      Some wrapped \<Rightarrow> Some (Ok wrapped)
    | None \<Rightarrow> (case prior of
          LFNone \<Rightarrow> Some (Ok None)
        | LFPerspective fp \<Rightarrow> lfp_query io w fp n k
        | LFIndex off \<Rightarrow> robind (Some (io_fetch_facts io w off)) (\<lambda>facts. lfi_query io w facts n k)))"

fun lfp_query_prefix_inner ::
  "'w io_ops \<Rightarrow> 'w \<Rightarrow> linear_fact_perspective \<Rightarrow> string \<Rightarrow> keys \<Rightarrow> (fact_map, storage_error) result option" where
  "lfp_query_prefix_inner io w (LinearFactPerspective m prior) n p =
     robind (case prior of
          LFNone \<Rightarrow> Some (Ok [])
        | LFPerspective fp \<Rightarrow> lfp_query_prefix_inner io w fp n p
        | LFIndex off \<Rightarrow> robind (Some (io_fetch_facts io w off)) (\<lambda>facts. lfi_query_prefix_inner io w facts n p)) (\<lambda>matches.
     Some (Ok (case bt_get m n of
        None \<Rightarrow> matches
      | Some fm \<Rightarrow> fold (\<lambda>(k, v). bt_insert k v) (find_prefixes fm p) matches)))"

definition lfp_query_prefix ::
  "'w io_ops \<Rightarrow> 'w \<Rightarrow> linear_fact_perspective \<Rightarrow> string \<Rightarrow> keys \<Rightarrow> (stored_fact list, storage_error) result option" where
  "lfp_query_prefix io w fp n p = robind (lfp_query_prefix_inner io w fp n p) (\<lambda>ms. Some (Ok (live_facts ms)))"

section \<open>Writing\<close>

text \<open>The two nested loops of \<open>compact\<close>: an entry that is there already is newer.\<close>

definition merge_older :: "named_fact_map \<Rightarrow> named_fact_map \<Rightarrow> named_fact_map" where
  "merge_older = fold (\<lambda>(name, kv) m. bt_insert name (add_matches kv (case bt_get m name of None \<Rightarrow> [] | Some sub \<Rightarrow> sub)) m)"

partial_function (option) compact_loop ::
  "'w io_ops \<Rightarrow> 'w \<Rightarrow> named_fact_map \<Rightarrow> fact_index_repr \<Rightarrow> (named_fact_map, storage_error) result option"
where
  "compact_loop io w m repr =
     (let m' = merge_older (fi_facts repr) m in
      case fi_prior repr of
        None \<Rightarrow> Some (Ok m')
      | Some off \<Rightarrow> robind (Some (io_fetch_facts io w off)) (\<lambda>prior. compact_loop io w m' prior))"

declare compact_loop.simps [code]

text \<open>\<open>retain\<close> without tombstones and without names that have no facts left.\<close>

definition drop_tombstones :: "named_fact_map \<Rightarrow> named_fact_map" where
  "drop_tombstones m = bt_retain (\<lambda>kv. kv \<noteq> []) (map (\<lambda>(n, kv). (n, bt_retain (\<lambda>v. v \<noteq> None) kv)) m)"

text \<open>The end of \<open>write_facts\<close>: the depth check and the new item.\<close>

definition append_index ::
  "'w io_ops \<Rightarrow> named_fact_map \<Rightarrow> fact_index_repr option \<Rightarrow> ('w, fact_index_repr, storage_error) lprog" where
  "append_index io m prior =
     lbind (llift (ok_or (StorageBug ''depth won't overflow'')
       (usize_checked_add (case prior of Some p \<Rightarrow> fi_depth p | None \<Rightarrow> 0) 1))) (\<lambda>depth.
     if depth > max_fact_index_depth then lfail (StorageBug ''fact index too deep'')
     else lrun (io_append_facts io (\<lambda>offset.
       \<lparr>fi_offset = offset, fi_prior = map_option fi_offset prior, fi_depth = depth, fi_facts = m\<rparr>)))"

text \<open>\<open>compact\<close> ends by writing a perspective without a prior, which appends one index.\<close>

definition lin_compact :: "'w io_ops \<Rightarrow> fact_index_repr \<Rightarrow> ('w, fact_index_repr, storage_error) lprog" where
  "lin_compact io repr =
     lbind (lread (\<lambda>w. compact_loop io w [] repr)) (\<lambda>m. append_index io (drop_tombstones m) None)"

definition new_index ::
  "'w io_ops \<Rightarrow> named_fact_map \<Rightarrow> fact_index_repr option \<Rightarrow> ('w, fact_index_repr, storage_error) lprog" where
  "new_index io m prior = (case prior of
      None \<Rightarrow> append_index io m None
    | Some p \<Rightarrow>
        lbind (if fi_depth p > max_fact_index_depth - 1 then lin_compact io p else lreturn p) (\<lambda>p'.
        append_index io m (Some p')))"

fun lin_write_facts :: "'w io_ops \<Rightarrow> linear_fact_perspective \<Rightarrow> ('w, fact_index_repr, storage_error) lprog" where
  "lin_write_facts io (LinearFactPerspective m prior) = (case prior of
      LFNone \<Rightarrow> new_index io m None
    | LFPerspective fp \<Rightarrow>
        lbind (lin_write_facts io fp) (\<lambda>p. if m = [] then lreturn p else new_index io m (Some p))
    | LFIndex off \<Rightarrow>
        lbind (lread (\<lambda>w. Some (io_fetch_facts io w off))) (\<lambda>p. if m = [] then lreturn p else new_index io m (Some p)))"

lemma compact_writes_perspective: "lin_write_facts io (LinearFactPerspective m LFNone) = append_index io m None"
  by (simp add: new_index_def)

section \<open>The facts an index stands for\<close>

function index_abs :: "linear_items \<Rightarrow> nat \<Rightarrow> mem_fact_index" where
  "index_abs m off = (case m off of
      Some (FactItem i) \<Rightarrow> MemFactIndex (fi_facts i)
        (case fi_prior i of Some p \<Rightarrow> if p < off then Some (index_abs m p) else None | None \<Rightarrow> None)
    | _ \<Rightarrow> MemFactIndex [] None)"
  by pat_completeness auto
termination by (relation "measure snd") auto

declare index_abs.simps [simp del]

text \<open>Item \<open>i\<close> at offset \<open>off\<close> is linked to an index before it and one less deep.\<close>

definition index_ok :: "linear_items \<Rightarrow> nat \<Rightarrow> fact_index_repr \<Rightarrow> bool" where
  "index_ok m off i \<longleftrightarrow> fi_offset i = off \<and> named_wf (fi_facts i) \<and> fi_depth i \<le> max_fact_index_depth \<and>
     (case fi_prior i of
        None \<Rightarrow> fi_depth i = 1
      | Some p \<Rightarrow> p < off \<and> (\<exists>j. m p = Some (FactItem j) \<and> fi_depth i = Suc (fi_depth j)))"

definition facts_ok :: "linear_items \<Rightarrow> bool" where
  "facts_ok m \<longleftrightarrow> (\<forall>off i. m off = Some (FactItem i) \<longrightarrow> index_ok m off i)"

fun perspective_abs :: "linear_items \<Rightarrow> linear_fact_perspective \<Rightarrow> mem_fact_perspective"
and prior_abs :: "linear_items \<Rightarrow> linear_fact_prior \<Rightarrow> fact_perspective_prior" where
  "perspective_abs items (LinearFactPerspective m prior) = MemFactPerspective m (prior_abs items prior)"
| "prior_abs items LFNone = FPNone"
| "prior_abs items (LFPerspective fp) = FPPerspective (perspective_abs items fp)"
| "prior_abs items (LFIndex off) = FPIndex (index_abs items off)"

fun lfp_ok :: "linear_items \<Rightarrow> linear_fact_perspective \<Rightarrow> bool" where
  "lfp_ok items (LinearFactPerspective m prior) \<longleftrightarrow> named_wf m \<and> (case prior of
      LFNone \<Rightarrow> True
    | LFPerspective fp \<Rightarrow> lfp_ok items fp
    | LFIndex off \<Rightarrow> \<exists>i. items off = Some (FactItem i))"

lemma facts_okD: "facts_ok m \<Longrightarrow> m off = Some (FactItem i) \<Longrightarrow> index_ok m off i"
  by (simp add: facts_ok_def)

lemma index_prior:
  assumes "facts_ok m" "m off = Some (FactItem i)" "fi_prior i = Some p"
  obtains j where "p < off" "m p = Some (FactItem j)" "fi_depth i = Suc (fi_depth j)"
  using facts_okD [OF assms(1,2)] assms(3) by (auto simp: index_ok_def)

lemma index_abs_step:
  assumes "facts_ok m" "m off = Some (FactItem i)"
  shows "index_abs m off = MemFactIndex (fi_facts i) (map_option (index_abs m) (fi_prior i))"
proof (cases "fi_prior i")
  case None
  then show ?thesis using assms(2) by (simp add: index_abs.simps [of m off])
next
  case (Some p)
  obtain j where "p < off" using index_prior [OF assms Some] by blast
  then show ?thesis using Some assms(2) by (simp add: index_abs.simps [of m off])
qed

lemma index_abs_wf: "facts_ok m \<Longrightarrow> m off = Some (FactItem i) \<Longrightarrow> mfi_wf (index_abs m off)"
proof (induction off arbitrary: i rule: less_induct)
  case (less off i)
  then show ?case
    using facts_okD [OF less.prems] index_prior [OF less.prems]
    by (cases "fi_prior i") (auto simp: index_abs_step [OF less.prems] index_ok_def)
qed

lemma index_abs_extend:
  "facts_ok m \<Longrightarrow> facts_ok m' \<Longrightarrow> m \<subseteq>\<^sub>m m' \<Longrightarrow> m off = Some (FactItem i) \<Longrightarrow> index_abs m' off = index_abs m off"
proof (induction off arbitrary: i rule: less_induct)
  case (less off i)
  have i': "m' off = Some (FactItem i)" using less.prems(3,4) by (auto simp: map_le_def dom_def)
  have "index_abs m' p = index_abs m p" if "fi_prior i = Some p" for p
    using index_prior [OF less.prems(1,4) that] less.IH [OF _ less.prems(1-3)] by metis
  then show ?case
    by (cases "fi_prior i") (simp_all add: index_abs_step [OF less.prems(1,4)] index_abs_step [OF less.prems(2) i'])
qed

lemma lfp_ok_extend: "m \<subseteq>\<^sub>m m' \<Longrightarrow> lfp_ok m fp \<Longrightarrow> lfp_ok m' fp"
  by (induction m fp rule: lfp_ok.induct) (auto simp: map_le_def dom_def split: linear_fact_prior.splits)

lemma perspective_abs_extend:
  "facts_ok m \<Longrightarrow> facts_ok m' \<Longrightarrow> m \<subseteq>\<^sub>m m' \<Longrightarrow> lfp_ok m fp \<Longrightarrow> perspective_abs m' fp = perspective_abs m fp"
proof (induction m fp rule: lfp_ok.induct)
  case (1 items m prior)
  then show ?case using index_abs_extend [OF 1(2-4)] by (cases prior) auto
qed

lemma perspective_abs_wf: "facts_ok m \<Longrightarrow> lfp_ok m fp \<Longrightarrow> mfp_wf (perspective_abs m fp)"
proof (induction m fp rule: lfp_ok.induct)
  case (1 items m prior)
  then show ?case using index_abs_wf [OF 1(2)] by (cases prior) auto
qed

subsection \<open>Maps\<close>

lemma add_matches_named: "bt_get (add_matches kv sub) k = (case bt_get sub k of Some v \<Rightarrow> Some v | None \<Rightarrow> bt_get kv k)"
  by (simp add: add_matches_get bt_get_map_of [of kv] split: option.split)

lemma merge_older_spec:
  assumes "list_all (\<lambda>(_, fm). bt_wf fm) facts" "bt_wf facts" "named_wf m"
  shows "named_wf (merge_older facts m) \<and>
    named_get (merge_older facts m) n k = (case named_get m n k of Some v \<Rightarrow> Some v | None \<Rightarrow> named_get facts n k)"
  using assms
proof (induction facts arbitrary: m)
  case Nil
  then show ?case by (simp add: merge_older_def split: option.split)
next
  case (Cons e facts)
  obtain name kv where e: "e = (name, kv)" by (cases e)
  let ?m = "bt_insert name (add_matches kv (case bt_get m name of None \<Rightarrow> [] | Some sub \<Rightarrow> sub)) m"
  have kv: "bt_wf kv" using Cons.prems(1) e by simp
  have wf: "named_wf ?m"
    using Cons.prems(3) by (auto simp: named_wf_def add_matches_wf split: option.split if_splits)
  have get: "named_get ?m n k = (if n = name then case named_get m n k of Some v \<Rightarrow> Some v | None \<Rightarrow> bt_get kv k else named_get m n k)"
    using kv by (auto simp: named_get_def add_matches_named split: option.split)
  have absent: "bt_get facts name = None" using Cons.prems(2) e bt_wf_ConsD by (simp add: bt_get_None_iff)
  have "merge_older (e # facts) m = merge_older facts ?m" by (simp add: merge_older_def e)
  then show ?case
    using Cons.IH [of ?m] Cons.prems(1,2) e wf get absent
    by (auto simp: bt_wf_Cons named_get_def split: option.splits)
qed

lemma merge_older_named:
  "named_wf facts \<Longrightarrow> named_wf m \<Longrightarrow> named_wf (merge_older facts m)"
  "named_wf facts \<Longrightarrow> named_wf m \<Longrightarrow>
   named_get (merge_older facts m) n k = (case named_get m n k of Some v \<Rightarrow> Some v | None \<Rightarrow> named_get facts n k)"
  using merge_older_spec by (auto simp: named_wf_code)

lemma bt_wf_map_values: "bt_wf (map (\<lambda>(k, v). (k, f v)) m) \<longleftrightarrow> bt_wf m"
  by (simp add: bt_wf_def comp_def case_prod_beta)

lemma bt_get_map_values: "bt_get (map (\<lambda>(k, v). (k, f v)) m) k = map_option f (bt_get m k)"
  by (induction m) auto

lemma drop_tombstones_wf: "named_wf m \<Longrightarrow> named_wf (drop_tombstones m)"
  by (auto simp: named_wf_def drop_tombstones_def bt_wf_map_values bt_get_retain bt_get_map_values split: option.splits if_splits)

lemma drop_tombstones_get:
  "named_wf m \<Longrightarrow> named_get (drop_tombstones m) n k = (case named_get m n k of Some (Some v) \<Rightarrow> Some (Some v) | _ \<Rightarrow> None)"
proof -
  assume wf: "named_wf m"
  then have "bt_wf (map (\<lambda>(n, kv). (n, bt_retain (\<lambda>v. v \<noteq> None) kv)) m)" by (simp add: bt_wf_map_values named_wf_def)
  moreover have "bt_get (bt_retain (\<lambda>v. v \<noteq> None) kv) k = (case bt_get kv k of Some (Some v) \<Rightarrow> Some (Some v) | _ \<Rightarrow> None)"
    if "bt_get m n = Some kv" for kv
    using wf that by (auto simp: named_wf_def bt_get_retain split: option.split)
  ultimately show ?thesis
    by (auto simp: drop_tombstones_def named_get_def bt_get_retain bt_get_map_values split: option.splits if_splits)
qed

text \<open>The facts of a map on top of others, and those of an optional prior index.\<close>

definition over :: "named_fact_map \<Rightarrow> fact_state \<Rightarrow> fact_state" where
  "over m S = (\<lambda>n k. case named_get m n k of Some v \<Rightarrow> v | None \<Rightarrow> S n k)"

fun prior_state :: "linear_items \<Rightarrow> fact_index_repr option \<Rightarrow> fact_state" where
  "prior_state m None = (\<lambda>_ _. None)"
| "prior_state m (Some p) = mfi_query (index_abs m (fi_offset p))"

lemma over_Nil [simp]: "over [] S = S"
  by (simp add: over_def)

lemma query_over:
  "mfi_query (MemFactIndex mp (map_option (\<lambda>p. index_abs m (fi_offset p)) prior)) = over mp (prior_state m prior)"
  "mfp_query (MemFactPerspective mp FPNone) = over mp (\<lambda>_ _. None)"
  "mfp_query (MemFactPerspective mp (FPPerspective fp)) = over mp (mfp_query fp)"
  "mfp_query (MemFactPerspective mp (FPIndex fi)) = over mp (mfi_query fi)"
  by (cases prior; auto simp: over_def fun_eq_iff split: option.split)+

subsection \<open>Items that were added\<close>

definition facts_added :: "linear_items \<Rightarrow> linear_items \<Rightarrow> bool" where
  "facts_added m m' \<longleftrightarrow> m \<subseteq>\<^sub>m m' \<and> facts_ok m' \<and>
     (\<forall>off. m' off \<noteq> None \<longrightarrow> m off = None \<longrightarrow> (\<exists>i. m' off = Some (FactItem i)) \<and> (\<forall>p. m p \<noteq> None \<longrightarrow> p < off))"

lemma facts_added_refl: "facts_ok m \<Longrightarrow> facts_added m m"
  by (simp add: facts_added_def)

lemma facts_added_trans: "facts_added m m' \<Longrightarrow> facts_added m' m'' \<Longrightarrow> facts_added m m''"
  unfolding facts_added_def map_le_def dom_def by (smt (verit) mem_Collect_eq)

lemma facts_added_get: "facts_added m m' \<Longrightarrow> m off = Some it \<Longrightarrow> m' off = Some it"
  by (auto simp: facts_added_def map_le_def dom_def)

lemma facts_added_abs:
  "facts_ok m \<Longrightarrow> facts_added m m' \<Longrightarrow> m off = Some (FactItem i) \<Longrightarrow> index_abs m' off = index_abs m off"
  unfolding facts_added_def by (blast intro: index_abs_extend)

lemma facts_added_item:
  assumes "facts_ok m" "\<forall>p. m p \<noteq> None \<longrightarrow> p < off" "index_ok m off i"
  shows "facts_added m (m(off \<mapsto> FactItem i))"
proof -
  have fresh: "m off = None" using assms(2) by (metis less_irrefl)
  have "index_ok (m(off \<mapsto> FactItem i)) o' j" if "index_ok m o' j" for o' j
    using that fresh by (auto simp: index_ok_def split: option.splits)
  then have "facts_ok (m(off \<mapsto> FactItem i))" using assms(1,3) by (auto simp: facts_ok_def)
  moreover have "m \<subseteq>\<^sub>m m(off \<mapsto> FactItem i)" using fresh by (auto simp: map_le_def dom_def)
  ultimately show ?thesis using assms(2) by (auto simp: facts_added_def)
qed

section \<open>Queries\<close>

context linear_io
begin

lemma lfi_query_abs:
  "rep w m h \<Longrightarrow> facts_ok m \<Longrightarrow> m off = Some (FactItem i) \<Longrightarrow>
   lfi_query io w i n k = Some (Ok (mfi_query (index_abs m off) n k))"
proof (induction off arbitrary: i rule: less_induct)
  case (less off i)
  show ?case
  proof (cases "fi_prior i")
    case None
    then show ?thesis by (simp add: lfi_query.simps [of io w i] index_abs_step [OF less.prems(2,3)] split: option.split)
  next
    case (Some p)
    obtain j where j: "p < off" "m p = Some (FactItem j)" using index_prior [OF less.prems(2,3) Some] by blast
    from fetch_facts [OF less.prems(1) j(2)] less.IH [OF j(1) less.prems(1,2) j(2)] Some show ?thesis
      by (simp add: lfi_query.simps [of io w i] index_abs_step [OF less.prems(2,3)] split: option.split)
  qed
qed

lemma lfi_prefix_loop_abs:
  "rep w m h \<Longrightarrow> facts_ok m \<Longrightarrow> m off = Some (FactItem i) \<Longrightarrow>
   lfi_prefix_loop io w n p ms i = Some (Ok (mfi_prefix_loop ms (index_abs m off) n p))"
proof (induction off arbitrary: i ms rule: less_induct)
  case (less off i ms)
  show ?case
  proof (cases "fi_prior i")
    case None
    then show ?thesis by (simp add: lfi_prefix_loop.simps [of io w n p ms i] index_abs_step [OF less.prems(2,3)])
  next
    case (Some q)
    obtain j where j: "q < off" "m q = Some (FactItem j)" using index_prior [OF less.prems(2,3) Some] by blast
    from fetch_facts [OF less.prems(1) j(2)] less.IH [OF j(1) less.prems(1,2) j(2)] Some show ?thesis
      by (simp add: lfi_prefix_loop.simps [of io w n p ms i] index_abs_step [OF less.prems(2,3)] Let_def)
  qed
qed

lemma lfi_prefix_abs:
  assumes "rep w m h" "facts_ok m" "m off = Some (FactItem i)"
  shows "lfi_query_prefix io w i n p = Some (Ok (mfi_query_prefix (index_abs m off) n p))"
    "lfi_query_prefix_inner io w i n p = Some (Ok (mfi_query_prefix_inner (index_abs m off) n p))"
  by (simp_all add: lfi_query_prefix_def lfi_query_prefix_inner_def lfi_prefix_loop_abs [OF assms]
      mfi_query_prefix_def mfi_query_prefix_inner_def)

lemma lfp_query_abs:
  "rep w m h \<Longrightarrow> facts_ok m \<Longrightarrow> lfp_ok m fp \<Longrightarrow> lfp_query io w fp n k = Some (Ok (mfp_query (perspective_abs m fp) n k))"
proof (induction m fp rule: lfp_ok.induct)
  case (1 items m prior)
  then show ?case
    by (cases prior) (auto simp: fetch_facts lfi_query_abs split: option.split)
qed

lemma lfp_prefix_inner_abs:
  "rep w m h \<Longrightarrow> facts_ok m \<Longrightarrow> lfp_ok m fp \<Longrightarrow>
   lfp_query_prefix_inner io w fp n p = Some (Ok (mfp_query_prefix_inner (perspective_abs m fp) n p))"
proof (induction m fp rule: lfp_ok.induct)
  case (1 items m prior)
  then show ?case
    by (cases prior) (auto simp: fetch_facts lfi_prefix_abs Let_def)
qed

lemma lfp_prefix_abs:
  "rep w m h \<Longrightarrow> facts_ok m \<Longrightarrow> lfp_ok m fp \<Longrightarrow>
   lfp_query_prefix io w fp n p = Some (Ok (mfp_query_prefix (perspective_abs m fp) n p))"
  by (simp add: lfp_query_prefix_def lfp_prefix_inner_abs mfp_query_prefix_def)

section \<open>Compaction\<close>

lemma compact_loop_abs:
  "rep w m h \<Longrightarrow> facts_ok m \<Longrightarrow> m off = Some (FactItem i) \<Longrightarrow> named_wf acc \<Longrightarrow>
   \<exists>r. compact_loop io w acc i = Some (Ok r) \<and> named_wf r \<and>
     (\<forall>n k. named_get r n k = (case named_get acc n k of Some v \<Rightarrow> Some v | None \<Rightarrow> mfi_get (index_abs m off) n k))"
proof (induction off arbitrary: i acc rule: less_induct)
  case (less off i acc)
  let ?acc = "merge_older (fi_facts i) acc"
  have facts: "named_wf (fi_facts i)" using facts_okD [OF less.prems(2,3)] by (simp add: index_ok_def)
  note merged = merge_older_named [OF facts less.prems(4)]
  show ?case
  proof (cases "fi_prior i")
    case None
    then show ?thesis
      using merged by (auto simp: compact_loop.simps [of io w acc i] index_abs_step [OF less.prems(2,3)] split: option.split)
  next
    case (Some p)
    obtain j where j: "p < off" "m p = Some (FactItem j)" using index_prior [OF less.prems(2,3) Some] by blast
    obtain r where r: "compact_loop io w ?acc j = Some (Ok r)" "named_wf r"
        "\<And>n k. named_get r n k = (case named_get ?acc n k of Some v \<Rightarrow> Some v | None \<Rightarrow> mfi_get (index_abs m p) n k)"
      using less.IH [OF j(1) less.prems(1,2) j(2) merged(1)] by blast
    have "compact_loop io w acc i = Some (Ok r)"
      using r(1) Some fetch_facts [OF less.prems(1) j(2)] by (simp add: compact_loop.simps [of io w acc i])
    then show ?thesis
      using r(2,3) merged(2) Some by (auto simp: index_abs_step [OF less.prems(2,3)] split: option.split)
  qed
qed

section \<open>Writing preserves the facts\<close>

text \<open>
  The outcome of writing facts \<open>S\<close>: only fact items were added; with success the item
  returned stands for \<open>S\<close>, and a failure is one of the writer.
\<close>

definition written :: "linear_items \<Rightarrow> location option \<Rightarrow> fact_state \<Rightarrow> (fact_index_repr, storage_error) result \<Rightarrow> 'w \<Rightarrow> bool" where
  "written m h S r w \<longleftrightarrow> (\<exists>m'. facts_added m m' \<and> rep w m' h \<and> (case r of
      Ok i \<Rightarrow> m' (fi_offset i) = Some (FactItem i) \<and> mfi_query (index_abs m' (fi_offset i)) = S
    | _ \<Rightarrow> \<exists>build u mu. rep u mu h \<and> io_append_facts io build u = (r, w)))"

lemma written_mono: "facts_added m m' \<Longrightarrow> written m' h S r w \<Longrightarrow> written m h S r w"
  unfolding written_def using facts_added_trans by blast

lemma written_failed: "written m h S (Err e) w \<Longrightarrow> written m h S' (Err e) w" "written m h S (Panic q) w \<Longrightarrow> written m h S' (Panic q) w"
  by (simp_all add: written_def)

lemma append_index_spec:
  assumes "rep w m h" "facts_ok m" "named_wf mp"
    "\<And>p. prior = Some p \<Longrightarrow> m (fi_offset p) = Some (FactItem p) \<and> fi_depth p < max_fact_index_depth"
  shows "lwp (append_index io mp prior) (\<lambda>r w'.
      written m h (over mp (prior_state m prior)) r w' \<and>
      (\<forall>i. r = Ok i \<longrightarrow> fi_depth i = Suc (case prior of Some p \<Rightarrow> fi_depth p | None \<Rightarrow> 0))) w"
proof -
  let ?d = "case prior of Some p \<Rightarrow> fi_depth p | None \<Rightarrow> 0"
  have d: "?d < 16" using assms(4) by (cases prior) (auto simp: max_fact_index_depth_def)
  let ?b = "\<lambda>offset. \<lparr>fi_offset = offset, fi_prior = map_option fi_offset prior, fi_depth = Suc ?d, fi_facts = mp\<rparr>"
  obtain r w' where rw: "io_append_facts io ?b w = (r, w')" by (cases "io_append_facts io ?b w")
  have run: "append_index io mp prior w = Some (r, w')"
    using d rw by (simp add: append_index_def lprog_defs usize_checked_add_def usize_limit_def max_fact_index_depth_def)
  have app: "appended rep FactItem ?b m h (r, w')" using append_facts [OF assms(1), of ?b] rw by simp
  show ?thesis
  proof (cases r)
    case (Ok i)
    then obtain off where off: "i = ?b off" "\<forall>p. m p \<noteq> None \<longrightarrow> p < off" "rep w' (m(off \<mapsto> FactItem i)) h"
      using app by (auto simp: appended_def)
    have ok: "index_ok m off i"
      using off(1,2) assms(3,4) d by (cases prior) (auto simp: index_ok_def max_fact_index_depth_def)
    note added = facts_added_item [OF assms(2) off(2) ok]
    then have ok': "facts_ok (m(off \<mapsto> FactItem i))" by (simp add: facts_added_def)
    have "index_abs (m(off \<mapsto> FactItem i)) (fi_offset p) = index_abs m (fi_offset p)" if "prior = Some p" for p
      using facts_added_abs [OF assms(2) added] assms(4) [OF that] by blast
    then have "index_abs (m(off \<mapsto> FactItem i)) off = MemFactIndex mp (map_option (\<lambda>p. index_abs m (fi_offset p)) prior)"
      using index_abs_step [OF ok', of off i] off(1) by (cases prior) simp_all
    then have "written m h (over mp (prior_state m prior)) r w'"
      using added off(1,3) Ok by (auto simp: written_def query_over intro!: exI [of _ "m(off \<mapsto> FactItem i)"])
    then show ?thesis using run Ok off(1) by (simp add: lwp_def)
  qed (use app run rw assms(1) facts_added_refl [OF assms(2)] in \<open>auto simp: lwp_def written_def appended_def intro!: exI [of _ m]\<close>)
qed

lemma lin_compact_spec:
  assumes "rep w m h" "facts_ok m" "m (fi_offset p) = Some (FactItem p)"
  shows "lwp (lin_compact io p) (\<lambda>r w'. written m h (mfi_query (index_abs m (fi_offset p))) r w' \<and>
      (\<forall>i. r = Ok i \<longrightarrow> fi_depth i = 1)) w"
proof -
  obtain mp where mp: "compact_loop io w [] p = Some (Ok mp)" "named_wf mp"
      "\<And>n k. named_get mp n k = mfi_get (index_abs m (fi_offset p)) n k"
    using compact_loop_abs [OF assms, of "[]"] by auto
  have "over (drop_tombstones mp) (\<lambda>_ _. None) = mfi_query (index_abs m (fi_offset p))"
    by (intro ext) (simp add: over_def drop_tombstones_get [OF mp(2)] mp(3) mfi_query_get split: option.split)
  then show ?thesis
    using append_index_spec [OF assms(1,2) drop_tombstones_wf [OF mp(2)], of None] mp(1)
    by (simp add: lwp_def lin_compact_def lbind_def lread_def)
qed

lemma new_index_spec:
  assumes "rep w m h" "facts_ok m" "named_wf mp" "\<And>p. prior = Some p \<Longrightarrow> m (fi_offset p) = Some (FactItem p)"
  shows "lwp (new_index io mp prior) (written m h (over mp (prior_state m prior))) w"
proof (cases prior)
  case None
  then show ?thesis
    using append_index_spec [OF assms(1-3), of None] by (auto simp: new_index_def elim!: lwp_mono)
next
  case (Some p)
  note p = assms(4) [OF Some]
  let ?R = "\<lambda>r w'. written m h (mfi_query (index_abs m (fi_offset p))) r w' \<and> (\<forall>i. r = Ok i \<longrightarrow> fi_depth i < max_fact_index_depth)"
  have "lwp (if fi_depth p > max_fact_index_depth - 1 then lin_compact io p else lreturn p) ?R w"
    using lin_compact_spec [OF assms(1,2) p] p assms(1) facts_added_refl [OF assms(2)]
    by (auto simp: lwp_basic written_def max_fact_index_depth_def elim!: lwp_mono)
  then show ?thesis
    unfolding new_index_def Some option.case
  proof (rule lwp_lbindI)
    fix p' w' assume "?R (Ok p') w'"
    then obtain m' where m': "facts_added m m'" "rep w' m' h" "m' (fi_offset p') = Some (FactItem p')"
        "mfi_query (index_abs m' (fi_offset p')) = mfi_query (index_abs m (fi_offset p))" "fi_depth p' < max_fact_index_depth"
      by (auto simp: written_def)
    have "facts_ok m'" using m'(1) by (simp add: facts_added_def)
    from append_index_spec [OF m'(2) this assms(3), of "Some p'"] m'(3-5)
    show "lwp (append_index io mp (Some p')) (written m h (over mp (prior_state m (Some p)))) w'"
      by (auto intro: written_mono [OF m'(1)] elim!: lwp_mono)
  qed (elim conjE, erule written_failed)+
qed

lemma lin_write_facts_spec:
  "rep w m h \<Longrightarrow> facts_ok m \<Longrightarrow> lfp_ok m fp \<Longrightarrow>
   lwp (lin_write_facts io fp) (written m h (mfp_query (perspective_abs m fp))) w"
proof (induction m fp arbitrary: w rule: lfp_ok.induct)
  case (1 m mp prior)
  have mp: "named_wf mp" using 1(4) by simp
  have layer: "lwp (if mp = [] then lreturn p else new_index io mp (Some p)) (written m h S) w'"
    if p: "written m h Q (Ok p) w'" and S: "S = over mp Q" for p w' Q S
  proof -
    obtain m' where m': "facts_added m m'" "rep w' m' h" "m' (fi_offset p) = Some (FactItem p)" "mfi_query (index_abs m' (fi_offset p)) = Q"
      using p by (auto simp: written_def)
    show ?thesis
    proof (cases "mp = []")
      case True
      then show ?thesis using p S by (simp add: lwp_basic)
    next
      case False
      have "facts_ok m'" using m'(1) by (simp add: facts_added_def)
      from new_index_spec [OF m'(2) this mp, of "Some p"] m'(3,4) False show ?thesis
        by (auto simp: S intro: written_mono [OF m'(1)] elim!: lwp_mono)
    qed
  qed
  show ?case
  proof (cases prior)
    case LFNone
    then show ?thesis
      using new_index_spec [OF 1(2,3) mp, of None] by (simp add: query_over)
  next
    case (LFPerspective fp)
    have "lwp (lin_write_facts io fp) (written m h (mfp_query (perspective_abs m fp))) w" using 1 LFPerspective by simp
    then show ?thesis
      unfolding LFPerspective lin_write_facts.simps linear_fact_prior.case
    proof (rule lwp_lbindI)
      fix p w' assume "written m h (mfp_query (perspective_abs m fp)) (Ok p) w'"
      then show "lwp (if mp = [] then lreturn p else new_index io mp (Some p))
        (written m h (mfp_query (perspective_abs m (LinearFactPerspective mp (LFPerspective fp))))) w'"
        by (rule layer) (simp add: query_over)
    qed (erule written_failed)+
  next
    case (LFIndex off)
    then obtain i where i: "m off = Some (FactItem i)" using 1(4) by auto
    have "fi_offset i = off" using facts_okD [OF 1(3) i] by (simp add: index_ok_def)
    then have "written m h (mfi_query (index_abs m off)) (Ok i) w"
      using 1(2) i facts_added_refl [OF 1(3)] by (auto simp: written_def)
    note top = layer [OF this refl]
    have "lin_write_facts io (LinearFactPerspective mp prior) w = (if mp = [] then lreturn i else new_index io mp (Some i)) w"
      using LFIndex fetch_facts [OF 1(2) i] by (simp only: lin_write_facts.simps linear_fact_prior.case lbind_def lread_def) simp
    with top show ?thesis by (simp only: lwp_def LFIndex perspective_abs.simps prior_abs.simps query_over)
  qed
qed

end

end
