(* ===== verification/Linear_Storage.thy ===== *)
theory Linear_Storage
  imports Linear_Facts Client "HOL-Library.Product_Lexorder"
begin

text \<open>
  The linear storage (\<open>aranya-runtime/src/storage/linear/mod.rs\<close>): segments with their skip
  lists, perspectives, writing and committing, and the provider that opens and creates the
  storages of graphs. A storage is its writer; segments are the items read from it.
\<close>

section \<open>Segments\<close>

definition lseg_command :: "linear_command_data \<Rightarrow> address prior \<Rightarrow> nat \<Rightarrow> stored_command" where
  "lseg_command d parent max_cut =
     \<lparr>cmd_priority = lcd_priority d, cmd_id = lcd_id d, cmd_parent = parent, cmd_policy = lcd_policy d,
      cmd_bytes = lcd_data d, sc_max_cut = max_cut\<rparr>"

definition lseg_longest_max_cut :: "segment_repr \<Rightarrow> (nat, storage_error) result" where
  "lseg_longest_max_cut s =
     rbind (ok_or (StorageBug ''must not overflow'') (usize_checked_add (sr_max_cut s) (length (sr_commands s)))) (\<lambda>n.
     ok_or (StorageBug ''must not overflow'') (usize_checked_sub n 1))"

definition lseg_shortest_max_cut :: "segment_repr \<Rightarrow> nat" where
  "lseg_shortest_max_cut s = sr_max_cut s"

definition lseg_head :: "segment_repr \<Rightarrow> (stored_command, storage_error) result" where
  "lseg_head s =
     rbind (case usize_checked_sub (length (sr_commands s)) 2 of
         Some prev \<Rightarrow> rbind (ok_or (StorageBug ''must not overflow'') (usize_checked_add (sr_max_cut s) prev)) (\<lambda>m.
           Ok (PSingle \<lparr>addr_id = lcd_id (sr_commands s ! prev), addr_max_cut = m\<rparr>))
       | None \<Rightarrow> Ok (sr_parents s)) (\<lambda>parent.
     rbind (lseg_longest_max_cut s) (\<lambda>m. Ok (lseg_command (last (sr_commands s)) parent m)))"

definition lseg_first :: "segment_repr \<Rightarrow> stored_command" where
  "lseg_first s = lseg_command (hd (sr_commands s)) (sr_parents s) (sr_max_cut s)"

definition lseg_head_location :: "segment_repr \<Rightarrow> location" where
  "lseg_head_location s = location_new (sr_offset s) (length (sr_commands s) - 1)"

definition lseg_first_location :: "segment_repr \<Rightarrow> location" where
  "lseg_first_location s = location_new (sr_offset s) 0"

definition lseg_contains :: "segment_repr \<Rightarrow> location \<Rightarrow> bool" where
  "lseg_contains s l \<longleftrightarrow> loc_segment l = sr_offset s \<and> loc_command l < length (sr_commands s)"

definition lseg_get_command :: "segment_repr \<Rightarrow> location \<Rightarrow> stored_command option" where
  "lseg_get_command s l =
     (if sr_offset s \<noteq> loc_segment l then None
      else if loc_command l < length (sr_commands s) then
        Option.bind (case usize_checked_sub (loc_command l) 1 of
            Some prev \<Rightarrow> map_option (\<lambda>m. PSingle \<lparr>addr_id = lcd_id (sr_commands s ! prev), addr_max_cut = m\<rparr>)
              (usize_checked_add (sr_max_cut s) prev)
          | None \<Rightarrow> Some (sr_parents s)) (\<lambda>parent.
        map_option (lseg_command (sr_commands s ! loc_command l) parent) (usize_checked_add (sr_max_cut s) (loc_command l)))
      else None)"

definition lseg_get_from :: "segment_repr \<Rightarrow> location \<Rightarrow> (stored_command list, 'e) result" where
  "lseg_get_from s l =
     (if sr_offset s \<noteq> loc_segment l then Ok []
      else rseq (map (\<lambda>c. case lseg_get_command s (location_new (loc_segment l) c) of
          Some cmd \<Rightarrow> Ok cmd
        | None \<Rightarrow> Panic ''constructed location is valid'') [loc_command l..<length (sr_commands s)]))"

definition lseg_get_from_max_cut :: "segment_repr \<Rightarrow> nat \<Rightarrow> (location option, storage_error) result" where
  "lseg_get_from_max_cut s m =
     (if m \<ge> sr_max_cut s then
        rbind (ok_or (StorageBug ''must not overflow'') (usize_checked_add (sr_max_cut s) (length (sr_commands s)))) (\<lambda>end_cut.
        if m \<le> end_cut then
          rbind (ok_or (StorageBug ''must not overflow'') (usize_checked_sub m (sr_max_cut s))) (\<lambda>c.
          Ok (Some (location_new (sr_offset s) c)))
        else Ok None)
      else Ok None)"

definition lseg_facts :: "'w io_ops \<Rightarrow> 'w \<Rightarrow> segment_repr \<Rightarrow> (fact_index_repr, storage_error) result" where
  "lseg_facts io w s = io_fetch_facts io w (sr_facts s)"

section \<open>Storage operations\<close>

definition lin_get_segment :: "'w io_ops \<Rightarrow> 'w \<Rightarrow> location \<Rightarrow> (segment_repr, storage_error) result" where
  "lin_get_segment io w l = io_fetch_segment io w (loc_segment l)"

definition lin_ops :: "'w io_ops \<Rightarrow> ('w, segment_repr) storage_ops" where
  "lin_ops io = \<lparr>so_get_segment = lin_get_segment io, so_get_head = io_head io, so_prior = sr_prior,
     so_get_command = lseg_get_command, so_get_from_max_cut = lseg_get_from_max_cut,
     so_longest_max_cut = lseg_longest_max_cut, so_skip_list = sr_skip_list\<rparr>"

definition lin_get_command_id :: "'w io_ops \<Rightarrow> 'w \<Rightarrow> location \<Rightarrow> (command_id, storage_error) result" where
  "lin_get_command_id io w l =
     rbind (lin_get_segment io w l) (\<lambda>seg.
     rbind (ok_or (CommandOutOfBounds l) (lseg_get_command seg l)) (\<lambda>c. Ok (cmd_id c)))"

text \<open>The loop of \<open>get_skip\<close>; the inner loop takes the first entry that is low enough.\<close>

partial_function (option) get_skip ::
  "'w io_ops \<Rightarrow> 'w \<Rightarrow> nat \<Rightarrow> (location \<times> nat) option \<Rightarrow> segment_repr \<Rightarrow> ((location \<times> nat) option, storage_error) result option"
where
  "get_skip io w max_cut current head =
     robind (Some (lseg_longest_max_cut head)) (\<lambda>longest.
     if max_cut > longest then Some (Ok current)
     else let current' = Some (lseg_first_location head, lseg_shortest_max_cut head) in
       if max_cut \<ge> lseg_shortest_max_cut head then Some (Ok current')
       else (case find (\<lambda>(_, skip_max_cut). skip_max_cut \<le> max_cut) (sr_skip_list head) of
           Some (skip, _) \<Rightarrow> robind (Some (lin_get_segment io w skip)) (\<lambda>seg. get_skip io w max_cut current' seg)
         | None \<Rightarrow> (case sr_prior head of
               PSingle l \<Rightarrow> robind (Some (lin_get_segment io w l)) (\<lambda>seg. get_skip io w max_cut current' seg)
             | _ \<Rightarrow> Some (Ok current'))))"

declare get_skip.simps [code]

text \<open>
  The closure \<open>get_skips\<close>. The draws of the random generator are a function of their
  number; draw \<open>i\<close> from the range below \<open>n\<close> is \<open>rnd i mod n\<close>.
\<close>

fun get_skips ::
  "'w io_ops \<Rightarrow> 'w \<Rightarrow> (nat \<Rightarrow> nat) \<Rightarrow> location \<Rightarrow> nat \<Rightarrow> (location \<times> nat) list \<Rightarrow> ((location \<times> nat) list, storage_error) result option" where
  "get_skips io w rnd l 0 skips = Some (Ok skips)"
| "get_skips io w rnd l (Suc left) skips =
     robind (Some (lin_get_segment io w l)) (\<lambda>segment.
     robind (Some (ok_or (StorageBug ''location must exist'') (lseg_get_command segment l))) (\<lambda>c.
     if sc_max_cut c > 0 then
       robind (get_skip io w (rnd left mod sc_max_cut c) None segment) (\<lambda>found. case found of
           Some skip \<Rightarrow> get_skips io w rnd l left (if skip \<in> set skips then skips else skips @ [skip])
         | None \<Rightarrow> Some (Ok skips))
     else get_skips io w rnd l left skips))"

definition sort_skips :: "(location \<times> nat) list \<Rightarrow> (location \<times> nat) list" where
  "sort_skips = sort_key (\<lambda>(l, c). (loc_segment l, loc_command l, c))"

section \<open>Perspectives\<close>

record linear_perspective =
  lp_prior :: "location prior"
  lp_parents :: "address prior"
  lp_policy :: policy_id
  lp_facts :: linear_fact_perspective
  lp_commands :: "linear_command_data list"
  lp_current_updates :: "fact_update list"
  lp_max_cut :: nat
  lp_last_common_ancestor :: "(location \<times> nat) option"

definition lp_new ::
  "location prior \<Rightarrow> address prior \<Rightarrow> policy_id \<Rightarrow> linear_fact_prior \<Rightarrow> nat \<Rightarrow> (location \<times> nat) option \<Rightarrow> linear_perspective" where
  "lp_new prior pars policy prior_facts max_cut lca =
     \<lparr>lp_prior = prior, lp_parents = pars, lp_policy = policy, lp_facts = lfp_new prior_facts, lp_commands = [],
      lp_current_updates = [], lp_max_cut = max_cut, lp_last_common_ancestor = lca\<rparr>"

definition lp_query ::
  "'w io_ops \<Rightarrow> 'w \<Rightarrow> linear_perspective \<Rightarrow> string \<Rightarrow> keys \<Rightarrow> (bytes option, storage_error) result option" where
  "lp_query io w p = lfp_query io w (lp_facts p)"

definition lp_query_prefix ::
  "'w io_ops \<Rightarrow> 'w \<Rightarrow> linear_perspective \<Rightarrow> string \<Rightarrow> keys \<Rightarrow> (stored_fact list, storage_error) result option" where
  "lp_query_prefix io w p = lfp_query_prefix io w (lp_facts p)"

definition lp_insert :: "string \<Rightarrow> keys \<Rightarrow> bytes \<Rightarrow> linear_perspective \<Rightarrow> linear_perspective" where
  "lp_insert n k v p = p\<lparr>lp_facts := lfp_insert n k v (lp_facts p),
     lp_current_updates := lp_current_updates p @ [(n, k, Some v)]\<rparr>"

definition lp_delete :: "string \<Rightarrow> keys \<Rightarrow> linear_perspective \<Rightarrow> linear_perspective" where
  "lp_delete n k p = p\<lparr>lp_facts := lfp_delete n k (lp_facts p),
     lp_current_updates := lp_current_updates p @ [(n, k, None)]\<rparr>"

text \<open>The loop over the recorded updates that three operations share.\<close>

definition lfp_replay :: "linear_command_data list \<Rightarrow> linear_fact_perspective \<Rightarrow> linear_fact_perspective" where
  "lfp_replay ds fp = fold (\<lambda>d. lfp_apply_updates (lcd_updates d)) ds fp"

definition lp_checkpoint :: "linear_perspective \<Rightarrow> nat" where
  "lp_checkpoint p = length (lp_commands p)"

definition lp_revert :: "nat \<Rightarrow> (linear_perspective, unit, string) prog" where
  "lp_revert index = (\<lambda>p.
     if index = length (lp_commands p) then (Ok (), p)
     else if index > length (lp_commands p) then
       (Err ''A checkpoint's index should always be less than or equal to the length of a perspective's command history!'', p)
     else let cmds = take index (lp_commands p) in
       (Ok (), p\<lparr>lp_commands := cmds, lp_facts := lfp_replay cmds (lfp_clear (lp_facts p)), lp_current_updates := []\<rparr>))"

definition lp_head_address :: "linear_perspective \<Rightarrow> (address prior, string) result" where
  "lp_head_address p =
     (if lp_commands p = [] then Ok (lp_parents p)
      else rbind (ok_or ''must not overflow'' (usize_checked_add (lp_max_cut p) (length (lp_commands p)))) (\<lambda>n.
           rbind (ok_or ''must not overflow'' (usize_checked_sub n 1)) (\<lambda>m.
           Ok (PSingle \<lparr>addr_id = lcd_id (last (lp_commands p)), addr_max_cut = m\<rparr>))))"

definition lp_add_command :: "command \<Rightarrow> (linear_perspective, nat, storage_error) prog" where
  "lp_add_command c =
     pbind (\<lambda>p. (map_err StorageBug (lp_head_address p), p)) (\<lambda>head.
     if cmd_parent c \<noteq> head then pfail PerspectiveHeadMismatch
     else pbind (pmodify (\<lambda>p. p\<lparr>lp_commands := lp_commands p @
            [\<lparr>lcd_id = cmd_id c, lcd_priority = cmd_priority c, lcd_policy = cmd_policy c, lcd_data = cmd_bytes c,
              lcd_updates = lp_current_updates p\<rparr>], lp_current_updates := []\<rparr>)) (\<lambda>_.
          pgets (\<lambda>p. length (lp_commands p))))"

definition lp_includes :: "linear_perspective \<Rightarrow> command_id \<Rightarrow> bool" where
  "lp_includes p i = list_ex (\<lambda>d. lcd_id d = i) (lp_commands p)"

section \<open>Reading and writing\<close>

definition lin_prior_facts :: "fact_index_repr \<Rightarrow> linear_fact_prior" where
  "lin_prior_facts i = (case fi_prior i of Some off \<Rightarrow> LFIndex off | None \<Rightarrow> LFNone)"

definition lin_get_linear_perspective ::
  "'w io_ops \<Rightarrow> 'w \<Rightarrow> location \<Rightarrow> (linear_perspective option, storage_error) result" where
  "lin_get_linear_perspective io w parent =
     rbind (lin_get_segment io w parent) (\<lambda>seg.
     rbind (ok_or (CommandOutOfBounds parent) (lseg_get_command seg parent)) (\<lambda>c.
     rbind (if parent = lseg_head_location seg then Ok (LFIndex (sr_facts seg))
       else rbind (lseg_facts io w seg) (\<lambda>i.
         let facts = lfp_replay (take (Suc (loc_command parent)) (sr_commands seg)) (lfp_new (lin_prior_facts i));
             m = (if lfp_prior facts = LFNone then bt_retain (\<lambda>kv. kv \<noteq> []) (lfp_map facts) else lfp_map facts) in
         Ok (if m = [] then lfp_prior facts else LFPerspective (LinearFactPerspective m (lfp_prior facts))))) (\<lambda>prior_facts.
     rbind (ok_or (StorageBug ''must not overflow'') (usize_checked_add (sc_max_cut c) 1)) (\<lambda>max_cut.
     Ok (Some (lp_new (PSingle parent) (PSingle (stored_address c)) (sr_policy seg) prior_facts max_cut None))))))"

definition lin_get_fact_perspective ::
  "'w io_ops \<Rightarrow> 'w \<Rightarrow> location \<Rightarrow> (linear_fact_perspective, storage_error) result" where
  "lin_get_fact_perspective io w l =
     rbind (lin_get_segment io w l) (\<lambda>seg.
     if l = lseg_head_location seg \<or> list_all (\<lambda>d. lcd_updates d = []) (sr_commands seg)
     then Ok (lfp_new (LFIndex (sr_facts seg)))
     else rbind (lseg_facts io w seg) (\<lambda>i.
       if loc_command l < length (sr_commands seg)
       then Ok (lfp_replay (take (Suc (loc_command l)) (sr_commands seg)) (lfp_new (lin_prior_facts i)))
       else Panic ''range end index out of range''))"

definition lin_new_merge_perspective ::
  "'w io_ops \<Rightarrow> 'w \<Rightarrow> location \<Rightarrow> location \<Rightarrow> location \<times> nat \<Rightarrow> policy_id \<Rightarrow> fact_index_repr \<Rightarrow>
   (linear_perspective option, storage_error) result" where
  "lin_new_merge_perspective io w left right lca policy braid_facts =
     rbind (lin_get_segment io w left) (\<lambda>lseg.
     rbind (ok_or (CommandOutOfBounds left) (lseg_get_command lseg left)) (\<lambda>lc.
     rbind (lin_get_segment io w right) (\<lambda>rseg.
     rbind (ok_or (CommandOutOfBounds right) (lseg_get_command rseg right)) (\<lambda>rc.
     if policy \<noteq> sr_policy lseg \<and> policy \<noteq> sr_policy rseg then Err PolicyMismatch
     else rbind (ok_or (StorageBug ''must not overflow'')
            (usize_checked_add (max (sc_max_cut lc) (sc_max_cut rc)) 1)) (\<lambda>max_cut.
          Ok (Some (lp_new (PMerge left right) (PMerge (stored_address lc) (stored_address rc)) policy
            (LFIndex (fi_offset braid_facts)) max_cut (Some lca))))))))"

definition lin_skip_list ::
  "'w io_ops \<Rightarrow> (nat \<Rightarrow> nat) \<Rightarrow> linear_perspective \<Rightarrow> 'w \<Rightarrow> ((location \<times> nat) list, storage_error) result option" where
  "lin_skip_list io rnd p w = (case lp_prior p of
      PNone \<Rightarrow> Some (Ok [])
    | PMerge _ _ \<Rightarrow>
        robind (Some (ok_or (StorageBug ''lca must exist'') (lp_last_common_ancestor p))) (\<lambda>lca.
        robind (get_skips io w rnd (fst lca) 2 []) (\<lambda>skips.
        Some (Ok (sort_skips (if lca \<in> set skips then skips else skips @ [lca])))))
    | PSingle l \<Rightarrow> robind (get_skips io w rnd l 3 []) (\<lambda>skips. Some (Ok (sort_skips skips))))"

definition lin_write :: "'w io_ops \<Rightarrow> (nat \<Rightarrow> nat) \<Rightarrow> linear_perspective \<Rightarrow> ('w, segment_repr, storage_error) lprog" where
  "lin_write io rnd p =
     lbind (lin_write_facts io (lp_facts p)) (\<lambda>facts.
     if lp_commands p = [] then lfail EmptyPerspective
     else lbind (lread (lin_skip_list io rnd p)) (\<lambda>skip_list.
          lrun (io_append_segment io (\<lambda>offset.
            \<lparr>sr_offset = offset, sr_prior = lp_prior p, sr_parents = lp_parents p, sr_policy = lp_policy p,
             sr_facts = fi_offset facts, sr_commands = lp_commands p, sr_max_cut = lp_max_cut p, sr_skip_list = skip_list\<rparr>))))"

definition lin_commit :: "'w io_ops \<Rightarrow> segment_repr \<Rightarrow> ('w, unit, storage_error) lprog" where
  "lin_commit io seg =
     lbind (lread (\<lambda>w. Some (io_head io w))) (\<lambda>head.
     lbind (lread (\<lambda>w. is_ancestor (lin_ops io) w head seg)) (\<lambda>anc.
     if \<not> anc then lfail HeadNotAncestor else lrun (io_commit io (lseg_head_location seg))))"

text \<open>\<open>LinearStorage::create\<close>\<close>

definition lin_create :: "'w io_ops \<Rightarrow> linear_perspective \<Rightarrow> ('w, unit, storage_error) lprog" where
  "lin_create io init =
     (if lp_prior init \<noteq> PNone \<or> lp_parents init \<noteq> PNone \<or> lfp_prior (lp_facts init) \<noteq> LFNone
      then llift (Panic ''assertion failed'')
      else lbind (lrun (io_append_facts io (\<lambda>offset. \<lparr>fi_offset = offset, fi_prior = None, fi_depth = 1,
             fi_facts = bt_retain (\<lambda>kv. kv \<noteq> []) (lfp_map (lp_facts init))\<rparr>))) (\<lambda>facts.
           if lp_commands init = [] then lfail EmptyPerspective
           else lbind (lrun (io_append_segment io (\<lambda>offset.
                  \<lparr>sr_offset = offset, sr_prior = PNone, sr_parents = PNone, sr_policy = lp_policy init,
                   sr_facts = fi_offset facts, sr_commands = lp_commands init, sr_max_cut = 0, sr_skip_list = []\<rparr>))) (\<lambda>segment.
                lbind (llift (ok_or (StorageBug ''vec1 length >= 1'') (usize_checked_sub (length (sr_commands segment)) 1))) (\<lambda>c.
                lrun (io_commit io (location_new (sr_offset segment) c))))))"

section \<open>The provider\<close>

record ('m, 'w) linear_provider =
  lsp_manager :: 'm
  lsp_storage :: "(command_id, 'w) btree_map"

definition lsp_new_perspective :: "policy_id \<Rightarrow> linear_perspective" where
  "lsp_new_perspective policy = lp_new PNone PNone policy LFNone 0 None"

definition on_manager :: "('m, 'a, storage_error) prog \<Rightarrow> (('m, 'w) linear_provider, 'a, storage_error) lprog" where
  "on_manager f = (\<lambda>sp. case f (lsp_manager sp) of (r, mgr) \<Rightarrow> Some (r, sp\<lparr>lsp_manager := mgr\<rparr>))"

definition lsp_new_storage ::
  "('m, 'w) io_manager \<Rightarrow> 'w io_ops \<Rightarrow> linear_perspective \<Rightarrow> (('m, 'w) linear_provider, command_id, storage_error) lprog" where
  "lsp_new_storage im io init =
     (if lp_commands init = [] then lfail EmptyPerspective
      else let graph = lcd_id (hd (lp_commands init)) in
        lbind (lgets (\<lambda>sp. bt_contains (lsp_storage sp) graph)) (\<lambda>occupied.
        if occupied then lfail StorageExists
        else lbind (on_manager (im_create im graph)) (\<lambda>file.
             case lin_create io init file of
               None \<Rightarrow> (\<lambda>_. None)
             | Some (Ok _, storage) \<Rightarrow>
                 lbind (lmodify (\<lambda>sp. sp\<lparr>lsp_storage := bt_insert graph storage (lsp_storage sp)\<rparr>)) (\<lambda>_. lreturn graph)
             | Some (Err e, _) \<Rightarrow> lfail e
             | Some (Panic m, _) \<Rightarrow> llift (Panic m))))"

definition lsp_get_storage ::
  "('m, 'w) io_manager \<Rightarrow> command_id \<Rightarrow> (('m, 'w) linear_provider, 'w, storage_error) lprog" where
  "lsp_get_storage im graph =
     lbind (lgets (\<lambda>sp. bt_get (lsp_storage sp) graph)) (\<lambda>entry. case entry of
         Some storage \<Rightarrow> lreturn storage
       | None \<Rightarrow>
           lbind (on_manager (im_open im graph)) (\<lambda>opened.
           lbind (llift (ok_or NoSuchStorage opened)) (\<lambda>storage.
           lbind (lmodify (\<lambda>sp. sp\<lparr>lsp_storage := bt_insert graph storage (lsp_storage sp)\<rparr>)) (\<lambda>_.
           lreturn storage))))"

end
