(* ===== verification/Linear_Graph.thy ===== *)
theory Linear_Graph
  imports Linear_Storage
begin

text \<open>
  The command graph in the items of a linear storage. Well-formed items satisfy the laws
  of a storage, with skip lists that are not empty; the operations of a storage on any
  writer that holds such items then satisfy them too.
\<close>

section \<open>Cut points\<close>

text \<open>
  A cut point of a command is an ancestor through which every ancestor with a smaller or
  equal max cut is reached.
\<close>

definition cut_point :: "('st, 'seg) storage_ops \<Rightarrow> 'st \<Rightarrow> location \<Rightarrow> location \<Rightarrow> bool" where
  "cut_point ops st d l \<longleftrightarrow> ancestor ops st d l \<and>
     (\<forall>a. ancestor ops st a l \<longrightarrow> cut_at ops st a \<le> cut_at ops st d \<longrightarrow> ancestor ops st a d)"

lemma cut_point_refl: "cut_point ops st l l"
  by (simp add: cut_point_def ancestor.refl)

context graph_storage
begin

lemma cut_point_trans:
  assumes "wf st" "good st l" "cut_point ops st d l" "cut_point ops st e d"
  shows "cut_point ops st e l"
proof -
  have "good st d" using ancestor_valid [OF assms(1,2)] assms(3) by (auto simp: cut_point_def)
  then have "cut_at ops st e \<le> cut_at ops st d"
    using ancestor_valid [OF assms(1), of d e] assms(4) by (auto simp: cut_point_def)
  then show ?thesis
    using assms(3,4) unfolding cut_point_def by (meson ancestor_trans le_trans)
qed

text \<open>The first command of a segment and a single parent are cut points.\<close>

lemma cut_point_first:
  assumes "wf st" "good st l" "loc_segment f = loc_segment l" "loc_command f = 0"
  shows "cut_point ops st f l"
proof -
  have anc: "ancestor ops st f l" using same_segment_ancestor [OF assms(1,3)] assms(4) by simp
  have "ancestor ops st a f" if a: "ancestor ops st a l" "cut_at ops st a \<le> cut_at ops st f" for a
  proof -
    have ga: "good st a" using ancestor_valid [OF assms(1,2) a(1)] by simp
    from a(1) consider "loc_segment a = loc_segment l" | p where "p \<in> set (segment_priors ops st l)" "ancestor ops st a p"
      using ancestor_split [OF assms(1)] by blast
    then show ?thesis
    proof cases
      case 1
      then have "ancestor ops st f a" using same_segment_ancestor [OF assms(1), of f a] assms(3,4) by simp
      then show ?thesis using ancestor_cut_less [OF assms(1) ga, of f] a(2) by (cases "f = a") (auto intro: ancestor.refl)
    next
      case 2
      then show ?thesis using ancestor_split [OF assms(1), of a f] segment_priors_index [OF assms(1,3)] by auto
    qed
  qed
  with anc show ?thesis by (simp add: cut_point_def)
qed

lemma cut_point_parent:
  assumes "wf st" "good st l" "parents ops st l = [p]"
  shows "cut_point ops st p l"
proof -
  have "cut_at ops st p < cut_at ops st l" using parent_valid [OF assms(1,2), of p] assms(3) by simp
  then show ?thesis
    using assms(3) ancestor_unfold [of ops st _ l] by (auto simp: cut_point_def intro: ancestor.intros)
qed

text \<open>A cut point of all parents is a cut point.\<close>

lemma cut_point_parents:
  assumes "wf st" "good st l" "parents ops st l \<noteq> []" "\<And>p. p \<in> set (parents ops st l) \<Longrightarrow> cut_point ops st d p"
  shows "cut_point ops st d l"
proof -
  obtain p where p: "p \<in> set (parents ops st l)" using assms(3) by (cases "parents ops st l") auto
  have dp: "ancestor ops st d p" using assms(4) [OF p] by (simp add: cut_point_def)
  then have anc: "ancestor ops st d l" using p by (blast intro: ancestor.step)
  have "cut_at ops st d < cut_at ops st l"
    using parent_valid [OF assms(1,2) p] ancestor_valid [OF assms(1) _ dp] by force
  then show ?thesis
    using anc assms(4) ancestor_unfold [of ops st _ l] by (auto simp: cut_point_def)
qed

end

section \<open>Storages that agree\<close>

lemma parents_agree:
  assumes "so_get_segment ops' st' l = Ok seg" "so_get_segment ops st l = Ok seg" "so_prior ops' = so_prior ops"
  shows "parents ops' st' l = parents ops st l" "segment_priors ops' st' l = segment_priors ops st l"
  using assms by (simp_all add: parents_def segment_priors_def split: option.split)

lemma ancestor_agree:
  assumes "\<And>l. G l \<Longrightarrow> parents ops' st' l = parents ops st l" "\<And>l p. G l \<Longrightarrow> p \<in> set (parents ops st l) \<Longrightarrow> G p" "G l"
  shows "ancestor ops' st' a l \<longleftrightarrow> ancestor ops st a l"
proof
  assume "ancestor ops' st' a l"
  then show "ancestor ops st a l"
    using assms(3)
  proof (induction a l rule: ancestor.induct)
    case (step p l a)
    then have "p \<in> set (parents ops st l)" using assms(1) by simp
    with step assms(2) show ?case by (blast intro: ancestor.step)
  qed (rule ancestor.refl)
next
  assume "ancestor ops st a l"
  then show "ancestor ops' st' a l"
    using assms(3)
  proof (induction a l rule: ancestor.induct)
    case (step p l a)
    then have "p \<in> set (parents ops' st' l)" using assms(1) by simp
    with step assms(2) show ?case by (blast intro: ancestor.step)
  qed (rule ancestor.refl)
qed

section \<open>The graph of the items\<close>

definition item_segment :: "linear_items \<Rightarrow> location \<Rightarrow> (segment_repr, storage_error) result" where
  "item_segment m l = (case m (loc_segment l) of Some (SegmentItem s) \<Rightarrow> Ok s | _ \<Rightarrow> Err IoError)"

definition item_ops :: "(linear_items, segment_repr) storage_ops" where
  "item_ops = \<lparr>so_get_segment = item_segment, so_get_head = (\<lambda>_. Err IoError), so_prior = sr_prior,
     so_get_command = lseg_get_command, so_get_from_max_cut = lseg_get_from_max_cut,
     so_longest_max_cut = lseg_longest_max_cut, so_skip_list = sr_skip_list\<rparr>"

lemma item_ops_sel [simp]:
  "so_get_segment item_ops = item_segment" "so_prior item_ops = sr_prior" "so_get_command item_ops = lseg_get_command"
  "so_get_from_max_cut item_ops = lseg_get_from_max_cut" "so_longest_max_cut item_ops = lseg_longest_max_cut"
  "so_skip_list item_ops = sr_skip_list"
  by (simp_all add: item_ops_def)

lemma item_segment_Ok [simp]: "item_segment m l = Ok s \<longleftrightarrow> m (loc_segment l) = Some (SegmentItem s)"
  by (auto simp: item_segment_def split: option.splits linear_item.splits)

text \<open>
  A segment item is linked to earlier items: its priors have smaller max cuts, its facts
  are an index, and its skip list consists of cut points of all its priors. Only at the
  root the skip list of a merge could be missing.
\<close>

definition skip_ok :: "linear_items \<Rightarrow> segment_repr \<Rightarrow> location \<times> nat \<Rightarrow> bool" where
  "skip_ok m s sk \<longleftrightarrow> (case sk of (l, c) \<Rightarrow> loc_segment l < sr_offset s \<and> is_valid item_ops m l \<and> cut_at item_ops m l = c \<and> c < sr_max_cut s \<and>
     sr_prior s \<noteq> PNone \<and> (\<forall>p \<in> set (prior_list (sr_prior s)). cut_point item_ops m l p))"

definition lsegment_ok :: "linear_items \<Rightarrow> nat \<Rightarrow> segment_repr \<Rightarrow> bool" where
  "lsegment_ok m off s \<longleftrightarrow> sr_offset s = off \<and> sr_commands s \<noteq> [] \<and> sr_max_cut s + length (sr_commands s) < usize_limit \<and>
     sr_facts s < off \<and> (\<exists>i. m (sr_facts s) = Some (FactItem i)) \<and>
     (\<forall>p \<in> set (prior_list (sr_prior s)). loc_segment p < off \<and> is_valid item_ops m p \<and> cut_at item_ops m p < sr_max_cut s) \<and>
     (\<forall>sk \<in> set (sr_skip_list s). skip_ok m s sk) \<and>
     (\<forall>l r. sr_prior s = PMerge l r \<longrightarrow> sr_skip_list s \<noteq> [])"

definition items_ok :: "linear_items \<Rightarrow> bool" where
  "items_ok m \<longleftrightarrow> facts_ok m \<and> (\<forall>off s. m off = Some (SegmentItem s) \<longrightarrow> lsegment_ok m off s)"

lemma items_ok_segment: "items_ok m \<Longrightarrow> m off = Some (SegmentItem s) \<Longrightarrow> lsegment_ok m off s"
  by (simp add: items_ok_def)

lemma lseg_get_command_ok:
  assumes "lsegment_ok m off s" "loc_segment l = off"
  shows "(lseg_get_command s l \<noteq> None) = (loc_command l < length (sr_commands s))"
    "lseg_get_command s l = Some c \<Longrightarrow> sc_max_cut c = sr_max_cut s + loc_command l \<and> cmd_id c = lcd_id (sr_commands s ! loc_command l)"
  using assms by (auto simp: lseg_get_command_def lsegment_ok_def usize_checked_add_def usize_checked_sub_def lseg_command_def
      split: if_splits option.splits bind_splits)

lemma lseg_longest_ok:
  "lsegment_ok m off s \<Longrightarrow> lseg_longest_max_cut s = Ok (sr_max_cut s + length (sr_commands s) - 1)"
  by (cases "sr_commands s") (auto simp: lsegment_ok_def lseg_longest_max_cut_def usize_checked_add_def usize_checked_sub_def)

lemma item_valid:
  assumes "items_ok m"
  shows "is_valid item_ops m l \<longleftrightarrow> (\<exists>s. m (loc_segment l) = Some (SegmentItem s) \<and> loc_command l < length (sr_commands s))"
  using lseg_get_command_ok(1) [OF items_ok_segment [OF assms]]
  by (auto simp: is_valid_def command_at_def item_segment_def split: option.splits linear_item.splits)

lemma item_cut:
  assumes "items_ok m" "m (loc_segment l) = Some (SegmentItem s)" "loc_command l < length (sr_commands s)"
  shows "cut_at item_ops m l = sr_max_cut s + loc_command l"
proof -
  note seg = items_ok_segment [OF assms(1,2)]
  obtain c where "lseg_get_command s l = Some c" using lseg_get_command_ok(1) [OF seg HOL.refl] assms(3) by auto
  then show ?thesis
    using lseg_get_command_ok(2) [OF seg HOL.refl] assms(2) by (simp add: cut_at_def command_at_def item_segment_def)
qed

lemma item_priors: "m (loc_segment l) = Some (SegmentItem s) \<Longrightarrow> segment_priors item_ops m l = prior_list (sr_prior s)"
  by (simp add: segment_priors_def item_segment_def)

lemma item_parent:
  assumes "items_ok m" "is_valid item_ops m l" "p \<in> set (parents item_ops m l)"
  shows "is_valid item_ops m p \<and> cut_at item_ops m p < cut_at item_ops m l"
proof -
  obtain s where s: "m (loc_segment l) = Some (SegmentItem s)" "loc_command l < length (sr_commands s)"
    using assms(1,2) item_valid by blast
  note cut = item_cut [OF assms(1) s]
  show ?thesis
  proof (cases "loc_command l")
    case 0
    then have "p \<in> set (prior_list (sr_prior s))" using assms(3) s(1) by (simp add: parents_first item_priors)
    then show ?thesis using items_ok_segment [OF assms(1) s(1)] cut 0 by (auto simp: lsegment_ok_def)
  next
    case (Suc c)
    then have p: "p = l\<lparr>loc_command := c\<rparr>" using assms(3) by (simp add: parents_previous)
    then show ?thesis
      using s Suc cut item_cut [OF assms(1), of p s] by (auto simp: item_valid [OF assms(1)])
  qed
qed

lemma item_skip:
  assumes "items_ok m" "is_valid item_ops m l" "m (loc_segment l) = Some (SegmentItem s)" "(skip, c) \<in> set (sr_skip_list s)"
  shows "is_valid item_ops m skip \<and> cut_at item_ops m skip < cut_at item_ops m l \<and> c = cut_at item_ops m skip \<and>
    sr_prior s \<noteq> PNone \<and> (\<forall>p \<in> set (segment_priors item_ops m l). cut_point item_ops m skip p)"
proof -
  have "loc_command l < length (sr_commands s)" using assms(1-3) item_valid by auto
  note cut = item_cut [OF assms(1,3) this]
  have "skip_ok m s (skip, c)" using items_ok_segment [OF assms(1,3)] assms(4) by (auto simp: lsegment_ok_def)
  then show ?thesis using cut assms(3) by (auto simp: skip_ok_def item_priors)
qed

interpretation items: graph_storage item_ops items_ok "is_valid item_ops"
proof (unfold_locales, goal_cases)
  case (3 m l l' seg)
  then show ?case by simp
next
  case (4 m l l')
  then show ?case using item_valid [of m] by auto
next
  case (5 m l p)
  then show ?case by (rule item_parent)
next
  case (6 m l seg)
  then have "m (loc_segment l) = Some (SegmentItem seg)" "loc_command l < length (sr_commands seg)"
    using item_valid [of m l] by auto
  then show ?case
    using item_cut [OF 6(1)] lseg_longest_ok [OF items_ok_segment [OF 6(1)]] by force
next
  case (7 m l seg long c)
  then have s: "m (loc_segment l) = Some (SegmentItem seg)" by simp
  note ok = items_ok_segment [OF 7(1) s]
  have long: "long = sr_max_cut seg + length (sr_commands seg) - 1" using 7(4) lseg_longest_ok [OF ok] by simp
  show ?case
  proof (cases "c < sr_max_cut seg")
    case True
    then have "cut_at item_ops m l' \<noteq> c" if "loc_segment l' = loc_segment l" "is_valid item_ops m l'" for l'
      using that item_cut [OF 7(1), of l'] s item_valid [OF 7(1), of l'] by force
    with True show ?thesis by (auto simp: lseg_get_from_max_cut_def)
  next
    case False
    let ?l = "location_new (loc_segment l) (c - sr_max_cut seg)"
    have small: "c - sr_max_cut seg < length (sr_commands seg)"
      using 7(5) long False ok by (cases "sr_commands seg") (auto simp: lsegment_ok_def)
    then have "is_valid item_ops m ?l" "cut_at item_ops m ?l = c"
      using s item_cut [OF 7(1), of ?l seg] False by (simp_all add: item_valid [OF 7(1)])
    moreover have "lseg_get_from_max_cut seg c = Ok (Some ?l)"
      using False small ok by (auto simp: lseg_get_from_max_cut_def usize_checked_add_def usize_checked_sub_def lsegment_ok_def)
    ultimately show ?thesis by auto
  qed
next
  case (8 m l seg skip c)
  then have s: "m (loc_segment l) = Some (SegmentItem seg)" by simp
  have skip: "is_valid item_ops m skip" "cut_at item_ops m skip < cut_at item_ops m l" "c = cut_at item_ops m skip" "sr_prior seg \<noteq> PNone"
      "\<And>p. p \<in> set (segment_priors item_ops m l) \<Longrightarrow> cut_point item_ops m skip p"
    using item_skip [OF 8(1,2) s] 8(4) by auto
  obtain p where "p \<in> set (segment_priors item_ops m l)"
    using skip(4) item_priors [of m l seg] s by (cases "sr_prior seg") auto
  then show ?case
    using skip unfolding cut_point_def by (meson ancestor_trans)
qed simp_all

section \<open>Adding items\<close>

lemma item_extend:
  assumes "items_ok m" "m \<subseteq>\<^sub>m m'" "is_valid item_ops m l"
  shows "item_segment m' l = item_segment m l" "command_at item_ops m' l = command_at item_ops m l"
    "cut_at item_ops m' l = cut_at item_ops m l" "is_valid item_ops m' l"
    "parents item_ops m' l = parents item_ops m l"
proof -
  obtain s where s: "m (loc_segment l) = Some (SegmentItem s)" using assms(1,3) item_valid by blast
  then have s': "m' (loc_segment l) = Some (SegmentItem s)" using assms(2) by (auto simp: map_le_def dom_def)
  from s s' show seg: "item_segment m' l = item_segment m l" by (simp add: item_segment_def)
  then show cmd: "command_at item_ops m' l = command_at item_ops m l" by (simp add: command_at_def)
  show "cut_at item_ops m' l = cut_at item_ops m l" "is_valid item_ops m' l"
    using assms(3) by (simp_all add: cut_at_def is_valid_def cmd)
  show "parents item_ops m' l = parents item_ops m l" by (rule parents_agree(1) [of _ _ _ s]) (use s s' in simp_all)
qed

lemma ancestor_extend:
  assumes "items_ok m" "m \<subseteq>\<^sub>m m'" "is_valid item_ops m l"
  shows "ancestor item_ops m' a l \<longleftrightarrow> ancestor item_ops m a l"
  by (rule ancestor_agree [where G = "is_valid item_ops m"])
    (use item_extend(5) [OF assms(1,2)] items.parent_valid [OF assms(1)] assms(3) in auto)

lemma cut_point_extend:
  assumes "items_ok m" "m \<subseteq>\<^sub>m m'" "is_valid item_ops m l" "cut_point item_ops m d l"
  shows "cut_point item_ops m' d l"
proof -
  have valid: "is_valid item_ops m a" if "ancestor item_ops m a l" for a
    using items.ancestor_valid [OF assms(1,3) that] by simp
  have d: "ancestor item_ops m d l" using assms(4) by (simp add: cut_point_def)
  note same = ancestor_extend [OF assms(1,2)] item_extend(3) [OF assms(1,2)]
  show ?thesis
    using assms(4) valid [OF d] same assms(3) valid unfolding cut_point_def by auto
qed

lemma lsegment_ok_extend:
  assumes "items_ok m" "m \<subseteq>\<^sub>m m'" "lsegment_ok m off s"
  shows "lsegment_ok m' off s"
proof -
  have get: "m' o' = Some it" if "m o' = Some it" for o' it using assms(2) that by (auto simp: map_le_def dom_def)
  have prior: "is_valid item_ops m p" if "p \<in> set (prior_list (sr_prior s))" for p
    using assms(3) that by (auto simp: lsegment_ok_def)
  have "skip_ok m' s sk" if "skip_ok m s sk" for sk
    using that prior item_extend(3,4) [OF assms(1,2)] cut_point_extend [OF assms(1,2)] by (auto simp: skip_ok_def)
  then show ?thesis
    using assms(3) get item_extend(3,4) [OF assms(1,2)] by (auto simp: lsegment_ok_def)
qed

lemma items_ok_facts: "items_ok m \<Longrightarrow> facts_added m m' \<Longrightarrow> items_ok m'"
proof -
  assume ok: "items_ok m" and added: "facts_added m m'"
  have le: "m \<subseteq>\<^sub>m m'" and facts: "facts_ok m'" using added by (simp_all add: facts_added_def)
  have "lsegment_ok m' off s" if s: "m' off = Some (SegmentItem s)" for off s
  proof -
    have "m off \<noteq> None" using added s unfolding facts_added_def by (metis linear_item.distinct(1) option.distinct(1) option.inject)
    then have "m off = Some (SegmentItem s)" using le s by (auto simp: map_le_def dom_def)
    then show ?thesis using lsegment_ok_extend [OF ok le] items_ok_segment [OF ok] by blast
  qed
  with facts show ?thesis by (simp add: items_ok_def)
qed

lemma map_le_fresh: "m off = None \<Longrightarrow> m \<subseteq>\<^sub>m m(off \<mapsto> it)"
  by (auto simp: map_le_def dom_def)

lemma items_ok_add:
  assumes "items_ok m" "m off = None" "lsegment_ok m off s"
  shows "items_ok (m(off \<mapsto> SegmentItem s))"
proof -
  let ?m = "m(off \<mapsto> SegmentItem s)"
  note le = map_le_fresh [of m off "SegmentItem s", OF assms(2)]
  have "index_ok ?m o' j" if "index_ok m o' j" for o' j
    using that assms(2) by (auto simp: index_ok_def split: option.splits)
  then have "facts_ok ?m" using assms(1) by (auto simp: items_ok_def facts_ok_def)
  moreover have "lsegment_ok ?m o' t" if "?m o' = Some (SegmentItem t)" for o' t
    using that assms(3) lsegment_ok_extend [OF assms(1) le] items_ok_segment [OF assms(1)] by (auto split: if_splits)
  ultimately show ?thesis by (simp add: items_ok_def)
qed

section \<open>The graph of a writer\<close>

lemma lin_ops_sel [simp]:
  "so_get_segment (lin_ops io) = lin_get_segment io" "so_get_head (lin_ops io) = io_head io" "so_prior (lin_ops io) = sr_prior"
  "so_get_command (lin_ops io) = lseg_get_command" "so_get_from_max_cut (lin_ops io) = lseg_get_from_max_cut"
  "so_longest_max_cut (lin_ops io) = lseg_longest_max_cut" "so_skip_list (lin_ops io) = sr_skip_list"
  by (simp_all add: lin_ops_def)

context linear_io
begin

lemma lin_agree:
  assumes "rep w m h" "items_ok m" "is_valid item_ops m l"
  shows "lin_get_segment io w l = item_segment m l" "command_at (lin_ops io) w l = command_at item_ops m l"
    "cut_at (lin_ops io) w l = cut_at item_ops m l" "is_valid (lin_ops io) w l"
    "parents (lin_ops io) w l = parents item_ops m l" "segment_priors (lin_ops io) w l = segment_priors item_ops m l"
proof -
  obtain s where s: "m (loc_segment l) = Some (SegmentItem s)" using assms(2,3) item_valid by blast
  then have fetch: "lin_get_segment io w l = Ok s" using fetch_segment [OF assms(1)] by (simp add: lin_get_segment_def)
  with s show seg: "lin_get_segment io w l = item_segment m l" by (simp add: item_segment_def)
  show cmd: "command_at (lin_ops io) w l = command_at item_ops m l"
    using fetch s by (simp add: command_at_def item_segment_def)
  show "cut_at (lin_ops io) w l = cut_at item_ops m l" "is_valid (lin_ops io) w l"
    using assms(3) by (simp_all add: cut_at_def is_valid_def cmd)
  show "parents (lin_ops io) w l = parents item_ops m l" "segment_priors (lin_ops io) w l = segment_priors item_ops m l"
    using parents_agree [of "lin_ops io" w l s item_ops m] fetch s by simp_all
qed

lemma lin_ancestor:
  assumes "rep w m h" "items_ok m" "is_valid item_ops m l"
  shows "ancestor (lin_ops io) w a l \<longleftrightarrow> ancestor item_ops m a l"
  by (rule ancestor_agree [where G = "is_valid item_ops m"])
    (use lin_agree(5) [OF assms(1,2)] items.parent_valid [OF assms(2)] assms(3) in auto)

text \<open>The storage operations on a writer that holds well-formed items satisfy the laws of a storage.\<close>

lemma lin_graph:
  assumes "items_ok m"
  shows "graph_storage (lin_ops io) (\<lambda>w. \<exists>h. rep w m h) (\<lambda>_. is_valid item_ops m)"
proof (rule graph_storage.intro, goal_cases)
  case (1 w l)
  then show ?case using lin_agree(4) assms by blast
next
  case (2 w l l')
  then obtain h where rep: "rep w m h" by blast
  obtain s where s: "m (loc_segment l) = Some (SegmentItem s)" using 2(2) item_valid [OF assms] by blast
  then have "command_at (lin_ops io) w l' = command_at item_ops m l'"
    using fetch_segment [OF rep s] 2(3) by (simp add: command_at_def lin_get_segment_def item_segment_def)
  then show ?case using 2(4) by (simp add: is_valid_def)
next
  case (3 w l l' seg)
  then show ?case by (simp add: lin_get_segment_def)
next
  case (4 w l l')
  then show ?case using items.valid_down [OF assms] by blast
next
  case (5 w l p)
  then obtain h where rep: "rep w m h" by blast
  note agree = lin_agree [OF rep assms]
  have "is_valid item_ops m p \<and> cut_at item_ops m p < cut_at item_ops m l"
    using items.parent_valid [OF assms 5(2)] 5(3) agree(5) [OF 5(2)] by simp
  then show ?case using agree(3) 5(2) by simp
next
  case (6 w l seg)
  then obtain h where rep: "rep w m h" by blast
  show ?case using items.longest [OF assms 6(2)] 6(3) lin_agree(1,3) [OF rep assms 6(2)] by simp
next
  case (7 w l seg long c)
  then obtain h where rep: "rep w m h" by blast
  note agree = lin_agree [OF rep assms]
  have "item_segment m l = Ok seg" using 7(3) agree(1) [OF 7(2)] by simp
  then show ?case using items.from_max_cut [OF assms 7(2), of seg long c] 7(4,5) agree(3) by auto
next
  case (8 w l seg skip c)
  then obtain h where rep: "rep w m h" by blast
  note agree = lin_agree [OF rep assms] and anc = lin_ancestor [OF rep assms]
  have seg: "item_segment m l = Ok seg" using 8(3) agree(1) [OF 8(2)] by simp
  have prior: "is_valid item_ops m p" if "p \<in> set (segment_priors item_ops m l)" for p
    using items.prior_of_segment [OF assms 8(2) that] by simp
  note safe = items.skip_safe [OF assms 8(2), of seg skip c]
  have valid: "is_valid item_ops m a" if "ancestor item_ops m a p" "p \<in> set (segment_priors item_ops m l)" for a p
    using items.ancestor_valid [OF assms prior [OF that(2)] that(1)] by simp
  show ?case
    using safe seg 8(2,4) agree(3,6) anc prior valid by simp metis
qed

end

end
