(* ===== verification/Linear_Write.thy ===== *)
theory Linear_Write
  imports Linear_Graph
begin

text \<open>
  Writing to the linear storage. The last common ancestor of two commands is a cut point
  of both, which makes the skip lists that are built from it sound; a written segment
  keeps the items well formed and stands for the facts of its perspective.
\<close>

section \<open>The last common ancestor\<close>

text \<open>Every merge has a skip list, and an entry names its own max cut.\<close>

definition skips_merges :: "('st, 'seg) storage_ops \<Rightarrow> 'st \<Rightarrow> (location \<Rightarrow> bool) \<Rightarrow> bool" where
  "skips_merges ops st G \<longleftrightarrow> (\<forall>l seg. G l \<longrightarrow> so_get_segment ops st l = Ok seg \<longrightarrow>
     ((\<exists>a b. so_prior ops seg = PMerge a b) \<longrightarrow> so_skip_list ops seg \<noteq> []) \<and>
     (\<forall>(skip, c) \<in> set (so_skip_list ops seg). c = cut_at ops st skip))"

context graph_storage
begin

lemma skip_cut_point:
  assumes "wf st" "good st l" "so_get_segment ops st l = Ok seg" "(skip, cut_at ops st skip) \<in> set (so_skip_list ops seg)"
    "loc_command l = 0"
  shows "cut_point ops st skip l"
proof -
  have safe: "cut_at ops st skip < cut_at ops st l"
      "\<And>a. ancestor ops st a skip \<Longrightarrow> \<exists>p \<in> set (segment_priors ops st l). ancestor ops st a p"
      "\<And>a. \<exists>p \<in> set (segment_priors ops st l). ancestor ops st a p \<Longrightarrow> cut_at ops st a \<le> cut_at ops st skip \<Longrightarrow> ancestor ops st a skip"
    using skip_safe [OF assms(1-4)] by blast+
  have anc: "ancestor ops st a l \<longleftrightarrow> a = l \<or> (\<exists>p \<in> set (segment_priors ops st l). ancestor ops st a p)" for a
    using ancestor_unfold [of ops st a l] assms(5) by (simp add: parents_first)
  show ?thesis
    unfolding cut_point_def anc using safe ancestor.refl [of ops st skip] by (metis not_less)
qed

lemma lca_parent_cut_point:
  assumes "wf st" "good st l" "so_get_segment ops st l = Ok seg" "skips_merges ops st (good st)" "ancestor ops st root l" "l \<noteq> root"
  obtains p where "lca_parent ops seg l = Ok (Some p)" "cut_point ops st p l"
proof (cases "location_previous l")
  case (Some q)
  then have "parents ops st l = [q]" by (simp add: parents_def)
  from that [OF _ cut_point_parent [OF assms(1,2) this]] Some show thesis by (simp add: lca_parent_def)
next
  case None
  then have zero: "loc_command l = 0" and par: "parents ops st l = prior_list (so_prior ops seg)"
    using assms(3) by (auto simp: location_previous_def usize_checked_sub_def parents_def segment_priors_def split: if_splits)
  show thesis
  proof (cases "so_prior ops seg")
    case PNone
    then show ?thesis using assms(5,6) par ancestor_unfold [of ops st root l] by simp
  next
    case (PSingle q)
    then have "parents ops st l = [q]" using par by simp
    from that [OF _ cut_point_parent [OF assms(1,2) this]] PSingle None show ?thesis by (simp add: lca_parent_def)
  next
    case (PMerge a b)
    obtain skip c where last: "last (so_skip_list ops seg) = (skip, c)" by (cases "last (so_skip_list ops seg)")
    have ne: "so_skip_list ops seg \<noteq> []" using assms(2-4) PMerge unfolding skips_merges_def by blast
    then have mem: "(skip, c) \<in> set (so_skip_list ops seg)" using last last_in_set by metis
    moreover from this have "c = cut_at ops st skip" using assms(2-4) unfolding skips_merges_def by blast
    ultimately have "cut_point ops st skip l" using skip_cut_point [OF assms(1-3)] zero by simp
    with that ne PMerge None zero last show ?thesis by (simp add: lca_parent_def)
  qed
qed

lemma last_common_ancestor_spec:
  assumes "wf st" "skips_merges ops st (good st)" "\<And>l. good st l \<Longrightarrow> ancestor ops st root l" "good st left" "good st right"
  shows "\<exists>x. last_common_ancestor ops st left right = Some (Ok (x, cut_at ops st x)) \<and> good st x \<and>
    cut_point ops st x left \<and> cut_point ops st x right"
  using assms(4,5)
proof (induction "cut_at ops st left + cut_at ops st right" arbitrary: left right rule: less_induct)
  case less
  note L = less.prems(1) and R = less.prems(2)
  obtain lseg where lseg: "so_get_segment ops st left = Ok lseg" using valid_segment [OF assms(1) L] by blast
  obtain lc where lc: "so_get_command ops lseg left = Some lc" "cut_at ops st left = sc_max_cut lc"
    using valid_command [OF assms(1) L lseg] by blast
  obtain rseg where rseg: "so_get_segment ops st right = Ok rseg" using valid_segment [OF assms(1) R] by blast
  obtain rc where rc: "so_get_command ops rseg right = Some rc" "cut_at ops st right = sc_max_cut rc"
    using valid_command [OF assms(1) R rseg] by blast
  note unfold = last_common_ancestor.simps [of ops st left right]
  have low: "cut_at ops st root < cut_at ops st l" if "good st l" "l \<noteq> root" for l
    using ancestor_cut_less [OF assms(1) that(1) assms(3) [OF that(1)]] that(2) by simp
  consider (same) "left = right" | (left) "left \<noteq> right" "sc_max_cut lc > sc_max_cut rc" | (right) "left \<noteq> right" "\<not> sc_max_cut lc > sc_max_cut rc"
    by blast
  then show ?case
  proof cases
    case same
    then show ?thesis using unfold lseg lc L by (auto intro!: cut_point_refl)
  next
    case left
    then have "left \<noteq> root" using low [OF R] lc(2) rc(2) by force
    then obtain p where p: "lca_parent ops lseg left = Ok (Some p)" "cut_point ops st p left"
      using lca_parent_cut_point [OF assms(1) L lseg assms(2) assms(3) [OF L]] by blast
    have step: "good st p \<and> cut_at ops st p < cut_at ops st left"
      using lca_parent_step [OF assms(1) L lseg assms(3) [OF L] \<open>left \<noteq> root\<close> p(1)] .
    have "last_common_ancestor ops st left right = last_common_ancestor ops st p right"
      using unfold left p(1) lseg lc rseg rc by simp
    with less.hyps [of p right] step R cut_point_trans [OF assms(1) L p(2)] show ?thesis by auto
  next
    case right
    then have "right \<noteq> root" using low [OF L] lc(2) rc(2) by force
    then obtain p where p: "lca_parent ops rseg right = Ok (Some p)" "cut_point ops st p right"
      using lca_parent_cut_point [OF assms(1) R rseg assms(2) assms(3) [OF R]] by blast
    have step: "good st p \<and> cut_at ops st p < cut_at ops st right"
      using lca_parent_step [OF assms(1) R rseg assms(3) [OF R] \<open>right \<noteq> root\<close> p(1)] .
    have "last_common_ancestor ops st left right = last_common_ancestor ops st left p"
      using unfold right p(1) lseg lc rseg rc by simp
    with less.hyps [of left p] step L cut_point_trans [OF assms(1) R p(2)] show ?thesis by auto
  qed
qed

end

section \<open>Skip lists\<close>

lemma sort_skips [simp]: "set (sort_skips xs) = set xs" "sort_skips xs = [] \<longleftrightarrow> xs = []"
proof -
  show set: "set (sort_skips xs) = set xs" by (simp add: sort_skips_def)
  show "sort_skips xs = [] \<longleftrightarrow> xs = []" using set by (metis set_empty)
qed

text \<open>An entry that may be used for a segment whose prior is \<open>l\<close>.\<close>

definition skips_to :: "linear_items \<Rightarrow> location \<Rightarrow> location \<times> nat \<Rightarrow> bool" where
  "skips_to m l sk \<longleftrightarrow> (case sk of (x, c) \<Rightarrow> is_valid item_ops m x \<and> c = cut_at item_ops m x \<and> cut_point item_ops m x l)"

lemma first_location_skips:
  assumes "items_ok m" "is_valid item_ops m l" "is_valid item_ops m q" "m (loc_segment q) = Some (SegmentItem s)" "cut_point item_ops m q l"
  shows "skips_to m l (lseg_first_location s, lseg_shortest_max_cut s)" "is_valid item_ops m (lseg_first_location s)"
    "cut_point item_ops m (lseg_first_location s) l" "m (loc_segment (lseg_first_location s)) = Some (SegmentItem s)"
proof -
  let ?f = "lseg_first_location s"
  have off: "sr_offset s = loc_segment q" "sr_commands s \<noteq> []"
    using items_ok_segment [OF assms(1,4)] by (simp_all add: lsegment_ok_def)
  then show seg: "m (loc_segment ?f) = Some (SegmentItem s)" using assms(4) by (simp add: lseg_first_location_def)
  have zero: "loc_command ?f = 0" by (simp add: lseg_first_location_def)
  show valid: "is_valid item_ops m ?f" using seg zero off(2) by (auto simp: item_valid [OF assms(1)])
  have "cut_at item_ops m ?f = sr_max_cut s" using item_cut [OF assms(1) seg] zero off(2) by simp
  moreover have "cut_point item_ops m ?f q"
    using items.cut_point_first [OF assms(1,3)] off(1) zero by (simp add: lseg_first_location_def)
  then show cp: "cut_point item_ops m ?f l" by (rule items.cut_point_trans [OF assms(1,2,5)])
  ultimately show "skips_to m l (?f, lseg_shortest_max_cut s)" using valid by (simp add: skips_to_def lseg_shortest_max_cut_def)
qed

context linear_io
begin

lemma get_skip_spec:
  assumes "rep w m h" "items_ok m" "is_valid item_ops m l"
  shows "is_valid item_ops m q \<Longrightarrow> m (loc_segment q) = Some (SegmentItem s) \<Longrightarrow> cut_point item_ops m q l \<Longrightarrow>
    (\<forall>sk. current = Some sk \<longrightarrow> skips_to m l sk) \<Longrightarrow>
    \<exists>r. get_skip io w max_cut current s = Some (Ok r) \<and> (\<forall>sk. r = Some sk \<longrightarrow> skips_to m l sk)"
proof (induction "loc_segment q" arbitrary: q s current rule: less_induct)
  case less
  let ?f = "lseg_first_location s"
  let ?cur = "Some (?f, lseg_shortest_max_cut s)"
  note first = first_location_skips [OF assms(2,3) less.prems(1-3)]
  note ok = items_ok_segment [OF assms(2) less.prems(2)]
  have zero: "loc_command ?f = 0" "loc_segment ?f = loc_segment q"
    using ok by (simp_all add: lseg_first_location_def lsegment_ok_def)
  have par: "parents item_ops m ?f = prior_list (sr_prior s)" using zero(1) first(4) by (simp add: parents_first item_priors)
  have next_seg: "\<exists>r. robind (Some (lin_get_segment io w p)) (get_skip io w max_cut ?cur) = Some (Ok r) \<and> (\<forall>sk. r = Some sk \<longrightarrow> skips_to m l sk)"
    if p: "loc_segment p < loc_segment q" "is_valid item_ops m p" "cut_point item_ops m p ?f" for p
  proof -
    obtain t where t: "m (loc_segment p) = Some (SegmentItem t)" using p(2) item_valid [OF assms(2)] by blast
    have "lin_get_segment io w p = Ok t" using fetch_segment [OF assms(1) t] by (simp add: lin_get_segment_def)
    then show ?thesis
      using less.hyps [OF p(1,2) t, of ?cur] first(1) items.cut_point_trans [OF assms(2,3) first(3) p(3)] by simp
  qed
  have skip: "\<exists>r. robind (Some (lin_get_segment io w x)) (get_skip io w max_cut ?cur) = Some (Ok r) \<and> (\<forall>sk. r = Some sk \<longrightarrow> skips_to m l sk)"
    if "(x, c) \<in> set (sr_skip_list s)" for x c
  proof -
    have "skip_ok m s (x, c)" using ok that by (auto simp: lsegment_ok_def)
    then have x: "loc_segment x < loc_segment q" "is_valid item_ops m x" "prior_list (sr_prior s) \<noteq> []"
        "\<And>p. p \<in> set (prior_list (sr_prior s)) \<Longrightarrow> cut_point item_ops m x p"
      using ok by (cases "sr_prior s"; auto simp: skip_ok_def lsegment_ok_def)+
    then show ?thesis using next_seg items.cut_point_parents [OF assms(2) first(2)] par by simp
  qed
  have single: "\<exists>r. robind (Some (lin_get_segment io w p)) (get_skip io w max_cut ?cur) = Some (Ok r) \<and> (\<forall>sk. r = Some sk \<longrightarrow> skips_to m l sk)"
    if "sr_prior s = PSingle p" for p
    using next_seg [of p] items.cut_point_parent [OF assms(2) first(2), of p] ok that par by (auto simp: lsegment_ok_def)
  show ?case
    using less.prems(4) first(1) skip single
    by (auto simp: get_skip.simps [of io w max_cut current s] lseg_longest_ok [OF ok] Let_def find_Some_iff
        split: option.split prior.split dest!: nth_mem)
qed

lemma get_skips_spec:
  assumes "rep w m h" "items_ok m" "is_valid item_ops m l"
  shows "(\<forall>sk \<in> set skips. skips_to m l sk) \<Longrightarrow>
    \<exists>r. get_skips io w rnd l n skips = Some (Ok r) \<and> (\<forall>sk \<in> set r. skips_to m l sk)"
proof (induction n arbitrary: skips)
  case (Suc n)
  obtain s where s: "m (loc_segment l) = Some (SegmentItem s)" "loc_command l < length (sr_commands s)"
    using assms(2,3) item_valid by blast
  have seg: "lin_get_segment io w l = Ok s" using fetch_segment [OF assms(1) s(1)] by (simp add: lin_get_segment_def)
  obtain c where c: "lseg_get_command s l = Some c"
    using lseg_get_command_ok(1) [OF items_ok_segment [OF assms(2) s(1)] HOL.refl] s(2) by auto
  obtain r where r: "get_skip io w (rnd n mod sc_max_cut c) None s = Some (Ok r)" "\<And>sk. r = Some sk \<Longrightarrow> skips_to m l sk"
    using get_skip_spec [OF assms assms(3) s(1) cut_point_refl, of None "rnd n mod sc_max_cut c"] by auto
  have "\<forall>sk \<in> set (if x \<in> set skips then skips else skips @ [x]). skips_to m l sk" if "r = Some x" for x
    using Suc.prems r(2) [OF that] by auto
  then show ?case
    using Suc.IH [of skips] Suc.IH Suc.prems seg c r(1) by (cases "sc_max_cut c > 0"; cases r) (simp_all split del: if_split)
qed simp

end

text \<open>
  A perspective that can be written: its priors and facts are stored, and for a merge the
  last common ancestor is a cut point of both sides.
\<close>

definition lca_ok :: "linear_items \<Rightarrow> location prior \<Rightarrow> (location \<times> nat) option \<Rightarrow> bool" where
  "lca_ok m prior lca \<longleftrightarrow> (case prior of
      PMerge left right \<Rightarrow> (\<exists>sk. lca = Some sk \<and> skips_to m left sk \<and> skips_to m right sk)
    | _ \<Rightarrow> True)"

definition lperspective_ok :: "linear_items \<Rightarrow> linear_perspective \<Rightarrow> bool" where
  "lperspective_ok m p \<longleftrightarrow> lfp_ok m (lp_facts p) \<and>
     (\<forall>q \<in> set (prior_list (lp_prior p)). is_valid item_ops m q \<and> cut_at item_ops m q < lp_max_cut p) \<and>
     lca_ok m (lp_prior p) (lp_last_common_ancestor p)"

lemma skips_to_extend:
  "items_ok m \<Longrightarrow> m \<subseteq>\<^sub>m m' \<Longrightarrow> is_valid item_ops m l \<Longrightarrow> skips_to m l sk \<Longrightarrow> skips_to m' l sk"
  using item_extend(3,4) [of m m'] cut_point_extend [of m m' l] by (auto simp: skips_to_def)

lemma lperspective_ok_extend:
  assumes "items_ok m" "m \<subseteq>\<^sub>m m'" "lperspective_ok m p"
  shows "lperspective_ok m' p"
proof -
  have valid: "is_valid item_ops m q" if "q \<in> set (prior_list (lp_prior p))" for q
    using assms(3) that by (auto simp: lperspective_ok_def)
  then have "lca_ok m' (lp_prior p) (lp_last_common_ancestor p)"
    using assms(3) skips_to_extend [OF assms(1,2)] by (auto simp: lperspective_ok_def lca_ok_def split: prior.splits)
  then show ?thesis
    using assms(3) valid lfp_ok_extend [OF assms(2)] item_extend(3,4) [OF assms(1,2)] by (auto simp: lperspective_ok_def)
qed

text \<open>Entries for all the priors are sound for the new segment.\<close>

lemma skips_to_trans:
  assumes "items_ok m" "is_valid item_ops m l" "skips_to m l (x, c)" "skips_to m x sk"
  shows "skips_to m l sk"
  using assms(3,4) items.cut_point_trans [OF assms(1,2), of x] by (auto simp: skips_to_def)

lemma skip_ok_segment:
  assumes "items_ok m" "\<forall>q \<in> set (prior_list (sr_prior s)). is_valid item_ops m q \<and> cut_at item_ops m q < sr_max_cut s"
    "\<forall>o'. m o' \<noteq> None \<longrightarrow> o' < sr_offset s" "\<forall>q \<in> set (prior_list (sr_prior s)). skips_to m q sk" "sr_prior s \<noteq> PNone"
  shows "skip_ok m s sk"
proof -
  obtain q where q: "q \<in> set (prior_list (sr_prior s))" using assms(5) by (cases "sr_prior s") auto
  obtain x c where sk: "sk = (x, c)" by (cases sk)
  have x: "is_valid item_ops m x" "c = cut_at item_ops m x" "cut_point item_ops m x q"
    using assms(4) q sk by (auto simp: skips_to_def)
  then have "cut_at item_ops m x \<le> cut_at item_ops m q"
    using items.ancestor_valid [OF assms(1), of q x] assms(2) q by (auto simp: cut_point_def)
  then have "c < sr_max_cut s" using assms(2) q x(2) by force
  moreover have "loc_segment x < sr_offset s" using x(1) assms(3) by (auto simp: item_valid [OF assms(1)])
  ultimately show ?thesis using x(1,2) assms(4,5) sk by (auto simp: skip_ok_def skips_to_def)
qed

context linear_io
begin

lemma lin_skip_list_spec:
  assumes "rep w m h" "items_ok m" "lperspective_ok m p"
  shows "\<exists>r. lin_skip_list io rnd p w = Some (Ok r) \<and>
    (\<forall>sk \<in> set r. lp_prior p \<noteq> PNone \<and> (\<forall>q \<in> set (prior_list (lp_prior p)). skips_to m q sk)) \<and>
    (\<forall>a b. lp_prior p = PMerge a b \<longrightarrow> r \<noteq> [])"
proof (cases "lp_prior p")
  case (PSingle l)
  then have "is_valid item_ops m l" using assms(3) by (simp add: lperspective_ok_def)
  from get_skips_spec [OF assms(1,2) this, of "[]" rnd 3] PSingle show ?thesis
    by (auto simp: lin_skip_list_def)
next
  case (PMerge left right)
  then obtain x c where lca: "lp_last_common_ancestor p = Some (x, c)" "skips_to m left (x, c)" "skips_to m right (x, c)"
    and valid: "is_valid item_ops m left" "is_valid item_ops m right"
    using assms(3) by (auto simp: lperspective_ok_def lca_ok_def)
  have "is_valid item_ops m x" using lca(2) by (simp add: skips_to_def)
  then obtain r where r: "get_skips io w rnd x 2 [] = Some (Ok r)" "\<forall>sk \<in> set r. skips_to m x sk"
    using get_skips_spec [OF assms(1,2), of x "[]" rnd 2] by auto
  have "skips_to m left sk \<and> skips_to m right sk" if "sk \<in> set r" for sk
    using that r(2) skips_to_trans [OF assms(2) valid(1) lca(2)] skips_to_trans [OF assms(2) valid(2) lca(3)] by blast
  then show ?thesis
    using r(1) lca PMerge by (cases "(x, c) \<in> set r") (auto simp: lin_skip_list_def)
qed (simp add: lin_skip_list_def)

text \<open>
  Writing a perspective returns, and only adds items. With success the new segment has the
  commands of the perspective and its facts. Without success there were no commands or the
  writer failed.
\<close>

definition writer_fails :: "location option \<Rightarrow> bool" where
  "writer_fails h \<longleftrightarrow> (\<exists>u mu. rep u mu h \<and>
     ((\<exists>b. \<forall>x. fst (io_append_facts io b u) \<noteq> Ok x) \<or> (\<exists>b. \<forall>x. fst (io_append_segment io b u) \<noteq> Ok x)))"

definition wrote :: "linear_items \<Rightarrow> location option \<Rightarrow> linear_perspective \<Rightarrow> (segment_repr, storage_error) result \<Rightarrow> 'w \<Rightarrow> bool" where
  "wrote m h p r w \<longleftrightarrow> (\<exists>m'. m \<subseteq>\<^sub>m m' \<and> items_ok m' \<and> rep w m' h \<and>
     (\<forall>o' t. m' o' = Some (SegmentItem t) \<longrightarrow> m o' = Some (SegmentItem t) \<or> r = Ok t) \<and>
     ((\<forall>s. r \<noteq> Ok s) \<longrightarrow> lp_commands p = [] \<or> writer_fails h) \<and> (\<forall>s. r = Ok s \<longrightarrow>
     m' (sr_offset s) = Some (SegmentItem s) \<and> m (sr_offset s) = None \<and> sr_prior s = lp_prior p \<and> sr_parents s = lp_parents p \<and>
     sr_policy s = lp_policy p \<and> sr_commands s = lp_commands p \<and> sr_max_cut s = lp_max_cut p \<and>
     mfi_query (index_abs m' (sr_facts s)) = mfp_query (perspective_abs m (lp_facts p))))"

lemma facts_added_segment: "facts_added m m' \<Longrightarrow> m' o' = Some (SegmentItem t) \<Longrightarrow> m o' = Some (SegmentItem t)"
  unfolding facts_added_def map_le_def dom_def
  by (metis (mono_tags) linear_item.distinct(1) mem_Collect_eq option.distinct(1) option.inject)

lemma lin_write_spec:
  assumes "rep w m h" "items_ok m" "lperspective_ok m p" "lp_max_cut p + length (lp_commands p) < usize_limit"
  shows "lwp (lin_write io rnd p) (wrote m h p) w"
  unfolding lin_write_def
proof (rule lwp_lbindI)
  have facts: "facts_ok m" "lfp_ok m (lp_facts p)" using assms(2,3) by (simp_all add: items_ok_def lperspective_ok_def)
  show "lwp (lin_write_facts io (lp_facts p)) (written m h (mfp_query (perspective_abs m (lp_facts p)))) w"
    by (rule lin_write_facts_spec [OF assms(1) facts])
next
  fix i w1 assume "written m h (mfp_query (perspective_abs m (lp_facts p))) (Ok i) w1"
  then obtain m1 where m1: "facts_added m m1" "rep w1 m1 h" "m1 (fi_offset i) = Some (FactItem i)"
      "mfi_query (index_abs m1 (fi_offset i)) = mfp_query (perspective_abs m (lp_facts p))"
    by (auto simp: written_def)
  have le: "m \<subseteq>\<^sub>m m1" using m1(1) by (simp add: facts_added_def)
  note ok1 = items_ok_facts [OF assms(2) m1(1)]
  note p1 = lperspective_ok_extend [OF assms(2) le assms(3)] and same = facts_added_segment [OF m1(1)]
  show "lwp (if lp_commands p = [] then lfail EmptyPerspective
     else lbind (lread (lin_skip_list io rnd p)) (\<lambda>skip_list.
          lrun (io_append_segment io (\<lambda>offset.
            \<lparr>sr_offset = offset, sr_prior = lp_prior p, sr_parents = lp_parents p, sr_policy = lp_policy p,
             sr_facts = fi_offset i, sr_commands = lp_commands p, sr_max_cut = lp_max_cut p, sr_skip_list = skip_list\<rparr>)))) (wrote m h p) w1"
  proof (cases "lp_commands p = []")
    case True
    then show ?thesis using le ok1 m1(2) same by (auto simp: lwp_basic wrote_def)
  next
    case False
    obtain sl where sl: "lin_skip_list io rnd p w1 = Some (Ok sl)"
        "\<And>sk. sk \<in> set sl \<Longrightarrow> lp_prior p \<noteq> PNone \<and> (\<forall>q \<in> set (prior_list (lp_prior p)). skips_to m1 q sk)"
        "\<forall>a b. lp_prior p = PMerge a b \<longrightarrow> sl \<noteq> []"
      using lin_skip_list_spec [OF m1(2) ok1 p1] by blast
    let ?b = "\<lambda>offset. \<lparr>sr_offset = offset, sr_prior = lp_prior p, sr_parents = lp_parents p, sr_policy = lp_policy p,
             sr_facts = fi_offset i, sr_commands = lp_commands p, sr_max_cut = lp_max_cut p, sr_skip_list = sl\<rparr>"
    obtain r w2 where run: "io_append_segment io ?b w1 = (r, w2)" by (cases "io_append_segment io ?b w1")
    have app: "appended rep SegmentItem ?b m1 h (r, w2)" using append_segment [OF m1(2), of ?b] run by simp
    have "wrote m h p r w2"
    proof (cases r)
      case (Ok s)
      then obtain off where off: "s = ?b off" "\<forall>o'. m1 o' \<noteq> None \<longrightarrow> o' < off" "rep w2 (m1(off \<mapsto> SegmentItem s)) h"
        using app by (auto simp: appended_def)
      have fresh: "m1 off = None" using off(2) by (metis less_irrefl)
      have "skip_ok m1 s sk" if "sk \<in> set sl" for sk
        using skip_ok_segment [OF ok1, of s sk] sl(2) [OF that] p1 off(1,2) by (auto simp: lperspective_ok_def)
      then have "lsegment_ok m1 off s"
        using off(1,2) p1 m1(3) sl(3) False assms(4) by (auto simp: lsegment_ok_def lperspective_ok_def item_valid [OF ok1])
      note ok2 = items_ok_add [OF ok1 fresh this]
      have "index_abs (m1(off \<mapsto> SegmentItem s)) (fi_offset i) = index_abs m1 (fi_offset i)"
        using ok1 ok2 m1(3) map_le_fresh [of m1 off] fresh unfolding items_ok_def by (blast intro: index_abs_extend)
      moreover have "m off = None" using fresh le by (metis domIff map_le_implies_dom_le subsetD)
      ultimately show ?thesis
        unfolding wrote_def using off ok2 m1(4) fresh le Ok same map_le_trans [OF le map_le_fresh [of m1 off]]
        by (intro exI [of _ "m1(off \<mapsto> SegmentItem s)"]) auto
    next
      case (Err e)
      moreover have "writer_fails h" using run m1(2) calculation unfolding writer_fails_def by (metis fst_conv result.distinct(1,3))
      ultimately show ?thesis using app le ok1 same by (auto simp: wrote_def appended_def)
    next
      case (Panic e)
      moreover have "writer_fails h" using run m1(2) calculation unfolding writer_fails_def by (metis fst_conv result.distinct(1,3))
      ultimately show ?thesis using app le ok1 same by (auto simp: wrote_def appended_def)
    qed
    then show ?thesis using False sl(1) run by (simp add: lwp_def lbind_def lread_def lrun_def)
  qed
next
  have failed: "wrote m h p r w'" if f: "written m h S q w'" "\<forall>s. r \<noteq> Ok s" "\<forall>i. q \<noteq> Ok i" for S q r w'
  proof -
    obtain m' where m': "facts_added m m'" "rep w' m' h" using f(1) by (auto simp: written_def)
    have "writer_fails h"
      using f(1,3) unfolding written_def writer_fails_def by (cases q) (auto, (metis fst_conv result.distinct(1,3))+)
    then show ?thesis
      unfolding wrote_def using m' f(2) items_ok_facts [OF assms(2) m'(1)] facts_added_segment [OF m'(1)]
      by (intro exI [of _ m']) (auto simp: facts_added_def)
  qed
  show "wrote m h p (Err e) w'" if "written m h (mfp_query (perspective_abs m (lp_facts p))) (Err e) w'" for e w'
    using failed [OF that] by simp
  show "wrote m h p (Panic e) w'" if "written m h (mfp_query (perspective_abs m (lp_facts p))) (Panic e) w'" for e w'
    using failed [OF that] by simp
qed

end

end
