(* ===== verification/Linear_Spec.thy ===== *)
theory Linear_Spec
  imports Linear_Write Mem_Graph
begin

text \<open>
  Runs of the linear storage: whatever is opened, changed, written and committed, and
  whatever fails on the way, the items stay well formed, so that searches that use the skip
  lists are exact and the storage never gets stuck.
\<close>

section \<open>Perspectives\<close>

lemma named_remove_wf: "named_wf m \<Longrightarrow> named_wf (named_remove n k m)"
  by (auto simp: named_remove_def named_wf_def split: option.split if_splits)

lemma lfp_put_wf: "named_wf m \<Longrightarrow> named_wf (lfp_put prior n k v m)"
  by (auto simp: lfp_put_def named_remove_wf split: option.split)

lemma lfp_ok_updates: "lfp_ok items fp \<Longrightarrow> lfp_ok items (lfp_apply_updates us fp)"
proof -
  have "named_wf m \<Longrightarrow> named_wf (fold (\<lambda>(n, k, v). lfp_put prior n k v) us m)" for prior m
    by (induction us arbitrary: m) (auto simp: lfp_put_wf)
  then show "lfp_ok items fp \<Longrightarrow> lfp_ok items (lfp_apply_updates us fp)" by (cases fp) simp
qed

lemma lfp_ok_replay: "lfp_ok items fp \<Longrightarrow> lfp_ok items (lfp_replay ds fp)"
  unfolding lfp_replay_def by (induction ds arbitrary: fp) (simp_all add: lfp_ok_updates)

lemma lfp_prior_updates [simp]: "lfp_prior (lfp_apply_updates us fp) = lfp_prior fp"
  by (cases fp) simp

lemma lfp_prior_replay [simp]: "lfp_prior (lfp_replay ds fp) = lfp_prior fp"
  unfolding lfp_replay_def by (induction ds arbitrary: fp) simp_all

lemma lfp_ok_clear: "lfp_ok items fp \<Longrightarrow> lfp_ok items (lfp_clear fp)"
  by (cases fp) simp

lemma lfp_ok_prior_facts:
  assumes "facts_ok m" "m off = Some (FactItem i)"
  shows "lfp_ok m (lfp_new (lin_prior_facts i))"
  by (cases "fi_prior i") (auto simp: lfp_new_def lin_prior_facts_def elim: index_prior [OF assms])

text \<open>What is done to a perspective between checkpoints.\<close>

fun lperform :: "perspective_op \<Rightarrow> linear_perspective \<Rightarrow> linear_perspective" where
  "lperform (OpInsert n k v) p = lp_insert n k v p"
| "lperform (OpDelete n k) p = lp_delete n k p"
| "lperform (OpAdd c) p = snd (lp_add_command c p)"

lemma lp_add_command_frame:
  "snd (lp_add_command c p) = p \<or> (\<exists>d. snd (lp_add_command c p) = p\<lparr>lp_commands := lp_commands p @ [d], lp_current_updates := []\<rparr>)"
  by (cases "lp_head_address p") (auto simp: lp_add_command_def prog_defs)

lemma lperform_ok: "lperspective_ok m p \<Longrightarrow> lperspective_ok m (lperform a p) \<and> lp_prior (lperform a p) = lp_prior p"
proof (cases a)
  case (OpInsert n k v)
  then show "lperspective_ok m p \<Longrightarrow> ?thesis"
    by (cases "lp_facts p") (auto simp: lperspective_ok_def lp_insert_def)
next
  case (OpDelete n k)
  then show "lperspective_ok m p \<Longrightarrow> ?thesis"
    by (cases "lp_facts p") (auto simp: lperspective_ok_def lp_delete_def lfp_put_wf)
next
  case (OpAdd c)
  then show "lperspective_ok m p \<Longrightarrow> ?thesis"
    using lp_add_command_frame [of c p] by (auto simp: lperspective_ok_def)
qed

lemma lp_revert_ok: "lperspective_ok m p \<Longrightarrow> lperspective_ok m (snd (lp_revert n p)) \<and> lp_prior (snd (lp_revert n p)) = lp_prior p"
  by (auto simp: lp_revert_def lperspective_ok_def Let_def lfp_ok_replay lfp_ok_clear)

context linear_io
begin

lemma fetched:
  assumes "rep w m h" "items_ok m" "is_valid item_ops m l"
  obtains s c i where "m (loc_segment l) = Some (SegmentItem s)" "loc_command l < length (sr_commands s)"
    "lin_get_segment io w l = Ok s" "lseg_get_command s l = Some c" "sc_max_cut c = cut_at item_ops m l"
    "m (sr_facts s) = Some (FactItem i)" "lseg_facts io w s = Ok i"
proof -
  obtain s where s: "m (loc_segment l) = Some (SegmentItem s)" "loc_command l < length (sr_commands s)"
    using assms(2,3) item_valid by blast
  note seg = items_ok_segment [OF assms(2) s(1)]
  obtain c where c: "lseg_get_command s l = Some c" using lseg_get_command_ok(1) [OF seg HOL.refl] s(2) by auto
  obtain i where i: "m (sr_facts s) = Some (FactItem i)" using seg by (auto simp: lsegment_ok_def)
  show thesis
    using that [OF s _ c _ i] fetch_segment [OF assms(1) s(1)] fetch_facts [OF assms(1) i]
      lseg_get_command_ok(2) [OF seg HOL.refl c] item_cut [OF assms(2) s] by (simp add: lin_get_segment_def lseg_facts_def)
qed

lemma linear_perspective_ok:
  assumes "rep w m h" "items_ok m" "is_valid item_ops m l" "lin_get_linear_perspective io w l = Ok (Some p)"
  shows "lperspective_ok m p \<and> lp_prior p = PSingle l"
proof -
  obtain s c i where get: "lin_get_segment io w l = Ok s" "lseg_get_command s l = Some c" "lseg_facts io w s = Ok i"
      and cut: "sc_max_cut c = cut_at item_ops m l" and i: "m (sr_facts s) = Some (FactItem i)"
    using fetched [OF assms(1-3)] by blast
  have facts: "facts_ok m" using assms(2) by (simp add: items_ok_def)
  let ?facts = "lfp_replay (take (Suc (loc_command l)) (sr_commands s)) (lfp_new (lin_prior_facts i))"
  have "lfp_ok m ?facts" by (intro lfp_ok_replay lfp_ok_prior_facts [OF facts i])
  then have ok: "lfp_ok m (LinearFactPerspective mp (lfp_prior ?facts))" if "named_wf mp" for mp
    using that by (cases ?facts) simp
  have wf: "named_wf (lfp_map ?facts)" using \<open>lfp_ok m ?facts\<close> by (cases ?facts) simp
  then have "named_wf (bt_retain (\<lambda>kv. kv \<noteq> []) (lfp_map ?facts))"
    by (auto simp: named_wf_def bt_get_retain split: option.splits if_splits)
  with ok wf i have "lfp_ok m (lp_facts p)"
    using assms(4) get by (auto simp: lin_get_linear_perspective_def Let_def lp_new_def lfp_new_def split: if_splits)
  moreover have "lp_prior p = PSingle l" "lp_max_cut p = Suc (cut_at item_ops m l)"
    using assms(4) get cut by (auto simp: lin_get_linear_perspective_def lp_new_def usize_checked_add_def split: if_splits)
  ultimately show ?thesis using assms(3) by (simp add: lperspective_ok_def lca_ok_def)
qed

lemma fact_perspective_ok:
  assumes "rep w m h" "items_ok m" "is_valid item_ops m l" "lin_get_fact_perspective io w l = Ok fp"
  shows "lfp_ok m fp"
proof -
  obtain s i where get: "lin_get_segment io w l = Ok s" "lseg_facts io w s = Ok i" and i: "m (sr_facts s) = Some (FactItem i)"
    using fetched [OF assms(1-3)] by blast
  have facts: "facts_ok m" using assms(2) by (simp add: items_ok_def)
  from assms(4) get i lfp_ok_replay [OF lfp_ok_prior_facts [OF facts i]] show ?thesis
    by (auto simp: lin_get_fact_perspective_def lfp_new_def split: if_splits)
qed

text \<open>The last common ancestor of the storage is the one a merge needs.\<close>

lemma merge_perspective_ok:
  assumes "rep w m h" "items_ok m" "\<And>l. is_valid item_ops m l \<Longrightarrow> ancestor item_ops m root l"
    "is_valid item_ops m left" "is_valid item_ops m right" "last_common_ancestor (lin_ops io) w left right = Some (Ok lca)"
    "m (fi_offset i) = Some (FactItem i)" "lin_new_merge_perspective io w left right lca policy i = Ok (Some p)"
  shows "lperspective_ok m p \<and> lp_prior p = PMerge left right"
proof -
  note graph = lin_graph [OF assms(2)]
  note agree = lin_agree [OF assms(1,2)] and anc = lin_ancestor [OF assms(1,2)]
  have wf: "\<exists>h. rep w m h" using assms(1) by blast
  have merges: "skips_merges (lin_ops io) w (is_valid item_ops m)"
    unfolding skips_merges_def
  proof (intro allI impI conjI ballI, goal_cases)
    case (1 l s)
    then have "m (loc_segment l) = Some (SegmentItem s)" using agree(1) by simp
    from items_ok_segment [OF assms(2) this] 1(3) show ?case by (auto simp: lsegment_ok_def)
  next
    case (2 l s sk)
    then have s: "m (loc_segment l) = Some (SegmentItem s)" using agree(1) by simp
    obtain x c where sk: "sk = (x, c)" by (cases sk)
    have "skip_ok m s (x, c)" using items_ok_segment [OF assms(2) s] 2(3) sk by (auto simp: lsegment_ok_def)
    then show ?case using agree(3) sk by (auto simp: skip_ok_def)
  qed
  obtain x where x: "last_common_ancestor (lin_ops io) w left right = Some (Ok (x, cut_at (lin_ops io) w x))" "is_valid item_ops m x"
      "cut_point (lin_ops io) w x left" "cut_point (lin_ops io) w x right"
    using graph_storage.last_common_ancestor_spec [OF graph wf merges _ assms(4,5), of root] assms(3) anc by auto
  have point: "cut_point item_ops m x l" if "cut_point (lin_ops io) w x l" "is_valid item_ops m l" for l
  proof -
    have "is_valid item_ops m a" if "ancestor item_ops m a l" for a
      using items.ancestor_valid [OF assms(2) \<open>is_valid item_ops m l\<close> that] by simp
    then show ?thesis using that anc agree(3) x(2) unfolding cut_point_def by auto
  qed
  have "skips_to m left lca" "skips_to m right lca"
    using x assms(4-6) point agree(3) by (auto simp: skips_to_def)
  moreover obtain ls lc where l: "lin_get_segment io w left = Ok ls" "lseg_get_command ls left = Some lc" "sc_max_cut lc = cut_at item_ops m left"
    using fetched [OF assms(1,2,4)] by blast
  moreover obtain rs rc where r: "lin_get_segment io w right = Ok rs" "lseg_get_command rs right = Some rc" "sc_max_cut rc = cut_at item_ops m right"
    using fetched [OF assms(1,2,5)] by blast
  moreover have "lp_max_cut p = Suc (max (sc_max_cut lc) (sc_max_cut rc))"
      "lp_facts p = lfp_new (LFIndex (fi_offset i))" "lp_prior p = PMerge left right" "lp_last_common_ancestor p = Some lca"
    using assms(8) l r by (auto simp: lin_new_merge_perspective_def lp_new_def usize_checked_add_def split: if_splits)
  ultimately show ?thesis
    using assms(4,5,7) by (auto simp: lperspective_ok_def lca_ok_def lfp_new_def)
qed

end

section \<open>Runs\<close>

text \<open>
  A storage in use: its writer, the segments and the perspectives that are held, and the
  fact indices that were written for merges. Segments are reached from the head through
  priors and skip lists, locations through segments. A merge takes the last common
  ancestor that the storage computes. Every operation may fail, and a failed one is a step
  as well. Only the number of commands has to be representable when a perspective is written.
\<close>

type_synonym 'w lin_system = "'w \<times> segment_repr list \<times> linear_perspective list \<times> fact_index_repr list"

fun on_ok :: "('a, 'e) result \<Rightarrow> 'a list \<Rightarrow> 'a list" where
  "on_ok (Ok a) as = a # as"
| "on_ok _ as = as"

inductive lin_step :: "'w io_ops \<Rightarrow> 'w lin_system \<Rightarrow> 'w lin_system \<Rightarrow> bool" for io :: "'w io_ops" where
  head: "io_head io w = Ok l \<Longrightarrow> lin_get_segment io w l = Ok s \<Longrightarrow> lin_step io (w, segs, ps, is) (w, s # segs, ps, is)"
| follow: "t \<in> set segs \<Longrightarrow> l \<in> set (prior_list (sr_prior t)) \<union> fst ` set (sr_skip_list t) \<Longrightarrow> lin_get_segment io w l = Ok s \<Longrightarrow>
    lin_step io (w, segs, ps, is) (w, s # segs, ps, is)"
| open_linear: "s \<in> set segs \<Longrightarrow> lseg_get_command s l \<noteq> None \<Longrightarrow> lin_get_linear_perspective io w l = Ok (Some p) \<Longrightarrow>
    lin_step io (w, segs, ps, is) (w, segs, p # ps, is)"
| write_facts: "s \<in> set segs \<Longrightarrow> lseg_get_command s l \<noteq> None \<Longrightarrow> lin_get_fact_perspective io w l = Ok fp \<Longrightarrow>
    lin_write_facts io (lfp_apply_updates us fp) w = Some (r, w') \<Longrightarrow> lin_step io (w, segs, ps, is) (w', segs, ps, on_ok r is)"
| open_merge: "s \<in> set segs \<Longrightarrow> lseg_get_command s l \<noteq> None \<Longrightarrow> t \<in> set segs \<Longrightarrow> lseg_get_command t r \<noteq> None \<Longrightarrow>
    last_common_ancestor (lin_ops io) w l r = Some (Ok lca) \<Longrightarrow> i \<in> set is \<Longrightarrow>
    lin_new_merge_perspective io w l r lca policy i = Ok (Some p) \<Longrightarrow> lin_step io (w, segs, ps, is) (w, segs, p # ps, is)"
| act: "j < length ps \<Longrightarrow> lin_step io (w, segs, ps, is) (w, segs, ps[j := lperform a (ps ! j)], is)"
| revert: "j < length ps \<Longrightarrow> lin_step io (w, segs, ps, is) (w, segs, ps[j := snd (lp_revert n (ps ! j))], is)"
| store: "lp_max_cut p + length (lp_commands p) < usize_limit \<Longrightarrow> lin_write io rnd p w = Some (r, w') \<Longrightarrow>
    lin_step io (w, segs, ps @ p # qs, is) (w', on_ok r segs, ps @ qs, is)"
| commit: "s \<in> set segs \<Longrightarrow> lin_commit io s w = Some (r, w') \<Longrightarrow> lin_step io (w, segs, ps, is) (w', segs, ps, is)"

definition system_ok :: "linear_items \<Rightarrow> location \<Rightarrow> location \<Rightarrow> segment_repr list \<times> linear_perspective list \<times> fact_index_repr list \<Rightarrow> bool" where
  "system_ok m h root sys \<longleftrightarrow> items_ok m \<and> is_valid item_ops m h \<and> (\<forall>l. is_valid item_ops m l \<longrightarrow> ancestor item_ops m root l) \<and>
     (case sys of (segs, ps, is) \<Rightarrow> (\<forall>s \<in> set segs. m (sr_offset s) = Some (SegmentItem s)) \<and>
       (\<forall>p \<in> set ps. lperspective_ok m p \<and> lp_prior p \<noteq> PNone) \<and> (\<forall>i \<in> set is. m (fi_offset i) = Some (FactItem i)))"

definition lin_ok :: "('w \<Rightarrow> linear_items \<Rightarrow> location option \<Rightarrow> bool) \<Rightarrow> 'w lin_system \<Rightarrow> bool" where
  "lin_ok rep sys \<longleftrightarrow> (\<exists>m h root. rep (fst sys) m (Some h) \<and> system_ok m h root (snd sys))"

lemma lin_okI: "rep w m (Some h) \<Longrightarrow> system_ok m h root sys \<Longrightarrow> lin_ok rep (w, sys)"
  by (auto simp: lin_ok_def)

lemma system_ok_held:
  "system_ok m h root (segs, ps, is) \<Longrightarrow> \<forall>i. r = Ok i \<longrightarrow> m (fi_offset i) = Some (FactItem i) \<Longrightarrow> system_ok m h root (segs, ps, on_ok r is)"
  "system_ok m h root (segs, ps, is) \<Longrightarrow> \<forall>s. q = Ok s \<longrightarrow> m (sr_offset s) = Some (SegmentItem s) \<Longrightarrow> system_ok m h root (on_ok q segs, ps, is)"
  "system_ok m h root (segs, ps, is) \<Longrightarrow> set qs \<subseteq> set ps \<Longrightarrow> system_ok m h root (segs, qs, is)"
  "system_ok m h root (segs, ps, is) \<Longrightarrow> lperspective_ok m p \<Longrightarrow> lp_prior p \<noteq> PNone \<Longrightarrow> system_ok m h root (segs, p # ps, is)"
  by (cases r; cases q; auto simp: system_ok_def)+

lemma system_ok_update:
  assumes "system_ok m h root (segs, ps, is)" "j < length ps"
    "lperspective_ok m (ps ! j) \<Longrightarrow> lperspective_ok m q \<and> lp_prior q = lp_prior (ps ! j)"
  shows "system_ok m h root (segs, ps[j := q], is)"
proof -
  have "lperspective_ok m (ps ! j)" "lp_prior (ps ! j) \<noteq> PNone" using assms(1,2) by (auto simp: system_ok_def)
  then show ?thesis
    using assms(1,3) by (auto simp: system_ok_def dest!: set_update_subset_insert [THEN subsetD])
qed

lemma held_location:
  assumes "items_ok m" "m (sr_offset s) = Some (SegmentItem s)" "lseg_get_command s l \<noteq> None"
  shows "is_valid item_ops m l"
proof -
  have "loc_segment l = sr_offset s" using assms(3) by (auto simp: lseg_get_command_def split: if_splits)
  then show ?thesis
    using lseg_get_command_ok(1) [OF items_ok_segment [OF assms(1,2)]] assms(2,3) by (simp add: item_valid [OF assms(1)])
qed

text \<open>Adding items keeps what is held, and a segment written on valid priors keeps the root.\<close>

lemma system_ok_extend:
  assumes "system_ok m h root (segs, ps, is)" "m \<subseteq>\<^sub>m m'" "items_ok m'" "\<And>l. is_valid item_ops m' l \<Longrightarrow> ancestor item_ops m' root l"
  shows "system_ok m' h root (segs, ps, is)"
proof -
  have ok: "items_ok m" using assms(1) by (simp add: system_ok_def)
  have get: "m' o' = Some it" if "m o' = Some it" for o' it using assms(2) that by (auto simp: map_le_def dom_def)
  show ?thesis
    using assms(1,3,4) get item_extend(4) [OF ok assms(2)] lperspective_ok_extend [OF ok assms(2)] by (auto simp: system_ok_def)
qed

lemma ancestor_segment:
  "ancestor ops st r \<lparr>loc_segment = k, loc_command = 0\<rparr> \<Longrightarrow> ancestor ops st r \<lparr>loc_segment = k, loc_command = n\<rparr>"
proof (induction n)
  case (Suc n)
  have "\<lparr>loc_segment = k, loc_command = n\<rparr> \<in> set (parents ops st \<lparr>loc_segment = k, loc_command = Suc n\<rparr>)" by (simp add: parents_previous)
  then show ?case using Suc ancestor_unfold [of ops st r "\<lparr>loc_segment = k, loc_command = Suc n\<rparr>"] by blast
qed

lemma root_kept:
  assumes "items_ok m" "m \<subseteq>\<^sub>m m'" "items_ok m'" "\<And>l. is_valid item_ops m l \<Longrightarrow> ancestor item_ops m root l"
    "\<And>o' t. m' o' = Some (SegmentItem t) \<Longrightarrow> m o' = Some (SegmentItem t) \<or>
      sr_prior t \<noteq> PNone \<and> (\<forall>q \<in> set (prior_list (sr_prior t)). is_valid item_ops m q)"
    "is_valid item_ops m' l"
  shows "ancestor item_ops m' root l"
proof (cases "is_valid item_ops m l")
  case True
  then show ?thesis using ancestor_extend [OF assms(1,2) True] assms(4) by simp
next
  case False
  obtain t where t: "m' (loc_segment l) = Some (SegmentItem t)" "loc_command l < length (sr_commands t)"
    using assms(6) item_valid [OF assms(3)] by blast
  then have "m (loc_segment l) \<noteq> Some (SegmentItem t)" using False by (auto simp: item_valid [OF assms(1)])
  then obtain q where q: "q \<in> set (prior_list (sr_prior t))" "is_valid item_ops m q"
    using assms(5) [OF t(1)] by (cases "sr_prior t") auto
  then have "ancestor item_ops m' root q" using ancestor_extend [OF assms(1,2)] assms(4) by simp
  moreover have "q \<in> set (parents item_ops m' \<lparr>loc_segment = loc_segment l, loc_command = 0\<rparr>)"
    using q(1) t(1) by (simp add: parents_first item_priors [where s = t])
  ultimately have "ancestor item_ops m' root \<lparr>loc_segment = loc_segment l, loc_command = 0\<rparr>"
    using ancestor_unfold [of item_ops m' root "\<lparr>loc_segment = loc_segment l, loc_command = 0\<rparr>"] by blast
  from ancestor_segment [OF this, of "loc_command l"] show ?thesis by (cases l) simp
qed

text \<open>The items of a storage that was just created.\<close>

definition first_items :: "fact_index_repr \<Rightarrow> segment_repr \<Rightarrow> bool" where
  "first_items i s \<longleftrightarrow> fi_prior i = None \<and> fi_depth i = 1 \<and> named_wf (fi_facts i) \<and> fi_offset i < sr_offset s \<and>
     sr_prior s = PNone \<and> sr_facts s = fi_offset i \<and> sr_commands s \<noteq> [] \<and> sr_max_cut s = 0 \<and> sr_skip_list s = [] \<and>
     length (sr_commands s) < usize_limit"

lemma first_items_ok:
  assumes "first_items i s"
  shows "system_ok [fi_offset i \<mapsto> FactItem i, sr_offset s \<mapsto> SegmentItem s] (lseg_head_location s) (lseg_first_location s) ([], [], [])"
proof -
  let ?m = "[fi_offset i \<mapsto> FactItem i, sr_offset s \<mapsto> SegmentItem s]" and ?root = "lseg_first_location s"
  have facts: "facts_ok ?m" using assms by (auto simp: first_items_def facts_ok_def index_ok_def max_fact_index_depth_def)
  have "lsegment_ok ?m (sr_offset s) s" using assms by (auto simp: first_items_def lsegment_ok_def)
  then have ok: "items_ok ?m" using facts by (auto simp: items_ok_def split: if_splits)
  have "ancestor item_ops ?m ?root \<lparr>loc_segment = sr_offset s, loc_command = n\<rparr>" for n
    by (rule ancestor_segment) (simp add: lseg_first_location_def location_new_def ancestor.refl)
  then have root: "ancestor item_ops ?m ?root l" if "is_valid item_ops ?m l" for l
    using that by (cases l) (auto simp: item_valid [OF ok] split: if_splits)
  have "is_valid item_ops ?m (lseg_head_location s)"
    unfolding item_valid [OF ok] using assms by (simp add: first_items_def lseg_head_location_def)
  then show ?thesis using ok root by (simp add: system_ok_def)
qed

context linear_io
begin

lemma fetch_valid:
  assumes "rep w m h" "items_ok m" "is_valid item_ops m l" "lin_get_segment io w l = Ok s"
  shows "m (sr_offset s) = Some (SegmentItem s)"
proof -
  have "item_segment m l = Ok s" using lin_agree(1) [OF assms(1-3)] assms(4) by simp
  then show ?thesis using items_ok_segment [OF assms(2)] by (auto simp: lsegment_ok_def)
qed

lemma write_facts_step:
  assumes "rep w m (Some h)" "system_ok m h root (segs, ps, is)" "lfp_ok m fp" "lin_write_facts io fp w = Some (r, w')"
  shows "lin_ok rep (w', segs, ps, on_ok r is)"
proof -
  have ok: "items_ok m" "facts_ok m" and root: "\<And>l. is_valid item_ops m l \<Longrightarrow> ancestor item_ops m root l"
    using assms(2) by (auto simp: system_ok_def items_ok_def)
  have "written m (Some h) (mfp_query (perspective_abs m fp)) r w'"
    using lin_write_facts_spec [OF assms(1) ok(2) assms(3)] assms(4) by (simp add: lwp_def)
  then obtain m' where m': "facts_added m m'" "rep w' m' (Some h)" "\<forall>i. r = Ok i \<longrightarrow> m' (fi_offset i) = Some (FactItem i)"
    unfolding written_def by (cases r) auto
  note ok' = items_ok_facts [OF ok(1) m'(1)]
  have le: "m \<subseteq>\<^sub>m m'" using m'(1) by (simp add: facts_added_def)
  have "ancestor item_ops m' root l" if "is_valid item_ops m' l" for l
    using root_kept [OF ok(1) le ok' root _ that] facts_added_segment [OF m'(1)] by blast
  from system_ok_extend [OF assms(2) le ok' this] m' show ?thesis
    by (auto intro!: lin_okI system_ok_held(1))
qed

lemma store_step:
  assumes "rep w m (Some h)" "system_ok m h root (segs, ps @ p # qs, is)" "lp_max_cut p + length (lp_commands p) < usize_limit"
    "lin_write io rnd p w = Some (r, w')"
  shows "lin_ok rep (w', on_ok r segs, ps @ qs, is)"
proof -
  have ok: "items_ok m" and root: "\<And>l. is_valid item_ops m l \<Longrightarrow> ancestor item_ops m root l"
    and p: "lperspective_ok m p" "lp_prior p \<noteq> PNone"
    using assms(2) by (auto simp: system_ok_def)
  have "wrote m (Some h) p r w'"
    using lin_write_spec [OF assms(1) ok p(1) assms(3), of rnd] assms(4) by (simp add: lwp_def)
  then obtain m' where m': "m \<subseteq>\<^sub>m m'" "items_ok m'" "rep w' m' (Some h)"
      "\<And>o' t. m' o' = Some (SegmentItem t) \<Longrightarrow> m o' = Some (SegmentItem t) \<or> r = Ok t"
      "\<And>s. r = Ok s \<Longrightarrow> m' (sr_offset s) = Some (SegmentItem s) \<and> sr_prior s = lp_prior p"
    unfolding wrote_def by blast
  have "ancestor item_ops m' root l" if "is_valid item_ops m' l" for l
  proof (rule root_kept [OF ok m'(1,2) root _ that])
    show "m o' = Some (SegmentItem t) \<or> sr_prior t \<noteq> PNone \<and> (\<forall>q \<in> set (prior_list (sr_prior t)). is_valid item_ops m q)"
      if "m' o' = Some (SegmentItem t)" for o' t
      using m'(4) [OF that] m'(5) [of t] p by (auto simp: lperspective_ok_def)
  qed
  from system_ok_held(3) [OF system_ok_extend [OF assms(2) m'(1,2) this], of "ps @ qs"] m'(3,5) show ?thesis
    by (auto intro!: lin_okI system_ok_held(2))
qed

lemma commit_step:
  assumes "rep w m (Some h)" "system_ok m h root (segs, ps, is)" "s \<in> set segs" "lin_commit io s w = Some (r, w')"
  shows "lin_ok rep (w', segs, ps, is)"
proof -
  have ok: "items_ok m" and s: "m (sr_offset s) = Some (SegmentItem s)" using assms(2,3) by (auto simp: system_ok_def)
  have "sr_commands s \<noteq> []" using items_ok_segment [OF ok s] by (simp add: lsegment_ok_def)
  then have valid: "is_valid item_ops m (lseg_head_location s)"
    using s by (auto simp: item_valid [OF ok] lseg_head_location_def)
  obtain r1 w1 where c: "io_commit io (lseg_head_location s) w = (r1, w1)" by (cases "io_commit io (lseg_head_location s) w")
  have "w' = w \<or> w' = w1"
    using assms(4) c by (auto simp: lin_commit_def lbind_Some lread_def lrun_def split: option.splits if_splits)
  moreover have "rep w1 m (Some (lseg_head_location s)) \<or> rep w1 m (Some h)" using commit_head [OF assms(1) c] by blast
  moreover have "system_ok m (lseg_head_location s) root (segs, ps, is)" using assms(2) valid by (simp add: system_ok_def)
  ultimately show ?thesis using assms(1,2) lin_okI [of rep] by blast
qed

lemma lin_step_ok: "lin_step io s t \<Longrightarrow> lin_ok rep s \<Longrightarrow> lin_ok rep t"
proof (induction rule: lin_step.induct)
  case (head w l s segs ps "is")
  then obtain m h root where m: "rep w m (Some h)" "system_ok m h root (segs, ps, is)" by (auto simp: lin_ok_def)
  then have "l = h" "items_ok m" "is_valid item_ops m h" using head(1) head_committed by (auto simp: system_ok_def)
  with system_ok_held(2) [OF m(2), of "Ok s :: (segment_repr, unit) result"] fetch_valid [OF m(1)] head(2) m(1)
  show ?case by (auto intro: lin_okI)
next
  case (follow t segs l w s ps "is")
  then obtain m h root where m: "rep w m (Some h)" "system_ok m h root (segs, ps, is)" by (auto simp: lin_ok_def)
  then have ok: "items_ok m" "m (sr_offset t) = Some (SegmentItem t)" using follow(1) by (auto simp: system_ok_def)
  have "is_valid item_ops m l"
    using items_ok_segment [OF ok] follow(2) by (auto simp: lsegment_ok_def skip_ok_def)
  with system_ok_held(2) [OF m(2), of "Ok s :: (segment_repr, unit) result"] fetch_valid [OF m(1) ok(1)] follow(3) m(1)
  show ?case by (auto intro: lin_okI)
next
  case (open_linear s segs l w p ps "is")
  then obtain m h root where m: "rep w m (Some h)" "system_ok m h root (segs, ps, is)" by (auto simp: lin_ok_def)
  then have ok: "items_ok m" "m (sr_offset s) = Some (SegmentItem s)" using open_linear(1) by (auto simp: system_ok_def)
  from linear_perspective_ok [OF m(1) ok(1) held_location [OF ok open_linear(2)] open_linear(3)] show ?case
    using m by (auto intro: lin_okI intro!: system_ok_held(4))
next
  case (write_facts s segs l w fp us r w' ps "is")
  then obtain m h root where m: "rep w m (Some h)" "system_ok m h root (segs, ps, is)" by (auto simp: lin_ok_def)
  then have ok: "items_ok m" "m (sr_offset s) = Some (SegmentItem s)" using write_facts(1) by (auto simp: system_ok_def)
  have "lfp_ok m fp" by (rule fact_perspective_ok [OF m(1) ok(1) held_location [OF ok write_facts(2)] write_facts(3)])
  then show ?case using write_facts_step [OF m _ write_facts(4)] lfp_ok_updates by blast
next
  case (open_merge s segs l t r w lca i "is" policy p ps)
  then obtain m h root where m: "rep w m (Some h)" "system_ok m h root (segs, ps, is)" by (auto simp: lin_ok_def)
  then have ok: "items_ok m" "m (sr_offset s) = Some (SegmentItem s)" "m (sr_offset t) = Some (SegmentItem t)"
      "m (fi_offset i) = Some (FactItem i)" and root: "\<And>l. is_valid item_ops m l \<Longrightarrow> ancestor item_ops m root l"
    using open_merge(1,3,6) by (auto simp: system_ok_def)
  from merge_perspective_ok [OF m(1) ok(1) root held_location [OF ok(1,2) open_merge(2)] held_location [OF ok(1,3) open_merge(4)]
      open_merge(5) ok(4) open_merge(7)] show ?case
    using m by (auto intro: lin_okI intro!: system_ok_held(4))
next
  case (act j ps w segs "is" a)
  then obtain m h root where m: "rep w m (Some h)" "system_ok m h root (segs, ps, is)" by (auto simp: lin_ok_def)
  from lin_okI [of rep, OF m(1) system_ok_update [OF m(2) act(1)]] lperform_ok show ?case by blast
next
  case (revert j ps w segs "is" n)
  then obtain m h root where m: "rep w m (Some h)" "system_ok m h root (segs, ps, is)" by (auto simp: lin_ok_def)
  from lin_okI [of rep, OF m(1) system_ok_update [OF m(2) revert(1)]] lp_revert_ok show ?case by blast
next
  case (store p rnd w r w' segs ps qs "is")
  then show ?case using store_step by (auto simp: lin_ok_def [of rep "(w, _)"])
next
  case (commit s segs w r w' ps "is")
  then show ?case using commit_step by (auto simp: lin_ok_def [of rep "(w, _)"])
qed

lemma lin_run_ok: "(lin_step io)\<^sup>*\<^sup>* s t \<Longrightarrow> lin_ok rep s \<Longrightarrow> lin_ok rep t"
  by (induction rule: rtranclp_induct) (auto intro: lin_step_ok)

text \<open>A new storage has one segment without priors.\<close>

lemma lin_create_ok:
  assumes "rep w Map.empty None" "lfp_ok Map.empty (lp_facts p)" "length (lp_commands p) < usize_limit"
    "lin_create io p w = Some (Ok (), w')"
  shows "lin_ok rep (w', [], [], [])"
proof -
  let ?fb = "\<lambda>offset. \<lparr>fi_offset = offset, fi_prior = None, fi_depth = 1, fi_facts = bt_retain (\<lambda>kv. kv \<noteq> []) (lfp_map (lp_facts p))\<rparr>"
  let ?sb = "\<lambda>facts offset. \<lparr>sr_offset = offset, sr_prior = PNone, sr_parents = PNone, sr_policy = lp_policy p,
     sr_facts = fi_offset facts, sr_commands = lp_commands p, sr_max_cut = 0, sr_skip_list = []\<rparr>"
  obtain i w1 s w2 where run: "lp_commands p \<noteq> []" "io_append_facts io ?fb w = (Ok i, w1)"
      "io_append_segment io (?sb i) w1 = (Ok s, w2)" "io_commit io (lseg_head_location s) w2 = (Ok (), w')"
    using assms(4) by (auto simp: lin_create_def lbind_Some lrun_def usize_checked_sub_def lseg_head_location_def split: if_splits)
  obtain f where f: "i = ?fb f" "rep w1 [f \<mapsto> FactItem i] None"
    using append_facts [OF assms(1), of ?fb] run(2) by (auto simp: appended_def)
  obtain off where off: "s = ?sb i off" "f < off" "rep w2 [f \<mapsto> FactItem i, off \<mapsto> SegmentItem s] None"
    using append_segment [OF f(2), of "?sb i"] run(3) by (auto simp: appended_def)
  have "named_wf (lfp_map (lp_facts p))" using assms(2) by (cases "lp_facts p") simp
  then have "named_wf (fi_facts i)" using f(1) by (auto simp: named_wf_def bt_get_retain split: option.splits if_splits)
  then have "first_items i s" using f(1) off(1,2) run(1) assms(3) by (simp add: first_items_def)
  moreover have "fi_offset i = f" "sr_offset s = off" by (simp_all add: f(1) off(1))
  moreover have "rep w' [f \<mapsto> FactItem i, off \<mapsto> SegmentItem s] (Some (lseg_head_location s))"
    using commit_head [OF off(3) run(4)] by blast
  ultimately show ?thesis using lin_okI [of rep] first_items_ok [of i s] by blast
qed

text \<open>A perspective on the head can always be opened.\<close>

lemma head_opens:
  assumes "lin_ok rep (w, segs, ps, is)"
  shows "\<exists>h s p. io_head io w = Ok h \<and> lin_get_segment io w h = Ok s \<and> lseg_get_command s h \<noteq> None \<and>
    lin_get_linear_perspective io w h = Ok (Some p) \<and> lp_prior p = PSingle h"
proof -
  obtain m h root where m: "rep w m (Some h)" "items_ok m" "is_valid item_ops m h" using assms by (auto simp: lin_ok_def system_ok_def)
  obtain s c i where s: "m (loc_segment h) = Some (SegmentItem s)" "loc_command h < length (sr_commands s)" "lin_get_segment io w h = Ok s"
      "lseg_get_command s h = Some c" "lseg_facts io w s = Ok i" "sc_max_cut c = cut_at item_ops m h"
    using fetched [OF m] by blast
  have "Suc (sc_max_cut c) < usize_limit"
    using items_ok_segment [OF m(2) s(1)] item_cut [OF m(2) s(1,2)] s(2,6) by (simp add: lsegment_ok_def)
  then show ?thesis
    using s head_committed [OF m(1)] by (auto simp: lin_get_linear_perspective_def usize_checked_add_def Let_def lp_new_def)
qed

text \<open>Searches on a storage in use.\<close>

lemma lin_ok_search:
  assumes "lin_ok rep (w, segs, ps, is)"
  shows "\<exists>h r. io_head io w = Ok h \<and> get_location (lin_ops io) w a = Some (Ok r) \<and>
    (case r of
       None \<Rightarrow> \<forall>x. ancestor (lin_ops io) w x h \<longrightarrow> \<not> has_address (lin_ops io) w a x
     | Some l \<Rightarrow> has_address (lin_ops io) w a l)"
proof -
  obtain m h root where m: "rep w m (Some h)" "items_ok m" "is_valid item_ops m h" using assms by (auto simp: lin_ok_def system_ok_def)
  note head = head_committed [OF m(1)]
  have wf: "\<exists>h. rep w m h" using m(1) by blast
  have "\<forall>l \<in> set [h]. is_valid item_ops m l" using m(3) by simp
  from graph_storage.get_location_loop_spec [OF lin_graph [OF m(2)] wf this, of a] obtain r
    where r: "get_location_loop (lin_ops io) w a [h] = Some (Ok r)"
      "case r of None \<Rightarrow> \<forall>l \<in> set [h]. \<forall>x. ancestor (lin_ops io) w x l \<longrightarrow> \<not> has_address (lin_ops io) w a x
       | Some loc \<Rightarrow> has_address (lin_ops io) w a loc"
    by blast
  then show ?thesis
    using head by (intro exI [of _ h] exI [of _ r]) (auto simp: get_location_def get_location_from_def split: option.splits)
qed

lemma lin_ok_ancestry:
  assumes "lin_ok rep (w, segs, ps, is)" "s \<in> set segs" "t \<in> set segs" "lseg_get_command t l \<noteq> None"
  shows "is_ancestor (lin_ops io) w l s = Some (Ok (\<exists>p \<in> set (prior_list (sr_prior s)). ancestor (lin_ops io) w l p))"
proof -
  obtain m h root where m: "rep w m (Some h)" "items_ok m" "m (sr_offset s) = Some (SegmentItem s)" "m (sr_offset t) = Some (SegmentItem t)"
    using assms(1-3) by (auto simp: lin_ok_def system_ok_def)
  have l: "is_valid item_ops m l" by (rule held_location [OF m(2,4) assms(4)])
  let ?f = "lseg_first_location s"
  have "sr_commands s \<noteq> []" using items_ok_segment [OF m(2,3)] by (simp add: lsegment_ok_def)
  then have f: "is_valid item_ops m ?f" using m(3) by (auto simp: item_valid [OF m(2)] lseg_first_location_def)
  have get: "lin_get_segment io w ?f = Ok s" using fetch_segment [OF m(1,3)] by (simp add: lin_get_segment_def lseg_first_location_def)
  have "segment_priors (lin_ops io) w ?f = prior_list (sr_prior s)" using get by (simp add: segment_priors_def)
  with graph_storage.is_ancestor_spec [OF lin_graph [OF m(2)] _ l f, of w s] get m(1) show ?thesis by auto
qed

text \<open>Writing the facts of a perspective, with the compaction of deep indices, changes no query.\<close>

lemma lin_ok_write_facts:
  assumes "lin_ok rep (w, segs, ps, is)" "p \<in> set ps"
  shows "\<exists>r w'. lin_write_facts io (lp_facts p) w = Some (r, w') \<and>
    (\<forall>i. r = Ok i \<longrightarrow> lfi_query io w' i n k = lp_query io w p n k \<and> lfi_query_prefix io w' i n k = lp_query_prefix io w p n k \<and>
      (\<exists>v. lp_query io w p n k = Some (Ok v)) \<and> fi_depth i \<le> max_fact_index_depth)"
proof -
  obtain m h root where m: "rep w m (Some h)" "facts_ok m" "lfp_ok m (lp_facts p)"
    using assms by (auto simp: lin_ok_def system_ok_def items_ok_def lperspective_ok_def)
  let ?fp = "perspective_abs m (lp_facts p)"
  obtain r w' where run: "lin_write_facts io (lp_facts p) w = Some (r, w')" "written m (Some h) (mfp_query ?fp) r w'"
    using lin_write_facts_spec [OF m] by (auto simp: lwp_def)
  have "lfi_query io w' i n k = lp_query io w p n k \<and> lfi_query_prefix io w' i n k = lp_query_prefix io w p n k \<and>
      (\<exists>v. lp_query io w p n k = Some (Ok v)) \<and> fi_depth i \<le> max_fact_index_depth" if ok: "r = Ok i" for i
  proof -
    obtain m' where m': "facts_ok m'" "rep w' m' (Some h)" "m' (fi_offset i) = Some (FactItem i)"
        "mfi_query (index_abs m' (fi_offset i)) = mfp_query ?fp"
      using run(2) ok by (auto simp: written_def facts_added_def)
    have "mfp_query_prefix ?fp n k = mfi_query_prefix (index_abs m' (fi_offset i)) n k"
      by (rule mfp_mfi.same_prefix) (use perspective_abs_wf [OF m(2,3)] index_abs_wf [OF m'(1,3)] m'(4) in auto)
    then show ?thesis
      using lfi_query_abs [OF m'(2,1,3)] lfp_query_abs [OF m] lfi_prefix_abs(1) [OF m'(2,1,3)] lfp_prefix_abs [OF m] m'(4)
        facts_okD [OF m'(1,3)] by (simp add: lp_query_def lp_query_prefix_def index_ok_def)
  qed
  with run(1) show ?thesis by blast
qed

end

section \<open>Progress\<close>

text \<open>A writer that has no failures of its own.\<close>

locale steady_io = linear_io +
  assumes facts_stored: "rep w m h \<Longrightarrow> \<exists>i w'. io_append_facts io bf w = (Ok i, w')"
    and segment_stored: "rep w m h \<Longrightarrow> \<exists>s w'. io_append_segment io bs w = (Ok s, w')"
    and head_stored: "rep w m h \<Longrightarrow> \<exists>w'. io_commit io l w = (Ok (), w')"
begin

lemma no_failure: "\<not> writer_fails h"
  unfolding writer_fails_def using facts_stored segment_stored by (metis fst_conv)

lemma head_extends:
  assumes "lin_ok rep (w, segs, ps, is)" "io_head io w = Ok h" "p \<in> set ps" "lp_prior p = PSingle h" "lp_commands p \<noteq> []"
    "lp_max_cut p + length (lp_commands p) < usize_limit"
  shows "\<exists>s w' w''. lin_write io rnd p w = Some (Ok s, w') \<and> lin_commit io s w' = Some (Ok (), w'') \<and>
    io_head io w'' = Ok (lseg_head_location s) \<and> sr_prior s = PSingle h \<and> sr_commands s = lp_commands p"
proof -
  obtain m root where m: "rep w m (Some h)" "items_ok m" "is_valid item_ops m h" "lperspective_ok m p"
    using assms(1-3) head_committed by (auto simp: lin_ok_def system_ok_def)
  obtain r w' where run: "lin_write io rnd p w = Some (r, w')" "wrote m (Some h) p r w'"
    using lin_write_spec [OF m(1,2,4) assms(6), of rnd] by (auto simp: lwp_def)
  then obtain s where r: "r = Ok s" using no_failure assms(5) unfolding wrote_def by blast
  then obtain m' where m': "m \<subseteq>\<^sub>m m'" "items_ok m'" "rep w' m' (Some h)" "m' (sr_offset s) = Some (SegmentItem s)"
      "sr_prior s = PSingle h" "sr_commands s = lp_commands p"
    using run(2) assms(4) unfolding wrote_def by auto
  have h: "is_valid item_ops m' h" by (rule item_extend(4) [OF m(2) m'(1) m(3)])
  let ?f = "lseg_first_location s"
  have f: "is_valid item_ops m' ?f" using m'(4,6) assms(5) by (auto simp: item_valid [OF m'(2)] lseg_first_location_def)
  have get: "lin_get_segment io w' ?f = Ok s" using fetch_segment [OF m'(3,4)] by (simp add: lin_get_segment_def lseg_first_location_def)
  have "\<exists>h. rep w' m' h" using m'(3) by blast
  from graph_storage.is_ancestor_spec [OF lin_graph [OF m'(2)] this h f, of s] get m'(5)
  have anc: "is_ancestor (lin_ops io) w' h s = Some (Ok True)" by (auto simp: segment_priors_def ancestor.refl)
  obtain w'' where c: "io_commit io (lseg_head_location s) w' = (Ok (), w'')" using head_stored [OF m'(3)] by blast
  have "lin_commit io s w' = Some (Ok (), w'')"
    using head_committed [OF m'(3)] anc c by (simp add: lin_commit_def lbind_def lread_def lrun_def)
  moreover have "io_head io w'' = Ok (lseg_head_location s)" using commit_head [OF m'(3) c] head_committed by blast
  ultimately show ?thesis using run(1) r m'(5,6) by blast
qed

end

text \<open>The testing writer with codecs that serialise everything.\<close>

definition total_codec :: "linear_postcard \<Rightarrow> bool" where
  "total_codec pc \<longleftrightarrow> (\<forall>i. lpc_facts pc i \<noteq> None) \<and> (\<forall>s. lpc_segment pc s \<noteq> None)"

interpretation steady_vec: steady_io "vec_io pc" "\<lambda>w m h. vec_rep pc w m h \<and> total_codec pc" for pc
proof (unfold_locales, goal_cases)
  case (1 w m h off i)
  then show ?case using vec.fetch_facts by blast
next
  case (2 w m h off s)
  then show ?case using vec.fetch_segment by blast
next
  case (3 w m l)
  then show ?case using vec.head_committed by blast
next
  case (4 w m h bf)
  then show ?case using vec.append_facts [of pc w m h bf] by (auto simp: appended_def split: prod.splits result.splits)
next
  case (5 w m h bs)
  then show ?case using vec.append_segment [of pc w m h bs] by (auto simp: appended_def split: prod.splits result.splits)
next
  case (6 w m h l r w')
  then show ?case using vec.commit_head [of pc w m h l r w'] by blast
next
  case (7 w m h bf)
  then obtain bs' where "lpc_facts pc (bf (length (vw_items w))) = Some bs'" unfolding total_codec_def by (metis option.exhaust)
  then show ?case by (simp add: vec_io_def vw_append_def prog_defs)
next
  case (8 w m h bs)
  then obtain bs' where "lpc_segment pc (bs (length (vw_items w))) = Some bs'" unfolding total_codec_def by (metis option.exhaust)
  then show ?case by (simp add: vec_io_def vw_append_def prog_defs)
next
  case (9 w m h l)
  then show ?case by (auto simp: vec_io_def vw_commit_def prog_defs)
qed

end
