(* ===== verification/File_Spec.thy ===== *)
theory File_Spec
  imports File_Io Linear_Spec
begin

text \<open>
  The file writer meets the contract of the linear storage, whatever the operating system
  does to its writes; and after a crash at any point of an append or a commit the file can
  be opened again with all its items and the old or the new head.
\<close>

section \<open>Bytes in a file\<close>

definition holds :: "file_data \<Rightarrow> nat \<Rightarrow> bytes \<Rightarrow> bool" where
  "holds d off bs \<longleftrightarrow> (\<forall>i < length bs. d (off + i) = Some (bs ! i))"

lemma holds_Nil [simp]: "holds d off []"
  by (simp add: holds_def)

lemma holds_append: "holds d off (xs @ ys) \<longleftrightarrow> holds d off xs \<and> holds d (off + length xs) ys"
proof (rule iffI)
  assume h: "holds d off (xs @ ys)"
  have "d (off + i) = Some (xs ! i)" if "i < length xs" for i using h that by (auto simp: holds_def nth_append dest!: spec [of _ i])
  moreover have "d (off + length xs + i) = Some (ys ! i)" if "i < length ys" for i
    using h that by (auto simp: holds_def nth_append add.assoc dest!: spec [of _ "length xs + i"])
  ultimately show "holds d off xs \<and> holds d (off + length xs) ys" by (simp add: holds_def)
next
  assume h: "holds d off xs \<and> holds d (off + length xs) ys"
  show "holds d off (xs @ ys)"
    unfolding holds_def
  proof (intro allI impI)
    fix i assume "i < length (xs @ ys)"
    then show "d (off + i) = Some ((xs @ ys) ! i)"
      using h by (cases "i < length xs") (auto simp: holds_def nth_append dest!: spec [of _ "i - length xs"])
  qed
qed

lemma holds_cong: "(\<And>i. off \<le> i \<Longrightarrow> i < off + length bs \<Longrightarrow> d' i = d i) \<Longrightarrow> holds d' off bs = holds d off bs"
  by (auto simp: holds_def)

lemma holds_inj: "holds d off xs \<Longrightarrow> holds d off ys \<Longrightarrow> length xs = length ys \<Longrightarrow> xs = ys"
  by (auto simp: holds_def intro!: nth_equalityI)

lemma read_at_holds: "holds d off bs \<Longrightarrow> read_at off (length bs) d = bs"
proof -
  assume "holds d off bs"
  then have "map d [off..<off + length bs] = map Some bs"
    by (intro nth_equalityI) (auto simp: holds_def)
  then show ?thesis by (simp add: read_at_def takeWhile_eq_all_conv [THEN iffD2] comp_def)
qed

lemma write_at_holds: "holds (write_at off bs d) off bs"
  by (simp add: holds_def write_at_def)

lemma write_at_other: "\<not> (off \<le> i \<and> i < off + length bs) \<Longrightarrow> d i \<noteq> None \<Longrightarrow> write_at off bs d i = d i"
  by (auto simp: write_at_def)

section \<open>Reading\<close>

text \<open>Reads that are cut up and interrupted, but do not fail.\<close>

definition calm :: "io_event list \<Rightarrow> bool" where
  "calm es \<longleftrightarrow> IoFail \<notin> set es \<and> IoStop \<notin> set es"

lemma read_loop_spec:
  "holds d off bs \<Longrightarrow> calm es \<Longrightarrow> off + length bs < off_limit \<Longrightarrow> read_loop d es off (length bs) acc = Ok (acc @ bs)"
proof (induction "length bs + length es" arbitrary: off bs es acc rule: less_induct)
  case less
  show ?case
  proof (cases "bs = []")
    case True
    then show ?thesis by (simp add: read_loop.simps)
  next
    case False
    let ?e = "case es of [] \<Rightarrow> IoDone (length bs) | e # _ \<Rightarrow> e"
    have tl: "calm (tl es)" using less.prems(2) by (cases es) (auto simp: calm_def)
    show ?thesis
    proof (cases ?e)
      case (IoDone n)
      let ?b = "take (max 1 n) bs"
      have ne: "?b \<noteq> []" using False by simp
      have "holds d (off + length ?b) (drop (max 1 n) bs)"
        using less.prems(1) holds_append [of d off ?b "drop (max 1 n) bs"] by simp
      moreover have "length (drop (max 1 n) bs) + length (tl es) < length bs + length es"
        using False by (cases bs) (auto intro!: add_less_le_mono simp: less_Suc_eq_le)
      ultimately have "read_loop d (tl es) (off + length ?b) (length (drop (max 1 n) bs)) (acc @ ?b) = Ok ((acc @ ?b) @ drop (max 1 n) bs)"
        using less.prems(3) tl by (intro less.hyps) auto
      moreover have "length bs - length ?b = length (drop (max 1 n) bs)" "off + length ?b < off_limit" using less.prems(3) by auto
      ultimately show ?thesis
        using IoDone ne read_at_holds [OF less.prems(1)] False
        by (simp add: read_loop.simps [of d es off "length bs" acc] off_checked_add_def del: length_take length_drop)
    next
      case IoEintr
      then obtain es' where "es = IoEintr # es'" by (cases es) auto
      then show ?thesis
        using less.hyps [of bs es' off acc] less.prems tl False by (subst read_loop.simps) simp
    qed (use less.prems(2) in \<open>auto simp: calm_def split: list.splits\<close>)
  qed
qed

definition reads_calm :: "os_file \<Rightarrow> bool" where
  "reads_calm f \<longleftrightarrow> (\<forall>off len. calm (of_reads f off len))"

lemma file_read_exact_spec:
  "reads_calm f \<Longrightarrow> holds (of_data f) off bs \<Longrightarrow> off + length bs < off_limit \<Longrightarrow> file_read_exact f off (length bs) = Ok bs"
  by (simp add: file_read_exact_def reads_calm_def read_loop_spec)

text \<open>The bytes of an item with their length in front.\<close>

definition framed :: "bytes \<Rightarrow> bytes" where
  "framed bs = be_digits 4 (length bs) @ bs"

lemma framed_length [simp]: "length (framed bs) = 4 + length bs"
  by (simp add: framed_def)

lemma framed_inj: "length xs < u32_limit \<Longrightarrow> length ys < u32_limit \<Longrightarrow> framed xs = framed ys \<Longrightarrow> xs = ys"
  by (simp add: framed_def)

lemma file_load_spec:
  assumes "reads_calm f" "holds (of_data f) off (framed bs)" "length bs < u32_limit" "off + 4 + length bs < off_limit"
  shows "file_load of_vec f off = ok_or IoError (of_vec bs)"
proof -
  have parts: "holds (of_data f) off (be_digits 4 (length bs))" "holds (of_data f) (off + 4) bs"
    using assms(2) by (simp_all add: framed_def holds_append)
  have "be_value 0 (be_digits 4 (length bs)) = length bs"
    using assms(3) by (simp add: be_value_digits u32_limit_def)
  moreover have "file_read_exact f off 4 = Ok (be_digits 4 (length bs))"
    using file_read_exact_spec [OF assms(1) parts(1)] assms(4) by simp
  moreover have "file_read_exact f (off + 4) (length bs) = Ok bs"
    using file_read_exact_spec [OF assms(1) parts(2)] assms(4) by simp
  ultimately show ?thesis using assms(4) by (simp add: file_load_def off_checked_add_def)
qed

section \<open>Writing\<close>

text \<open>
  \<open>put off bs f f'\<close>: from \<open>f\<close> to \<open>f'\<close> only bytes of \<open>bs\<close> at \<open>off\<close> were written, some of
  them or all, and the writes are pending.
\<close>

definition part_of :: "nat \<Rightarrow> bytes \<Rightarrow> nat \<times> bytes \<Rightarrow> bool" where
  "part_of off bs q \<longleftrightarrow> (case q of (o', b) \<Rightarrow> off \<le> o' \<and> o' + length b \<le> off + length bs \<and> (\<forall>j < length b. b ! j = bs ! (o' - off + j)))"

definition put :: "nat \<Rightarrow> bytes \<Rightarrow> os_file \<Rightarrow> os_file \<Rightarrow> bool" where
  "put off bs f f' \<longleftrightarrow> of_durable f' = of_durable f \<and> of_reads f' = of_reads f \<and>
     (\<forall>i. \<not> (off \<le> i \<and> i < off + length bs) \<longrightarrow> of_data f i \<noteq> None \<longrightarrow> of_data f' i = of_data f i) \<and>
     (\<exists>ps. of_pending f' = of_pending f @ ps \<and> (\<forall>q \<in> set ps. part_of off bs q))"

lemma put_refl: "put off bs f f"
  by (simp add: put_def)

lemma part_of_drop: "n \<le> length bs \<Longrightarrow> part_of (off + n) (drop n bs) q \<Longrightarrow> part_of off bs q"
  by (auto simp: part_of_def add.commute)

lemma part_of_append: "part_of off xs q \<Longrightarrow> part_of off (xs @ ys) q" "part_of (off + length xs) ys q \<Longrightarrow> part_of off (xs @ ys) q"
  by (auto simp: part_of_def nth_append add.commute)

lemma put_trans:
  assumes "put o1 b1 f f1" "put o2 b2 f1 f2" "\<And>q. part_of o1 b1 q \<Longrightarrow> part_of off bs q" "\<And>q. part_of o2 b2 q \<Longrightarrow> part_of off bs q"
    "off \<le> o1" "o1 + length b1 \<le> off + length bs" "off \<le> o2" "o2 + length b2 \<le> off + length bs"
  shows "put off bs f f2"
proof -
  obtain ps1 ps2 where ps: "of_pending f1 = of_pending f @ ps1" "of_pending f2 = of_pending f1 @ ps2"
      "\<forall>q \<in> set ps1. part_of o1 b1 q" "\<forall>q \<in> set ps2. part_of o2 b2 q"
    using assms(1,2) by (auto simp: put_def)
  have "of_data f2 i = of_data f i" if "\<not> (off \<le> i \<and> i < off + length bs)" "of_data f i \<noteq> None" for i
  proof -
    have "of_data f1 i = of_data f i" using assms(1,5,6) that unfolding put_def by (metis le_trans less_le_trans)
    moreover have "of_data f2 i = of_data f1 i" using assms(2,7,8) that calculation unfolding put_def by (metis le_trans less_le_trans)
    ultimately show ?thesis by simp
  qed
  then show ?thesis
    using ps assms(1-4) by (auto simp: put_def intro!: exI [of _ "ps1 @ ps2"])
qed

lemma put_mono:
  assumes "put o1 b1 f f1" "\<And>q. part_of o1 b1 q \<Longrightarrow> part_of off bs q" "off \<le> o1" "o1 + length b1 \<le> off + length bs"
  shows "put off bs f f1"
  by (rule put_trans [OF assms(1) put_refl [of o1 b1]]) (use assms(2-4) in auto)

lemma sys_pwrite_cases:
  assumes "sys_pwrite off bs f = (r, f')"
  shows "of_durable f' = of_durable f" "of_reads f' = of_reads f"
    "r = Ok n \<Longrightarrow> n \<le> length bs \<and> of_data f' = write_at off (take n bs) (of_data f) \<and> of_pending f' = of_pending f @ [(off, take n bs)]"
    "(\<And>n. r \<noteq> Ok n) \<Longrightarrow> of_data f' = of_data f \<and> of_pending f' = of_pending f"
  using assms by (auto simp: sys_pwrite_def next_event_def wrote_part_def min_def split: list.splits io_event.splits if_splits)

lemma put_pwrite:
  assumes "sys_pwrite off bs f = (r, f')"
  shows "put off bs f f'"
proof (cases "\<exists>n. r = Ok n")
  case True
  then obtain n where r: "r = Ok n" by blast
  note w = sys_pwrite_cases [OF assms]
  have "part_of off bs (off, take n bs)" by (simp add: part_of_def)
  moreover have "of_data f' i = of_data f i" if "\<not> (off \<le> i \<and> i < off + length bs)" "of_data f i \<noteq> None" for i
    using w(3) [OF r] that write_at_other [of off i "take n bs" "of_data f"] by auto
  ultimately show ?thesis using w(1,2) w(3) [OF r] by (auto simp: put_def)
next
  case False
  then show ?thesis using sys_pwrite_cases(1,2,4) [OF assms] by (auto simp: put_def)
qed

lemma write_loop_spec:
  "write_loop off bs f = (r, f') \<Longrightarrow> put off bs f f' \<and> (r = Ok () \<longrightarrow> holds (of_data f') off bs)"
proof (induction off bs f arbitrary: r f' rule: write_loop.induct)
  case (1 off bs f)
  show ?case
  proof (cases "bs = []")
    case True
    then show ?thesis using 1(3) by (simp add: write_loop.simps put_refl)
  next
    case False
    obtain r1 f1 where w: "sys_pwrite off bs f = (r1, f1)" by (cases "sys_pwrite off bs f")
    note unfold = write_loop.simps [of off bs f]
    show ?thesis
    proof (cases "(\<exists>n. r1 = Ok n \<and> n \<noteq> 0 \<and> off_checked_add off n \<noteq> None) \<or> r1 = Err EINTR")
      case False
      then have "f' = f1" "r \<noteq> Ok ()"
        using 1(3) \<open>bs \<noteq> []\<close> w unfold by (auto split: result.splits errno.splits if_splits option.splits)
      then show ?thesis using put_pwrite [OF w] by simp
    next
      case True
      then show ?thesis
      proof
        assume "r1 = Err EINTR"
        then show ?thesis
          using 1(2) [OF False w [symmetric]] 1(3) unfold w False put_trans [OF put_pwrite [OF w], of off bs] by auto
      next
        assume "\<exists>n. r1 = Ok n \<and> n \<noteq> 0 \<and> off_checked_add off n \<noteq> None"
        then obtain n where n: "r1 = Ok n" "n \<noteq> 0" "off_checked_add off n = Some (off + n)"
          by (auto simp: off_checked_add_def split: if_splits)
        have len: "n \<le> length bs" "of_data f1 = write_at off (take n bs) (of_data f)" using sys_pwrite_cases(3) [OF w n(1)] by auto
        have rec: "write_loop (off + n) (drop n bs) f1 = (r, f')" using 1(3) n w False unfold by simp
        have IH: "put (off + n) (drop n bs) f1 f'" "r = Ok () \<Longrightarrow> holds (of_data f') (off + n) (drop n bs)"
          using 1(1) [OF False w [symmetric] n(1) n(2,3) rec] by auto
        have "put off bs f f'"
          using len(1) part_of_drop [OF len(1)] by (intro put_trans [OF put_pwrite [OF w] IH(1)]) auto
        moreover have "holds (of_data f') off bs" if "r = Ok ()"
        proof -
          have "holds (of_data f1) off (take n bs)" unfolding len(2) by (rule write_at_holds)
          then have "holds (of_data f') off (take n bs)"
            using IH(1) len(1) by (subst holds_cong [of off "take n bs" _ "of_data f1"]) (auto simp: put_def len(2) write_at_def)
          then show ?thesis using IH(2) [OF that] holds_append [of _ off "take n bs" "drop n bs"] len(1) by simp
        qed
        ultimately show ?thesis by blast
      qed
    qed
  qed
qed

lemma file_dump_spec:
  assumes "file_dump to_vec off v f = (r, f')"
  shows "case to_vec v of None \<Rightarrow> f' = f \<and> r = Err IoError
    | Some bs \<Rightarrow> put off (framed bs) f f' \<and>
        (\<forall>n. r = Ok n \<longrightarrow> n = off + 4 + length bs \<and> n < off_limit \<and> length bs < u32_limit \<and> holds (of_data f') off (framed bs))"
proof (cases "to_vec v")
  case None
  then show ?thesis using assms by (simp add: file_dump_def prog_defs)
next
  case (Some bs)
  show ?thesis
  proof (cases "length bs < u32_limit")
    case False
    then show ?thesis using assms Some by (auto simp: file_dump_def prog_defs put_refl)
  next
    case True
    let ?h = "be_digits 4 (length bs)"
    obtain r1 f1 where w1: "write_loop off ?h f = (r1, f1)" by (cases "write_loop off ?h f")
    note s1 = write_loop_spec [OF w1]
    have put1: "put off (framed bs) f f1"
      by (rule put_mono [of off ?h]) (use s1 part_of_append(1) [of off ?h _ bs] in \<open>auto simp: framed_def\<close>)
    show ?thesis
    proof (cases "r1 = Ok () \<and> off + 4 < off_limit")
      case False
      then have "f' = f1" "\<forall>n. r \<noteq> Ok n"
        using assms Some True w1 by (auto simp: file_dump_def prog_defs file_write_all_def off_checked_add_def split: result.splits if_splits)
      with put1 Some show ?thesis by simp
    next
      case ok: True
      obtain r2 f2 where w2: "write_loop (off + 4) bs f1 = (r2, f2)" by (cases "write_loop (off + 4) bs f1")
      note s2 = write_loop_spec [OF w2]
      have put2: "put off (framed bs) f f2"
        by (rule put_trans [of off ?h f f1 "off + 4" bs])
          (use s1 s2 part_of_append(1) [of off ?h _ bs] part_of_append(2) [of off ?h bs] in \<open>auto simp: framed_def\<close>)
      have f': "f' = f2" and r: "r = Ok n \<Longrightarrow> r2 = Ok () \<and> n = off + 4 + length bs \<and> n < off_limit" for n
        using assms Some True w1 w2 ok by (auto simp: file_dump_def prog_defs file_write_all_def off_checked_add_def split: result.splits if_splits)
      have "holds (of_data f2) off (framed bs)" if "r2 = Ok ()"
      proof -
        have "holds (of_data f1) off ?h" using s1 ok by blast
        then have "holds (of_data f2) off ?h"
          using s2 by (subst holds_cong [of off ?h _ "of_data f1"]) (auto simp: put_def holds_def le_iff_add)
        then show ?thesis using s2 that by (simp add: framed_def holds_append)
      qed
      with put2 f' r True Some show ?thesis by auto
    qed
  qed
qed

section \<open>The contract of the writer\<close>

text \<open>Deserialising gives back what was serialised, and a control record fits in its page.\<close>

definition file_codec :: "file_postcard \<Rightarrow> bool" where
  "file_codec pc \<longleftrightarrow> linear_codec pc \<and> (\<forall>r bs. fpc_root pc r = Some bs \<longrightarrow> fpc_of_root pc bs = Some r \<and> 4 + length bs \<le> page)"

definition item_stored :: "file_postcard \<Rightarrow> file_data \<Rightarrow> int \<Rightarrow> nat \<Rightarrow> linear_item \<Rightarrow> bool" where
  "item_stored pc d free off it \<longleftrightarrow> free_start \<le> off \<and> (\<exists>bs. item_bytes pc it = Some bs \<and> length bs < u32_limit \<and>
     holds d off (framed bs) \<and> int (off + 4 + length bs) \<le> free)"

definition file_rep :: "file_postcard \<Rightarrow> file_writer \<Rightarrow> linear_items \<Rightarrow> location option \<Rightarrow> bool" where
  "file_rep pc w m h \<longleftrightarrow> file_codec pc \<and> reads_calm (fw_file w) \<and>
     int free_start \<le> rt_free_offset (fw_root w) \<and> rt_free_offset (fw_root w) < int off_limit \<and>
     (\<forall>off it. m off = Some it \<longrightarrow> item_stored pc (of_data (fw_file w)) (rt_free_offset (fw_root w)) off it) \<and>
     (\<forall>l. h = Some l \<longrightarrow> rt_head (fw_root w) = l \<and> 0 < rt_generation (fw_root w))"

lemma item_stored_mono:
  assumes "item_stored pc d free off it" "free \<le> free'" "\<And>i. free_start \<le> i \<Longrightarrow> int i < free \<Longrightarrow> d i \<noteq> None \<Longrightarrow> d' i = d i"
  shows "item_stored pc d' free' off it"
proof -
  obtain bs where bs: "free_start \<le> off" "item_bytes pc it = Some bs" "length bs < u32_limit" "holds d off (framed bs)"
      "int (off + 4 + length bs) \<le> free"
    using assms(1) by (auto simp: item_stored_def)
  have "d' (off + i) = d (off + i)" if "i < length (framed bs)" for i
    using that bs(1,4,5) by (intro assms(3)) (auto simp: holds_def)
  then have "holds d' off (framed bs)" using bs(4) by (simp add: holds_def)
  then show ?thesis using bs assms(2) by (auto simp: item_stored_def)
qed

lemma file_rep_item:
  "file_rep pc w m h \<Longrightarrow> m off = Some it \<Longrightarrow> item_stored pc (of_data (fw_file w)) (rt_free_offset (fw_root w)) off it"
  by (simp add: file_rep_def)

lemma item_storedE:
  assumes "item_stored pc d free off it"
  obtains bs where "free_start \<le> off" "item_bytes pc it = Some bs" "length bs < u32_limit" "holds d off (framed bs)"
    "int (off + 4 + length bs) \<le> free"
  using assms by (auto simp: item_stored_def)

lemma fetch_item:
  assumes "file_rep pc w m h" "m off = Some it" "item_bytes pc it = to_vec x" "\<And>bs. to_vec x = Some bs \<Longrightarrow> of_vec bs = Some x"
  shows "fw_fetch of_vec w off = Ok x"
proof -
  obtain bs where bs: "item_bytes pc it = Some bs" "length bs < u32_limit" "holds (of_data (fw_file w)) off (framed bs)"
      "int (off + 4 + length bs) \<le> rt_free_offset (fw_root w)"
    using item_storedE [OF file_rep_item [OF assms(1,2)]] by blast
  have "int (off + 4 + length bs) < int off_limit" using assms(1) bs(4) by (auto simp: file_rep_def)
  then have lim: "off + 4 + length bs < off_limit" by linarith
  have calm: "reads_calm (fw_file w)" using assms(1) by (simp add: file_rep_def)
  show ?thesis
    using file_load_spec [OF calm bs(3,2) lim, of of_vec] assms(3,4) bs(1) lim by (simp add: fw_fetch_def)
qed

text \<open>What writing the control records leaves alone.\<close>

definition control_only :: "file_writer \<Rightarrow> file_writer \<Rightarrow> bool" where
  "control_only w w' \<longleftrightarrow> rt_head (fw_root w') = rt_head (fw_root w) \<and> rt_free_offset (fw_root w') = rt_free_offset (fw_root w) \<and>
     rt_generation (fw_root w) \<le> rt_generation (fw_root w') \<and> of_reads (fw_file w') = of_reads (fw_file w) \<and>
     (\<forall>i. free_start \<le> i \<longrightarrow> of_data (fw_file w) i \<noteq> None \<longrightarrow> of_data (fw_file w') i = of_data (fw_file w) i)"

lemma control_only_trans: "control_only w w' \<Longrightarrow> control_only w' w'' \<Longrightarrow> control_only w w''"
  unfolding control_only_def by (metis le_trans)

lemma control_only_rep: "control_only w w' \<Longrightarrow> file_rep pc w m h \<Longrightarrow> file_rep pc w' m h"
proof -
  assume c: "control_only w w'" and rep: "file_rep pc w m h"
  have "item_stored pc (of_data (fw_file w')) (rt_free_offset (fw_root w')) off it" if "m off = Some it" for off it
    by (rule item_stored_mono [OF file_rep_item [OF rep that]]) (use c in \<open>auto simp: control_only_def\<close>)
  with c rep show ?thesis by (auto simp: file_rep_def control_only_def reads_calm_def)
qed

lemma fsync_keeps: "file_sync f = (r, f') \<Longrightarrow> of_data f' = of_data f \<and> of_reads f' = of_reads f"
  by (auto simp: file_sync_def io_err_def sys_fsync_def next_event_def synced_def split: list.splits io_event.splits prod.splits)

lemma dump_root_control:
  assumes "file_codec pc" "off = root_a \<or> off = root_b" "dump_root pc sip off w = (r, w')"
  shows "control_only w w' \<and> rt_generation (fw_root w') = rt_generation (fw_root w)"
proof -
  let ?root = "(fw_root w)\<lparr>rt_checksum := calc_checksum sip (fw_root w)\<rparr>"
  obtain r1 f1 where d: "file_dump (fpc_root pc) off ?root (fw_file w) = (r1, f1)" by (cases "file_dump (fpc_root pc) off ?root (fw_file w)")
  obtain r2 f2 where s: "file_sync f1 = (r2, f2)" by (cases "file_sync f1")
  have root: "fw_root w' = ?root" "fw_file w' = f1 \<or> fw_file w' = f2"
    using assms(3) d s by (auto simp: dump_root_def set_checksum_def prog_defs on_file_def split: result.splits)
  have "of_data f1 i = of_data (fw_file w) i" if "free_start \<le> i" "of_data (fw_file w) i \<noteq> None" for i
  proof (cases "fpc_root pc ?root")
    case (Some bs)
    then have "4 + length bs \<le> page" using assms(1) by (simp add: file_codec_def)
    then have "off + 4 + length bs \<le> free_start" using assms(2) by (auto simp: root_a_def root_b_def free_start_def)
    then show ?thesis using file_dump_spec [OF d] Some that by (auto simp: put_def)
  qed (use file_dump_spec [OF d] in simp)
  moreover have "of_reads f1 = of_reads (fw_file w)"
    using file_dump_spec [OF d] by (auto simp: put_def split: option.splits)
  ultimately show ?thesis using root fsync_keeps [OF s] by (auto simp: control_only_def)
qed

lemma write_root_control:
  assumes "file_codec pc" "write_root pc sip w = (r, w')"
  shows "control_only w w' \<and> 0 < rt_generation (fw_root w')"
proof (cases "usize_checked_add (rt_generation (fw_root w)) 1")
  case None
  then show ?thesis using assms(2) by (auto simp: write_root_def prog_defs control_only_def usize_checked_add_def usize_limit_def split: if_splits)
next
  case (Some g)
  let ?w = "w\<lparr>fw_root := (fw_root w)\<lparr>rt_generation := g\<rparr>\<rparr>"
  have g: "0 < g" "rt_generation (fw_root w) \<le> g" using Some by (auto simp: usize_checked_add_def split: if_splits)
  then have w: "control_only w ?w" by (simp add: control_only_def)
  obtain r1 w1 where d1: "dump_root pc sip root_a ?w = (r1, w1)" by (cases "dump_root pc sip root_a ?w")
  obtain r2 w2 where d2: "dump_root pc sip root_b w1 = (r2, w2)" by (cases "dump_root pc sip root_b w1")
  have "w' = w1 \<or> w' = w2"
    using assms(2) Some d1 d2 by (auto simp: write_root_def prog_defs split: result.splits)
  then show ?thesis
    using dump_root_control [OF assms(1) _ d1] dump_root_control [OF assms(1) _ d2] w g(1) control_only_trans by auto
qed

lemma fw_append_appended:
  assumes "file_rep pc w m h" "\<And>x. item_bytes pc (item x) = to_vec x"
  shows "appended (file_rep pc) item build m h (fw_append pc sip to_vec build w)"
proof -
  have codec: "file_codec pc" and free: "int free_start \<le> rt_free_offset (fw_root w)" using assms(1) by (simp_all add: file_rep_def)
  define off where "off = nat (rt_free_offset (fw_root w))"
  have off: "rt_free_offset (fw_root w) = int off" "free_start \<le> off" using free by (simp_all add: off_def)
  let ?item = "build off"
  obtain r1 f1 where d: "file_dump to_vec off ?item (fw_file w) = (r1, f1)" by (cases "file_dump to_vec off ?item (fw_file w)")
  let ?w1 = "w\<lparr>fw_file := f1\<rparr>"
  have same: "of_data f1 i = of_data (fw_file w) i" if "int i < int off" "of_data (fw_file w) i \<noteq> None" for i
    using file_dump_spec [OF d] that by (auto simp: put_def split: option.splits)
  have reads: "of_reads f1 = of_reads (fw_file w)" using file_dump_spec [OF d] by (auto simp: put_def split: option.splits)
  have stored: "item_stored pc (of_data f1) (int n) p it" if "m p = Some it" "off \<le> n" for p it n
    by (rule item_stored_mono [of pc "of_data (fw_file w)" "int off"])
      (use assms(1) that off same in \<open>auto simp: file_rep_def\<close>)
  have below: "p < off" if "m p \<noteq> None" for p
    using that by (auto elim!: item_storedE [OF file_rep_item [OF assms(1)]] simp: off(1))
  show ?thesis
  proof (cases "\<exists>n. r1 = Ok n")
    case False
    then have "fst (fw_append pc sip to_vec build w) \<noteq> Ok x" "snd (fw_append pc sip to_vec build w) = ?w1" for x
      using d off(1) by (cases r1; auto simp: fw_append_def prog_defs on_file_def Let_def)+
    moreover have "file_rep pc ?w1 m h"
      using assms(1) stored [of _ _ off] off(1) reads by (auto simp: file_rep_def reads_calm_def)
    ultimately show ?thesis by (cases "fw_append pc sip to_vec build w"; cases "fst (fw_append pc sip to_vec build w)") (auto simp: appended_def)
  next
    case True
    then obtain n bs where n: "r1 = Ok n" "to_vec ?item = Some bs" "n = off + 4 + length bs" "n < off_limit" "length bs < u32_limit"
        "holds (of_data f1) off (framed bs)"
      using file_dump_spec [OF d] by (auto split: option.splits)
    let ?w2 = "?w1\<lparr>fw_root := (fw_root w)\<lparr>rt_free_offset := int n\<rparr>\<rparr>"
    have "item_stored pc (of_data f1) (int n) off (item ?item)" using n off(2) assms(2) by (auto simp: item_stored_def)
    then have rep2: "file_rep pc ?w2 (m(off \<mapsto> item ?item)) h"
      using assms(1) stored [of _ _ n] n off reads by (auto simp: file_rep_def reads_calm_def)
    then have rep2': "file_rep pc ?w2 m h"
      using stored [of _ _ n] n(3) by (auto simp: file_rep_def)
    obtain r3 w3 where r3: "write_root pc sip ?w2 = (r3, w3)" by (cases "write_root pc sip ?w2")
    have run: "fw_append pc sip to_vec build w = (case r3 of Ok _ \<Rightarrow> (Ok ?item, w3) | Err e \<Rightarrow> (Err e, w3) | Panic p \<Rightarrow> (Panic p, w3))"
      using d n(1) r3 off(1) by (simp add: fw_append_def prog_defs on_file_def off_def [symmetric] Let_def split: result.splits)
    note ctl = write_root_control [OF codec r3, THEN conjunct1]
    show ?thesis
      using control_only_rep [OF ctl rep2] control_only_rep [OF ctl rep2'] below run by (cases r3) (auto simp: appended_def)
  qed
qed

lemma fw_commit_rep:
  assumes "file_rep pc w m h" "fw_commit pc sip l w = (r, w')"
  shows "file_rep pc w' m (Some l)"
proof -
  let ?w = "w\<lparr>fw_root := (fw_root w)\<lparr>rt_head := l\<rparr>\<rparr>"
  have run: "write_root pc sip ?w = (r, w')" using assms(2) by (simp add: fw_commit_def prog_defs)
  have codec: "file_codec pc" and rep: "file_rep pc ?w m None" using assms(1) by (simp_all add: file_rep_def)
  note ctl = write_root_control [OF codec run]
  show ?thesis
    using control_only_rep [OF ctl [THEN conjunct1] rep] ctl by (simp add: file_rep_def control_only_def)
qed

interpretation fio: linear_io "file_io pc sip" "file_rep pc" for pc sip
proof (unfold_locales, goal_cases)
  case (1 w m h off i)
  then show ?case
    using fetch_item [OF 1, of "lpc_facts pc" i "lpc_of_facts pc"] by (auto simp: file_io_def item_bytes_def file_rep_def file_codec_def linear_codec_def)
next
  case (2 w m h off s)
  then show ?case
    using fetch_item [OF 2, of "lpc_segment pc" s "lpc_of_segment pc"] by (auto simp: file_io_def item_bytes_def file_rep_def file_codec_def linear_codec_def)
next
  case (3 w m l)
  then show ?case by (simp add: file_io_def fw_head_def file_rep_def)
next
  case (4 w m h bf)
  then show ?case using fw_append_appended [OF 4, of FactItem "lpc_facts pc"] by (simp add: file_io_def item_bytes_def)
next
  case (5 w m h bs)
  then show ?case using fw_append_appended [OF 5, of SegmentItem "lpc_segment pc"] by (simp add: file_io_def item_bytes_def)
next
  case (6 w m h l r w')
  then show ?case using fw_commit_rep by (simp add: file_io_def)
qed

end
