(* ===== verification/File_Crash.thy ===== *)
theory File_Crash
  imports File_Spec
begin

text \<open>
  Crashes. The two copies of the control record are written one after the other with a
  sync in between, so that whatever a crash makes of the write that was under way, the
  other copy is whole. What the checksum has to do for this is a hypothesis: a copy that
  was torn between an old and a new record is taken for one of the two or rejected.
\<close>

section \<open>Contents after a crash\<close>

text \<open>\<open>mixed D c off b\<close>: in the page at \<open>off\<close> each byte of \<open>c\<close> is that of \<open>D\<close> or that of the record \<open>b\<close>.\<close>

definition mixed :: "file_data \<Rightarrow> file_data \<Rightarrow> nat \<Rightarrow> bytes \<Rightarrow> bool" where
  "mixed D c off b \<longleftrightarrow> (\<forall>i. off \<le> i \<longrightarrow> i < off + page \<longrightarrow>
     c i = D i \<or> i - off < length (framed b) \<and> c i = Some (framed b ! (i - off)))"

definition load_root :: "file_postcard \<Rightarrow> sip_hash \<Rightarrow> os_file \<Rightarrow> nat \<Rightarrow> (root, storage_error) result" where
  "load_root pc sip f off = rbind (file_load (fpc_of_root pc) f off) (root_validate sip)"

definition torn_detected :: "file_postcard \<Rightarrow> sip_hash \<Rightarrow> bool" where
  "torn_detected pc sip \<longleftrightarrow> (\<forall>R0 R1 b0 b1 D f off R. fpc_root pc R0 = Some b0 \<longrightarrow> fpc_root pc R1 = Some b1 \<longrightarrow>
     off = root_a \<or> off = root_b \<longrightarrow> holds D off (framed b0) \<longrightarrow> reads_calm f \<longrightarrow> mixed D (of_data f) off b1 \<longrightarrow>
     load_root pc sip f off = Ok R \<longrightarrow> R = R0 \<or> R = R1)"

text \<open>The two phases of writing a record \<open>b\<close> over the content \<open>D\<close>, whose items end at \<open>free\<close>.\<close>

definition phase1 :: "file_data \<Rightarrow> nat \<Rightarrow> bytes \<Rightarrow> os_file \<Rightarrow> bool" where
  "phase1 D free b f \<longleftrightarrow> of_durable f = D \<and>
     (\<forall>q \<in> set (of_pending f). free \<le> fst q \<or> part_of root_a (framed b) q)"

definition settled :: "file_data \<Rightarrow> nat \<Rightarrow> bytes \<Rightarrow> file_data \<Rightarrow> bool" where
  "settled D free b d \<longleftrightarrow> holds d root_a (framed b) \<and> mixed D d root_b b \<and> (\<forall>i. D i \<noteq> None \<longrightarrow> d i \<noteq> None) \<and>
     (\<forall>i. free_start \<le> i \<longrightarrow> i < free \<longrightarrow> D i \<noteq> None \<longrightarrow> d i = D i)"

definition phase2 :: "file_data \<Rightarrow> nat \<Rightarrow> bytes \<Rightarrow> os_file \<Rightarrow> bool" where
  "phase2 D free b f \<longleftrightarrow> settled D free b (of_durable f) \<and>
     (\<forall>q \<in> set (of_pending f). part_of root_b (framed b) q)"

lemmas layout = root_a_def root_b_def free_start_def page_def

lemma crash_byte:
  assumes "crash_data f c" "of_durable f i \<noteq> None" "c i \<noteq> of_durable f i"
  obtains o' b where "(o', b) \<in> set (of_pending f)" "o' \<le> i" "i < o' + length b" "c i = Some (b ! (i - o'))"
proof -
  from assms(1,3) obtain o' b where q: "(o', b) \<in> set (of_pending f)" and c: "c i = write_at o' b (of_durable f) i"
    unfolding crash_data_def by blast
  from c assms(2,3) have "o' \<le> i" "i < o' + length b" "c i = Some (b ! (i - o'))"
    by (auto simp: write_at_def split: if_splits)
  with q show ?thesis by (rule that)
qed

lemma part_of_byte:
  "part_of off bs (o', b) \<Longrightarrow> o' \<le> i \<Longrightarrow> i < o' + length b \<Longrightarrow> off \<le> i \<and> i < off + length bs \<and> b ! (i - o') = bs ! (i - off)"
  by (auto simp: part_of_def dest!: spec [of _ "i - o'"])

lemma phase1_crash:
  assumes "phase1 D free b f" "crash_data f c" "\<And>i. i < free_start \<Longrightarrow> D i \<noteq> None" "free_start \<le> free" "4 + length b \<le> page"
  shows "mixed D c root_a b" "root_b \<le> i \<Longrightarrow> i < free \<Longrightarrow> D i \<noteq> None \<Longrightarrow> c i = D i"
proof -
  have dur: "of_durable f = D" and pend: "\<And>o' b'. (o', b') \<in> set (of_pending f) \<Longrightarrow> free \<le> o' \<or> part_of root_a (framed b) (o', b')"
    using assms(1) by (force simp: phase1_def)+
  have byte: "c j = D j \<or> root_a \<le> j \<and> j < root_a + length (framed b) \<and> c j = Some (framed b ! (j - root_a))"
    if "D j \<noteq> None" "j < free" for j
  proof (cases "c j = D j")
    case False
    with that(1) have "of_durable f j \<noteq> None" "c j \<noteq> of_durable f j" unfolding dur by auto
    with assms(2) obtain o' b' where q: "(o', b') \<in> set (of_pending f)" "o' \<le> j" "j < o' + length b'" "c j = Some (b' ! (j - o'))"
      by (rule crash_byte)
    then show ?thesis using pend [OF q(1)] that(2) part_of_byte [of root_a "framed b" o' b' j] by auto
  qed simp
  show "mixed D c root_a b"
    unfolding mixed_def
  proof (intro allI impI)
    fix i assume i: "root_a \<le> i" "i < root_a + page"
    then have "D i \<noteq> None" "i < free" using assms(3,4) by (simp_all add: layout)
    from byte [OF this] i show "c i = D i \<or> i - root_a < length (framed b) \<and> c i = Some (framed b ! (i - root_a))"
      by auto
  qed
  show "c i = D i" if "root_b \<le> i" "i < free" "D i \<noteq> None"
    using byte [OF that(3,2)] that(1) assms(5) by (auto simp: layout)
qed

lemma phase2_crash:
  assumes "phase2 D free b f" "crash_data f c" "\<And>i. i < free_start \<Longrightarrow> D i \<noteq> None" "4 + length b \<le> page"
  shows "settled D free b c"
proof -
  have dur: "settled D free b (of_durable f)" and pend: "\<And>o' b'. (o', b') \<in> set (of_pending f) \<Longrightarrow> part_of root_b (framed b) (o', b')"
    using assms(1) by (force simp: phase2_def)+
  have byte: "c j = of_durable f j \<or> root_b \<le> j \<and> j < root_b + length (framed b) \<and> c j = Some (framed b ! (j - root_b))"
    if "D j \<noteq> None" for j
  proof (cases "c j = of_durable f j")
    case False
    moreover have "of_durable f j \<noteq> None" using that dur by (simp add: settled_def)
    note crash_byte [OF assms(2) this]
    ultimately obtain o' b' where q: "(o', b') \<in> set (of_pending f)" "o' \<le> j" "j < o' + length b'" "c j = Some (b' ! (j - o'))"
      by blast
    then show ?thesis using part_of_byte [OF pend [OF q(1)] q(2,3)] by auto
  qed simp
  have "holds c root_a (framed b)"
    unfolding holds_def
  proof (intro allI impI)
    fix i assume i: "i < length (framed b)"
    then have "root_a + i < root_b" "root_a + i < free_start" using assms(4) by (auto simp: layout)
    then show "c (root_a + i) = Some (framed b ! i)"
      using byte [OF assms(3)] dur i by (force simp: settled_def holds_def)
  qed
  moreover have "mixed D c root_b b"
    unfolding mixed_def
  proof (intro allI impI)
    fix i assume i: "root_b \<le> i" "i < root_b + page"
    then have "D i \<noteq> None" using assms(3) by (simp add: layout)
    from byte [OF this] i show "c i = D i \<or> i - root_b < length (framed b) \<and> c i = Some (framed b ! (i - root_b))"
      using dur by (auto simp: settled_def mixed_def)
  qed
  moreover have "c i = D i" if "free_start \<le> i" "i < free" "D i \<noteq> None" for i
    using byte [OF that(3)] that dur assms(4) by (auto simp: settled_def layout)
  moreover have "c i \<noteq> None" if "D i \<noteq> None" for i using byte [OF that] dur that by (auto simp: settled_def)
  ultimately show ?thesis by (simp add: settled_def)
qed

section \<open>Writing the control records\<close>

lemma put_synced:
  assumes "put off bs f f'" "holds (of_data f') off bs" "of_data f i \<noteq> None"
  shows "of_data f' i \<noteq> None" "\<not> (off \<le> i \<and> i < off + length bs) \<Longrightarrow> of_data f' i = of_data f i"
    "off \<le> i \<Longrightarrow> i < off + length bs \<Longrightarrow> of_data f' i = Some (bs ! (i - off))"
proof -
  show out: "of_data f' i = of_data f i" if "\<not> (off \<le> i \<and> i < off + length bs)"
    using assms(1,3) that by (auto simp: put_def)
  show ins: "of_data f' i = Some (bs ! (i - off))" if "off \<le> i" "i < off + length bs"
    using assms(2) that by (auto simp: holds_def dest!: spec [of _ "i - off"])
  show "of_data f' i \<noteq> None" using out ins assms(3) by (cases "off \<le> i \<and> i < off + length bs") auto
qed

lemma put_phase1:
  "phase1 D free b f \<Longrightarrow> put root_a (framed b) f f' \<Longrightarrow> phase1 D free b f'"
  by (auto simp: phase1_def put_def)

lemma put_phase2:
  "phase2 D free b f \<Longrightarrow> put root_b (framed b) f f' \<Longrightarrow> phase2 D free b f'"
  by (auto simp: phase2_def put_def)

text \<open>What was written before the records and is not synced lies behind the items.\<close>

definition ahead :: "file_data \<Rightarrow> nat \<Rightarrow> file_data \<Rightarrow> bool" where
  "ahead D free d \<longleftrightarrow> (\<forall>i. D i \<noteq> None \<longrightarrow> d i \<noteq> None) \<and> (\<forall>i. i < free \<longrightarrow> D i \<noteq> None \<longrightarrow> d i = D i)"

lemma settled_a:
  assumes "ahead D free (of_data f)" "put root_a (framed b) f f'" "holds (of_data f') root_a (framed b)"
    "\<And>i. i < free_start \<Longrightarrow> D i \<noteq> None" "free_start \<le> free" "4 + length b \<le> page"
  shows "settled D free b (of_data f')"
proof -
  have same: "of_data f' i = D i" if "root_b \<le> i" "i < free" "D i \<noteq> None" for i
  proof -
    have "of_data f i = D i" using assms(1) that by (simp add: ahead_def)
    then show ?thesis using put_synced(2) [OF assms(2,3), of i] that assms(6) by (simp add: layout)
  qed
  have "mixed D (of_data f') root_b b"
    unfolding mixed_def using same assms(4,5) by (auto simp: layout)
  moreover have "of_data f' i \<noteq> None" if "D i \<noteq> None" for i
    using put_synced(1) [OF assms(2,3)] assms(1) that by (simp add: ahead_def)
  ultimately show ?thesis using same assms(3) by (auto simp: settled_def layout)
qed

lemma settled_b:
  assumes "settled D free b (of_data f)" "put root_b (framed b) f f'" "holds (of_data f') root_b (framed b)"
    "\<And>i. i < free_start \<Longrightarrow> D i \<noteq> None" "4 + length b \<le> page"
  shows "settled D free b (of_data f')"
proof -
  have some: "of_data f i \<noteq> None" if "D i \<noteq> None" for i using assms(1) that by (simp add: settled_def)
  have "holds (of_data f') root_a (framed b)"
    unfolding holds_def
  proof (intro allI impI)
    fix i assume i: "i < length (framed b)"
    then have "root_a + i < root_b" "of_data f (root_a + i) \<noteq> None" using assms(5) some assms(4) by (auto simp: layout)
    then show "of_data f' (root_a + i) = Some (framed b ! i)"
      using put_synced(2) [OF assms(2,3), of "root_a + i"] assms(1) i by (auto simp: settled_def holds_def)
  qed
  moreover have "mixed D (of_data f') root_b b"
    unfolding mixed_def
  proof (intro allI impI)
    fix i assume i: "root_b \<le> i" "i < root_b + page"
    then have "of_data f i \<noteq> None" using some assms(4) by (simp add: layout)
    from put_synced [OF assms(2,3) this] i assms(1)
    show "of_data f' i = D i \<or> i - root_b < length (framed b) \<and> of_data f' i = Some (framed b ! (i - root_b))"
      by (cases "i < root_b + length (framed b)") (auto simp: settled_def mixed_def)
  qed
  moreover have "of_data f' i = D i" if "free_start \<le> i" "i < free" "D i \<noteq> None" for i
    using put_synced(2) [OF assms(2,3) some [OF that(3)]] assms(1,5) that by (auto simp: settled_def layout)
  moreover have "of_data f' i \<noteq> None" if "D i \<noteq> None" for i using put_synced(1) [OF assms(2,3) some [OF that]] .
  ultimately show ?thesis by (simp add: settled_def)
qed

lemma file_sync_cases:
  assumes "file_sync f = (r, f')"
  shows "of_reads f' = of_reads f \<and> of_data f' = of_data f \<and>
    (if r = Ok () then of_durable f' = of_data f \<and> of_pending f' = [] else of_durable f' = of_durable f \<and> of_pending f' = of_pending f)"
  using assms by (auto simp: file_sync_def io_err_def sys_fsync_def next_event_def synced_def split: list.splits io_event.splits prod.splits)

text \<open>Writing one record: on success it is there and everything is durable.\<close>

lemma dump_root_cases:
  assumes "dump_root pc sip off w = (r, w')" "R = (fw_root w)\<lparr>rt_checksum := calc_checksum sip (fw_root w)\<rparr>"
  shows "fw_root w' = R"
    "fpc_root pc R = None \<Longrightarrow> fw_file w' = fw_file w \<and> r \<noteq> Ok ()"
    "fpc_root pc R = Some b \<Longrightarrow> r \<noteq> Ok () \<Longrightarrow> put off (framed b) (fw_file w) (fw_file w')"
    "fpc_root pc R = Some b \<Longrightarrow> r = Ok () \<Longrightarrow> \<exists>f. put off (framed b) (fw_file w) f \<and> holds (of_data f) off (framed b) \<and>
       of_data (fw_file w') = of_data f \<and> of_durable (fw_file w') = of_data f \<and> of_pending (fw_file w') = [] \<and>
       of_reads (fw_file w') = of_reads f"
proof -
  obtain r1 f1 where d: "file_dump (fpc_root pc) off R (fw_file w) = (r1, f1)" by (cases "file_dump (fpc_root pc) off R (fw_file w)")
  obtain r2 f2 where s: "file_sync f1 = (r2, f2)" by (cases "file_sync f1")
  note sync = file_sync_cases [OF s]
  have root: "fw_root w' = R" "(\<exists>n. r1 = Ok n) \<Longrightarrow> fw_file w' = f2 \<and> r = r2" "\<not> (\<exists>n. r1 = Ok n) \<Longrightarrow> fw_file w' = f1 \<and> r \<noteq> Ok ()"
    using assms d s by (auto simp: dump_root_def set_checksum_def prog_defs on_file_def split: result.splits)
  show "fw_root w' = R" by (rule root(1))
  show "fpc_root pc R = None \<Longrightarrow> fw_file w' = fw_file w \<and> r \<noteq> Ok ()" using file_dump_spec [OF d] root(3) by auto
  show "put off (framed b) (fw_file w) (fw_file w')" if "fpc_root pc R = Some b" "r \<noteq> Ok ()"
  proof (cases "\<exists>n. r1 = Ok n")
    case True
    then have "put off (framed b) (fw_file w) f1" "fw_file w' = f2" "r2 \<noteq> Ok ()" using file_dump_spec [OF d] root(2) that by auto
    then show ?thesis using sync by (auto simp: put_def)
  next
    case False
    then show ?thesis using file_dump_spec [OF d] root(3) that(1) by simp
  qed
  show "\<exists>f. put off (framed b) (fw_file w) f \<and> holds (of_data f) off (framed b) \<and>
       of_data (fw_file w') = of_data f \<and> of_durable (fw_file w') = of_data f \<and> of_pending (fw_file w') = [] \<and>
       of_reads (fw_file w') = of_reads f" if ok: "fpc_root pc R = Some b" "r = Ok ()"
  proof -
    obtain n where "r1 = Ok n" "fw_file w' = f2" "r2 = Ok ()" using root ok(2) by (cases "\<exists>n. r1 = Ok n") auto
    then show ?thesis using file_dump_spec [OF d] ok sync by auto
  qed
qed

definition next_root :: "sip_hash \<Rightarrow> root \<Rightarrow> root" where
  "next_root sip R = (let R' = R\<lparr>rt_generation := rt_generation R + 1\<rparr> in R'\<lparr>rt_checksum := calc_checksum sip R'\<rparr>)"

lemma next_root_sel [simp]:
  "rt_generation (next_root sip R) = rt_generation R + 1" "rt_head (next_root sip R) = rt_head R"
  "rt_free_offset (next_root sip R) = rt_free_offset R" "root_validate sip (next_root sip R) = Ok (next_root sip R)"
  by (simp_all add: next_root_def Let_def root_validate_def calc_checksum_def)

text \<open>Everything is durable and both records are the current one.\<close>

definition file_clean :: "file_postcard \<Rightarrow> sip_hash \<Rightarrow> file_writer \<Rightarrow> bool" where
  "file_clean pc sip w \<longleftrightarrow> of_pending (fw_file w) = [] \<and> of_durable (fw_file w) = of_data (fw_file w) \<and>
     root_validate sip (fw_root w) = Ok (fw_root w) \<and> (\<forall>i < free_start. of_data (fw_file w) i \<noteq> None) \<and>
     (\<exists>b. fpc_root pc (fw_root w) = Some b \<and> holds (of_data (fw_file w)) root_a (framed b) \<and> holds (of_data (fw_file w)) root_b (framed b))"

lemma write_root_phases:
  assumes codec: "file_codec pc" and run: "write_root pc sip w = (r, w')"
    and D: "\<And>i. i < free_start \<Longrightarrow> D i \<noteq> None" "free_start \<le> free" "ahead D free (of_data (fw_file w))"
    and pre: "\<And>b. phase1 D free b (fw_file w)"
  shows "(fw_file w' = fw_file w \<and> r \<noteq> Ok ()) \<or>
    (\<exists>b. fpc_root pc (next_root sip (fw_root w)) = Some b \<and> (phase1 D free b (fw_file w') \<or> phase2 D free b (fw_file w')) \<and>
      (r = Ok () \<longrightarrow> fw_root w' = next_root sip (fw_root w) \<and> file_clean pc sip w'))"
proof (cases "usize_checked_add (rt_generation (fw_root w)) 1")
  case None
  then show ?thesis using run by (auto simp: write_root_def prog_defs)
next
  case (Some g)
  define R where "R = next_root sip (fw_root w)"
  let ?w = "w\<lparr>fw_root := (fw_root w)\<lparr>rt_generation := g\<rparr>\<rparr>"
  have R: "R = (fw_root ?w)\<lparr>rt_checksum := calc_checksum sip (fw_root ?w)\<rparr>"
    using Some by (auto simp: R_def next_root_def Let_def usize_checked_add_def split: if_splits)
  have RR: "R = R\<lparr>rt_checksum := calc_checksum sip R\<rparr>" unfolding R by (simp add: calc_checksum_def)
  obtain r1 w1 where d1: "dump_root pc sip root_a ?w = (r1, w1)" by (cases "dump_root pc sip root_a ?w")
  obtain r2 w2 where d2: "dump_root pc sip root_b w1 = (r2, w2)" by (cases "dump_root pc sip root_b w1")
  have go: "(r, w') = (if r1 = Ok () then (r2, w2) else (r1, w1))"
    using run Some d1 d2 by (auto simp: write_root_def prog_defs split: result.splits)
  note c1 = dump_root_cases [OF d1 R]
  have R2: "R = (fw_root w1)\<lparr>rt_checksum := calc_checksum sip (fw_root w1)\<rparr>" using c1(1) RR by simp
  note c2 = dump_root_cases [OF d2 R2]
  show ?thesis
  proof (cases "fpc_root pc R")
    case None
    then show ?thesis using c1(2) go by auto
  next
    case b: (Some b)
    have len: "4 + length b \<le> page" using codec b by (simp add: file_codec_def)
    show ?thesis
    proof (cases "r1 = Ok ()")
      case False
      then have "put root_a (framed b) (fw_file w) (fw_file w1)" using c1(3) [OF b] by simp
      from put_phase1 [OF pre this] show ?thesis using b go False by (auto simp: R_def)
    next
      case True
      then obtain f1 where f1: "put root_a (framed b) (fw_file w) f1" "holds (of_data f1) root_a (framed b)"
          "of_data (fw_file w1) = of_data f1" "of_durable (fw_file w1) = of_data f1" "of_pending (fw_file w1) = []"
        using c1(4) [OF b] by auto
      have s1: "settled D free b (of_data f1)" by (rule settled_a [OF D(3) f1(1,2) D(1,2) len])
      then have p2: "phase2 D free b (fw_file w1)" using f1 by (simp add: phase2_def)
      show ?thesis
      proof (cases "r2 = Ok ()")
        case False
        then show ?thesis using put_phase2 [OF p2 c2(3) [OF b]] b go True by (auto simp: R_def)
      next
        case ok: True
        then obtain f2 where f2: "put root_b (framed b) (fw_file w1) f2" "holds (of_data f2) root_b (framed b)"
            "of_data (fw_file w2) = of_data f2" "of_durable (fw_file w2) = of_data f2" "of_pending (fw_file w2) = []"
          using c2(4) [OF b] by auto
        have s2: "settled D free b (of_data f2)" by (rule settled_b [OF _ f2(1,2) D(1) len]) (use s1 f1(3) in simp)
        have "root_validate sip R = Ok R" by (simp add: R_def)
        moreover have "phase2 D free b (fw_file w2)" using s2 f2 by (simp add: phase2_def)
        moreover have "file_clean pc sip w2"
          using f2 s2 b c2(1) calculation(1) D(1) by (auto simp: file_clean_def settled_def)
        ultimately show ?thesis using b c2(1) go True ok by (auto simp: R_def)
      qed
    qed
  qed
qed

section \<open>Opening after a crash\<close>

lemma read_loop_calm: "calm es \<Longrightarrow> read_loop d es off len acc \<noteq> Panic msg"
proof (induction d es off len acc rule: read_loop.induct)
  case (1 d es off len acc)
  have tl: "calm (tl es)" using 1(3) by (cases es) (auto simp: calm_def)
  let ?e = "case es of [] \<Rightarrow> IoDone len | e # _ \<Rightarrow> e"
  have "?e \<noteq> IoStop" using 1(3) by (cases es) (auto simp: calm_def)
  then have np: "sys_pread ?e off len d \<noteq> Panic p" for p by (cases ?e) auto
  show ?case
  proof (cases "sys_pread ?e off len d")
    case (Ok bs)
    then show ?thesis
      using 1(1) [OF _ Ok] tl by (subst read_loop.simps) (auto simp del: sys_pread.simps split: option.splits)
  next
    case (Err e)
    then show ?thesis
      using 1(2) [OF _ Err] tl by (subst read_loop.simps) (cases e; auto simp del: sys_pread.simps)
  qed (use np in simp)
qed

lemma rbind_eq_Panic: "(rbind r f = Panic p) = (r = Panic p \<or> (\<exists>a. r = Ok a \<and> f a = Panic p))"
  by (cases r) auto

lemma load_root_calm: "reads_calm f \<Longrightarrow> load_root pc sip f off \<noteq> Panic msg"
proof -
  assume "reads_calm f"
  then have "file_read_exact f o' n \<noteq> Panic p" for o' n p by (simp add: file_read_exact_def reads_calm_def read_loop_calm)
  then show ?thesis
    by (auto simp: load_root_def file_load_def root_validate_def rbind_eq_Panic)
qed

lemma load_root_held:
  assumes "file_codec pc" "reads_calm f" "fpc_root pc R = Some b" "root_validate sip R = Ok R"
    "holds (of_data f) off (framed b)" "off = root_a \<or> off = root_b"
  shows "load_root pc sip f off = Ok R"
proof -
  have len: "4 + length b \<le> page" "fpc_of_root pc b = Some R" using assms(1,3) by (auto simp: file_codec_def)
  then have "length b < u32_limit" "off + 4 + length b < off_limit"
    using assms(6) by (auto simp: layout u32_limit_def off_limit_def)
  from file_load_spec [OF assms(2,5) this, of "fpc_of_root pc"] show ?thesis using len(2) assms(4) by (simp add: load_root_def)
qed

lemma write_loop_quiet:
  "of_events f = [] \<Longrightarrow> off + length bs < off_limit \<Longrightarrow> \<exists>f'. write_loop off bs f = (Ok (), f') \<and> of_events f' = []"
  by (auto simp: write_loop.simps [of off bs f] write_loop.simps [of _ "[]"] sys_pwrite_def next_event_def off_checked_add_def wrote_part_def)

lemma file_dump_quiet:
  assumes "of_events f = []" "to_vec v = Some b" "length b < u32_limit" "off + 4 + length b < off_limit"
  shows "\<exists>f'. file_dump to_vec off v f = (Ok (off + 4 + length b), f') \<and> of_events f' = []"
proof -
  obtain f1 where f1: "write_loop off (be_digits 4 (length b)) f = (Ok (), f1)" "of_events f1 = []"
    using write_loop_quiet [OF assms(1), of off "be_digits 4 (length b)"] assms(4) by auto
  obtain f2 where "write_loop (off + 4) b f1 = (Ok (), f2)" "of_events f2 = []" using write_loop_quiet [OF f1(2), of "off + 4" b] assms(4) by auto
  then show ?thesis
    using assms(2-4) f1(1) by (simp add: file_dump_def prog_defs file_write_all_def off_checked_add_def)
qed

lemma root_fits:
  assumes "file_codec pc" "fpc_root pc R = Some b" "off = root_a \<or> off = root_b"
  shows "length b < u32_limit" "off + 4 + length b < off_limit"
proof -
  have "4 + length b \<le> page" using assms(1,2) by (auto simp: file_codec_def)
  then show "length b < u32_limit" "off + 4 + length b < off_limit" using assms(3) by (auto simp: layout u32_limit_def off_limit_def)
qed

lemma write_root_quiet:
  assumes "file_codec pc" "of_events (fw_file w) = []" "fpc_root pc (next_root sip (fw_root w)) = Some b"
    "Suc (rt_generation (fw_root w)) < usize_limit"
  shows "\<exists>w'. write_root pc sip w = (Ok (), w') \<and> fw_root w' = next_root sip (fw_root w) \<and> of_events (fw_file w') = []"
proof -
  have dump: "\<exists>w'. dump_root pc sip off w = (Ok (), w') \<and> fw_root w' = R \<and> of_events (fw_file w') = []"
    if w: "of_events (fw_file w) = []" and R: "R = (fw_root w)\<lparr>rt_checksum := calc_checksum sip (fw_root w)\<rparr>" and b: "fpc_root pc R = Some b"
      and off: "off = root_a \<or> off = root_b" for w R off
  proof -
    obtain f where "file_dump (fpc_root pc) off R (fw_file w) = (Ok (off + 4 + length b), f)" "of_events f = []"
      using file_dump_quiet [where f = "fw_file w" and to_vec = "fpc_root pc" and v = R, OF w b root_fits [OF assms(1) b off]] by blast
    then show ?thesis
      using R by (simp add: dump_root_def set_checksum_def prog_defs on_file_def file_sync_def io_err_def sys_fsync_def next_event_def synced_def)
  qed
  let ?R = "next_root sip (fw_root w)" and ?w = "w\<lparr>fw_root := (fw_root w)\<lparr>rt_generation := rt_generation (fw_root w) + 1\<rparr>\<rparr>"
  have "?R = (fw_root ?w)\<lparr>rt_checksum := calc_checksum sip (fw_root ?w)\<rparr>" by (simp add: next_root_def Let_def)
  then obtain w1 where w1: "dump_root pc sip root_a ?w = (Ok (), w1)" "fw_root w1 = ?R" "of_events (fw_file w1) = []"
    using dump [of ?w ?R root_a] assms(2,3) by auto
  have "?R = ?R\<lparr>rt_checksum := calc_checksum sip ?R\<rparr>" by (simp add: next_root_def Let_def calc_checksum_def)
  then obtain w2 where "dump_root pc sip root_b w1 = (Ok (), w2)" "fw_root w2 = ?R" "of_events (fw_file w2) = []"
    using dump [of w1 ?R root_b] w1(2,3) assms(3) by auto
  then show ?thesis using w1(1) assms(4) by (auto simp: write_root_def prog_defs usize_checked_add_def)
qed

lemma fw_append_quiet:
  assumes "file_codec pc" "of_events (fw_file w) = []" "rt_free_offset (fw_root w) = int off" "to_vec (build off) = Some b"
    "length b < u32_limit" "off + 4 + length b < off_limit" "Suc (rt_generation (fw_root w)) < usize_limit"
    "R = next_root sip ((fw_root w)\<lparr>rt_free_offset := int (off + 4 + length b)\<rparr>)" "fpc_root pc R = Some rb"
  shows "\<exists>w'. fw_append pc sip to_vec build w = (Ok (build off), w') \<and> fw_root w' = R \<and> of_events (fw_file w') = []"
proof -
  obtain f where f: "file_dump to_vec off (build off) (fw_file w) = (Ok (off + 4 + length b), f)" "of_events f = []"
    using file_dump_quiet [where f = "fw_file w" and to_vec = to_vec and v = "build off", OF assms(2,4,5,6)] by blast
  let ?w = "w\<lparr>fw_file := f, fw_root := (fw_root w)\<lparr>rt_free_offset := int (off + 4 + length b)\<rparr>\<rparr>"
  obtain w' where "write_root pc sip ?w = (Ok (), w')" "fw_root w' = R" "of_events (fw_file w') = []"
    using write_root_quiet [OF assms(1), of ?w sip rb] f(2) assms(7-9) by auto
  then show ?thesis using f(1) assms(3) by (simp add: fw_append_def prog_defs on_file_def Let_def)
qed

text \<open>Writing the record that was lost leaves the items alone.\<close>

lemma repair_spec:
  assumes "file_codec pc" "of_events g = []" "fpc_root pc R = Some b" "off = root_a \<or> off = root_b"
  shows "\<exists>n g'. file_dump (fpc_root pc) off R g = (Ok n, g') \<and> of_reads g' = of_reads g \<and>
    (\<forall>i. free_start \<le> i \<longrightarrow> of_data g i \<noteq> None \<longrightarrow> of_data g' i = of_data g i)"
proof -
  have len: "4 + length b \<le> page" using assms(1,3) by (auto simp: file_codec_def)
  from file_dump_quiet [where off = off and f = g and to_vec = "fpc_root pc" and v = R, OF assms(2,3) root_fits [OF assms(1,3,4)]]
  obtain n g' where d: "file_dump (fpc_root pc) off R g = (Ok n, g')" by blast
  have "put off (framed b) g g'" using file_dump_spec [OF d] assms(3) by simp
  then show ?thesis using d len assms(4) by (auto simp: put_def layout)
qed

definition opened :: "os_file \<Rightarrow> file_writer \<Rightarrow> bool" where
  "opened g w \<longleftrightarrow> of_reads (fw_file w) = of_reads g \<and> (\<forall>i. free_start \<le> i \<longrightarrow> of_data g i \<noteq> None \<longrightarrow> of_data (fw_file w) i = of_data g i)"

lemma fw_open_picks:
  assumes "file_codec pc" "of_events g = []" "reads_calm g" "rt_generation R1 = rt_generation R0 + 1 \<or> R1 = R0"
    "fpc_root pc R0 \<noteq> None" "fpc_root pc R1 \<noteq> None"
    "load_root pc sip g root_b = Ok R0 \<and> (\<forall>R. load_root pc sip g root_a = Ok R \<longrightarrow> R = R0 \<or> R = R1) \<or>
     load_root pc sip g root_a = Ok R1 \<and> (\<forall>R. load_root pc sip g root_b = Ok R \<longrightarrow> R = R0 \<or> R = R1)"
  shows "\<exists>w. fw_open pc sip g = Ok w \<and> (fw_root w = R0 \<or> fw_root w = R1) \<and> opened g w"
proof -
  have fin: "\<exists>w. fw_open pc sip g = Ok w \<and> (fw_root w = R0 \<or> fw_root w = R1) \<and> opened g w"
    if run: "fw_open pc sip g = (case over of None \<Rightarrow> Ok \<lparr>fw_file = g, fw_root = R\<rparr>
        | Some off \<Rightarrow> (case file_dump (fpc_root pc) off R g of
            (Ok _, f') \<Rightarrow> Ok \<lparr>fw_file = f', fw_root = R\<rparr> | (Err e, _) \<Rightarrow> Err e | (Panic m, _) \<Rightarrow> Panic m))"
      "R = R0 \<or> R = R1" "over = None \<or> over = Some root_a \<or> over = Some root_b" for over R
  proof (cases over)
    case None
    then show ?thesis using run by (auto simp: opened_def)
  next
    case (Some off)
    obtain b where "fpc_root pc R = Some b" using assms(5,6) run(2) by auto
    from repair_spec [OF assms(1,2) this, of off] run show ?thesis unfolding Some by (auto simp: opened_def)
  qed
  note calm = load_root_calm [OF assms(3), of pc sip]
  note op = fw_open_def [of pc sip g, folded load_root_def, unfolded Let_def]
  show ?thesis
  proof (cases "load_root pc sip g root_a")
    case A: (Ok ra)
    show ?thesis
    proof (cases "load_root pc sip g root_b")
      case B: (Ok rb)
      show ?thesis
        using assms(4,7) fin [where over = None and R = ra] fin [where over = "Some root_b" and R = ra] fin [where over = "Some root_a" and R = rb] op A B
        by (auto split: if_splits)
    next
      case B: (Err e)
      then show ?thesis using assms(7) fin [where over = "Some root_b" and R = ra] op A by auto
    qed (use calm in simp)
  next
    case A: (Err e)
    then obtain rb where B: "load_root pc sip g root_b = Ok rb" "rb = R0" using assms(7) by auto
    then show ?thesis using fin [where over = "Some root_a" and R = rb] op A by auto
  qed (use calm in simp)
qed

lemma crash_opens:
  assumes codec: "file_codec pc" and torn: "torn_detected pc sip"
    and R0: "root_validate sip R0 = Ok R0" "fpc_root pc R0 = Some b0" "holds D root_a (framed b0)" "holds D root_b (framed b0)"
    and R1: "root_validate sip R1 = Ok R1" "fpc_root pc R1 = Some b1" "rt_generation R1 = rt_generation R0 + 1 \<or> R1 = R0"
    and D: "\<And>i. i < free_start \<Longrightarrow> D i \<noteq> None" "free_start \<le> free"
    and f: "phase1 D free b1 f \<or> phase2 D free b1 f" "crash_data f (of_data g)"
    and g: "of_events g = []" "reads_calm g"
  shows "\<exists>w. fw_open pc sip g = Ok w \<and> (fw_root w = R0 \<or> fw_root w = R1) \<and> reads_calm (fw_file w) \<and>
    (\<forall>i. free_start \<le> i \<longrightarrow> i < free \<longrightarrow> D i \<noteq> None \<longrightarrow> of_data (fw_file w) i = D i)"
proof -
  have len: "4 + length b1 \<le> page" "4 + length b0 \<le> page" using codec R0(2) R1(2) by (auto simp: file_codec_def)
  have torn': "R = R0 \<or> R = R1"
    if "off = root_a \<or> off = root_b" "holds D off (framed b0)" "mixed D (of_data g) off b1" "load_root pc sip g off = Ok R" for off R
    using torn that R0(2) R1(2) g(2) unfolding torn_detected_def by blast
  have "(\<forall>i. free_start \<le> i \<longrightarrow> i < free \<longrightarrow> D i \<noteq> None \<longrightarrow> of_data g i = D i) \<and>
    (load_root pc sip g root_b = Ok R0 \<and> (\<forall>R. load_root pc sip g root_a = Ok R \<longrightarrow> R = R0 \<or> R = R1) \<or>
     load_root pc sip g root_a = Ok R1 \<and> (\<forall>R. load_root pc sip g root_b = Ok R \<longrightarrow> R = R0 \<or> R = R1))"
    using f(1)
  proof
    assume p: "phase1 D free b1 f"
    note c = phase1_crash [OF p f(2) D len(1)]
    have "of_data g i = D i" if "root_b \<le> i" "i < root_b + length (framed b0)" for i
      using c(2) [of i] that len(2) D by (auto simp: layout)
    then have "holds (of_data g) root_b (framed b0)" using R0(4) by (subst holds_cong [of _ _ _ D]) auto
    then have "load_root pc sip g root_b = Ok R0" using load_root_held [OF codec g(2) R0(2,1)] by simp
    then show ?thesis using c torn' [of root_a] R0(3) by (auto simp: layout)
  next
    assume p: "phase2 D free b1 f"
    note c = phase2_crash [OF p f(2) D(1) len(1), unfolded settled_def]
    have "load_root pc sip g root_a = Ok R1" using load_root_held [OF codec g(2) R1(2,1)] c by simp
    then show ?thesis using c torn' [of root_b] R0(4) by blast
  qed
  then have same: "\<And>i. free_start \<le> i \<Longrightarrow> i < free \<Longrightarrow> D i \<noteq> None \<Longrightarrow> of_data g i = D i"
    and slots: "load_root pc sip g root_b = Ok R0 \<and> (\<forall>R. load_root pc sip g root_a = Ok R \<longrightarrow> R = R0 \<or> R = R1) \<or>
     load_root pc sip g root_a = Ok R1 \<and> (\<forall>R. load_root pc sip g root_b = Ok R \<longrightarrow> R = R0 \<or> R = R1)"
    by blast+
  obtain w where w: "fw_open pc sip g = Ok w" "fw_root w = R0 \<or> fw_root w = R1" "opened g w"
    using fw_open_picks [OF codec g R1(3) _ _ slots] R0(2) R1(2) by auto
  have "of_data (fw_file w) i = D i" if "free_start \<le> i" "i < free" "D i \<noteq> None" for i
    using w(3) same [OF that] that by (simp add: opened_def)
  then show ?thesis using w g(2) by (auto simp: opened_def reads_calm_def)
qed

section \<open>The operations of the writer\<close>

datatype file_op = PutFacts "nat \<Rightarrow> fact_index_repr" | PutSegment "nat \<Rightarrow> segment_repr" | SetHead location

fun file_run :: "file_postcard \<Rightarrow> sip_hash \<Rightarrow> file_op \<Rightarrow> (file_writer, unit, storage_error) prog" where
  "file_run pc sip (PutFacts build) = pbind (fw_append pc sip (lpc_facts pc) build) (\<lambda>_. preturn ())"
| "file_run pc sip (PutSegment build) = pbind (fw_append pc sip (lpc_segment pc) build) (\<lambda>_. preturn ())"
| "file_run pc sip (SetHead l) = fw_commit pc sip l"

text \<open>The record that an operation may have written when it is cut off.\<close>

definition may_be :: "file_postcard \<Rightarrow> sip_hash \<Rightarrow> file_op \<Rightarrow> root \<Rightarrow> root \<Rightarrow> bool" where
  "may_be pc sip op R0 R \<longleftrightarrow> R = R0 \<or> (rt_generation R = rt_generation R0 + 1 \<and> root_validate sip R = Ok R \<and>
     rt_free_offset R0 \<le> rt_free_offset R \<and> rt_free_offset R < int off_limit \<and> (rt_head R = rt_head R0 \<or> op = SetHead (rt_head R)))"

definition op_phases :: "file_postcard \<Rightarrow> sip_hash \<Rightarrow> file_op \<Rightarrow> file_writer \<Rightarrow> (unit, storage_error) result \<times> file_writer \<Rightarrow> bool" where
  "op_phases pc sip op w q \<longleftrightarrow> (case q of (r, w') \<Rightarrow> (\<exists>R b. may_be pc sip op (fw_root w) R \<and> fpc_root pc R = Some b \<and>
     (let D = of_data (fw_file w); free = nat (rt_free_offset (fw_root w)) in phase1 D free b (fw_file w') \<or> phase2 D free b (fw_file w')) \<and>
     (r = Ok () \<longrightarrow> file_clean pc sip w')))"

lemma op_phases_unwritten:
  assumes "file_clean pc sip w" "r \<noteq> Ok ()" "of_durable (fw_file w') = of_durable (fw_file w)"
    "\<forall>q \<in> set (of_pending (fw_file w')). nat (rt_free_offset (fw_root w)) \<le> fst q"
  shows "op_phases pc sip op w (r, w')"
  using assms by (auto simp: op_phases_def Let_def may_be_def file_clean_def phase1_def)

lemma op_phases_write_root:
  assumes "file_clean pc sip w" "file_codec pc" "int free_start \<le> rt_free_offset (fw_root w)"
    "write_root pc sip w1 = (r, w')" "of_durable (fw_file w1) = of_durable (fw_file w)"
    "\<forall>q \<in> set (of_pending (fw_file w1)). nat (rt_free_offset (fw_root w)) \<le> fst q"
    "ahead (of_data (fw_file w)) (nat (rt_free_offset (fw_root w))) (of_data (fw_file w1))"
    "may_be pc sip op (fw_root w) (next_root sip (fw_root w1))"
  shows "op_phases pc sip op w (r, w')"
proof -
  let ?D = "of_data (fw_file w)" and ?free = "nat (rt_free_offset (fw_root w))"
  have D: "\<And>i. i < free_start \<Longrightarrow> ?D i \<noteq> None" "free_start \<le> ?free" "of_durable (fw_file w) = ?D"
    using assms(1,3) by (auto simp: file_clean_def)
  have p: "phase1 ?D ?free b (fw_file w1)" for b using assms(5,6) D(3) by (simp add: phase1_def)
  from write_root_phases [OF assms(2,4) D(1,2) assms(7) p] show ?thesis
  proof
    assume "fw_file w' = fw_file w1 \<and> r \<noteq> Ok ()"
    then show ?thesis using assms(1,5,6) by (auto intro!: op_phases_unwritten)
  next
    assume "\<exists>b. fpc_root pc (next_root sip (fw_root w1)) = Some b \<and> (phase1 ?D ?free b (fw_file w') \<or> phase2 ?D ?free b (fw_file w')) \<and>
      (r = Ok () \<longrightarrow> fw_root w' = next_root sip (fw_root w1) \<and> file_clean pc sip w')"
    then show ?thesis using assms(8) unfolding op_phases_def Let_def by blast
  qed
qed

lemma append_phases:
  assumes "file_rep pc w m h" "file_clean pc sip w" "fw_append pc sip to_vec build w = (r, w')"
  shows "op_phases pc sip op w (rmap (\<lambda>_. ()) r, w')"
proof -
  have rep: "file_codec pc" "int free_start \<le> rt_free_offset (fw_root w)" "rt_free_offset (fw_root w) < int off_limit"
    using assms(1) by (simp_all add: file_rep_def)
  have quiet: "of_pending (fw_file w) = []" "of_durable (fw_file w) = of_data (fw_file w)" using assms(2) by (simp_all add: file_clean_def)
  define off where "off = nat (rt_free_offset (fw_root w))"
  have off: "rt_free_offset (fw_root w) = int off" using rep(2) by (simp add: off_def)
  let ?item = "build off"
  obtain r1 f1 where d: "file_dump to_vec off ?item (fw_file w) = (r1, f1)" by (cases "file_dump to_vec off ?item (fw_file w)")
  have same: "of_durable f1 = of_durable (fw_file w)" "\<forall>q \<in> set (of_pending f1). off \<le> fst q"
    using file_dump_spec [OF d] quiet(1) by (auto simp: put_def part_of_def split: option.splits)
  show ?thesis
  proof (cases "\<exists>n. r1 = Ok n")
    case False
    then have "r \<noteq> Ok x" "w' = w\<lparr>fw_file := f1\<rparr>" for x
      using d off assms(3) by (cases r1; auto simp: fw_append_def prog_defs on_file_def Let_def)+
    then show ?thesis using same off_def by (intro op_phases_unwritten [OF assms(2)]) (cases r; auto)+
  next
    case True
    then obtain n bs where n: "r1 = Ok n" "n = off + 4 + length bs" "n < off_limit" "put off (framed bs) (fw_file w) f1"
        "holds (of_data f1) off (framed bs)"
      using file_dump_spec [OF d] by (auto split: option.splits)
    let ?w = "w\<lparr>fw_file := f1, fw_root := (fw_root w)\<lparr>rt_free_offset := int n\<rparr>\<rparr>"
    obtain r3 w3 where r3: "write_root pc sip ?w = (r3, w3)" by (cases "write_root pc sip ?w")
    have run: "w' = w3" "rmap (\<lambda>_. ()) r = r3"
      using assms(3) d n(1) r3 off by (auto simp: fw_append_def prog_defs on_file_def off_def [symmetric] Let_def split: result.splits)
    have "ahead (of_data (fw_file w)) off (of_data f1)"
      using put_synced(1,2) [OF n(4,5)] by (auto simp: ahead_def)
    moreover have "may_be pc sip op (fw_root w) (next_root sip (fw_root ?w))" using n off by (simp add: may_be_def)
    ultimately show ?thesis
      unfolding run using same off_def by (intro op_phases_write_root [OF assms(2) rep(1,2) r3]) auto
  qed
qed

lemma commit_phases:
  assumes "file_rep pc w m h" "file_clean pc sip w" "fw_commit pc sip l w = (r, w')"
  shows "op_phases pc sip (SetHead l) w (r, w')"
proof -
  let ?w = "w\<lparr>fw_root := (fw_root w)\<lparr>rt_head := l\<rparr>\<rparr>"
  have rep: "file_codec pc" "int free_start \<le> rt_free_offset (fw_root w)" "rt_free_offset (fw_root w) < int off_limit"
    using assms(1) by (simp_all add: file_rep_def)
  have run: "write_root pc sip ?w = (r, w')" using assms(3) by (simp add: fw_commit_def prog_defs)
  have "may_be pc sip (SetHead l) (fw_root w) (next_root sip (fw_root ?w))" using rep by (simp add: may_be_def)
  then show ?thesis
    using assms(2) by (intro op_phases_write_root [OF assms(2) rep(1,2) run]) (auto simp: ahead_def file_clean_def)
qed

lemma file_run_phases:
  assumes "file_rep pc w m h" "file_clean pc sip w" "file_run pc sip op w = (r, w')"
  shows "op_phases pc sip op w (r, w')"
proof -
  have ignore: "pbind m (\<lambda>_. preturn ()) w = (rmap (\<lambda>_. ()) (fst (m w)), snd (m w))" for m :: "(file_writer, 'a, storage_error) prog"
    by (auto simp: prog_defs split: prod.splits result.splits)
  note phases = append_phases [OF assms(1,2) surjective_pairing] commit_phases [OF assms(1,2)]
  show ?thesis using assms(3) by (cases op) (auto simp: ignore intro: phases)
qed

lemma rep_after:
  assumes "file_rep pc w m (Some h)" "reads_calm (fw_file w')" "rt_free_offset (fw_root w) \<le> rt_free_offset (fw_root w')"
    "rt_free_offset (fw_root w') < int off_limit" "rt_generation (fw_root w) \<le> rt_generation (fw_root w')"
    "\<And>i. free_start \<le> i \<Longrightarrow> i < nat (rt_free_offset (fw_root w)) \<Longrightarrow> of_data (fw_file w) i \<noteq> None \<Longrightarrow> of_data (fw_file w') i = of_data (fw_file w) i"
  shows "file_rep pc w' m (Some (rt_head (fw_root w')))"
proof -
  have "item_stored pc (of_data (fw_file w')) (rt_free_offset (fw_root w')) off it" if "m off = Some it" for off it
    by (rule item_stored_mono [OF file_rep_item [OF assms(1) that] assms(3)]) (use assms(6) in auto)
  then show ?thesis using assms(1-5) by (auto simp: file_rep_def)
qed

lemma file_run_recovers:
  assumes "torn_detected pc sip" "file_rep pc w m (Some h)" "file_clean pc sip w" "file_run pc sip op w = (r, w')"
    "crash_data (fw_file w') (of_data g)" "of_events g = []" "reads_calm g"
  shows "\<exists>w''. fw_open pc sip g = Ok w'' \<and> (file_rep pc w'' m (Some h) \<or> (\<exists>l. op = SetHead l \<and> file_rep pc w'' m (Some l)))"
proof -
  let ?D = "of_data (fw_file w)" and ?free = "nat (rt_free_offset (fw_root w))"
  have rep: "file_codec pc" "int free_start \<le> rt_free_offset (fw_root w)" "rt_free_offset (fw_root w) < int off_limit" "rt_head (fw_root w) = h"
    using assms(2) by (simp_all add: file_rep_def)
  obtain b0 where R0: "root_validate sip (fw_root w) = Ok (fw_root w)" "fpc_root pc (fw_root w) = Some b0"
      "holds ?D root_a (framed b0)" "holds ?D root_b (framed b0)" and D: "\<And>i. i < free_start \<Longrightarrow> ?D i \<noteq> None"
    using assms(3) unfolding file_clean_def by blast
  obtain R b where R: "may_be pc sip op (fw_root w) R" "fpc_root pc R = Some b" "phase1 ?D ?free b (fw_file w') \<or> phase2 ?D ?free b (fw_file w')"
    using file_run_phases [OF assms(2-4)] by (auto simp: op_phases_def Let_def)
  have "root_validate sip R = Ok R" "rt_generation R = rt_generation (fw_root w) + 1 \<or> R = fw_root w" "free_start \<le> ?free"
    using R(1) R0(1) rep(2) by (auto simp: may_be_def)
  from crash_opens [OF rep(1) assms(1) R0 this(1) R(2) this(2) D this(3) R(3) assms(5,6,7)]
  obtain w'' where w: "fw_open pc sip g = Ok w''" "fw_root w'' = fw_root w \<or> fw_root w'' = R" "reads_calm (fw_file w'')"
      "\<And>i. free_start \<le> i \<Longrightarrow> i < ?free \<Longrightarrow> ?D i \<noteq> None \<Longrightarrow> of_data (fw_file w'') i = ?D i"
    by blast
  have "file_rep pc w'' m (Some (rt_head (fw_root w'')))"
    using w(2) R(1) rep(3) by (intro rep_after [OF assms(2) w(3) _ _ _ w(4)]) (auto simp: may_be_def)
  moreover have "rt_head (fw_root w'') = h \<or> op = SetHead (rt_head (fw_root w''))"
    using w(2) R(1) rep(4) by (auto simp: may_be_def)
  ultimately show ?thesis using w(1) by metis
qed

end
