(* ===== verification/Linear_Demo.thy ===== *)
theory Linear_Demo
  imports File_Crash
begin

text \<open>
  What the linear storage promises on the file writer and on the testing writer, whatever
  sequence of operations it went through.
\<close>

section \<open>Storages on files\<close>

lemma lperform_commands: "length (lp_commands (lperform a p)) \<le> Suc (length (lp_commands p))"
proof (cases a)
  case (OpAdd c)
  then show ?thesis using lp_add_command_frame [of c p] by auto
qed (simp_all add: lp_insert_def lp_delete_def)

lemma init_perspective:
  "lperspective_ok m (fold lperform ops (lsp_new_perspective policy)) \<and> length (lp_commands (fold lperform ops (lsp_new_perspective policy))) \<le> length ops"
proof -
  have "lperspective_ok m (fold lperform ops p) \<and> length (lp_commands (fold lperform ops p)) \<le> length (lp_commands p) + length ops"
    if "lperspective_ok m p" for p
    using that
  proof (induction ops arbitrary: p)
    case (Cons a ops)
    have "lperspective_ok m (lperform a p)" using lperform_ok [OF Cons.prems] by simp
    from Cons.IH [OF this] lperform_commands [of a p] show ?case by simp
  qed simp
  moreover have "lperspective_ok m (lsp_new_perspective policy)"
    by (simp add: lsp_new_perspective_def lp_new_def lperspective_ok_def lca_ok_def lfp_new_def)
  ultimately show ?thesis by (force simp: lsp_new_perspective_def lp_new_def)
qed

text \<open>A storage that was created on a new file for the first commands of a graph.\<close>

definition new_file_storage :: "file_postcard \<Rightarrow> sip_hash \<Rightarrow> file_writer \<Rightarrow> bool" where
  "new_file_storage pc sip w \<longleftrightarrow> (\<exists>f w0 ops policy. reads_calm f \<and> fw_create f = Ok w0 \<and> length ops < usize_limit \<and>
     lin_create (file_io pc sip) (fold lperform ops (lsp_new_perspective policy)) w0 = Some (Ok (), w))"

lemma file_storage_ok:
  assumes "file_codec pc" "new_file_storage pc sip w"
  shows "lin_ok (file_rep pc) (w, [], [], [])"
proof -
  obtain f w0 ops policy where f: "reads_calm f" "fw_create f = Ok w0" "length ops < usize_limit"
      "lin_create (file_io pc sip) (fold lperform ops (lsp_new_perspective policy)) w0 = Some (Ok (), w)"
    using assms(2) by (auto simp: new_file_storage_def)
  have "fw_root w0 = root_new" "reads_calm (fw_file w0)"
    using f(1,2) by (auto simp: fw_create_def file_fallocate_def next_event_def reads_calm_def split: list.splits io_event.splits)
  then have "file_rep pc w0 Map.empty None"
    using assms(1) by (simp add: file_rep_def root_new_def layout off_limit_def)
  moreover note init_perspective [of Map.empty ops policy]
  ultimately show ?thesis
    using f(3) by (intro fio.lin_create_ok [OF _ _ _ f(4)]) (auto simp: lperspective_ok_def)
qed


text \<open>
  C36. Writing the facts of a perspective of such a storage returns. If it succeeds, every
  query and every prefix query on the index that was written gives what it gave on the
  perspective before, also when deep indices were compacted, and the index is not too deep.
\<close>

theorem linear_facts:
  assumes "file_codec pc" "new_file_storage pc sip w0" "(lin_step (file_io pc sip))\<^sup>*\<^sup>* (w0, [], [], []) (w, segs, ps, is)" "p \<in> set ps"
  shows "\<exists>r w'. lin_write_facts (file_io pc sip) (lp_facts p) w = Some (r, w') \<and>
    (\<forall>i. r = Ok i \<longrightarrow> lfi_query (file_io pc sip) w' i n k = lp_query (file_io pc sip) w p n k \<and>
      lfi_query_prefix (file_io pc sip) w' i n k = lp_query_prefix (file_io pc sip) w p n k \<and>
      (\<exists>v. lp_query (file_io pc sip) w p n k = Some (Ok v)) \<and> fi_depth i \<le> max_fact_index_depth)"
  by (rule fio.lin_ok_write_facts [OF fio.lin_run_ok [OF assms(3) file_storage_ok [OF assms(1,2)]] assms(4)])

section \<open>A storage with one command\<close>

abbreviation "store_sip \<equiv> (\<lambda>_. 0) :: sip_hash"

definition store_ops :: "perspective_op list" where
  "store_ops = [OpInsert ''F'' [[1]] [2], OpAdd (demo_command 1 PNone)]"

definition store_init :: linear_perspective where
  "store_init = fold lperform store_ops (lsp_new_perspective 0)"

definition store_facts :: "nat \<Rightarrow> fact_index_repr" where
  "store_facts off = \<lparr>fi_offset = off, fi_prior = None, fi_depth = 1, fi_facts = [(''F'', [([[1]], Some [2])])]\<rparr>"

definition store_segment :: "nat \<Rightarrow> nat \<Rightarrow> segment_repr" where
  "store_segment facts off = \<lparr>sr_offset = off, sr_prior = PNone, sr_parents = PNone, sr_policy = 0, sr_facts = facts,
     sr_commands = lp_commands store_init, sr_max_cut = 0, sr_skip_list = []\<rparr>"

definition store_root :: "nat \<Rightarrow> location \<Rightarrow> int \<Rightarrow> root" where
  "store_root g h free = \<lparr>rt_generation = g, rt_head = h, rt_free_offset = free, rt_checksum = 0\<rparr>"

abbreviation "store_r1 \<equiv> store_root 1 (rt_head root_new) 12293"
abbreviation "store_r2 \<equiv> store_root 2 (rt_head root_new) 12298"
abbreviation "store_r3 \<equiv> store_root 3 (location_new 12293 0) 12298"

definition store_pc :: file_postcard where
  "store_pc = \<lparr>lpc_facts = (\<lambda>i. if i = store_facts 12288 then Some [7] else None),
     lpc_of_facts = (\<lambda>bs. if bs = [7] then Some (store_facts 12288) else None),
     lpc_segment = (\<lambda>s. if s = store_segment 12288 12293 then Some [8] else None),
     lpc_of_segment = (\<lambda>bs. if bs = [8] then Some (store_segment 12288 12293) else None),
     fpc_root = (\<lambda>r. if r = store_r1 then Some [1] else if r = store_r2 then Some [2] else if r = store_r3 then Some [3] else None),
     fpc_of_root = (\<lambda>bs. if bs = [1] then Some store_r1 else if bs = [2] then Some store_r2 else if bs = [3] then Some store_r3 else None)\<rparr>"

lemma store_codec: "file_codec store_pc"
  by (auto simp: file_codec_def linear_codec_def store_pc_def page_def)

lemma store_next: "next_root store_sip ((store_root g h free)\<lparr>rt_free_offset := free'\<rparr>) = store_root (Suc g) h free'"
  "next_root store_sip ((store_root g h free)\<lparr>rt_head := h'\<rparr>) = store_root (Suc g) h' free" "root_new = store_root 0 (rt_head root_new) 12288"
  by (simp_all add: next_root_def store_root_def calc_checksum_def root_new_def layout)

lemma store_roots: "fpc_root store_pc store_r1 = Some [1]" "fpc_root store_pc store_r2 = Some [2]" "fpc_root store_pc store_r3 = Some [3]"
  by (auto simp: store_pc_def store_root_def)

lemma store_init_fields:
  "lp_prior store_init = PNone" "lp_parents store_init = PNone" "lp_policy store_init = 0" "length (lp_commands store_init) = 1"
  "lp_facts store_init = LinearFactPerspective [(''F'', [([[1]], Some [2])])] LFNone"
  by code_simp+

definition empty_file :: os_file where
  "empty_file = \<lparr>of_data = (\<lambda>_. None), of_durable = (\<lambda>_. None), of_pending = [], of_events = [], of_reads = (\<lambda>_ _. [])\<rparr>"

lemma store_append:
  assumes "of_events (fw_file w) = []" "fw_root w = store_root g h (int off)" "to_vec (build off) = Some [x]" "off \<le> 12293" "g < 100"
    "R = store_root (Suc g) h (int (off + 5))" "fpc_root store_pc R = Some [y]"
  shows "\<exists>w'. fw_append store_pc store_sip to_vec build w = (Ok (build off), w') \<and> fw_root w' = R \<and> of_events (fw_file w') = []"
proof (rule fw_append_quiet [where to_vec = to_vec and build = build and off = off, OF store_codec assms(1) _ assms(3) _ _ _ _ assms(7)])
  show "rt_free_offset (fw_root w) = int off" using assms(2) by (simp add: store_root_def)
  show "length [x] < u32_limit" "off + 4 + length [x] < off_limit" using assms(4) by (simp_all add: u32_limit_def off_limit_def)
  show "Suc (rt_generation (fw_root w)) < usize_limit" using assms(2,5) by (simp add: store_root_def usize_limit_def)
  show "R = next_root store_sip ((fw_root w)\<lparr>rt_free_offset := int (off + 4 + length [x])\<rparr>)"
    using assms(2,6) store_next(1) by (simp add: add.commute)
qed

lemma store_items: "lpc_facts store_pc (store_facts 12288) = Some [7]" "lpc_segment store_pc (store_segment 12288 12293) = Some [8]"
  by (simp_all add: store_pc_def)

lemma store_commit:
  assumes "of_events (fw_file w) = []" "fw_root w = store_r2"
  shows "\<exists>w'. fw_commit store_pc store_sip (location_new 12293 0) w = (Ok (), w')"
proof -
  let ?w = "w\<lparr>fw_root := (fw_root w)\<lparr>rt_head := location_new 12293 0\<rparr>\<rparr>"
  have "next_root store_sip (fw_root ?w) = store_r3" using assms(2) by (simp add: store_next(2) numeral_3_eq_3)
  moreover have "Suc (rt_generation (fw_root ?w)) < usize_limit" using assms(2) by (simp add: store_root_def usize_limit_def)
  ultimately show ?thesis
    using write_root_quiet [OF store_codec, of ?w store_sip "[3]"] assms(1) store_roots(3) by (auto simp: fw_commit_def prog_defs)
qed

lemma store_created: "\<exists>w. new_file_storage store_pc store_sip w"
proof -
  obtain w0 where w0: "fw_create empty_file = Ok w0" "fw_root w0 = root_new" "of_events (fw_file w0) = []"
    by (simp add: fw_create_def file_fallocate_def next_event_def empty_file_def)
  obtain w1 where w1: "fw_append store_pc store_sip (lpc_facts store_pc) store_facts w0 = (Ok (store_facts 12288), w1)"
      "fw_root w1 = store_r1" "of_events (fw_file w1) = []"
    using store_append [OF w0(3), of 0 "rt_head root_new" 12288 "lpc_facts store_pc" store_facts 7 store_r1 1]
      w0(2) store_next(3) store_roots(1) store_items(1) by (simp only: of_nat_numeral) auto
  obtain w2 where w2: "fw_append store_pc store_sip (lpc_segment store_pc) (store_segment 12288) w1 = (Ok (store_segment 12288 12293), w2)"
      "fw_root w2 = store_r2" "of_events (fw_file w2) = []"
    using store_append [OF w1(3), of 1 "rt_head root_new" 12293 "lpc_segment store_pc" "store_segment 12288" 8 store_r2 2]
      w1(2) store_roots(2) store_items(2) by (simp only: of_nat_numeral) (auto simp: numeral_2_eq_2)
  obtain w3 where w3: "fw_commit store_pc store_sip (location_new 12293 0) w2 = (Ok (), w3)"
    using store_commit [OF w2(3,2)] by blast
  have facts: "(\<lambda>offset. \<lparr>fi_offset = offset, fi_prior = None, fi_depth = 1,
      fi_facts = bt_retain (\<lambda>kv. kv \<noteq> []) (lfp_map (lp_facts store_init))\<rparr>) = store_facts"
    by (simp add: fun_eq_iff store_facts_def store_init_fields bt_retain_def)
  have seg: "(\<lambda>offset. \<lparr>sr_offset = offset, sr_prior = PNone, sr_parents = PNone, sr_policy = lp_policy store_init,
      sr_facts = fi_offset (store_facts 12288), sr_commands = lp_commands store_init, sr_max_cut = 0, sr_skip_list = []\<rparr>) = store_segment 12288"
    by (simp add: fun_eq_iff store_segment_def store_init_fields store_facts_def)
  have fields: "lp_commands store_init \<noteq> []" "length (sr_commands (store_segment 12288 12293)) = 1" "sr_offset (store_segment 12288 12293) = 12293"
    using store_init_fields(4) by (auto simp: store_segment_def)
  have io: "io_append_facts (file_io store_pc store_sip) = fw_append store_pc store_sip (lpc_facts store_pc)"
      "io_append_segment (file_io store_pc store_sip) = fw_append store_pc store_sip (lpc_segment store_pc)"
      "io_commit (file_io store_pc store_sip) = fw_commit store_pc store_sip"
    by (simp_all add: file_io_def)
  have "lin_create (file_io store_pc store_sip) store_init w0 = Some (Ok (), w3)"
    unfolding lin_create_def io facts using w1(1) w2(1) w3 fields store_init_fields(1,2,5)
    by (simp add: lprog_defs seg usize_checked_sub_def)
  then show ?thesis
    unfolding new_file_storage_def store_init_def using w0(1)
    by (intro exI [of _ w3] exI [of _ empty_file] exI [of _ w0] exI [of _ store_ops] exI [of _ 0])
      (simp add: empty_file_def reads_calm_def calm_def store_ops_def usize_limit_def)
qed


theorem linear_facts_witness:
  "\<exists>w p r w'. new_file_storage store_pc store_sip w \<and> lin_get_linear_perspective (file_io store_pc store_sip) w (rt_head (fw_root w)) = Ok (Some p) \<and>
     lin_write_facts (file_io store_pc store_sip) (lp_facts p) w = Some (r, w')"
proof -
  obtain w where w: "new_file_storage store_pc store_sip w" using store_created by blast
  obtain h s p where h: "fw_head w = Ok h" "lin_get_segment (file_io store_pc store_sip) w h = Ok s" "lseg_get_command s h \<noteq> None"
      "lin_get_linear_perspective (file_io store_pc store_sip) w h = Ok (Some p)"
    using fio.head_opens [OF file_storage_ok [OF store_codec w], of store_sip] by (auto simp: file_io_def)
  have "lin_step (file_io store_pc store_sip) (w, [], [], []) (w, [s], [], [])"
    by (rule lin_step.head [OF _ h(2)]) (simp add: file_io_def h(1))
  moreover have "lin_step (file_io store_pc store_sip) (w, [s], [], []) (w, [s], [p], [])"
    by (rule lin_step.open_linear [OF _ h(3,4)]) simp
  ultimately have "(lin_step (file_io store_pc store_sip))\<^sup>*\<^sup>* (w, [], [], []) (w, [s], [p], [])" by (rule converse_rtranclp_into_rtranclp [OF _ r_into_rtranclp])
  from linear_facts [OF store_codec w this] h(1,4) w show ?thesis
    by (fastforce simp: fw_head_def split: if_splits)
qed

end
