(* ===== verification/Linear_Live.thy ===== *)
theory Linear_Live
  imports Linear_Demo "HOL-Library.Countable"
begin

text \<open>
  Progress of the linear storage: as long as the writer itself does not fail, a perspective
  on the head can be opened, written and committed. A codec that numbers all items shows
  that the hypotheses can be met.
\<close>

section \<open>Progress\<close>

abbreviation vec_system_rep :: "linear_postcard \<Rightarrow> vec_writer \<Rightarrow> linear_items \<Rightarrow> location option \<Rightarrow> bool" where
  "vec_system_rep pc \<equiv> (\<lambda>w m h. vec_rep pc w m h \<and> total_codec pc)"

definition new_vec_storage :: "linear_postcard \<Rightarrow> vec_writer \<Rightarrow> bool" where
  "new_vec_storage pc w \<longleftrightarrow> (\<exists>ops policy. length ops < usize_limit \<and>
     lin_create (vec_io pc) (fold lperform ops (lsp_new_perspective policy)) \<lparr>vw_head = None, vw_items = []\<rparr> = Some (Ok (), w))"

lemma new_vec_storage_ok:
  assumes "linear_codec pc" "total_codec pc" "new_vec_storage pc w"
  shows "lin_ok (vec_system_rep pc) (w, [], [], [])"
proof -
  obtain ops policy where ops: "length ops < usize_limit"
      "lin_create (vec_io pc) (fold lperform ops (lsp_new_perspective policy)) \<lparr>vw_head = None, vw_items = []\<rparr> = Some (Ok (), w)"
    using assms(3) by (auto simp: new_vec_storage_def)
  note init = init_perspective [of Map.empty ops policy]
  show ?thesis
    using init ops(1) assms(1,2) by (intro steady_vec.lin_create_ok [OF _ _ _ ops(2)]) (auto simp: lperspective_ok_def vec_rep_def)
qed

text \<open>
  C37. A storage whose writer does not fail never gets stuck. After any sequence of
  operations a perspective on the head can be opened, and every perspective on the head
  that has commands can be written and committed, which makes its last command the head.
\<close>

theorem linear_progress:
  assumes "linear_codec pc" "total_codec pc" "new_vec_storage pc w0" "(lin_step (vec_io pc))\<^sup>*\<^sup>* (w0, [], [], []) (w, segs, ps, is)"
  shows "\<exists>h. vw_head_op w = Ok h \<and> (\<exists>p. lin_get_linear_perspective (vec_io pc) w h = Ok (Some p) \<and> lp_prior p = PSingle h) \<and>
    (\<forall>p \<in> set ps. lp_prior p = PSingle h \<longrightarrow> lp_commands p \<noteq> [] \<longrightarrow> lp_max_cut p + length (lp_commands p) < usize_limit \<longrightarrow>
      (\<exists>s w' w''. lin_write (vec_io pc) rnd p w = Some (Ok s, w') \<and> lin_commit (vec_io pc) s w' = Some (Ok (), w'') \<and>
        vw_head_op w'' = Ok (lseg_head_location s) \<and> sr_prior s = PSingle h \<and> sr_commands s = lp_commands p))"
proof -
  have ok: "lin_ok (vec_system_rep pc) (w, segs, ps, is)"
    by (rule steady_vec.lin_run_ok [OF assms(4) new_vec_storage_ok [OF assms(1-3)]])
  have io: "io_head (vec_io pc) = vw_head_op" by (simp add: vec_io_def)
  obtain h p where h: "vw_head_op w = Ok h" "lin_get_linear_perspective (vec_io pc) w h = Ok (Some p)" "lp_prior p = PSingle h"
    using steady_vec.head_opens [OF ok] io by auto
  then show ?thesis using steady_vec.head_extends [OF ok, of h] io by auto
qed

section \<open>A codec for all items\<close>

text \<open>\<open>numbers e d\<close>: \<open>e\<close> gives every value a number, and \<open>d\<close> finds the value again.\<close>

definition numbers :: "('a \<Rightarrow> nat) \<Rightarrow> (nat \<Rightarrow> 'a) \<Rightarrow> bool" where
  "numbers e d \<longleftrightarrow> (\<forall>x. d (e x) = x)"

lemma numbersD: "numbers e d \<Longrightarrow> d (e x) = x"
  by (simp add: numbers_def)

definition pair_enc :: "('a \<Rightarrow> nat) \<Rightarrow> ('b \<Rightarrow> nat) \<Rightarrow> 'a \<times> 'b \<Rightarrow> nat" where
  "pair_enc e e' = (\<lambda>(x, y). prod_encode (e x, e' y))"

definition pair_dec :: "(nat \<Rightarrow> 'a) \<Rightarrow> (nat \<Rightarrow> 'b) \<Rightarrow> nat \<Rightarrow> 'a \<times> 'b" where
  "pair_dec d d' n = (case prod_decode n of (x, y) \<Rightarrow> (d x, d' y))"

definition list_enc :: "('a \<Rightarrow> nat) \<Rightarrow> 'a list \<Rightarrow> nat" where
  "list_enc e xs = list_encode (map e xs)"

definition list_dec :: "(nat \<Rightarrow> 'a) \<Rightarrow> nat \<Rightarrow> 'a list" where
  "list_dec d n = map d (list_decode n)"

definition option_enc :: "('a \<Rightarrow> nat) \<Rightarrow> 'a option \<Rightarrow> nat" where
  "option_enc e x = list_enc e (case x of None \<Rightarrow> [] | Some y \<Rightarrow> [y])"

definition option_dec :: "(nat \<Rightarrow> 'a) \<Rightarrow> nat \<Rightarrow> 'a option" where
  "option_dec d n = (case list_dec d n of [x] \<Rightarrow> Some x | _ \<Rightarrow> None)"

definition prior_enc :: "('a \<Rightarrow> nat) \<Rightarrow> 'a prior \<Rightarrow> nat" where
  "prior_enc e p = list_enc e (prior_list p)"

definition prior_dec :: "(nat \<Rightarrow> 'a) \<Rightarrow> nat \<Rightarrow> 'a prior" where
  "prior_dec d n = (case list_dec d n of [x] \<Rightarrow> PSingle x | [x, y] \<Rightarrow> PMerge x y | _ \<Rightarrow> PNone)"

fun priority_enc :: "priority \<Rightarrow> nat" where
  "priority_enc PrioMerge = 0" | "priority_enc PrioFinalize = 1" | "priority_enc PrioInit = 2" | "priority_enc (PrioBasic n) = 3 + unat n"

definition priority_dec :: "nat \<Rightarrow> priority" where
  "priority_dec n = (if n = 0 then PrioMerge else if n = 1 then PrioFinalize else if n = 2 then PrioInit else PrioBasic (word_of_nat (n - 3)))"

lemma numbers_pair: "numbers e d \<Longrightarrow> numbers e' d' \<Longrightarrow> numbers (pair_enc e e') (pair_dec d d')"
  by (simp add: numbers_def pair_enc_def pair_dec_def)

lemma list_dec_enc: "numbers e d \<Longrightarrow> list_dec d (list_enc e xs) = xs"
  by (simp add: numbers_def list_enc_def list_dec_def comp_def)

lemma numbers_list: "numbers e d \<Longrightarrow> numbers (list_enc e) (list_dec d)"
  by (simp add: numbers_def [of "list_enc e"] list_dec_enc)

lemma numbers_option: "numbers e d \<Longrightarrow> numbers (option_enc e) (option_dec d)"
  by (simp add: numbers_def [of "option_enc e"] option_enc_def option_dec_def list_dec_enc split: option.split)

lemma numbers_prior: "numbers e d \<Longrightarrow> numbers (prior_enc e) (prior_dec d)"
  unfolding numbers_def [of "prior_enc e"] by (intro allI, rename_tac p, case_tac p) (simp_all add: prior_enc_def prior_dec_def list_dec_enc)

lemma numbers_basic:
  "numbers id id" "numbers unat (word_of_nat :: nat \<Rightarrow> 'a::len word)" "numbers of_char (char_of :: nat \<Rightarrow> char)"
  "numbers priority_enc priority_dec"
proof -
  show "numbers priority_enc priority_dec"
    unfolding numbers_def by (intro allI, rename_tac p, case_tac p) (simp_all add: priority_dec_def)
qed (simp_all add: numbers_def)

abbreviation "bytes_enc \<equiv> list_enc (unat :: u8 \<Rightarrow> nat)"
abbreviation "bytes_dec \<equiv> list_dec (word_of_nat :: nat \<Rightarrow> u8)"
abbreviation "text_enc \<equiv> list_enc (of_char :: char \<Rightarrow> nat)"
abbreviation "text_dec \<equiv> list_dec (char_of :: nat \<Rightarrow> char)"

definition facts_enc :: "fact_index_repr \<Rightarrow> nat" where
  "facts_enc i = pair_enc id (pair_enc (option_enc id) (pair_enc id
     (list_enc (pair_enc text_enc (list_enc (pair_enc (list_enc bytes_enc) (option_enc bytes_enc)))))))
     (fi_offset i, fi_prior i, fi_depth i, fi_facts i)"

definition facts_dec :: "nat \<Rightarrow> fact_index_repr" where
  "facts_dec n = (case pair_dec id (pair_dec (option_dec id) (pair_dec id
     (list_dec (pair_dec text_dec (list_dec (pair_dec (list_dec bytes_dec) (option_dec bytes_dec))))))) n of
     (off, prior, depth, facts) \<Rightarrow> \<lparr>fi_offset = off, fi_prior = prior, fi_depth = depth, fi_facts = facts\<rparr>)"

definition location_enc :: "location \<Rightarrow> nat" where
  "location_enc l = pair_enc id id (loc_segment l, loc_command l)"

definition location_dec :: "nat \<Rightarrow> location" where
  "location_dec n = (case pair_dec id id n of (a, b) \<Rightarrow> \<lparr>loc_segment = a, loc_command = b\<rparr>)"

definition address_enc :: "address \<Rightarrow> nat" where
  "address_enc a = pair_enc bytes_enc id (addr_id a, addr_max_cut a)"

definition address_dec :: "nat \<Rightarrow> address" where
  "address_dec n = (case pair_dec bytes_dec id n of (a, b) \<Rightarrow> \<lparr>addr_id = a, addr_max_cut = b\<rparr>)"

definition command_enc :: "linear_command_data \<Rightarrow> nat" where
  "command_enc c = pair_enc bytes_enc (pair_enc priority_enc (pair_enc (option_enc bytes_enc) (pair_enc bytes_enc
     (list_enc (pair_enc text_enc (pair_enc (list_enc bytes_enc) (option_enc bytes_enc)))))))
     (lcd_id c, lcd_priority c, lcd_policy c, lcd_data c, lcd_updates c)"

definition command_dec :: "nat \<Rightarrow> linear_command_data" where
  "command_dec n = (case pair_dec bytes_dec (pair_dec priority_dec (pair_dec (option_dec bytes_dec) (pair_dec bytes_dec
     (list_dec (pair_dec text_dec (pair_dec (list_dec bytes_dec) (option_dec bytes_dec))))))) n of
     (i, prio, policy, data, updates) \<Rightarrow> \<lparr>lcd_id = i, lcd_priority = prio, lcd_policy = policy, lcd_data = data, lcd_updates = updates\<rparr>)"

definition segment_enc :: "segment_repr \<Rightarrow> nat" where
  "segment_enc s = pair_enc id (pair_enc (prior_enc location_enc) (pair_enc (prior_enc address_enc) (pair_enc id
     (pair_enc id (pair_enc (list_enc command_enc) (pair_enc id (list_enc (pair_enc location_enc id))))))))
     (sr_offset s, sr_prior s, sr_parents s, sr_policy s, sr_facts s, sr_commands s, sr_max_cut s, sr_skip_list s)"

definition segment_dec :: "nat \<Rightarrow> segment_repr" where
  "segment_dec n = (case pair_dec id (pair_dec (prior_dec location_dec) (pair_dec (prior_dec address_dec) (pair_dec id
     (pair_dec id (pair_dec (list_dec command_dec) (pair_dec id (list_dec (pair_dec location_dec id)))))))) n of
     (off, prior, pars, policy, facts, cmds, mc, skips) \<Rightarrow>
       \<lparr>sr_offset = off, sr_prior = prior, sr_parents = pars, sr_policy = policy, sr_facts = facts, sr_commands = cmds,
        sr_max_cut = mc, sr_skip_list = skips\<rparr>)"

lemmas numbers_bytes = numbers_list [OF numbers_basic(2) [where ?'a = 8]]
lemmas numbers_text = numbers_list [OF numbers_basic(3)]
lemmas numbers_keys = numbers_list [OF numbers_bytes]
lemmas numbers_value = numbers_option [OF numbers_bytes]

lemma numbers_facts: "numbers facts_enc facts_dec"
proof -
  note fact_map = numbers_list [OF numbers_pair [OF numbers_text numbers_list [OF numbers_pair [OF numbers_keys numbers_value]]]]
  note tuple = numbersD [OF numbers_pair [OF numbers_basic(1) numbers_pair [OF numbers_option [OF numbers_basic(1)] numbers_pair [OF numbers_basic(1) fact_map]]]]
  show ?thesis by (simp add: numbers_def facts_enc_def facts_dec_def tuple)
qed

lemma numbers_location: "numbers location_enc location_dec"
  by (simp add: numbers_def location_enc_def location_dec_def numbersD [OF numbers_pair [OF numbers_basic(1) numbers_basic(1)]])

lemma numbers_address: "numbers address_enc address_dec"
  by (simp add: numbers_def address_enc_def address_dec_def numbersD [OF numbers_pair [OF numbers_bytes numbers_basic(1)]])

lemma numbers_command: "numbers command_enc command_dec"
proof -
  note updates = numbers_list [OF numbers_pair [OF numbers_text numbers_pair [OF numbers_keys numbers_value]]]
  note tuple = numbersD [OF numbers_pair [OF numbers_bytes numbers_pair [OF numbers_basic(4) numbers_pair [OF numbers_value numbers_pair [OF numbers_bytes updates]]]]]
  show ?thesis by (simp add: numbers_def command_enc_def command_dec_def tuple)
qed

lemma numbers_segment: "numbers segment_enc segment_dec"
proof -
  note n = numbers_basic(1) and skips = numbers_list [OF numbers_pair [OF numbers_location numbers_basic(1)]]
  note tail = numbers_pair [OF n numbers_pair [OF n numbers_pair [OF numbers_list [OF numbers_command] numbers_pair [OF n skips]]]]
  note tuple = numbersD [OF numbers_pair [OF n numbers_pair [OF numbers_prior [OF numbers_location] numbers_pair [OF numbers_prior [OF numbers_address] tail]]]]
  show ?thesis by (simp add: numbers_def segment_enc_def segment_dec_def tuple)
qed

text \<open>As bytes a number is that many zeros.\<close>

definition unary_pc :: linear_postcard where
  "unary_pc = \<lparr>lpc_facts = (\<lambda>i. Some (replicate (facts_enc i) 0)), lpc_of_facts = (\<lambda>bs. Some (facts_dec (length bs))),
     lpc_segment = (\<lambda>s. Some (replicate (segment_enc s) 0)), lpc_of_segment = (\<lambda>bs. Some (segment_dec (length bs)))\<rparr>"

lemma unary_codec: "linear_codec unary_pc" "total_codec unary_pc"
  by (auto simp: linear_codec_def total_codec_def unary_pc_def numbersD [OF numbers_facts] numbersD [OF numbers_segment])

definition unary_writer :: vec_writer where
  "unary_writer = \<lparr>vw_head = Some (location_new 1 0),
     vw_items = [replicate (facts_enc (store_facts 0)) 0, replicate (segment_enc (store_segment 0 1)) 0]\<rparr>"

lemma unary_created: "new_vec_storage unary_pc unary_writer"
proof -
  have retain: "bt_retain (\<lambda>kv. kv \<noteq> []) (lfp_map (lp_facts store_init)) = [(''F'', [([[1]], Some [2])])]"
    by (simp add: store_init_fields bt_retain_def)
  have "lin_create (vec_io unary_pc) store_init \<lparr>vw_head = None, vw_items = []\<rparr> = Some (Ok (), unary_writer)"
    using store_init_fields(1-5) retain
    by (auto simp: lin_create_def lprog_defs vec_io_def vw_append_def vw_commit_def prog_defs unary_pc_def usize_checked_sub_def
        unary_writer_def store_facts_def store_segment_def)
  moreover have "length store_ops < usize_limit" by (simp add: store_ops_def usize_limit_def)
  ultimately show ?thesis unfolding new_vec_storage_def store_init_def by blast
qed

definition unary_perspective :: linear_perspective where
  "unary_perspective = lp_new (PSingle (location_new 1 0)) (PSingle \<lparr>addr_id = [1], addr_max_cut = 0\<rparr>) 0 (LFIndex 0) 1 None"

lemma unary_segment: "lin_get_segment (vec_io unary_pc) unary_writer (location_new 1 0) = Ok (store_segment 0 1)"
  by (simp add: lin_get_segment_def vec_io_def vw_fetch_def unary_writer_def unary_pc_def numbersD [OF numbers_segment])

lemma store_command: "lseg_get_command (store_segment 0 1) (location_new 1 0) =
    Some \<lparr>cmd_priority = PrioBasic 0, cmd_id = [1], cmd_parent = PNone, cmd_policy = None, cmd_bytes = [], sc_max_cut = 0\<rparr>"
  by code_simp

lemma unary_opens: "lin_get_linear_perspective (vec_io unary_pc) unary_writer (location_new 1 0) = Ok (Some unary_perspective)"
proof -
  have "lseg_head_location (store_segment 0 1) = location_new 1 0" "sr_policy (store_segment 0 1) = 0" "sr_facts (store_segment 0 1) = 0"
    using store_init_fields(4) by (simp_all add: lseg_head_location_def store_segment_def)
  then show ?thesis
    by (simp add: lin_get_linear_perspective_def unary_segment store_command usize_checked_add_def usize_limit_def
        unary_perspective_def stored_address_def del: One_nat_def)
qed

theorem linear_progress_witness:
  "\<exists>s w' w''. lin_write (vec_io unary_pc) (\<lambda>_. 0) (lperform (OpAdd (demo_command 2 (lp_parents unary_perspective))) unary_perspective) unary_writer = Some (Ok s, w') \<and>
     lin_commit (vec_io unary_pc) s w' = Some (Ok (), w'')"
proof -
  let ?p = unary_perspective and ?op = "OpAdd (demo_command 2 (lp_parents unary_perspective))"
  have head: "vw_head_op unary_writer = Ok (location_new 1 0)" by (simp add: vw_head_op_def unary_writer_def)
  have cmd: "lseg_get_command (store_segment 0 1) (location_new 1 0) \<noteq> None" unfolding store_command by simp
  let ?step = "lin_step (vec_io unary_pc)"
  have "?step (unary_writer, [], [], []) (unary_writer, [store_segment 0 1], [], [])"
    by (rule lin_step.head [OF _ unary_segment]) (simp add: vec_io_def head)
  moreover have "?step (unary_writer, [store_segment 0 1], [], []) (unary_writer, [store_segment 0 1], [?p], [])"
    by (rule lin_step.open_linear [OF _ cmd unary_opens]) simp
  moreover have "?step (unary_writer, [store_segment 0 1], [?p], []) (unary_writer, [store_segment 0 1], [lperform ?op ?p], [])"
    using lin_step.act [of 0 "[?p]" "vec_io unary_pc" unary_writer "[store_segment 0 1]" "[]" ?op] by simp
  ultimately have run: "?step\<^sup>*\<^sup>* (unary_writer, [], [], []) (unary_writer, [store_segment 0 1], [lperform ?op ?p], [])"
    by (meson r_into_rtranclp rtranclp_trans)
  have p: "lp_prior (lperform ?op ?p) = PSingle (location_new 1 0)" "lp_commands (lperform ?op ?p) \<noteq> []"
      "length (lp_commands (lperform ?op ?p)) = 1" "lp_max_cut (lperform ?op ?p) = 1"
    by code_simp+
  then have "lp_max_cut (lperform ?op ?p) + length (lp_commands (lperform ?op ?p)) < usize_limit" by (simp add: usize_limit_def)
  with linear_progress [OF unary_codec unary_created run, of "\<lambda>_. 0"] head p show ?thesis by (auto simp del: One_nat_def)
qed

end
