(* ===== verification/File_Demo.thy ===== *)
theory File_Demo
  imports File_Crash
begin

text \<open>
  What a crash can do to the file of the linear storage: the property that the writer
  recovers, and the one sequence of crashes from which it does not.
\<close>

section \<open>Recovery\<close>

lemma clean_opens:
  assumes "file_rep pc w m (Some h)" "file_clean pc sip w" "crash_data (fw_file w) (of_data g)" "of_events g = []" "reads_calm g"
  shows "\<exists>w'. fw_open pc sip g = Ok w' \<and> fw_root w' = fw_root w \<and> opened g w' \<and> of_data g = of_data (fw_file w)"
proof -
  have data: "of_data g = of_data (fw_file w)" using assms(2,3) by (auto simp: file_clean_def crash_data_def)
  have codec: "file_codec pc" using assms(1) by (simp add: file_rep_def)
  obtain b where b: "root_validate sip (fw_root w) = Ok (fw_root w)" "fpc_root pc (fw_root w) = Some b"
      "holds (of_data g) root_a (framed b)" "holds (of_data g) root_b (framed b)"
    using assms(2) data by (auto simp: file_clean_def)
  have "load_root pc sip g root_a = Ok (fw_root w)" "load_root pc sip g root_b = Ok (fw_root w)"
    using load_root_held [OF codec assms(5) b(2,1)] b(3,4) by auto
  then show ?thesis
    using fw_open_picks [OF codec assms(4,5), of "fw_root w" "fw_root w"] b(2) data by auto
qed

lemma clean_durable:
  assumes "fw_open pc sip g = Ok w''" "file_clean pc sip w" "crash_data (fw_file w) (of_data g)" "of_events g = []" "reads_calm g"
    "file_rep pc w m (Some h)"
  shows "file_rep pc w'' m (Some h)"
proof -
  have w: "fw_root w'' = fw_root w" "opened g w''" "of_data g = of_data (fw_file w)"
    using clean_opens [OF assms(6,2-5)] assms(1) by auto
  have "file_rep pc w'' m (Some (rt_head (fw_root w'')))"
    by (rule rep_after [OF assms(6)]) (use assms(5,6) w in \<open>auto simp: opened_def reads_calm_def file_rep_def\<close>)
  then show ?thesis using assms(6) w(1) by (simp add: file_rep_def)
qed


section \<open>A file with one item\<close>

definition demo_facts :: fact_index_repr where
  "demo_facts = \<lparr>fi_offset = 12288, fi_prior = None, fi_depth = 1, fi_facts = []\<rparr>"

definition demo_root :: "nat \<Rightarrow> root" where
  "demo_root g = \<lparr>rt_generation = g, rt_head = location_new 0 g, rt_free_offset = 12293, rt_checksum = 0\<rparr>"

text \<open>Records of two equal bytes, so that one torn in the middle is recognised.\<close>

definition demo_pc :: file_postcard where
  "demo_pc = \<lparr>lpc_facts = (\<lambda>i. if i = demo_facts then Some [7] else None),
     lpc_of_facts = (\<lambda>bs. if bs = [7] then Some demo_facts else None),
     lpc_segment = (\<lambda>_. None), lpc_of_segment = (\<lambda>_. None),
     fpc_root = (\<lambda>r. if r = demo_root 1 then Some [1, 1] else if r = demo_root 2 then Some [2, 2]
       else if r = demo_root 3 then Some [3, 3] else None),
     fpc_of_root = (\<lambda>bs. if bs = [1, 1] then Some (demo_root 1) else if bs = [2, 2] then Some (demo_root 2)
       else if bs = [3, 3] then Some (demo_root 3) else None)\<rparr>"

abbreviation "demo_sip \<equiv> (\<lambda>_. 0) :: sip_hash"

text \<open>The content with the records \<open>[a, a']\<close> and \<open>[b, b']\<close>.\<close>

definition demo_data :: "u8 \<Rightarrow> u8 \<Rightarrow> u8 \<Rightarrow> u8 \<Rightarrow> file_data" where
  "demo_data a a' b b' = (\<lambda>i. if i < 12293 then Some 0 else None)
     (4099 := Some 2, 4100 := Some a, 4101 := Some a', 8195 := Some 2, 8196 := Some b, 8197 := Some b', 12291 := Some 1, 12292 := Some 7)"

definition demo_state :: "file_data \<Rightarrow> file_data \<Rightarrow> (nat \<times> bytes) list \<Rightarrow> io_event list \<Rightarrow> os_file" where
  "demo_state d dur ps es = \<lparr>of_data = d, of_durable = dur, of_pending = ps, of_events = es, of_reads = (\<lambda>_ _. [IoEintr])\<rparr>"

abbreviation demo_file :: "file_data \<Rightarrow> io_event list \<Rightarrow> os_file" where
  "demo_file d es \<equiv> demo_state d d [] es"

lemma demo_framed: "framed [a, a'] = [0, 0, 0, 2, a, a']" "framed [a] = [0, 0, 0, 1, a]"
proof -
  have "be_digits 4 n = be_digits (Suc (Suc (Suc (Suc 0)))) n" for n by (simp add: eval_nat_numeral del: be_digits.simps)
  then show "framed [a, a'] = [0, 0, 0, 2, a, a']" "framed [a] = [0, 0, 0, 1, a]" by (simp_all add: framed_def)
qed

lemma demo_root_eq [simp]: "demo_root g = demo_root g' \<longleftrightarrow> g = g'"
  by (auto simp: demo_root_def)

lemma all_less_numeral:
  "(\<forall>i < (5::nat). P i) \<longleftrightarrow> P 0 \<and> P 1 \<and> P 2 \<and> P 3 \<and> P 4"
  "(\<forall>i < (6::nat). P i) \<longleftrightarrow> P 0 \<and> P 1 \<and> P 2 \<and> P 3 \<and> P 4 \<and> P 5"
proof -
  have "i < 5 \<longleftrightarrow> i = 0 \<or> i = 1 \<or> i = 2 \<or> i = 3 \<or> i = 4" "i < 6 \<longleftrightarrow> i = 0 \<or> i = 1 \<or> i = 2 \<or> i = 3 \<or> i = 4 \<or> i = 5" for i :: nat
    by arith+
  then show "(\<forall>i < (5::nat). P i) \<longleftrightarrow> P 0 \<and> P 1 \<and> P 2 \<and> P 3 \<and> P 4"
    "(\<forall>i < (6::nat). P i) \<longleftrightarrow> P 0 \<and> P 1 \<and> P 2 \<and> P 3 \<and> P 4 \<and> P 5"
    by (simp_all, blast+)
qed

lemma holds_two: "holds d off [0, 0, 0, 2, a, a'] \<longleftrightarrow> d off = Some 0 \<and> d (off + 1) = Some 0 \<and> d (off + 2) = Some 0 \<and>
    d (off + 3) = Some 2 \<and> d (off + 4) = Some a \<and> d (off + 5) = Some a'"
proof -
  have "length [0, 0, 0, 2, a, a'] = 6" by simp
  then show ?thesis unfolding holds_def by (simp only: all_less_numeral) simp
qed

lemma holds_one: "holds d off [0, 0, 0, 1, a] \<longleftrightarrow> d off = Some 0 \<and> d (off + 1) = Some 0 \<and> d (off + 2) = Some 0 \<and>
    d (off + 3) = Some 1 \<and> d (off + 4) = Some a"
proof -
  have "length [0, 0, 0, 1, a] = 5" by simp
  then show ?thesis unfolding holds_def by (simp only: all_less_numeral) simp
qed

lemma demo_codec: "file_codec demo_pc"
  by (auto simp: file_codec_def linear_codec_def demo_pc_def page_def)

lemma demo_bytes: "fpc_root demo_pc R = Some b \<Longrightarrow> \<exists>x. b = [x, x]"
  by (auto simp: demo_pc_def split: if_splits)

lemma demo_torn: "torn_detected demo_pc demo_sip"
  unfolding torn_detected_def
proof (intro allI impI)
  fix R0 R1 b0 b1 D f off R
  assume r: "fpc_root demo_pc R0 = Some b0" "fpc_root demo_pc R1 = Some b1" and off: "off = root_a \<or> off = root_b"
    and D: "holds D off (framed b0)" and calm: "reads_calm f" and mix: "mixed D (of_data f) off b1"
    and load: "load_root demo_pc demo_sip f off = Ok R"
  obtain x y where b: "b0 = [x, x]" "b1 = [y, y]" using demo_bytes [OF r(1)] demo_bytes [OF r(2)] by blast
  have m: "of_data f (off + k) = D (off + k) \<or> k < 6 \<and> of_data f (off + k) = Some ([0, 0, 0, 2, y, y] ! k)" if "k < page" for k
    using mix that unfolding mixed_def b(2) by (auto simp: demo_framed dest!: spec [of _ "off + k"])
  obtain u v where uv: "of_data f (off + 4) = Some u" "of_data f (off + 5) = Some v" "u = x \<or> u = y" "v = x \<or> v = y"
    using D m [of 4] m [of 5] by (auto simp: b(1) demo_framed holds_two page_def)
  have "holds (of_data f) off (framed [u, v])"
    using D m [of 0] m [of 1] m [of 2] m [of 3] uv(1,2) by (auto simp: b(1) demo_framed holds_two page_def)
  then have "file_load (fpc_of_root demo_pc) f off = ok_or IoError (fpc_of_root demo_pc [u, v])"
    using off by (intro file_load_spec [OF calm]) (auto simp: layout u32_limit_def off_limit_def)
  then have "fpc_of_root demo_pc [u, v] = Some R"
    using load by (cases "fpc_of_root demo_pc [u, v]") (auto simp: load_root_def root_validate_def split: if_splits)
  moreover have "fpc_of_root demo_pc [x, x] = Some R0" "fpc_of_root demo_pc [y, y] = Some R1"
    using r demo_codec b by (auto simp: file_codec_def)
  moreover have "u = v" using calculation(1) by (auto simp: demo_pc_def split: if_splits)
  ultimately show "R = R0 \<or> R = R1" using uv(3,4) by auto
qed

abbreviation demo_writer :: "file_data \<Rightarrow> io_event list \<Rightarrow> nat \<Rightarrow> file_writer" where
  "demo_writer d es g \<equiv> \<lparr>fw_file = demo_file d es, fw_root = demo_root g\<rparr>"

lemma demo_calm: "reads_calm (demo_file d es)"
  by (simp add: demo_state_def reads_calm_def calm_def)

lemma demo_rep: "file_rep demo_pc (demo_writer (demo_data 1 1 1 1) es 1) [12288 \<mapsto> FactItem demo_facts] (Some (location_new 0 1))"
  using demo_codec demo_calm
  by (auto simp: file_rep_def demo_root_def free_start_def page_def off_limit_def item_stored_def item_bytes_def demo_pc_def
      demo_framed u32_limit_def holds_one demo_state_def demo_data_def)

lemma demo_write:
  "write_at 4096 [0, 0, 0, 2] (demo_data a a' b b') = demo_data a a' b b'" "write_at 8192 [0, 0, 0, 2] (demo_data a a' b b') = demo_data a a' b b'"
  "write_at 4100 [x] (demo_data a a' b b') = demo_data x a' b b'" "write_at 4100 [x, x'] (demo_data a a' b b') = demo_data x x' b b'"
  "write_at 8196 [x] (demo_data a a' b b') = demo_data a a' x b'" "write_at 8196 [x, x'] (demo_data a a' b b') = demo_data a a' x x'"
  by (auto simp: fun_eq_iff write_at_def demo_data_def nth_Cons')

lemma demo_header: "be_digits 4 (Suc (Suc 0)) = [0, 0, 0, 2]"
  using demo_framed(1) by (simp add: framed_def)

lemma write_loop_part:
  "0 < n \<Longrightarrow> bs \<noteq> [] \<Longrightarrow> off + length bs < off_limit \<Longrightarrow> of_events f = IoDone n # es \<Longrightarrow>
     write_loop off bs f = write_loop (off + min n (length bs)) (drop (min n (length bs)) bs) (wrote_part off (take n bs) (f\<lparr>of_events := es\<rparr>))"
  by (subst write_loop.simps) (auto simp: sys_pwrite_def next_event_def off_checked_add_def min_def)

lemma write_loop_end [simp]: "write_loop off [] f = (Ok (), f)"
  by (simp add: write_loop.simps)

lemma write_loop_stop: "bs \<noteq> [] \<Longrightarrow> of_events f = IoStop # es \<Longrightarrow> write_loop off bs f = (Panic ''stopped'', f\<lparr>of_events := es\<rparr>)"
  by (subst write_loop.simps) (simp add: sys_pwrite_def next_event_def)

lemma demo_state_fields [simp]:
  "of_data (demo_state d dur ps es) = d" "of_durable (demo_state d dur ps es) = dur"
  "of_pending (demo_state d dur ps es) = ps" "of_events (demo_state d dur ps es) = es"
  "demo_state d dur ps es\<lparr>of_events := es'\<rparr> = demo_state d dur ps es'"
  "wrote_part off bs (demo_state d dur ps es) = demo_state (write_at off bs d) dur (ps @ [(off, bs)]) es"
  "synced (demo_state d dur ps es) = demo_state d d [] es"
  by (simp_all add: demo_state_def wrote_part_def synced_def)

lemma demo_dump:
  assumes "fpc_root demo_pc R = Some [x, y]" "off + 6 < off_limit"
  shows "file_dump (fpc_root demo_pc) off R (demo_state d dur ps (IoDone 4 # IoDone 2 # es)) =
      (Ok (off + 6), demo_state (write_at (off + 4) [x, y] (write_at off [0, 0, 0, 2] d)) dur (ps @ [(off, [0, 0, 0, 2]), (off + 4, [x, y])]) es)"
    "file_dump (fpc_root demo_pc) off R (demo_state d dur ps (IoDone 4 # IoDone 1 # IoStop # es)) =
      (Panic ''stopped'', demo_state (write_at (off + 4) [x] (write_at off [0, 0, 0, 2] d)) dur (ps @ [(off, [0, 0, 0, 2]), (off + 4, [x])]) es)"
proof -
  have head: "write_loop off [0, 0, 0, 2] (demo_state d dur ps (IoDone 4 # es)) =
      (Ok (), demo_state (write_at off [0, 0, 0, 2] d) dur (ps @ [(off, [0, 0, 0, 2])]) es)" for es
    using assms(2) by (subst write_loop_part) auto
  have full: "write_loop (off + 4) [x, y] (demo_state d dur ps (IoDone 2 # es)) =
      (Ok (), demo_state (write_at (off + 4) [x, y] d) dur (ps @ [(off + 4, [x, y])]) es)" for d dur ps es
    using assms(2) by (subst write_loop_part) auto
  have cut: "write_loop (off + 4) [x, y] (demo_state d dur ps (IoDone 1 # IoStop # es)) =
      (Panic ''stopped'', demo_state (write_at (off + 4) [x] d) dur (ps @ [(off + 4, [x])]) es)" for d dur ps es
    using assms(2) by (subst write_loop_part) (auto simp: write_loop_stop)
  have lim: "off_checked_add off 4 = Some (off + 4)" "off_checked_add (off + 4) (Suc (Suc 0)) = Some (off + 6)" "Suc (Suc 0) < u32_limit"
    using assms(2) by (auto simp: off_checked_add_def u32_limit_def)
  show "file_dump (fpc_root demo_pc) off R (demo_state d dur ps (IoDone 4 # IoDone 2 # es)) =
      (Ok (off + 6), demo_state (write_at (off + 4) [x, y] (write_at off [0, 0, 0, 2] d)) dur (ps @ [(off, [0, 0, 0, 2]), (off + 4, [x, y])]) es)"
    using assms(1) by (simp add: file_dump_def prog_defs file_write_all_def demo_header head full lim)
  show "file_dump (fpc_root demo_pc) off R (demo_state d dur ps (IoDone 4 # IoDone 1 # IoStop # es)) =
      (Panic ''stopped'', demo_state (write_at (off + 4) [x] (write_at off [0, 0, 0, 2] d)) dur (ps @ [(off, [0, 0, 0, 2]), (off + 4, [x])]) es)"
    using assms(1) cut by (simp add: file_dump_def prog_defs file_write_all_def demo_header head lim)
qed

lemma demo_root_next: "(demo_root g)\<lparr>rt_head := location_new 0 g', rt_generation := g', rt_checksum := 0\<rparr> = demo_root g'"
  "(demo_root g)\<lparr>rt_checksum := 0\<rparr> = demo_root g"
  by (simp_all add: demo_root_def)

lemma demo_commit:
  assumes "usize_checked_add g 1 = Some g'"
  shows "file_run demo_pc demo_sip (SetHead (location_new 0 g')) \<lparr>fw_file = f, fw_root = demo_root g\<rparr> =
    (case dump_root demo_pc demo_sip root_a \<lparr>fw_file = f, fw_root = (demo_root g)\<lparr>rt_head := location_new 0 g', rt_generation := g'\<rparr>\<rparr> of
       (Ok _, w) \<Rightarrow> dump_root demo_pc demo_sip root_b w | q \<Rightarrow> q)"
  using assms by (simp add: fw_commit_def write_root_def prog_defs demo_root_def split: result.splits prod.splits)

lemma demo_dump_root:
  assumes "fpc_root demo_pc (R\<lparr>rt_checksum := 0\<rparr>) = Some [x, y]" "off = root_a \<or> off = root_b"
  shows "dump_root demo_pc demo_sip off \<lparr>fw_file = demo_state d dur ps (IoDone 4 # IoDone 2 # IoDone 0 # es), fw_root = R\<rparr> =
      (Ok (), \<lparr>fw_file = demo_file (write_at (off + 4) [x, y] (write_at off [0, 0, 0, 2] d)) es, fw_root = R\<lparr>rt_checksum := 0\<rparr>\<rparr>)"
    "dump_root demo_pc demo_sip off \<lparr>fw_file = demo_state d dur ps (IoDone 4 # IoDone 1 # IoStop # es), fw_root = R\<rparr> =
      (Panic ''stopped'', \<lparr>fw_file = demo_state (write_at (off + 4) [x] (write_at off [0, 0, 0, 2] d)) dur
         (ps @ [(off, [0, 0, 0, 2]), (off + 4, [x])]) es, fw_root = R\<lparr>rt_checksum := 0\<rparr>\<rparr>)"
proof -
  have lim: "off + 6 < off_limit" using assms(2) by (auto simp: layout off_limit_def)
  note dump = demo_dump [OF assms(1) lim]
  show "dump_root demo_pc demo_sip off \<lparr>fw_file = demo_state d dur ps (IoDone 4 # IoDone 2 # IoDone 0 # es), fw_root = R\<rparr> =
      (Ok (), \<lparr>fw_file = demo_file (write_at (off + 4) [x, y] (write_at off [0, 0, 0, 2] d)) es, fw_root = R\<lparr>rt_checksum := 0\<rparr>\<rparr>)"
    by (simp add: dump_root_def set_checksum_def calc_checksum_def prog_defs on_file_def dump(1) file_sync_def io_err_def sys_fsync_def next_event_def)
  show "dump_root demo_pc demo_sip off \<lparr>fw_file = demo_state d dur ps (IoDone 4 # IoDone 1 # IoStop # es), fw_root = R\<rparr> =
      (Panic ''stopped'', \<lparr>fw_file = demo_state (write_at (off + 4) [x] (write_at off [0, 0, 0, 2] d)) dur
         (ps @ [(off, [0, 0, 0, 2]), (off + 4, [x])]) es, fw_root = R\<lparr>rt_checksum := 0\<rparr>\<rparr>)"
    using dump(2) by (simp add: dump_root_def set_checksum_def calc_checksum_def prog_defs on_file_def)
qed

lemma demo_roots: "fpc_root demo_pc (demo_root 1) = Some [1, 1]" "fpc_root demo_pc (demo_root 2) = Some [2, 2]" "fpc_root demo_pc (demo_root 3) = Some [3, 3]"
  by (simp_all add: demo_pc_def)

text \<open>A first commit is cut off in the second record.\<close>

abbreviation "demo_events \<equiv> [IoDone 4, IoDone 2, IoDone 0, IoDone 4, IoDone 1, IoStop]"

definition demo_cut :: file_writer where
  "demo_cut = \<lparr>fw_file = demo_state (demo_data 2 2 2 1) (demo_data 2 2 1 1) [(8192, [0, 0, 0, 2]), (8196, [2])] [], fw_root = demo_root 2\<rparr>"

lemma demo_first:
  "file_run demo_pc demo_sip (SetHead (location_new 0 2)) (demo_writer (demo_data 1 1 1 1) demo_events 1) = (Panic ''stopped'', demo_cut)"
proof -
  let ?R = "(demo_root 1)\<lparr>rt_head := location_new 0 2, rt_generation := 2\<rparr>"
  have a: "dump_root demo_pc demo_sip root_a \<lparr>fw_file = demo_file (demo_data 1 1 1 1) demo_events, fw_root = ?R\<rparr> =
      (Ok (), \<lparr>fw_file = demo_file (demo_data 2 2 1 1) [IoDone 4, IoDone 1, IoStop], fw_root = demo_root 2\<rparr>)"
    by (subst demo_dump_root(1) [of _ 2 2]) (simp_all add: demo_root_next demo_roots layout demo_write)
  have b: "dump_root demo_pc demo_sip root_b \<lparr>fw_file = demo_file (demo_data 2 2 1 1) [IoDone 4, IoDone 1, IoStop], fw_root = demo_root 2\<rparr> =
      (Panic ''stopped'', demo_cut)"
    by (subst demo_dump_root(2) [of _ 2 2]) (simp_all add: demo_root_next demo_roots layout demo_write demo_cut_def)
  have "usize_checked_add 1 1 = Some 2" by (simp add: usize_checked_add_def usize_limit_def)
  then show ?thesis by (simp only: demo_commit a b prod.case result.case)
qed

lemma demo_clean: "file_clean demo_pc demo_sip (demo_writer (demo_data 1 1 1 1) es 1)"
proof -
  have "rt_checksum (demo_root 1) = 0" by (simp add: demo_root_def)
  then show ?thesis
    unfolding file_clean_def using demo_roots(1)
    by (intro conjI exI [of _ "[1, 1]"]) (auto simp: demo_framed holds_two layout root_validate_def calc_checksum_def demo_data_def)
qed

lemma demo_crash1: "crash_data (fw_file demo_cut) (of_data (demo_file (demo_data 2 2 2 1) es))"
  by (simp add: crash_data_def demo_cut_def demo_write)


section \<open>A repair that is not synced\<close>

lemma demo_load:
  assumes "off = root_a \<and> u = a \<and> v = a' \<or> off = root_b \<and> u = b \<and> v = b'"
  shows "load_root demo_pc demo_sip (demo_file (demo_data a a' b b') es) off =
    rbind (ok_or IoError (fpc_of_root demo_pc [u, v])) (root_validate demo_sip)"
proof -
  have "holds (of_data (demo_file (demo_data a a' b b') es)) off (framed [u, v])"
    using assms by (auto simp: demo_framed holds_two layout demo_data_def)
  from file_load_spec [OF demo_calm this, of "fpc_of_root demo_pc"] show ?thesis
    using assms by (auto simp: load_root_def layout u32_limit_def off_limit_def)
qed

lemma demo_loads:
  "load_root demo_pc demo_sip (demo_file (demo_data 2 2 2 1) es) root_a = Ok (demo_root 2)"
  "load_root demo_pc demo_sip (demo_file (demo_data 2 2 2 1) es) root_b = Err IoError"
  "load_root demo_pc demo_sip (demo_file (demo_data 3 2 2 1) es) root_a = Err IoError"
  "load_root demo_pc demo_sip (demo_file (demo_data 3 2 2 1) es) root_b = Err IoError"
proof -
  have "fpc_of_root demo_pc [2, 2] = Some (demo_root 2)" "fpc_of_root demo_pc [2, 1] = None" "fpc_of_root demo_pc [3, 2] = None"
    by (simp_all add: demo_pc_def)
  moreover have "root_validate demo_sip (demo_root 2) = Ok (demo_root 2)" by (simp add: root_validate_def calc_checksum_def demo_root_def)
  ultimately show "load_root demo_pc demo_sip (demo_file (demo_data 2 2 2 1) es) root_a = Ok (demo_root 2)"
    "load_root demo_pc demo_sip (demo_file (demo_data 2 2 2 1) es) root_b = Err IoError"
    "load_root demo_pc demo_sip (demo_file (demo_data 3 2 2 1) es) root_a = Err IoError"
    "load_root demo_pc demo_sip (demo_file (demo_data 3 2 2 1) es) root_b = Err IoError"
    by (simp_all add: demo_load [where u = 2 and v = 2] demo_load [where u = 2 and v = 1] demo_load [where u = 3 and v = 2])
qed

text \<open>The repair of the second record is pending when the next commit is cut off in the first.\<close>

definition demo_repaired :: file_writer where
  "demo_repaired = \<lparr>fw_file = demo_state (demo_data 2 2 2 2) (demo_data 2 2 2 1) [(8192, [0, 0, 0, 2]), (8196, [2, 2])]
     [IoDone 4, IoDone 1, IoStop], fw_root = demo_root 2\<rparr>"

lemma demo_reopen:
  "fw_open demo_pc demo_sip (demo_file (demo_data 2 2 2 1) [IoDone 4, IoDone 2, IoDone 4, IoDone 1, IoStop]) = Ok demo_repaired"
proof -
  have "file_dump (fpc_root demo_pc) root_b (demo_root 2) (demo_file (demo_data 2 2 2 1) [IoDone 4, IoDone 2, IoDone 4, IoDone 1, IoStop]) =
      (Ok (root_b + 6), demo_state (demo_data 2 2 2 2) (demo_data 2 2 2 1) [(8192, [0, 0, 0, 2]), (8196, [2, 2])] [IoDone 4, IoDone 1, IoStop])"
    by (subst demo_dump(1) [of _ 2 2]) (simp_all add: demo_roots layout off_limit_def demo_write)
  then show ?thesis
    by (simp add: fw_open_def load_root_def [symmetric] demo_loads demo_repaired_def)
qed

definition demo_torn_twice :: file_writer where
  "demo_torn_twice = \<lparr>fw_file = demo_state (demo_data 3 2 2 2) (demo_data 2 2 2 1)
     [(8192, [0, 0, 0, 2]), (8196, [2, 2]), (4096, [0, 0, 0, 2]), (4100, [3])] [], fw_root = demo_root 3\<rparr>"

lemma demo_second:
  "file_run demo_pc demo_sip (SetHead (location_new 0 3)) demo_repaired = (Panic ''stopped'', demo_torn_twice)"
proof -
  let ?R = "(demo_root 2)\<lparr>rt_head := location_new 0 3, rt_generation := 3\<rparr>"
  have a: "dump_root demo_pc demo_sip root_a \<lparr>fw_file = demo_state (demo_data 2 2 2 2) (demo_data 2 2 2 1) [(8192, [0, 0, 0, 2]), (8196, [2, 2])]
       [IoDone 4, IoDone 1, IoStop], fw_root = ?R\<rparr> = (Panic ''stopped'', demo_torn_twice)"
    by (subst demo_dump_root(2) [of _ 3 3]) (simp_all add: demo_root_next demo_roots layout demo_write demo_torn_twice_def)
  have "usize_checked_add 2 1 = Some 3" by (simp add: usize_checked_add_def usize_limit_def)
  then show ?thesis by (simp only: demo_repaired_def demo_commit a prod.case result.case)
qed

lemma demo_crash2: "crash_data (fw_file demo_torn_twice) (of_data (demo_file (demo_data 3 2 2 1) es))"
  by (simp add: crash_data_def demo_torn_twice_def demo_write)

lemma demo_lost: "fw_open demo_pc demo_sip (demo_file (demo_data 3 2 2 1) []) = Err IoError"
  by (simp add: fw_open_def load_root_def [symmetric] demo_loads)

lemma demo_repaired_rep:
  "file_rep demo_pc demo_repaired [12288 \<mapsto> FactItem demo_facts] (Some (location_new 0 2))"
  using demo_codec demo_calm
  by (auto simp: demo_repaired_def file_rep_def demo_root_def free_start_def page_def off_limit_def item_stored_def item_bytes_def demo_pc_def
      demo_framed u32_limit_def holds_one demo_state_def demo_data_def reads_calm_def calm_def)

text \<open>
  C39. Opening a file repairs a lost record without a sync, so one record is not always
  valid: a commit on a synced file is cut off in the second record, the file is opened with
  its item and the new head, the next commit is cut off in the first record, and a crash
  that loses the repair as well leaves a file that cannot be opened.
\<close>

theorem repair_unsynced:
  "\<exists>pc sip w m h l w1 g1 w2 l' w3 g2.
     torn_detected pc sip \<and> file_rep pc w m (Some h) \<and> file_clean pc sip w \<and>
     snd (file_run pc sip (SetHead l) w) = w1 \<and> crash_data (fw_file w1) (of_data g1) \<and> of_durable g1 = of_data g1 \<and> of_pending g1 = [] \<and>
     fw_open pc sip g1 = Ok w2 \<and> file_rep pc w2 m (Some l) \<and>
     snd (file_run pc sip (SetHead l') w2) = w3 \<and> crash_data (fw_file w3) (of_data g2) \<and>
     reads_calm g2 \<and> of_events g2 = [] \<and> fw_open pc sip g2 = Err IoError"
proof (intro exI conjI)
  show "torn_detected demo_pc demo_sip" by (rule demo_torn)
  show "file_rep demo_pc (demo_writer (demo_data 1 1 1 1) demo_events 1) [12288 \<mapsto> FactItem demo_facts] (Some (location_new 0 1))"
    by (rule demo_rep)
  show "file_clean demo_pc demo_sip (demo_writer (demo_data 1 1 1 1) demo_events 1)" by (rule demo_clean)
  show "snd (file_run demo_pc demo_sip (SetHead (location_new 0 2)) (demo_writer (demo_data 1 1 1 1) demo_events 1)) = demo_cut"
    by (simp only: demo_first snd_conv)
  let ?g = "demo_file (demo_data 2 2 2 1) [IoDone 4, IoDone 2, IoDone 4, IoDone 1, IoStop]"
  show "crash_data (fw_file demo_cut) (of_data ?g)" by (rule demo_crash1)
  show "of_durable ?g = of_data ?g" "of_pending ?g = []" by simp_all
  show "fw_open demo_pc demo_sip ?g = Ok demo_repaired" by (rule demo_reopen)
  show "file_rep demo_pc demo_repaired [12288 \<mapsto> FactItem demo_facts] (Some (location_new 0 2))" by (rule demo_repaired_rep)
  show "snd (file_run demo_pc demo_sip (SetHead (location_new 0 3)) demo_repaired) = demo_torn_twice" by (simp only: demo_second snd_conv)
  let ?g' = "demo_file (demo_data 3 2 2 1) []"
  show "crash_data (fw_file demo_torn_twice) (of_data ?g')" by (rule demo_crash2)
  show "reads_calm ?g'" "of_events ?g' = []" by (simp_all add: demo_calm)
  show "fw_open demo_pc demo_sip ?g' = Err IoError" by (rule demo_lost)
qed

end
