(* ===== verification/Policy_Ast.thy ===== *)
theory Policy_Ast
  imports Policy_Module
begin

text \<open>
  The syntax tree of a policy (\<open>aranya-policy-ast/src/ast.rs\<close>) and the schemas of the
  foreign function modules (\<open>aranya-policy-module/src/ffi.rs\<close>) that a policy is compiled
  against. The records of statements with one or two fields are the arguments of their
  constructor.
\<close>

section \<open>Nodes\<close>

datatype 'a ast_node = AstNode (node_inner: 'a) (node_locator: nat)

section \<open>Expressions\<close>

datatype fact_count_type = CountUpTo | CountAtLeast | CountAtMost | CountExactly

datatype enum_reference = EnumReference (er_identifier: string) (er_value: string)

datatype expression =
    EInt i64
  | EString string
  | EBool bool
  | EOptional "expression option"
  | ENamedStruct named_struct
  | EInternalFunction internal_function
  | EFunctionCall function_call
  | EForeignFunctionCall foreign_function_call
  | EIdentifier string
  | EEnumReference enum_reference
  | EAdd expression expression
  | ESubtract expression expression
  | EAnd expression expression
  | EOr expression expression
  | EDot expression string
  | EEqual expression expression
  | ENotEqual expression expression
  | EGreaterThan expression expression
  | ELessThan expression expression
  | EGreaterThanOrEqual expression expression
  | ELessThanOrEqual expression expression
  | ENegative expression
  | ENot expression
  | EUnwrap expression
  | ECheckUnwrap expression
  | EIs expression bool
and fact_field = FFExpression expression | FFBind
and fact_literal = FactLiteral (fl_identifier: string) (fl_key_fields: "(string \<times> fact_field) list")
    (fl_value_fields: "(string \<times> fact_field) list option")
and named_struct = NamedStruct (ns_identifier: string) (ns_fields: "(string \<times> expression) list")
and function_call = FunctionCall (fc_identifier: string) (fc_arguments: "expression list")
and foreign_function_call = ForeignFunctionCall (ffc_module: string) (ffc_identifier: string)
    (ffc_arguments: "expression list")
and internal_function =
    IFQuery fact_literal
  | IFExists fact_literal
  | IFFactCount fact_count_type i64 fact_literal
  | IFIf expression expression expression
  | IFSerialize expression
  | IFDeserialize expression

section \<open>Statements\<close>

datatype match_pattern = PDefault | PValues "expression list"

datatype statement =
    SLet string expression
  | SCheck expression
  | SMatch expression "match_arm list"
  | SIf "(expression \<times> statement ast_node list) list" "statement ast_node list option"
  | SFinish "statement ast_node list"
  | SMap fact_literal string "statement ast_node list"
  | SReturn expression
  | SActionCall function_call
  | SPublish expression
  | SCreate fact_literal
  | SUpdate fact_literal "(string \<times> fact_field) list"
  | SDelete fact_literal
  | SEmit expression
  | SFunctionCall function_call
  | SDebugAssert expression
and match_arm = MatchArm (arm_pattern: match_pattern) (arm_statements: "statement ast_node list")

section \<open>Definitions\<close>

record effect_field_definition =
  efd_identifier :: string
  efd_field_type :: vtype
  efd_dynamic :: bool

definition effect_field :: "effect_field_definition \<Rightarrow> field_definition" where
  "effect_field v = \<lparr>fd_identifier = efd_identifier v, fd_field_type = efd_field_type v\<rparr>"

record enum_definition =
  ed_identifier :: string
  ed_values :: "string list"

record action_definition =
  ad_identifier :: string
  ad_arguments :: "field_definition list"
  ad_statements :: "statement ast_node list"

record effect_definition =
  efdef_identifier :: string
  efdef_fields :: "effect_field_definition list"

record struct_definition =
  sd_identifier :: string
  sd_fields :: "field_definition list"

record command_definition =
  cd_attributes :: "(string \<times> expression) list"
  cd_identifier :: string
  cd_fields :: "field_definition list"
  cd_seal :: "statement ast_node list"
  cd_open :: "statement ast_node list"
  cd_policy :: "statement ast_node list"
  cd_recall :: "statement ast_node list"

record function_definition =
  fn_identifier :: string
  fn_arguments :: "field_definition list"
  fn_return_type :: vtype
  fn_statements :: "statement ast_node list"

record finish_function_definition =
  ffn_identifier :: string
  ffn_arguments :: "field_definition list"
  ffn_statements :: "statement ast_node list"

record global_let_statement =
  gl_identifier :: string
  gl_expression :: expression

record policy_ast =
  p_ffi_imports :: "string list"
  p_facts :: "fact_definition ast_node list"
  p_actions :: "action_definition ast_node list"
  p_effects :: "effect_definition ast_node list"
  p_structs :: "struct_definition ast_node list"
  p_enums :: "enum_definition ast_node list"
  p_commands :: "command_definition ast_node list"
  p_functions :: "function_definition ast_node list"
  p_finish_functions :: "finish_function_definition ast_node list"
  p_global_lets :: "global_let_statement ast_node list"
  p_text :: string
  p_ranges :: "(nat \<times> nat) list"

text \<open>\<open>Policy::new\<close>: the text and nothing else.\<close>

definition policy_new :: "string \<Rightarrow> policy_ast" where
  "policy_new text = \<lparr>p_ffi_imports = [], p_facts = [], p_actions = [], p_effects = [],
     p_structs = [], p_enums = [], p_commands = [], p_functions = [], p_finish_functions = [],
     p_global_lets = [], p_text = text, p_ranges = []\<rparr>"

section \<open>Foreign function schemas\<close>

datatype ffi_type =
    FString
  | FBytes
  | FInt
  | FBool
  | FId
  | FStruct string
  | FOptional ffi_type

primrec vtype_of_ffi :: "ffi_type \<Rightarrow> vtype" where
  "vtype_of_ffi FString = TString"
| "vtype_of_ffi FBytes = TBytes"
| "vtype_of_ffi FInt = TInt"
| "vtype_of_ffi FBool = TBool"
| "vtype_of_ffi FId = TId"
| "vtype_of_ffi (FStruct s) = TStruct s"
| "vtype_of_ffi (FOptional t) = TOptional (vtype_of_ffi t)"

record ffi_arg =
  fa_name :: string
  fa_vtype :: ffi_type

record ffi_func =
  ff_name :: string
  ff_args :: "ffi_arg list"
  ff_return_type :: ffi_type

record ffi_struct =
  fs_name :: string
  fs_fields :: "ffi_arg list"

record module_schema =
  ms_name :: string
  ms_functions :: "ffi_func list"
  ms_structs :: "ffi_struct list"

section \<open>Sizes\<close>

text \<open>The parts of a tree are smaller than the tree, for recursion over it.\<close>

lemma size_list_mem: "x \<in> set xs \<Longrightarrow> f x < size_list f xs"
  by (induction xs) auto

lemma size_struct_field [termination_simp]: "f \<in> set (ns_fields ns) \<Longrightarrow> size (snd f) < size ns"
  using size_list_mem [of f "ns_fields ns" "size_prod (\<lambda>_. 0) size"]
  by (cases ns; cases f) simp

lemma size_argument [termination_simp]: "e \<in> set (fc_arguments f) \<Longrightarrow> size e < size f"
  using size_list_mem [of e "fc_arguments f" size] by (cases f) simp

lemma size_foreign_argument [termination_simp]: "e \<in> set (ffc_arguments f) \<Longrightarrow> size e < size f"
  using size_list_mem [of e "ffc_arguments f" size] by (cases f) simp

definition literal_fields :: "fact_literal \<Rightarrow> (string \<times> fact_field) list" where
  "literal_fields f = fl_key_fields f @ (case fl_value_fields f of None \<Rightarrow> [] | Some vs \<Rightarrow> vs)"

lemma size_literal_field [termination_simp]:
  assumes "(k, FFExpression e) \<in> set (literal_fields f)"
  shows "size e < size f"
proof (cases f)
  case (FactLiteral n ks vs)
  let ?sz = "size_prod (\<lambda>_. 0) size :: string \<times> fact_field \<Rightarrow> nat"
  have "?sz (k, FFExpression e) < size_list ?sz ks + size_option (size_list ?sz) vs"
    using assms FactLiteral size_list_mem [of "(k, FFExpression e)" ks ?sz]
      size_list_mem [of "(k, FFExpression e)" "the vs" ?sz]
    by (auto simp: literal_fields_def split: option.splits)
  then show ?thesis using FactLiteral by simp
qed

lemma size_block: "st \<in> set sts \<Longrightarrow> size (node_inner st) < size_list (size_ast_node size) sts"
  using size_list_mem [of st sts "size_ast_node size"] by (cases st) simp

lemma size_arm:
  assumes "a \<in> set (zip arms ls)" "st \<in> set (arm_statements (fst a))"
  shows "size (node_inner st) < size_list size arms"
proof -
  have "fst a \<in> set arms" using assms(1) by (metis prod.collapse set_zip_leftD)
  then have "size (fst a) < size_list size arms" by (rule size_list_mem)
  with size_block [OF assms(2)] show ?thesis by (cases "fst a") simp
qed

lemma size_branch:
  assumes "b \<in> set bs" "st \<in> set (snd b)"
  shows "size (node_inner st) < size_list (size_prod (\<lambda>_. 0) (size_list (size_ast_node size))) bs"
  using size_list_mem [OF assms(1), of "size_prod (\<lambda>_. 0) (size_list (size_ast_node size))"]
    size_block [OF assms(2)] by (cases b) simp

end
