(* ===== verification/Compiler_Types.thy ===== *)
theory Compiler_Types
  imports Policy_Ast
begin

text \<open>
  The state of the policy compiler and its view of types
  (\<open>aranya-policy-compiler/src/compile/error.rs\<close>, \<open>target.rs\<close>, \<open>types.rs\<close> and the first
  part of \<open>compile.rs\<close>): compile errors with their source position, the compile target, the
  stack of identifier types, and the calculation of the type of an expression.
\<close>

section \<open>Errors\<close>

datatype call_color = CallPure | CallFinish

datatype statement_context =
    SCAction action_definition
  | SCCommandPolicy command_definition
  | SCCommandRecall command_definition
  | SCPureFunction function_definition
  | SCFinish

datatype compile_error_type =
    CEInvalidStatement statement_context
  | CEInvalidExpression expression
  | CEInvalidType string
  | CEInvalidCallColor call_color
  | CEBadTarget string
  | CEBadArgument string
  | CENotDefined string
  | CEAlreadyDefined string
  | CEReservedIdentifier string
  | CEMissing string
  | CEInvalidFactLiteral string
  | CENoReturn
  | CEValidation
  | CEBug string
  | CEUnknown string

record compile_error =
  ce_err_type :: compile_error_type
  ce_source :: "((nat \<times> nat) \<times> string) option"

definition compile_error_new :: "compile_error_type \<Rightarrow> compile_error" where
  "compile_error_new t = \<lparr>ce_err_type = t, ce_source = None\<rparr>"

text \<open>The error, or the panic of computing its line and column.\<close>

definition from_locator :: "compile_error_type \<Rightarrow> nat \<Rightarrow> code_map option \<Rightarrow> (compile_error, 'e) result" where
  "from_locator t locator codemap =
     (case Option.bind codemap (span_from_locator locator) of
        None \<Rightarrow> Ok \<lparr>ce_err_type = t, ce_source = None\<rparr>
      | Some sp \<Rightarrow> rbind (start_linecol sp) (\<lambda>linecol.
          Ok \<lparr>ce_err_type = t, ce_source = Some (linecol, span_as_str sp)\<rparr>))"

section \<open>Calculated types\<close>

datatype typeish = Type vtype | Indeterminate

fun map_vtype :: "(vtype \<Rightarrow> vtype) \<Rightarrow> typeish \<Rightarrow> typeish" where
  "map_vtype f (Type t) = Type (f t)"
| "map_vtype f Indeterminate = Indeterminate"

fun map_result :: "(vtype \<Rightarrow> (typeish, string) result) \<Rightarrow> typeish \<Rightarrow> (typeish, string) result" where
  "map_result f (Type t) = f t"
| "map_result f Indeterminate = Ok Indeterminate"

fun is_equal :: "typeish \<Rightarrow> typeish \<Rightarrow> bool" where
  "is_equal (Type x) (Type y) = (x = y)"
| "is_equal _ _ = False"

fun is_maybe :: "typeish \<Rightarrow> vtype \<Rightarrow> bool" where
  "is_maybe (Type t) ot = (t = ot)"
| "is_maybe Indeterminate ot = True"

fun typeish_display :: "typeish \<Rightarrow> string" where
  "typeish_display (Type t) = vtype_display t"
| "typeish_display Indeterminate = ''indeterminate''"

section \<open>The stack of identifier types\<close>

text \<open>
  Hash maps are partial functions. Both vectors grow at their end, so the innermost
  block is the last one.
\<close>

record identifier_type_stack =
  its_globals :: "string \<rightharpoonup> typeish"
  its_locals :: "(string \<rightharpoonup> typeish) list list"

definition its_new :: identifier_type_stack where
  "its_new = \<lparr>its_globals = Map.empty, its_locals = [[Map.empty]]\<rparr>"

type_synonym 'a its_prog = "(identifier_type_stack, 'a, compile_error_type) prog"

definition its_add_global :: "string \<Rightarrow> typeish \<Rightarrow> unit its_prog" where
  "its_add_global name v = (\<lambda>t.
     if its_globals t name \<noteq> None then (Err (CEAlreadyDefined name), t)
     else (Ok (), t\<lparr>its_globals := (its_globals t)(name \<mapsto> v)\<rparr>))"

text \<open>
  \<open>add\<close> refuses a name of a global or of an outer block. A name that the block already
  has keeps its first type; two different types are an error.
\<close>

definition its_add :: "string \<Rightarrow> typeish \<Rightarrow> unit its_prog" where
  "its_add name v = (\<lambda>t.
     if its_globals t name \<noteq> None then (Err (CEAlreadyDefined name), t)
     else if its_locals t = [] then (Panic ''no function scope'', t)
     else let locals = last (its_locals t) in
       if list_ex (\<lambda>prev. prev name \<noteq> None) (tl (rev locals)) then (Err (CEAlreadyDefined name), t)
       else if locals = [] then (Panic ''no block scope'', t)
       else case last locals name of
         Some old \<Rightarrow>
           (case (old, v) of
              (Type ty1, Type ty2) \<Rightarrow>
                if ty1 \<noteq> ty2 then
                  (Err (CEInvalidType (''Definitions of `'' @ name @ ''` do not have the same type: ''
                     @ vtype_display ty1 @ '' != '' @ vtype_display ty2)), t)
                else (Ok (), t)
            | _ \<Rightarrow> (Ok (), t))
       | None \<Rightarrow> (Ok (), t\<lparr>its_locals := butlast (its_locals t) @
             [butlast locals @ [(last locals)(name \<mapsto> v)]]\<rparr>))"

fun find_scope :: "(string \<rightharpoonup> typeish) list \<Rightarrow> string \<Rightarrow> typeish option" where
  "find_scope [] name = None"
| "find_scope (scope # scopes) name =
     (case scope name of Some v \<Rightarrow> Some v | None \<Rightarrow> find_scope scopes name)"

definition its_get :: "identifier_type_stack \<Rightarrow> string \<Rightarrow> (typeish, compile_error_type) result" where
  "its_get t name =
     (case (if its_locals t = [] then None else find_scope (rev (last (its_locals t))) name) of
        Some v \<Rightarrow> Ok v
      | None \<Rightarrow> ok_or (CENotDefined name) (its_globals t name))"

definition its_enter_function :: "unit its_prog" where
  "its_enter_function = pmodify (\<lambda>t. t\<lparr>its_locals := its_locals t @ [[Map.empty]]\<rparr>)"

definition its_exit_function :: "unit its_prog" where
  "its_exit_function = (\<lambda>t.
     if its_locals t = [] then (Panic ''no function scope'', t)
     else (Ok (), t\<lparr>its_locals := butlast (its_locals t)\<rparr>))"

definition its_enter_block :: "unit its_prog" where
  "its_enter_block = (\<lambda>t.
     if its_locals t = [] then (Panic ''no function scope'', t)
     else (Ok (), t\<lparr>its_locals := butlast (its_locals t) @ [last (its_locals t) @ [Map.empty]]\<rparr>))"

definition its_exit_block :: "unit its_prog" where
  "its_exit_block = (\<lambda>t.
     if its_locals t = [] then (Panic ''no function scope'', t)
     else if last (its_locals t) = [] then (Panic ''no block scope'', t)
     else (Ok (), t\<lparr>its_locals := butlast (its_locals t) @ [butlast (last (its_locals t))]\<rparr>))"

section \<open>The compile state\<close>

record compile_target =
  ct_progmem :: "instruction list"
  ct_labels :: "(label, nat) btree_map"
  ct_action_defs :: "(string, field_definition list) btree_map"
  ct_command_defs :: "(string, (string, vtype) btree_map) btree_map"
  ct_fact_defs :: "(string, fact_definition) btree_map"
  ct_struct_defs :: "(string, field_definition list) btree_map"
  ct_command_attributes :: "(string, (string, pvalue) btree_map) btree_map"
  ct_codemap :: "code_map option"
  ct_globals :: "(string, pvalue) btree_map"

definition compile_target_new :: "code_map \<Rightarrow> compile_target" where
  "compile_target_new codemap =
     \<lparr>ct_progmem = [], ct_labels = [], ct_action_defs = [], ct_command_defs = [], ct_fact_defs = [],
      ct_struct_defs = [], ct_command_attributes = [], ct_codemap = Some codemap, ct_globals = []\<rparr>"

definition into_module :: "compile_target \<Rightarrow> policy_module" where
  "into_module t =
     \<lparr>module_data = ModuleV0
       \<lparr>m_progmem = ct_progmem t, m_labels = ct_labels t, m_action_defs = ct_action_defs t,
        m_command_defs = ct_command_defs t, m_fact_defs = ct_fact_defs t,
        m_struct_defs = ct_struct_defs t, m_command_attributes = ct_command_attributes t,
        m_codemap = ct_codemap t, m_globals = ct_globals t\<rparr>\<rparr>"

datatype function_color = ColorPure vtype | ColorFinish

record function_signature =
  sig_args :: "vtype list"
  sig_color :: function_color

record compile_state =
  cs_policy :: policy_ast
  cs_m :: compile_target
  cs_wp :: nat
  cs_c :: nat
  cs_function_signatures :: "(string, function_signature) btree_map"
  cs_last_locator :: nat
  cs_statement_context :: "statement_context list"
  cs_identifier_types :: identifier_type_stack
  cs_ffi_modules :: "module_schema list"
  cs_enum_values :: "(string, string list) btree_map"
  cs_is_debug :: bool
  cs_stub_ffi :: bool

type_synonym 'a cprog = "(compile_state, 'a, compile_error) prog"

section \<open>The type of an expression\<close>

definition struct_type :: "compile_state \<Rightarrow> named_struct \<Rightarrow> (typeish, string) result" where
  "struct_type s ns =
     (if bt_contains (ct_struct_defs (cs_m s)) (ns_identifier ns) then Ok (Type (TStruct (ns_identifier ns)))
      else Err (''Struct `'' @ ns_identifier ns @ ''` not defined''))"

definition query_fact_type :: "compile_state \<Rightarrow> fact_literal \<Rightarrow> (typeish, string) result" where
  "query_fact_type s f =
     (if bt_contains (ct_fact_defs (cs_m s)) (fl_identifier f) then Ok (Type (TStruct (fl_identifier f)))
      else Err (''Fact `'' @ fl_identifier f @ ''` not defined''))"

text \<open>The arguments are the outcomes for the left and the right expression.\<close>

definition unify_pair :: "(typeish, string) result \<Rightarrow> (typeish, string) result \<Rightarrow> (typeish, string) result" where
  "unify_pair left right =
     rbind left (\<lambda>left_type. rbind right (\<lambda>right_type.
       if is_equal left_type right_type then Ok left_type
       else if left_type = Indeterminate \<or> right_type = Indeterminate then Ok Indeterminate
       else Err (''types do not match: '' @ typeish_display left_type @ '' and ''
              @ typeish_display right_type)))"

text \<open>The check that a definite type is the one the operator needs.\<close>

definition expect_type :: "vtype \<Rightarrow> vtype \<Rightarrow> string \<Rightarrow> typeish \<Rightarrow> (typeish, string) result" where
  "expect_type want out msg = map_result (\<lambda>t. if t \<noteq> want then Err msg else Ok (Type out))"

definition unwrap_type :: "typeish \<Rightarrow> (typeish, string) result" where
  "unwrap_type = map_result (\<lambda>t. case t of
      TOptional t' \<Rightarrow> Ok (Type t')
    | _ \<Rightarrow> Err ''Cannot unwrap non-option expression'')"

definition dot_type :: "compile_state \<Rightarrow> string \<Rightarrow> typeish \<Rightarrow> (typeish, string) result" where
  "dot_type s field = map_result (\<lambda>t. case t of
      TStruct name \<Rightarrow>
        (case bt_get (ct_struct_defs (cs_m s)) name of
           None \<Rightarrow> Err (''Struct `'' @ name @ ''` not defined'')
         | Some struct_def \<Rightarrow>
             (case find (\<lambda>f. fd_identifier f = field) struct_def of
                Some field_def \<Rightarrow> Ok (Type (fd_field_type field_def))
              | None \<Rightarrow> Err (''Struct `'' @ name @ ''` has no member `'' @ field @ ''`'')))
    | _ \<Rightarrow> Err ''Expression left of `.` is not a struct'')"

definition foreign_type :: "compile_state \<Rightarrow> foreign_function_call \<Rightarrow> (typeish, string) result" where
  "foreign_type s f =
     (if cs_stub_ffi s then Ok Indeterminate
      else case find (\<lambda>m. ms_name m = ffc_module f) (cs_ffi_modules s) of
        None \<Rightarrow> Err (''Module `'' @ ffc_module f @ ''` not found'')
      | Some module \<Rightarrow>
          (case find (\<lambda>mf. ff_name mf = ffc_identifier f) (ms_functions module) of
             Some ffi_def \<Rightarrow> Ok (Type (vtype_of_ffi (ff_return_type ffi_def)))
           | None \<Rightarrow> Err (''Foreign function `'' @ ms_name module @ ''::'' @ ffc_identifier f
                      @ ''` not defined'')))"

definition call_type :: "compile_state \<Rightarrow> function_call \<Rightarrow> (typeish, string) result" where
  "call_type s f =
     (case bt_get (cs_function_signatures s) (fc_identifier f) of
        Some func_def \<Rightarrow>
          (case sig_color func_def of
             ColorPure t \<Rightarrow> Ok (Type t)
           | ColorFinish \<Rightarrow>
               Err ''Finish functions are not allowed outside of finish blocks or finish functions'')
      | None \<Rightarrow> Err (''Function `'' @ fc_identifier f @ ''` not defined''))"

fun calculate_expression_type :: "compile_state \<Rightarrow> expression \<Rightarrow> (typeish, string) result" where
  "calculate_expression_type s (EInt _) = Ok (Type TInt)"
| "calculate_expression_type s (EString _) = Ok (Type TString)"
| "calculate_expression_type s (EBool _) = Ok (Type TBool)"
| "calculate_expression_type s (EOptional (Some t)) =
     rmap (map_vtype TOptional) (calculate_expression_type s t)"
| "calculate_expression_type s (EOptional None) = Ok Indeterminate"
| "calculate_expression_type s (ENamedStruct ns) = struct_type s ns"
| "calculate_expression_type s (EInternalFunction (IFQuery f)) =
     rmap (map_vtype TOptional) (query_fact_type s f)"
| "calculate_expression_type s (EInternalFunction (IFExists _)) = Ok (Type TBool)"
| "calculate_expression_type s (EInternalFunction (IFIf c t f)) =
     rbind (calculate_expression_type s c) (\<lambda>condition_type.
       if \<not> is_maybe condition_type TBool then Err ''if condition must be a boolean expression''
       else unify_pair (calculate_expression_type s t) (calculate_expression_type s f))"
| "calculate_expression_type s (EInternalFunction (IFSerialize _)) = Ok (Type TBytes)"
| "calculate_expression_type s (EInternalFunction (IFDeserialize _)) = Ok Indeterminate"
| "calculate_expression_type s (EInternalFunction (IFFactCount cmp_type _ _)) =
     (case cmp_type of CountUpTo \<Rightarrow> Ok (Type TInt) | _ \<Rightarrow> Ok (Type TBool))"
| "calculate_expression_type s (EFunctionCall f) = call_type s f"
| "calculate_expression_type s (EForeignFunctionCall f) = foreign_type s f"
| "calculate_expression_type s (EIdentifier i) =
     map_err (\<lambda>_. ''Unknown identifier `'' @ i @ ''`'') (its_get (cs_identifier_types s) i)"
| "calculate_expression_type s (EAdd l r) =
     rbind (unify_pair (calculate_expression_type s l) (calculate_expression_type s r))
       (expect_type TInt TInt ''Cannot do math on non-int types'')"
| "calculate_expression_type s (ESubtract l r) =
     rbind (unify_pair (calculate_expression_type s l) (calculate_expression_type s r))
       (expect_type TInt TInt ''Cannot do math on non-int types'')"
| "calculate_expression_type s (EAnd l r) =
     rbind (unify_pair (calculate_expression_type s l) (calculate_expression_type s r))
       (expect_type TBool TBool ''Cannot use boolean operator on non-bool types'')"
| "calculate_expression_type s (EOr l r) =
     rbind (unify_pair (calculate_expression_type s l) (calculate_expression_type s r))
       (expect_type TBool TBool ''Cannot use boolean operator on non-bool types'')"
| "calculate_expression_type s (EDot e field) =
     rbind (calculate_expression_type s e) (dot_type s field)"
| "calculate_expression_type s (EEqual l r) =
     rbind (unify_pair (calculate_expression_type s l) (calculate_expression_type s r))
       (\<lambda>_. Ok (Type TBool))"
| "calculate_expression_type s (ENotEqual l r) =
     rbind (unify_pair (calculate_expression_type s l) (calculate_expression_type s r))
       (\<lambda>_. Ok (Type TBool))"
| "calculate_expression_type s (EGreaterThan l r) =
     rbind (unify_pair (calculate_expression_type s l) (calculate_expression_type s r))
       (expect_type TInt TBool ''Cannot compare non-int expressions'')"
| "calculate_expression_type s (ELessThan l r) =
     rbind (unify_pair (calculate_expression_type s l) (calculate_expression_type s r))
       (expect_type TInt TBool ''Cannot compare non-int expressions'')"
| "calculate_expression_type s (EGreaterThanOrEqual l r) =
     rbind (unify_pair (calculate_expression_type s l) (calculate_expression_type s r))
       (expect_type TInt TBool ''Cannot compare non-int expressions'')"
| "calculate_expression_type s (ELessThanOrEqual l r) =
     rbind (unify_pair (calculate_expression_type s l) (calculate_expression_type s r))
       (expect_type TInt TBool ''Cannot compare non-int expressions'')"
| "calculate_expression_type s (ENegative e) =
     rbind (calculate_expression_type s e) (expect_type TInt TInt ''Cannot negate non-int expression'')"
| "calculate_expression_type s (ENot e) =
     rbind (calculate_expression_type s e) (expect_type TBool TBool ''Cannot invert non-boolean expression'')"
| "calculate_expression_type s (EUnwrap e) = rbind (calculate_expression_type s e) unwrap_type"
| "calculate_expression_type s (ECheckUnwrap e) = rbind (calculate_expression_type s e) unwrap_type"
| "calculate_expression_type s (EIs a _) =
     rbind (calculate_expression_type s a) (map_result (\<lambda>t. case t of
         TOptional _ \<Rightarrow> Ok (Type TBool)
       | _ \<Rightarrow> Err ''`is` must operate on an optional expression`''))"
| "calculate_expression_type s (EEnumReference e) = Ok (Type (TEnum (er_identifier e)))"

end
