(* ===== verification/Compiler.thy ===== *)
theory Compiler
  imports Compiler_Types
begin

text \<open>
  The policy compiler (\<open>aranya-policy-compiler/src/compile.rs\<close>): from the syntax tree of a
  policy to a module of instructions, labels and schemas. The methods of \<open>CompileState\<close> are
  programs on the compile state. A function that recurses into expressions or statements
  through a list takes the recursive call as its argument.
\<close>

section \<open>Errors and loops\<close>

definition err_loc :: "compile_error_type \<Rightarrow> nat \<Rightarrow> 'a cprog" where
  "err_loc t locator = (\<lambda>s.
     case from_locator t locator (ct_codemap (cs_m s)) of
       Ok e \<Rightarrow> (Err e, s)
     | Err e \<Rightarrow> (Err e, s)
     | Panic p \<Rightarrow> (Panic p, s))"

definition err :: "compile_error_type \<Rightarrow> 'a cprog" where
  "err t = pbind (pgets cs_last_locator) (err_loc t)"

text \<open>The conversion by \<open>?\<close> of an error kind without position.\<close>

definition err_plain :: "compile_error_type \<Rightarrow> 'a cprog" where
  "err_plain t = pfail (compile_error_new t)"

definition its_op :: "'a its_prog \<Rightarrow> 'a cprog" where
  "its_op m = (\<lambda>s. case m (cs_identifier_types s) of
      (Ok a, t) \<Rightarrow> (Ok a, s\<lparr>cs_identifier_types := t\<rparr>)
    | (Err e, t) \<Rightarrow> (Err (compile_error_new e), s\<lparr>cs_identifier_types := t\<rparr>)
    | (Panic p, t) \<Rightarrow> (Panic p, s\<lparr>cs_identifier_types := t\<rparr>))"

definition modify_target :: "(compile_target \<Rightarrow> compile_target) \<Rightarrow> unit cprog" where
  "modify_target f = pmodify (\<lambda>s. s\<lparr>cs_m := f (cs_m s)\<rparr>)"

abbreviation pthen :: "('s, unit, 'e) prog \<Rightarrow> ('s, 'b, 'e) prog \<Rightarrow> ('s, 'b, 'e) prog" where
  "pthen m n \<equiv> pbind m (\<lambda>_. n)"

fun for_each :: "'a list \<Rightarrow> ('a \<Rightarrow> ('s, unit, 'e) prog) \<Rightarrow> ('s, unit, 'e) prog" where
  "for_each [] f = preturn ()"
| "for_each (x # xs) f = pthen (f x) (for_each xs f)"

lemma for_each_cong [fundef_cong]:
  "xs = ys \<Longrightarrow> (\<And>x. x \<in> set ys \<Longrightarrow> f x = g x) \<Longrightarrow> for_each xs f = for_each ys g"
  by (induction xs arbitrary: ys) auto

section \<open>Statement contexts\<close>

definition enter_statement_context :: "statement_context \<Rightarrow> unit cprog" where
  "enter_statement_context c = pmodify (\<lambda>s. s\<lparr>cs_statement_context := cs_statement_context s @ [c]\<rparr>)"

definition exit_statement_context :: "unit cprog" where
  "exit_statement_context = pmodify (\<lambda>s. s\<lparr>cs_statement_context := butlast (cs_statement_context s)\<rparr>)"

definition get_statement_context :: "statement_context cprog" where
  "get_statement_context = pbind (pgets cs_statement_context) (\<lambda>cs.
     if cs = [] then err (CEBug ''compiling statement without statement context'')
     else preturn (last cs))"

fun is_pure_function :: "statement_context \<Rightarrow> bool" where
  "is_pure_function (SCPureFunction _) = True"
| "is_pure_function _ = False"

fun is_action :: "statement_context \<Rightarrow> bool" where
  "is_action (SCAction _) = True"
| "is_action _ = False"

fun is_command :: "statement_context \<Rightarrow> bool" where
  "is_command (SCCommandPolicy _) = True"
| "is_command (SCCommandRecall _) = True"
| "is_command _ = False"

section \<open>Instructions and definitions\<close>

definition append_instruction :: "instruction \<Rightarrow> unit cprog" where
  "append_instruction i = (\<lambda>s.
     let s' = s\<lparr>cs_m := (cs_m s)\<lparr>ct_progmem := ct_progmem (cs_m s) @ [i]\<rparr>\<rparr> in
     case usize_checked_add (cs_wp s) 1 of
       None \<Rightarrow> (Panic ''self.wp + 1 must not wrap'', s')
     | Some n \<Rightarrow> (Ok (), s'\<lparr>cs_wp := n\<rparr>))"

definition append_var :: "string \<Rightarrow> vtype \<Rightarrow> unit cprog" where
  "append_var identifier vtype =
     pthen (append_instruction (IMeta (MetaLet identifier))) (
     pthen (append_instruction (IDef identifier)) (
     its_op (its_add identifier (Type vtype))))"

text \<open>The first identifier that was inserted into the set before.\<close>

fun first_repeated :: "'a list \<Rightarrow> 'a list \<Rightarrow> 'a option" where
  "first_repeated seen [] = None"
| "first_repeated seen (x # xs) = (if x \<in> set seen then Some x else first_repeated (x # seen) xs)"

definition define_fact :: "fact_definition \<Rightarrow> unit cprog" where
  "define_fact fdef = pbind (pgets (ct_fact_defs \<circ> cs_m)) (\<lambda>defs.
     if bt_contains defs (fdef_identifier fdef) then err (CEAlreadyDefined (fdef_identifier fdef))
     else case first_repeated [] (map fd_identifier (fdef_key fdef) @ map fd_identifier (fdef_value fdef)) of
       Some identifier \<Rightarrow> err (CEAlreadyDefined identifier)
     | None \<Rightarrow> modify_target (\<lambda>m. m\<lparr>ct_fact_defs := bt_insert (fdef_identifier fdef) fdef (ct_fact_defs m)\<rparr>))"

definition define_struct :: "string \<Rightarrow> field_definition list \<Rightarrow> unit cprog" where
  "define_struct identifier fds = pbind (pgets (ct_struct_defs \<circ> cs_m)) (\<lambda>defs.
     if bt_contains defs identifier then err (CEAlreadyDefined identifier)
     else case first_repeated [] (map fd_identifier fds) of
       Some field \<Rightarrow> err (CEAlreadyDefined field)
     | None \<Rightarrow> modify_target (\<lambda>m. m\<lparr>ct_struct_defs := bt_insert identifier fds (ct_struct_defs m)\<rparr>))"

definition compile_enum_definition :: "enum_definition \<Rightarrow> unit cprog" where
  "compile_enum_definition enum_def = pbind (pgets cs_enum_values) (\<lambda>defs.
     if bt_contains defs (ed_identifier enum_def) then err (CEAlreadyDefined (ed_identifier enum_def))
     else case first_repeated [] (ed_values enum_def) of
       Some value_name \<Rightarrow> err (CEAlreadyDefined (ed_identifier enum_def @ ''::'' @ value_name))
     | None \<Rightarrow> pmodify (\<lambda>s. s\<lparr>cs_enum_values :=
         bt_insert (ed_identifier enum_def) (ed_values enum_def) (cs_enum_values s)\<rparr>))"

definition insert_signature :: "string \<Rightarrow> function_signature \<Rightarrow> nat \<Rightarrow> unit cprog" where
  "insert_signature identifier signature locator = pbind (pgets cs_function_signatures) (\<lambda>sigs.
     if bt_contains sigs identifier then err_loc (CEAlreadyDefined identifier) locator
     else pmodify (\<lambda>s. s\<lparr>cs_function_signatures :=
       bt_insert identifier signature (cs_function_signatures s)\<rparr>))"

definition define_function_signature :: "function_definition ast_node \<Rightarrow> unit cprog" where
  "define_function_signature node = (let def = node_inner node in
     insert_signature (fn_identifier def)
       \<lparr>sig_args = map fd_field_type (fn_arguments def), sig_color = ColorPure (fn_return_type def)\<rparr>
       (node_locator node))"

definition define_finish_function_signature :: "finish_function_definition ast_node \<Rightarrow> unit cprog" where
  "define_finish_function_signature node = (let def = node_inner node in
     insert_signature (ffn_identifier def)
       \<lparr>sig_args = map fd_field_type (ffn_arguments def), sig_color = ColorFinish\<rparr>
       (node_locator node))"

section \<open>Labels and targets\<close>

definition define_label :: "label \<Rightarrow> nat \<Rightarrow> unit cprog" where
  "define_label label addr = pbind (pgets (ct_labels \<circ> cs_m)) (\<lambda>labels.
     if bt_contains labels label then err (CEAlreadyDefined (label_name label))
     else modify_target (\<lambda>m. m\<lparr>ct_labels := bt_insert label addr (ct_labels m)\<rparr>))"

text \<open>Most labels are defined at the write pointer.\<close>

definition define_here :: "label \<Rightarrow> unit cprog" where
  "define_here label = pbind (pgets cs_wp) (define_label label)"

definition anonymous_label :: "label cprog" where
  "anonymous_label = pbind (pgets cs_c) (\<lambda>c.
     case usize_checked_add c 1 of
       None \<Rightarrow> ppanic ''self.c + 1 must not wrap''
     | Some c' \<Rightarrow> pthen (pmodify (\<lambda>s. s\<lparr>cs_c := c'\<rparr>))
         (preturn (label_new_temp (''anonymous'' @ show_nat c))))"

definition map_range :: "nat \<Rightarrow> unit cprog" where
  "map_range locator =
     pthen (pmodify (\<lambda>s. s\<lparr>cs_last_locator := locator\<rparr>)) (
     pbind (pgets (ct_codemap \<circ> cs_m)) (\<lambda>codemap.
     pbind (pgets cs_wp) (\<lambda>addr.
     case codemap of
       None \<Rightarrow> preturn ()
     | Some cm \<Rightarrow>
         (case map_instruction_range addr locator cm of
            Some cm' \<Rightarrow> modify_target (\<lambda>m. m\<lparr>ct_codemap := Some cm'\<rparr>)
          | None \<Rightarrow> err_loc (CEUnknown (''could not map address '' @ show_nat addr @ '' to text range ''
                      @ show_nat locator)) locator))))"

fun resolve_target :: "(label, nat) btree_map \<Rightarrow> target \<Rightarrow> (target, compile_error) result" where
  "resolve_target labels (Unresolved l) =
     (case bt_get labels l of
        None \<Rightarrow> Err (compile_error_new (CEBadTarget (label_name l)))
      | Some addr \<Rightarrow> Ok (Resolved addr))"
| "resolve_target labels (Resolved n) = Ok (Resolved n)"

fun resolve_instruction :: "(label, nat) btree_map \<Rightarrow> instruction \<Rightarrow> (instruction, compile_error) result" where
  "resolve_instruction labels (IBranch t) = rmap IBranch (resolve_target labels t)"
| "resolve_instruction labels (IJump t) = rmap IJump (resolve_target labels t)"
| "resolve_instruction labels (ICall t) = rmap ICall (resolve_target labels t)"
| "resolve_instruction labels i = Ok i"

text \<open>A failed resolution ends the compilation, so the targets resolved before it are not kept.\<close>

definition resolve_targets :: "unit cprog" where
  "resolve_targets = pbind (pgets cs_m) (\<lambda>m.
     pbind (plift (rseq (map (resolve_instruction (ct_labels m)) (ct_progmem m)))) (\<lambda>progmem.
     modify_target (\<lambda>m. m\<lparr>ct_progmem := progmem,
       ct_labels := filter (\<lambda>(k, _). label_ltype k \<noteq> LTemporary) (ct_labels m)\<rparr>)))"

section \<open>Fact literals against their schema\<close>

fun expression_vtype :: "expression \<Rightarrow> vtype option" where
  "expression_vtype (EInt _) = Some TInt"
| "expression_vtype (EBool _) = Some TBool"
| "expression_vtype (EString _) = Some TString"
| "expression_vtype (ENamedStruct s) = Some (TStruct (ns_identifier s))"
| "expression_vtype (EOptional (Some e)) = map_option TOptional (expression_vtype e)"
| "expression_vtype _ = None"

fun field_vtype :: "fact_field \<Rightarrow> vtype option" where
  "field_vtype (FFExpression e) = expression_vtype e"
| "field_vtype FFBind = None"

definition get_fact_def :: "string \<Rightarrow> fact_definition cprog" where
  "get_fact_def name = pbind (pgets (ct_fact_defs \<circ> cs_m)) (\<lambda>defs.
     case bt_get defs name of
       None \<Rightarrow> err (CENotDefined name)
     | Some def \<Rightarrow> preturn def)"

definition verify_fact_values :: "(string \<times> fact_field) list \<Rightarrow> fact_definition \<Rightarrow> unit cprog" where
  "verify_fact_values vals fact_def =
     (if length vals \<noteq> length (fdef_value fact_def)
      then err (CEInvalidFactLiteral ''incorrect number of values'')
      else for_each (zip vals (fdef_value fact_def)) (\<lambda>(lit_value, schema_value).
        if fst lit_value \<noteq> fd_identifier schema_value
        then err (CEInvalidFactLiteral (''Expected value '' @ fd_identifier schema_value @ '', got '' @ fst lit_value))
        else case field_vtype (snd lit_value) of
          None \<Rightarrow> preturn ()
        | Some lit_type \<Rightarrow>
            if lit_type \<noteq> fd_field_type schema_value
            then err (CEInvalidType (''field `'' @ fd_identifier schema_value @ ''` type should be ''
                   @ vtype_display (fd_field_type schema_value)))
            else preturn ()))"

definition verify_fact_key :: "field_definition \<times> string \<times> fact_field \<Rightarrow> unit cprog" where
  "verify_fact_key = (\<lambda>(schema_key, lit_key).
     if fd_identifier schema_key \<noteq> fst lit_key
     then err (CEInvalidFactLiteral (''Invalid key: expected '' @ fd_identifier schema_key @ '', got '' @ fst lit_key))
     else case field_vtype (snd lit_key) of
       None \<Rightarrow> preturn ()
     | Some vtype \<Rightarrow>
         if \<not> (vtype \<in> {TInt, TBool, TString, TId} \<and> fd_field_type schema_key = vtype)
         then err (CEInvalidType (''Fact field `'' @ fd_identifier schema_key @ ''` must be ''
                @ vtype_display (fd_field_type schema_key)))
         else preturn ())"

definition verify_fact_against_schema :: "fact_literal \<Rightarrow> bool \<Rightarrow> unit cprog" where
  "verify_fact_against_schema lit require_value =
     pbind (get_fact_def (fl_identifier lit)) (\<lambda>fact_def.
     if length (fl_key_fields lit) \<noteq> length (fdef_key fact_def)
     then err (CEInvalidFactLiteral ''Fact keys don't match definition'')
     else pthen (for_each (zip (fdef_key fact_def) (fl_key_fields lit)) verify_fact_key) (
       case fl_value_fields lit of
         Some vals \<Rightarrow> verify_fact_values vals fact_def
       | None \<Rightarrow>
           if require_value then err (CEInvalidFactLiteral ''fact literal requires value'')
           else preturn ()))"

section \<open>Expressions\<close>

text \<open>
  \<open>ce\<close> is the compilation of a subexpression. The type it returns is not used by the
  callers below.
\<close>

definition compile_struct_literal :: "(expression \<Rightarrow> typeish cprog) \<Rightarrow> named_struct \<Rightarrow> unit cprog" where
  "compile_struct_literal ce ns = pbind (pgets (ct_struct_defs \<circ> cs_m)) (\<lambda>defs.
     if \<not> bt_contains defs (ns_identifier ns) then err (CEBadArgument (ns_identifier ns))
     else pthen (append_instruction (IStructNew (ns_identifier ns)))
       (for_each (ns_fields ns) (\<lambda>field.
          pbind (ce (snd field)) (\<lambda>_. append_instruction (IStructSet (fst field))))))"

definition compile_field :: "(expression \<Rightarrow> typeish cprog) \<Rightarrow> instruction \<Rightarrow> fact_field \<Rightarrow> unit cprog" where
  "compile_field ce i field = (case field of
      FFExpression e \<Rightarrow> pbind (ce e) (\<lambda>_. append_instruction i)
    | FFBind \<Rightarrow> preturn ())"

definition compile_fact_literal :: "(expression \<Rightarrow> typeish cprog) \<Rightarrow> fact_literal \<Rightarrow> unit cprog" where
  "compile_fact_literal ce f =
     pthen (append_instruction (IFactNew (fl_identifier f))) (
     pthen (for_each (fl_key_fields f) (\<lambda>field. compile_field ce (IFactKeySet (fst field)) (snd field)))
       (case fl_value_fields f of
          None \<Rightarrow> preturn ()
        | Some value_fields \<Rightarrow>
            for_each value_fields (\<lambda>field. compile_field ce (IFactValueSet (fst field)) (snd field))))"

definition compile_function_call :: "(expression \<Rightarrow> typeish cprog) \<Rightarrow> function_call \<Rightarrow> bool \<Rightarrow> unit cprog" where
  "compile_function_call ce fc is_finish =
     pthen (for_each (fc_arguments fc) (\<lambda>a. pbind (ce a) (\<lambda>_. preturn ())))
       (append_instruction (ICall (Unresolved
          (label_new (fc_identifier fc) (if is_finish then LTemporary else LFunction)))))"

definition compile_unwrap :: "typeish cprog \<Rightarrow> exit_reason \<Rightarrow> unit cprog" where
  "compile_unwrap compiled exit_reason =
     pbind anonymous_label (\<lambda>not_none.
     pbind compiled (\<lambda>_.
     pthen (append_instruction (IDup 0)) (
     pthen (append_instruction (IConst VNone)) (
     pthen (append_instruction IEq) (
     pthen (append_instruction INot) (
     pthen (append_instruction (IBranch (Unresolved not_none))) (
     pthen (append_instruction (IExit exit_reason))
       (define_here not_none))))))))"

text \<open>The upper bound of a counting loop that must see one fact more than its limit.\<close>

definition count_past :: "i64 \<Rightarrow> i64 cprog" where
  "count_past limit = (case i64_checked_add limit 1 of
      None \<Rightarrow> err_plain (CEBug ''fact count too large'')
    | Some n \<Rightarrow> preturn n)"

definition compile_counting_function ::
  "(expression \<Rightarrow> typeish cprog) \<Rightarrow> fact_count_type \<Rightarrow> i64 \<Rightarrow> fact_literal \<Rightarrow> unit cprog" where
  "compile_counting_function ce cmp_type limit lit =
     (if sint limit \<le> 0 then err (CEBadArgument ''count limit must be greater than zero'')
      else pthen (verify_fact_against_schema lit False) (
      pthen (compile_fact_literal ce lit) (
      case cmp_type of
        CountUpTo \<Rightarrow> append_instruction (IFactCount limit)
      | CountAtLeast \<Rightarrow>
          pthen (append_instruction (IFactCount limit)) (
          pthen (append_instruction (IConst (VInt limit))) (
          pthen (append_instruction ILt)
            (append_instruction INot)))
      | CountAtMost \<Rightarrow>
          pbind (count_past limit) (\<lambda>n.
          pthen (append_instruction (IFactCount n)) (
          pthen (append_instruction (IConst (VInt limit))) (
          pthen (append_instruction IGt)
            (append_instruction INot))))
      | CountExactly \<Rightarrow>
          pbind (count_past limit) (\<lambda>n.
          pthen (append_instruction (IFactCount n)) (
          pthen (append_instruction (IConst (VInt limit)))
            (append_instruction IEq))))))"

fun finish_expression :: "expression \<Rightarrow> bool" where
  "finish_expression (EInt _) = True"
| "finish_expression (EString _) = True"
| "finish_expression (EBool _) = True"
| "finish_expression (EIdentifier _) = True"
| "finish_expression (ENamedStruct _) = True"
| "finish_expression (EDot _ _) = True"
| "finish_expression (EOptional _) = True"
| "finish_expression (EEnumReference _) = True"
| "finish_expression _ = False"

definition check_finish_expression :: "expression \<Rightarrow> unit cprog" where
  "check_finish_expression e =
     (if finish_expression e then preturn () else err (CEInvalidExpression e))"

definition require_pure :: "expression \<Rightarrow> unit cprog \<Rightarrow> unit cprog" where
  "require_pure e m = pbind get_statement_context (\<lambda>context.
     if \<not> is_pure_function context then err (CEInvalidExpression e) else m)"

definition compile_call_expression :: "(expression \<Rightarrow> typeish cprog) \<Rightarrow> function_call \<Rightarrow> unit cprog" where
  "compile_call_expression ce f = pbind (pgets cs_function_signatures) (\<lambda>sigs.
     case bt_get sigs (fc_identifier f) of
       None \<Rightarrow> err (CENotDefined (fc_identifier f))
     | Some signature \<Rightarrow>
         if sig_color signature = ColorFinish then err (CEInvalidCallColor CallFinish)
         else if length (sig_args signature) \<noteq> length (fc_arguments f)
         then err (CEBadArgument (''call to `'' @ fc_identifier f @ ''` has ''
                @ show_nat (length (fc_arguments f)) @ '' arguments and it should have ''
                @ show_nat (length (sig_args signature))))
         else compile_function_call ce f False)"

text \<open>\<open>iter().enumerate().find(..)\<close>\<close>

definition find_index :: "('a \<Rightarrow> bool) \<Rightarrow> 'a list \<Rightarrow> (nat \<times> 'a) option" where
  "find_index p xs = find (p \<circ> snd) (enumerate 0 xs)"

definition compile_foreign_call :: "(expression \<Rightarrow> typeish cprog) \<Rightarrow> foreign_function_call \<Rightarrow> unit cprog" where
  "compile_foreign_call ce f = pbind (pgets id) (\<lambda>s.
     if ffc_module f \<notin> set (p_ffi_imports (cs_policy s)) then err (CENotDefined (ffc_module f))
     else pthen (append_instruction (IMeta (MetaFFI (ffc_module f) (ffc_identifier f)))) (
       if cs_stub_ffi s then preturn ()
       else case find_index (\<lambda>m. ms_name m = ffc_module f) (cs_ffi_modules s) of
         None \<Rightarrow> err (CENotDefined (ffc_module f))
       | Some (module_id, module) \<Rightarrow>
           (case find_index (\<lambda>proc. ff_name proc = ffc_identifier f) (ms_functions module) of
              None \<Rightarrow> err (CENotDefined (ffc_module f @ ''::'' @ ffc_identifier f))
            | Some (procedure_id, procedure) \<Rightarrow>
                if length (ffc_arguments f) \<noteq> length (ff_args procedure)
                then err (CEBadArgument (ffc_identifier f))
                else pthen (for_each (ffc_arguments f) (\<lambda>a. pbind (ce a) (\<lambda>_. preturn ())))
                  (append_instruction (IExtCall module_id procedure_id)))))"

definition compile_enum_reference :: "enum_reference \<Rightarrow> unit cprog" where
  "compile_enum_reference e = pbind (pgets cs_enum_values) (\<lambda>defs.
     case bt_get defs (er_identifier e) of
       None \<Rightarrow> err (CENotDefined (er_identifier e))
     | Some enum_def \<Rightarrow>
         if er_value e \<notin> set enum_def then err (CENotDefined (er_identifier e @ ''::'' @ er_value e))
         else append_instruction (IConst (VEnum (er_identifier e) (er_value e))))"

text \<open>
  What \<open>compile_expression\<close> does around the instructions of the expression: the check in a
  finish block and the calculation of the type that it returns.
\<close>

definition expression_type :: "expression \<Rightarrow> typeish cprog" where
  "expression_type e =
     pbind get_statement_context (\<lambda>context.
     pthen (if context = SCFinish then check_finish_expression e else preturn ()) (
     pbind (pgets id) (\<lambda>s.
     case calculate_expression_type s e of
       Ok t \<Rightarrow> preturn t
     | Err msg \<Rightarrow> err (CEInvalidType msg)
     | Panic p \<Rightarrow> ppanic p)))"

definition typed :: "expression \<Rightarrow> unit cprog \<Rightarrow> typeish cprog" where
  "typed e code = pbind (expression_type e) (\<lambda>t. pthen code (preturn t))"

definition compile_binary :: "typeish cprog \<Rightarrow> typeish cprog \<Rightarrow> instruction list \<Rightarrow> unit cprog" where
  "compile_binary a b code =
     pbind a (\<lambda>_. pbind b (\<lambda>_. for_each code append_instruction))"

definition compile_unary :: "typeish cprog \<Rightarrow> instruction list \<Rightarrow> unit cprog" where
  "compile_unary a code = pbind a (\<lambda>_. for_each code append_instruction)"

definition compile_if_expression :: "typeish cprog \<Rightarrow> typeish cprog \<Rightarrow> typeish cprog \<Rightarrow> unit cprog" where
  "compile_if_expression e t f =
     pbind anonymous_label (\<lambda>else_name.
     pbind anonymous_label (\<lambda>end_name.
     pbind e (\<lambda>_.
     pthen (append_instruction (IBranch (Unresolved else_name))) (
     pbind f (\<lambda>_.
     pthen (append_instruction (IJump (Unresolved end_name))) (
     pthen (define_here else_name) (
     pbind t (\<lambda>_. define_here end_name))))))))"

text \<open>The recursive calls are on the subexpressions.\<close>

lemma compile_struct_literal_cong [fundef_cong]:
  assumes "ns = ns'" "\<And>f. f \<in> set (ns_fields ns') \<Longrightarrow> ce (snd f) = ce' (snd f)"
  shows "compile_struct_literal ce ns = compile_struct_literal ce' ns'"
proof -
  have *: "for_each (ns_fields ns') (\<lambda>f. pbind (ce (snd f)) (\<lambda>_. append_instruction (IStructSet (fst f)))) =
      for_each (ns_fields ns') (\<lambda>f. pbind (ce' (snd f)) (\<lambda>_. append_instruction (IStructSet (fst f))))"
    using assms(2) by (intro for_each_cong) auto
  show ?thesis unfolding compile_struct_literal_def assms(1) * ..
qed

lemma compile_fact_literal_cong [fundef_cong]:
  assumes "f = f'" "\<And>k e. (k, FFExpression e) \<in> set (literal_fields f') \<Longrightarrow> ce e = ce' e"
  shows "compile_fact_literal ce f = compile_fact_literal ce' f'"
proof -
  have "for_each fs (\<lambda>x. compile_field ce (i x) (snd x)) = for_each fs (\<lambda>x. compile_field ce' (i x) (snd x))"
    if "set fs \<subseteq> set (literal_fields f')" for fs and i :: "string \<times> fact_field \<Rightarrow> instruction"
    using that assms(2)
    by (intro for_each_cong) (force simp: compile_field_def split: fact_field.split)+
  then show ?thesis
    by (auto simp: compile_fact_literal_def assms(1) literal_fields_def split: option.split)
qed

lemma compile_arguments_cong:
  "(\<And>a. a \<in> set args \<Longrightarrow> ce a = ce' a) \<Longrightarrow>
   for_each args (\<lambda>a. pbind (ce a) (\<lambda>_. preturn ())) = for_each args (\<lambda>a. pbind (ce' a) (\<lambda>_. preturn ()))"
  by (intro for_each_cong) auto

lemma compile_call_expression_cong [fundef_cong]:
  assumes "f = f'" "\<And>a. a \<in> set (fc_arguments f') \<Longrightarrow> ce a = ce' a"
  shows "compile_call_expression ce f = compile_call_expression ce' f'"
proof -
  have args: "for_each (fc_arguments f') (\<lambda>a. pbind (ce a) (\<lambda>_. preturn ())) =
      for_each (fc_arguments f') (\<lambda>a. pbind (ce' a) (\<lambda>_. preturn ()))"
    using assms(2) by (rule compile_arguments_cong)
  show ?thesis unfolding compile_call_expression_def compile_function_call_def assms(1) args ..
qed

lemma compile_foreign_call_cong [fundef_cong]:
  assumes "f = f'" "\<And>a. a \<in> set (ffc_arguments f') \<Longrightarrow> ce a = ce' a"
  shows "compile_foreign_call ce f = compile_foreign_call ce' f'"
proof -
  have args: "for_each (ffc_arguments f') (\<lambda>a. pbind (ce a) (\<lambda>_. preturn ())) =
      for_each (ffc_arguments f') (\<lambda>a. pbind (ce' a) (\<lambda>_. preturn ()))"
    using assms(2) by (rule compile_arguments_cong)
  show ?thesis unfolding compile_foreign_call_def assms(1) args ..
qed

lemma compile_counting_function_cong [fundef_cong]:
  assumes "c = c'" "n = n'" "f = f'" "\<And>k e. (k, FFExpression e) \<in> set (literal_fields f') \<Longrightarrow> ce e = ce' e"
  shows "compile_counting_function ce c n f = compile_counting_function ce' c' n' f'"
proof -
  have lit: "compile_fact_literal ce f' = compile_fact_literal ce' f'"
    using assms(4) by (intro compile_fact_literal_cong) auto
  show ?thesis unfolding compile_counting_function_def assms(1-3) lit ..
qed

fun compile_expression :: "expression \<Rightarrow> typeish cprog" where
  "compile_expression (EInt n) = typed (EInt n) (append_instruction (IConst (VInt n)))"
| "compile_expression (EString s) = typed (EString s) (append_instruction (IConst (VString s)))"
| "compile_expression (EBool b) = typed (EBool b) (append_instruction (IConst (VBool b)))"
| "compile_expression (EOptional None) = typed (EOptional None) (append_instruction (IConst VNone))"
| "compile_expression (EOptional (Some v)) =
     typed (EOptional (Some v)) (pbind (compile_expression v) (\<lambda>_. preturn ()))"
| "compile_expression (ENamedStruct s) =
     typed (ENamedStruct s) (compile_struct_literal (\<lambda>e. compile_expression e) s)"
| "compile_expression (EInternalFunction (IFQuery f)) =
     typed (EInternalFunction (IFQuery f)) (
       pthen (verify_fact_against_schema f False) (
       pthen (compile_fact_literal (\<lambda>e. compile_expression e) f)
         (append_instruction IQuery)))"
| "compile_expression (EInternalFunction (IFExists f)) =
     typed (EInternalFunction (IFExists f)) (
       pthen (verify_fact_against_schema f False) (
       pthen (compile_fact_literal (\<lambda>e. compile_expression e) f) (
       pthen (append_instruction IQuery) (
       pthen (append_instruction (IConst VNone)) (
       pthen (append_instruction IEq)
         (append_instruction INot))))))"
| "compile_expression (EInternalFunction (IFFactCount cmp_type n f)) =
     typed (EInternalFunction (IFFactCount cmp_type n f))
       (compile_counting_function (\<lambda>e. compile_expression e) cmp_type n f)"
| "compile_expression (EInternalFunction (IFIf e t f)) =
     typed (EInternalFunction (IFIf e t f))
       (compile_if_expression (compile_expression e) (compile_expression t) (compile_expression f))"
| "compile_expression (EInternalFunction (IFSerialize e)) =
     typed (EInternalFunction (IFSerialize e))
       (require_pure e (compile_unary (compile_expression e) [ISerialize]))"
| "compile_expression (EInternalFunction (IFDeserialize e)) =
     typed (EInternalFunction (IFDeserialize e))
       (require_pure e (compile_unary (compile_expression e) [IDeserialize]))"
| "compile_expression (EFunctionCall f) =
     typed (EFunctionCall f) (compile_call_expression (\<lambda>e. compile_expression e) f)"
| "compile_expression (EForeignFunctionCall f) =
     typed (EForeignFunctionCall f) (compile_foreign_call (\<lambda>e. compile_expression e) f)"
| "compile_expression (EIdentifier i) =
     typed (EIdentifier i) (
       pthen (append_instruction (IMeta (MetaGet i)))
         (append_instruction (IGet i)))"
| "compile_expression (EEnumReference e) = typed (EEnumReference e) (compile_enum_reference e)"
| "compile_expression (EDot t n) =
     typed (EDot t n) (compile_unary (compile_expression t) [IStructGet n])"
| "compile_expression (EAdd a b) =
     typed (EAdd a b) (compile_binary (compile_expression a) (compile_expression b) [IAdd])"
| "compile_expression (ESubtract a b) =
     typed (ESubtract a b) (compile_binary (compile_expression a) (compile_expression b) [ISub])"
| "compile_expression (EAnd a b) =
     typed (EAnd a b) (compile_binary (compile_expression a) (compile_expression b) [IAnd])"
| "compile_expression (EOr a b) =
     typed (EOr a b) (compile_binary (compile_expression a) (compile_expression b) [IOr])"
| "compile_expression (EEqual a b) =
     typed (EEqual a b) (compile_binary (compile_expression a) (compile_expression b) [IEq])"
| "compile_expression (EGreaterThan a b) =
     typed (EGreaterThan a b) (compile_binary (compile_expression a) (compile_expression b) [IGt])"
| "compile_expression (ELessThan a b) =
     typed (ELessThan a b) (compile_binary (compile_expression a) (compile_expression b) [ILt])"
| "compile_expression (EGreaterThanOrEqual a b) =
     typed (EGreaterThanOrEqual a b) (compile_binary (compile_expression a) (compile_expression b)
       [IDup 1, IDup 1, IEq, ISwap 2, ISwap 1, IGt, IOr])"
| "compile_expression (ELessThanOrEqual a b) =
     typed (ELessThanOrEqual a b) (compile_binary (compile_expression a) (compile_expression b)
       [IDup 1, IDup 1, IEq, ISwap 2, ISwap 1, ILt, IOr])"
| "compile_expression (ENotEqual a b) =
     typed (ENotEqual a b) (compile_binary (compile_expression a) (compile_expression b) [IEq, INot])"
| "compile_expression (ENegative e) =
     typed (ENegative e) (compile_unary (compile_expression e) [IConst (VInt 0), ISwap 1, ISub])"
| "compile_expression (ENot e) =
     typed (ENot e) (compile_unary (compile_expression e) [INot])"
| "compile_expression (EUnwrap e) =
     typed (EUnwrap e) (compile_unwrap (compile_expression e) ExitPanic)"
| "compile_expression (ECheckUnwrap e) =
     typed (ECheckUnwrap e) (compile_unwrap (compile_expression e) ExitCheck)"
| "compile_expression (EIs e expr_is_some) =
     typed (EIs e expr_is_some) (compile_unary (compile_expression e)
       ([IConst VNone, IEq] @ (if expr_is_some then [INot] else [])))"

section \<open>Statements\<close>

datatype scope_flag = Layered | SameScope

text \<open>\<open>find_duplicate\<close>: the first element that equals an earlier one.\<close>

definition find_duplicate :: "'a list \<Rightarrow> ('a \<Rightarrow> 'b) \<Rightarrow> 'b option" where
  "find_duplicate vec value = (if length vec < 2 then None else first_repeated [] (map value vec))"

text \<open>
  \<open>compile_block\<close> is the frame of \<open>compile_statements\<close>; \<open>rec\<close> is the compilation of one
  statement, given the context and all statements of the block.
\<close>

definition compile_block ::
  "(statement_context \<Rightarrow> statement ast_node list \<Rightarrow> statement ast_node \<Rightarrow> unit cprog) \<Rightarrow>
   scope_flag \<Rightarrow> statement ast_node list \<Rightarrow> unit cprog" where
  "compile_block rec scope statements =
     pthen (if scope = Layered
            then pthen (its_op its_enter_block) (append_instruction IBlock) else preturn ()) (
     pbind get_statement_context (\<lambda>context.
     pthen (for_each statements (\<lambda>statement.
              pthen (map_range (node_locator statement)) (rec context statements statement)))
       (if scope = Layered
        then pthen (append_instruction IEnd) (its_op its_exit_block) else preturn ())))"

lemma compile_block_cong [fundef_cong]:
  assumes "scope = scope'" "sts = sts'"
    "\<And>context st. st \<in> set sts' \<Longrightarrow> rec context sts' st = rec' context sts' st"
  shows "compile_block rec scope sts = compile_block rec' scope' sts'"
proof -
  have *: "for_each sts' (\<lambda>st. pthen (map_range (node_locator st)) (rec ctx sts' st)) =
      for_each sts' (\<lambda>st. pthen (map_range (node_locator st)) (rec' ctx sts' st))" for ctx
    using assms(3) by (intro for_each_cong) auto
  show ?thesis unfolding compile_block_def assms(1,2) * ..
qed

definition add_identifier :: "string \<Rightarrow> typeish \<Rightarrow> unit cprog" where
  "add_identifier n t = its_op (its_add n t)"

definition compile_let :: "string \<Rightarrow> expression \<Rightarrow> unit cprog" where
  "compile_let n e =
     pbind (compile_expression e) (\<lambda>et.
     pthen (add_identifier n et) (
     pthen (append_instruction (IMeta (MetaLet n)))
       (append_instruction (IDef n))))"

definition compile_check :: "expression \<Rightarrow> unit cprog" where
  "compile_check e =
     pbind (compile_expression e) (\<lambda>et.
     if \<not> is_maybe et TBool then err (CEInvalidType ''check must have boolean expression'')
     else pbind (pgets cs_wp) (\<lambda>addr.
       case usize_checked_add addr 2 of
         None \<Rightarrow> err_plain (CEBug ''self.wp + 2 must not wrap'')
       | Some next \<Rightarrow>
           pthen (append_instruction (IBranch (Resolved next)))
             (append_instruction (IExit ExitCheck))))"

fun pattern_values :: "match_pattern \<Rightarrow> expression list" where
  "pattern_values (PValues vals) = vals"
| "pattern_values PDefault = []"

text \<open>The branches to the arms; the result is the list of arm labels.\<close>

fun compile_arm_branches :: "match_arm list \<Rightarrow> match_arm list \<Rightarrow> label list cprog" where
  "compile_arm_branches all [] = preturn []"
| "compile_arm_branches all (arm # arms) =
     pbind anonymous_label (\<lambda>arm_label.
     pthen (case arm_pattern arm of
              PValues vals \<Rightarrow> for_each vals (\<lambda>v.
                pthen (append_instruction (IDup 0)) (
                pbind (compile_expression v) (\<lambda>_.
                pthen (append_instruction IEq)
                  (append_instruction (IBranch (Unresolved arm_label))))))
            | PDefault \<Rightarrow>
                pthen (append_instruction (IJump (Unresolved arm_label)))
                  (if arm \<noteq> last all then err (CEUnknown ''Default match case must be last.'')
                   else preturn ())) (
     pbind (compile_arm_branches all arms) (\<lambda>labels. preturn (arm_label # labels))))"

definition compile_match_head :: "nat \<Rightarrow> expression \<Rightarrow> match_arm list \<Rightarrow> (label \<times> label list) cprog" where
  "compile_match_head locator e arms =
     (if find_duplicate (concat (map (pattern_values \<circ> arm_pattern) arms)) (\<lambda>v. v) \<noteq> None
      then err_loc (CEAlreadyDefined ''duplicate match arm value'') locator
      else pbind (compile_expression e) (\<lambda>_.
        pbind anonymous_label (\<lambda>end_label.
        pbind (compile_arm_branches arms arms) (\<lambda>arm_labels.
        pthen (if \<not> list_ex (\<lambda>a. arm_pattern a = PDefault) arms
               then append_instruction (IExit ExitPanic) else preturn ())
          (preturn (end_label, arm_labels))))))"

definition compile_arm_body :: "label \<Rightarrow> label \<Rightarrow> unit cprog \<Rightarrow> unit cprog" where
  "compile_arm_body end_label arm_start body =
     pthen (define_here arm_start) (
     pthen (append_instruction IPop) (
     pthen body
       (append_instruction (IJump (Unresolved end_label)))))"

definition compile_if_branch :: "label \<Rightarrow> expression \<Rightarrow> unit cprog \<Rightarrow> unit cprog" where
  "compile_if_branch end_label cond branch =
     pbind anonymous_label (\<lambda>next_label.
     pbind (compile_expression cond) (\<lambda>_.
     pthen (append_instruction INot) (
     pthen (append_instruction (IBranch (Unresolved next_label))) (
     pthen branch (
     pthen (append_instruction (IJump (Unresolved end_label)))
       (define_here next_label))))))"

definition compile_return :: "statement_context \<Rightarrow> expression \<Rightarrow> unit cprog" where
  "compile_return context e = (case context of
      SCPureFunction fd \<Rightarrow>
        pbind (compile_expression e) (\<lambda>et.
        if \<not> is_maybe et (fn_return_type fd)
        then err (CEInvalidType (''Return value of `'' @ fn_identifier fd @ ''()` must be ''
               @ vtype_display (fn_return_type fd)))
        else append_instruction IReturn)
    | _ \<Rightarrow> preturn ())"

definition compile_finish :: "nat \<Rightarrow> bool \<Rightarrow> unit cprog \<Rightarrow> unit cprog" where
  "compile_finish locator is_last body =
     pthen (enter_statement_context SCFinish) (
     pthen (append_instruction (IMeta (MetaFinish True))) (
     pthen body (
     pthen exit_statement_context
       (if \<not> is_last
        then err_loc (CEUnknown ''`finish` must be the last statement in the block'') locator
        else append_instruction (IExit ExitNormal)))))"

definition compile_map :: "fact_literal \<Rightarrow> string \<Rightarrow> unit cprog \<Rightarrow> unit cprog" where
  "compile_map f n body =
     pthen (verify_fact_against_schema f False) (
     pthen (compile_fact_literal compile_expression f) (
     pthen (append_instruction IQueryStart) (
     pthen (its_op its_enter_block) (
     pthen (add_identifier n (Type (TStruct (fl_identifier f)))) (
     pbind anonymous_label (\<lambda>top_label.
     pbind anonymous_label (\<lambda>end_label.
     pthen (define_here top_label) (
     pthen (append_instruction IBlock) (
     pthen (append_instruction (IQueryNext n)) (
     pthen (append_instruction (IBranch (Unresolved end_label))) (
     pthen body (
     pthen (append_instruction IEnd) (
     pthen (append_instruction (IJump (Unresolved top_label))) (
     pthen (define_here end_label) (
     pthen (append_instruction IEnd)
       (its_op its_exit_block))))))))))))))))"

definition is_bind :: "string \<times> fact_field \<Rightarrow> bool" where
  "is_bind f \<longleftrightarrow> snd f = FFBind"

definition compile_create :: "nat \<Rightarrow> fact_literal \<Rightarrow> unit cprog" where
  "compile_create locator f =
     (if list_ex is_bind (fl_key_fields f) \<or>
         (case fl_value_fields f of None \<Rightarrow> False | Some v \<Rightarrow> list_ex is_bind v)
      then err_loc (CEBadArgument ''Cannot create fact with bind values'') locator
      else pthen (verify_fact_against_schema f True) (
        pthen (compile_fact_literal compile_expression f)
          (append_instruction ICreate)))"

definition compile_update :: "nat \<Rightarrow> fact_literal \<Rightarrow> (string \<times> fact_field) list \<Rightarrow> unit cprog" where
  "compile_update locator f to =
     pbind (get_fact_def (fl_identifier f)) (\<lambda>fact_def.
     if fdef_immutable fact_def then err (CEUnknown ''fact is immutable'')
     else pthen (verify_fact_against_schema f True) (
       pthen (compile_fact_literal compile_expression f) (
       pthen (append_instruction (IDup 0)) (
       pbind (get_fact_def (fl_identifier f)) (\<lambda>fact_def.
       pthen (verify_fact_values to fact_def) (
       pthen (for_each to (\<lambda>(k, v). case v of
           FFBind \<Rightarrow> err_loc (CEBadArgument ''Cannot update fact to a bind value'') locator
         | FFExpression e \<Rightarrow> pbind (compile_expression e) (\<lambda>_. append_instruction (IFactValueSet k))))
         (append_instruction IUpdate)))))))"

definition compile_delete :: "fact_literal \<Rightarrow> unit cprog" where
  "compile_delete f =
     pthen (verify_fact_against_schema f False) (
     pthen (compile_fact_literal compile_expression f)
       (append_instruction IDelete))"

definition compile_emit :: "expression \<Rightarrow> unit cprog" where
  "compile_emit e =
     pbind (compile_expression e) (\<lambda>et.
     case et of
       Type (TStruct _) \<Rightarrow> append_instruction IEmit
     | _ \<Rightarrow> err (CEInvalidType ''Emit must be given a struct''))"

definition compile_finish_call :: "nat \<Rightarrow> function_call \<Rightarrow> unit cprog" where
  "compile_finish_call locator f = pbind (pgets cs_function_signatures) (\<lambda>sigs.
     case bt_get sigs (fc_identifier f) of
       None \<Rightarrow> err_loc (CENotDefined (fc_identifier f)) locator
     | Some signature \<Rightarrow>
         if sig_color signature \<noteq> ColorFinish then err_loc (CEInvalidCallColor CallPure) locator
         else if length (sig_args signature) \<noteq> length (fc_arguments f)
         then err_loc (CEBadArgument (''call to `'' @ fc_identifier f @ ''` has ''
                @ show_nat (length (fc_arguments f)) @ '' arguments but it should have ''
                @ show_nat (length (sig_args signature)))) locator
         else compile_function_call compile_expression f True)"

definition compile_action_argument :: "nat \<Rightarrow> expression \<times> field_definition \<Rightarrow> unit cprog" where
  "compile_action_argument locator = (\<lambda>(arg, expected_arg).
     pbind (compile_expression arg) (\<lambda>arg_type.
     case arg_type of
       Type t \<Rightarrow>
         if t \<noteq> fd_field_type expected_arg
         then err_loc (CEBadArgument (''invalid argument type for `'' @ fd_identifier expected_arg
                @ ''`: expected `'' @ vtype_display (fd_field_type expected_arg) @ ''`, but got `''
                @ vtype_display t @ ''`'')) locator
         else preturn ()
     | Indeterminate \<Rightarrow> preturn ()))"

definition compile_action_call :: "nat \<Rightarrow> function_call \<Rightarrow> unit cprog" where
  "compile_action_call locator fc = pbind (pgets (p_actions \<circ> cs_policy)) (\<lambda>actions.
     case find (\<lambda>a. ad_identifier (node_inner a) = fc_identifier fc) actions of
       None \<Rightarrow> err_loc (CENotDefined (fc_identifier fc)) locator
     | Some action_def \<Rightarrow>
         if length (ad_arguments (node_inner action_def)) \<noteq> length (fc_arguments fc)
         then err_loc (CEBadArgument (''call to `'' @ fc_identifier fc @ ''` has ''
                @ show_nat (length (fc_arguments fc)) @ '' arguments, but it should have ''
                @ show_nat (length (ad_arguments (node_inner action_def))))) locator
         else pthen (for_each (zip (fc_arguments fc) (ad_arguments (node_inner action_def)))
                       (compile_action_argument locator))
           (append_instruction (ICall (Unresolved (label_new (fc_identifier fc) LAction)))))"

definition compile_debug_assert :: "expression \<Rightarrow> unit cprog" where
  "compile_debug_assert e = pbind (pgets cs_is_debug) (\<lambda>is_debug.
     if \<not> is_debug then preturn ()
     else pbind (compile_expression e) (\<lambda>_.
       pbind (pgets cs_wp) (\<lambda>addr.
       case usize_checked_add addr 2 of
         None \<Rightarrow> ppanic ''self.wp + 2 must not wrap''
       | Some next \<Rightarrow>
           pthen (append_instruction (IBranch (Resolved next)))
             (append_instruction (IExit ExitPanic)))))"

text \<open>A statement outside the contexts that allow it.\<close>

definition allowed_in :: "statement_context \<Rightarrow> bool \<Rightarrow> nat \<Rightarrow> unit cprog \<Rightarrow> unit cprog" where
  "allowed_in context ok locator m =
     (if ok then m else err_loc (CEInvalidStatement context) locator)"

function compile_statement ::
  "statement_context \<Rightarrow> statement ast_node list \<Rightarrow> statement ast_node \<Rightarrow> unit cprog" where
  "compile_statement context sts (AstNode (SLet n e) l) =
     allowed_in context (context \<noteq> SCFinish) l (compile_let n e)"
| "compile_statement context sts (AstNode (SCheck e) l) =
     allowed_in context (context \<noteq> SCFinish) l (compile_check e)"
| "compile_statement context sts (AstNode (SMatch e arms) l) =
     allowed_in context (context \<noteq> SCFinish) l (
       pbind (compile_match_head l e arms) (\<lambda>(end_label, arm_labels).
       pthen (for_each (zip arms arm_labels) (\<lambda>arm.
                compile_arm_body end_label (snd arm)
                  (compile_block (\<lambda>c ss st. compile_statement c ss st) SameScope (arm_statements (fst arm)))))
         (define_here end_label)))"
| "compile_statement context sts (AstNode (SIf branches fallback) l) =
     allowed_in context (context \<noteq> SCFinish) l (
       pbind anonymous_label (\<lambda>end_label.
       pthen (for_each branches (\<lambda>b.
                compile_if_branch end_label (fst b)
                  (compile_block (\<lambda>c ss st. compile_statement c ss st) SameScope (snd b)))) (
       pthen (case fallback of
                None \<Rightarrow> preturn ()
              | Some ss' \<Rightarrow> compile_block (\<lambda>c ss st. compile_statement c ss st) SameScope ss')
         (define_here end_label))))"
| "compile_statement context sts (AstNode (SPublish e) l) =
     allowed_in context (is_action context) l (
       pbind (compile_expression e) (\<lambda>_. append_instruction IPublish))"
| "compile_statement context sts (AstNode (SReturn e) l) =
     allowed_in context (is_pure_function context) l (compile_return context e)"
| "compile_statement context sts (AstNode (SFinish ss') l) =
     allowed_in context (is_command context) l (
       compile_finish l (AstNode (SFinish ss') l = last sts)
         (compile_block (\<lambda>c ss st. compile_statement c ss st) Layered ss'))"
| "compile_statement context sts (AstNode (SMap f n ss') l) =
     allowed_in context (is_action context) l (
       compile_map f n (compile_block (\<lambda>c ss st. compile_statement c ss st) SameScope ss'))"
| "compile_statement context sts (AstNode (SCreate f) l) =
     allowed_in context (context = SCFinish) l (compile_create l f)"
| "compile_statement context sts (AstNode (SUpdate f to) l) =
     allowed_in context (context = SCFinish) l (compile_update l f to)"
| "compile_statement context sts (AstNode (SDelete f) l) =
     allowed_in context (context = SCFinish) l (compile_delete f)"
| "compile_statement context sts (AstNode (SEmit e) l) =
     allowed_in context (context = SCFinish) l (compile_emit e)"
| "compile_statement context sts (AstNode (SFunctionCall f) l) =
     allowed_in context (context = SCFinish) l (compile_finish_call l f)"
| "compile_statement context sts (AstNode (SActionCall f) l) =
     allowed_in context (is_action context) l (compile_action_call l f)"
| "compile_statement context sts (AstNode (SDebugAssert e) l) = compile_debug_assert e"
  by pat_completeness auto

termination
  by (relation "measure (\<lambda>(_, _, st). size (node_inner st))")
    (simp_all add: size_arm size_branch size_block less_SucI trans_less_add1 trans_less_add2)

definition compile_statements :: "statement ast_node list \<Rightarrow> scope_flag \<Rightarrow> unit cprog" where
  "compile_statements statements scope = compile_block compile_statement scope statements"

section \<open>Functions, actions and commands\<close>

text \<open>\<open>instruction_range_contains(from..self.wp, ..)\<close> for the return instruction.\<close>

definition require_return :: "nat \<Rightarrow> nat \<Rightarrow> unit cprog" where
  "require_return from' locator = pbind (pgets cs_m) (\<lambda>m. pbind (pgets cs_wp) (\<lambda>to'.
     if IReturn \<notin> set (take (to' - from') (drop from' (ct_progmem m))) then err_loc CENoReturn locator
     else preturn ()))"

definition append_arguments :: "field_definition list \<Rightarrow> unit cprog" where
  "append_arguments arguments =
     for_each (rev arguments) (\<lambda>arg. append_var (fd_identifier arg) (fd_field_type arg))"

definition compile_function :: "function_definition ast_node \<Rightarrow> unit cprog" where
  "compile_function node = (let function = node_inner node in
     pthen (define_here (label_new (fn_identifier function) LFunction)) (
     pthen (map_range (node_locator node)) (
     pthen (define_function_signature node) (
     case find_duplicate (fn_arguments function) fd_identifier of
       Some identifier \<Rightarrow> err_loc (CEAlreadyDefined identifier) (node_locator node)
     | None \<Rightarrow>
         pthen (its_op its_enter_function) (
         pthen (append_arguments (fn_arguments function)) (
         pbind (pgets cs_wp) (\<lambda>from'.
         pthen (compile_statements (fn_statements function) SameScope) (
         pthen (require_return from' (node_locator node)) (
         pthen (append_instruction (IExit ExitPanic))
           (its_op its_exit_function))))))))))"

definition compile_finish_function :: "finish_function_definition ast_node \<Rightarrow> unit cprog" where
  "compile_finish_function node = (let function = node_inner node in
     pthen (define_here (label_new_temp (ffn_identifier function))) (
     pthen (map_range (node_locator node)) (
     pthen (its_op its_enter_function) (
     pthen (append_arguments (ffn_arguments function)) (
     pthen (compile_statements (ffn_statements function) SameScope) (
     pthen (append_instruction IReturn)
       (its_op its_exit_function)))))))"

definition compile_action :: "action_definition ast_node \<Rightarrow> unit cprog" where
  "compile_action node = (let action = node_inner node in
     pthen (its_op its_enter_function) (
     pthen (define_here (label_new (ad_identifier action) LAction)) (
     pthen (map_range (node_locator node)) (
     case find_duplicate (ad_arguments action) fd_identifier of
       Some identifier \<Rightarrow> err_loc (CEAlreadyDefined identifier) (node_locator node)
     | None \<Rightarrow>
         pthen (append_arguments (ad_arguments action)) (
         pthen (compile_statements (ad_statements action) SameScope) (
         pthen (append_instruction IReturn) (
         pthen (its_op its_exit_function) (
         pbind (pgets (ct_action_defs \<circ> cs_m)) (\<lambda>defs.
         if bt_contains defs (ad_identifier action) then err (CEAlreadyDefined (ad_identifier action))
         else modify_target (\<lambda>m. m\<lparr>ct_action_defs :=
           bt_insert (ad_identifier action) (ad_arguments action) (ct_action_defs m)\<rparr>))))))))))"

text \<open>The value of an expression that needs no evaluation, and \<open>collect()\<close> of its fields.\<close>

fun field_values :: "(string \<times> pvalue option) list \<Rightarrow> (string \<times> pvalue) list option" where
  "field_values [] = Some []"
| "field_values ((k, None) # fs) = None"
| "field_values ((k, Some v) # fs) = map_option (Cons (k, v)) (field_values fs)"

fun expression_value :: "expression \<Rightarrow> pvalue option" where
  "expression_value (EInt v) = Some (VInt v)"
| "expression_value (EBool v) = Some (VBool v)"
| "expression_value (EString v) = Some (VString v)"
| "expression_value (ENamedStruct ns) =
     map_option (\<lambda>fs. VStruct (Struct (ns_identifier ns) (bt_collect fs)))
       (field_values (map (\<lambda>f. (fst f, expression_value (snd f))) (ns_fields ns)))"
| "expression_value (EEnumReference e) = Some (VEnum (er_identifier e) (er_value e))"
| "expression_value _ = None"

definition compile_global_let :: "global_let_statement ast_node \<Rightarrow> unit cprog" where
  "compile_global_let node = (let identifier = gl_identifier (node_inner node);
       expression = gl_expression (node_inner node) in
     case expression_value expression of
       None \<Rightarrow> err (CEInvalidExpression expression)
     | Some v \<Rightarrow>
         (case vtype_of v of
            None \<Rightarrow> ppanic ''global let expression has weird type''
          | Some vt \<Rightarrow>
              pbind (pgets (ct_globals \<circ> cs_m)) (\<lambda>globals.
              if bt_contains globals identifier then err (CEAlreadyDefined identifier)
              else pthen (modify_target (\<lambda>m. m\<lparr>ct_globals := bt_insert identifier v (ct_globals m)\<rparr>))
                (its_op (its_add_global identifier (Type vt))))))"

text \<open>
  The policy and the recall block differ only in the label, the statement context and the
  statements, the seal and the open block only in the label, the name of the pretended
  function, its return type, its argument and the statements.
\<close>

definition compile_policy_block ::
  "command_definition \<Rightarrow> label_type \<Rightarrow> statement_context \<Rightarrow> statement ast_node list \<Rightarrow> unit cprog" where
  "compile_policy_block command lt context statements =
     pthen (define_here (label_new (cd_identifier command) lt)) (
     pthen (enter_statement_context context) (
     pthen (its_op its_enter_function) (
     pthen (add_identifier ''this'' (Type (TStruct (cd_identifier command)))) (
     pthen (add_identifier ''envelope'' (Type (TStruct ''Envelope''))) (
     pthen (append_instruction (IDef ''envelope'')) (
     pthen (compile_statements statements SameScope) (
     pthen (its_op its_exit_function) (
     pthen exit_statement_context
       (append_instruction (IExit ExitNormal))))))))))"

definition compile_command_policy :: "command_definition \<Rightarrow> unit cprog" where
  "compile_command_policy command =
     compile_policy_block command LCommandPolicy (SCCommandPolicy command) (cd_policy command)"

definition compile_command_recall :: "command_definition \<Rightarrow> unit cprog" where
  "compile_command_recall command =
     compile_policy_block command LCommandRecall (SCCommandRecall command) (cd_recall command)"

definition compile_envelope_block ::
  "command_definition \<Rightarrow> label_type \<Rightarrow> string \<Rightarrow> vtype \<Rightarrow> string \<Rightarrow> vtype \<Rightarrow>
   statement ast_node list \<Rightarrow> nat \<Rightarrow> unit cprog" where
  "compile_envelope_block command lt name return_type arg arg_type statements locator =
     (if statements = []
      then err_loc (CEUnknown (''Empty/missing '' @ name @ '' block in command'')) locator
      else pthen (define_here (label_new (cd_identifier command) lt)) (
        pbind anonymous_label (\<lambda>actual.
        pthen (append_instruction (ICall (Unresolved actual))) (
        pthen (append_instruction (IExit ExitNormal)) (
        pthen (define_here actual) (
        pthen (enter_statement_context (SCPureFunction
                 \<lparr>fn_identifier = name, fn_arguments = [], fn_return_type = return_type,
                  fn_statements = []\<rparr>)) (
        pthen (its_op its_enter_function) (
        pthen (add_identifier arg (Type arg_type)) (
        pthen (append_instruction (IDef arg)) (
        pbind (pgets cs_wp) (\<lambda>from'.
        pthen (compile_statements statements SameScope) (
        pthen (require_return from' locator) (
        pthen (its_op its_exit_function) (
        pthen exit_statement_context
          (append_instruction (IExit ExitPanic))))))))))))))))"

definition compile_command_seal :: "command_definition \<Rightarrow> nat \<Rightarrow> unit cprog" where
  "compile_command_seal command locator =
     compile_envelope_block command LCommandSeal ''seal'' (TStruct ''Envelope'')
       ''this'' (TStruct (cd_identifier command)) (cd_seal command) locator"

definition compile_command_open :: "command_definition \<Rightarrow> nat \<Rightarrow> unit cprog" where
  "compile_command_open command locator =
     compile_envelope_block command LCommandOpen ''open'' (TStruct (cd_identifier command))
       ''envelope'' (TStruct ''Envelope'') (cd_open command) locator"

definition command_attribute :: "string \<Rightarrow> string \<times> expression \<Rightarrow> unit cprog" where
  "command_attribute command = (\<lambda>(name, expression).
     pbind (pgets (ct_command_attributes \<circ> cs_m)) (\<lambda>attrs.
     let attr_map = (case bt_get attrs command of None \<Rightarrow> [] | Some m \<Rightarrow> m) in
     if bt_contains attr_map name then err (CEAlreadyDefined name)
     else case expression_value expression of
       None \<Rightarrow> err (CEInvalidExpression expression)
     | Some v \<Rightarrow> modify_target (\<lambda>m. m\<lparr>ct_command_attributes :=
         bt_insert command (bt_insert name v attr_map) (ct_command_attributes m)\<rparr>)))"

definition compile_command :: "command_definition ast_node \<Rightarrow> unit cprog" where
  "compile_command node = (let command = node_inner node in
     pthen (map_range (node_locator node)) (
     pthen (compile_command_policy command) (
     pthen (compile_command_recall command) (
     pthen (compile_command_seal command (node_locator node)) (
     pthen (compile_command_open command (node_locator node)) (
     pthen (modify_target (\<lambda>m.
       if bt_contains (ct_command_attributes m) (cd_identifier command) then m
       else m\<lparr>ct_command_attributes := bt_insert (cd_identifier command) [] (ct_command_attributes m)\<rparr>)) (
     pthen (for_each (cd_attributes command) (command_attribute (cd_identifier command))) (
     pbind (pgets (ct_command_defs \<circ> cs_m)) (\<lambda>defs.
     if bt_contains defs (cd_identifier command) then err (CEAlreadyDefined (cd_identifier command))
     else modify_target (\<lambda>m. m\<lparr>ct_command_defs :=
       bt_insert (cd_identifier command)
         (bt_collect (map (\<lambda>f. (fd_identifier f, fd_field_type f)) (cd_fields command)))
         (ct_command_defs m)\<rparr>))))))))))"

section \<open>The compiler\<close>

definition define_structs :: "unit cprog" where
  "define_structs = pbind (pgets cs_policy) (\<lambda>policy.
     pthen (for_each (p_effects policy) (\<lambda>effect.
       define_struct (efdef_identifier (node_inner effect)) (map effect_field (efdef_fields (node_inner effect))))) (
     pthen (for_each (p_structs policy) (\<lambda>struct_def.
       define_struct (sd_identifier (node_inner struct_def)) (sd_fields (node_inner struct_def)))) (
     pbind (pgets cs_ffi_modules) (\<lambda>ffi_modules.
     for_each ffi_modules (\<lambda>ffi_mod. for_each (ms_structs ffi_mod) (\<lambda>st.
       define_struct (fs_name st)
         (map (\<lambda>a. \<lparr>fd_identifier = fa_name a, fd_field_type = vtype_of_ffi (fa_vtype a)\<rparr>) (fs_fields st))))))))"

definition define_all :: "unit cprog" where
  "define_all = pbind (pgets cs_policy) (\<lambda>policy.
     pthen define_structs (
     pthen (for_each (p_enums policy) (\<lambda>enum_def. compile_enum_definition (node_inner enum_def))) (
     pthen (for_each (p_facts policy) (\<lambda>f. let f' = node_inner f in
       pthen (define_struct (fdef_identifier f') (fdef_key f' @ fdef_value f')) (define_fact f'))) (
     pthen (for_each (p_commands policy) (\<lambda>command.
       define_struct (cd_identifier (node_inner command)) (cd_fields (node_inner command))))
       (for_each (p_finish_functions policy) define_finish_function_signature)))))"

definition compile_all :: "unit cprog" where
  "compile_all = pbind (pgets cs_policy) (\<lambda>policy.
     pthen (for_each (p_functions policy) (\<lambda>function_def.
       pthen (enter_statement_context (SCPureFunction (node_inner function_def))) (
       pthen (compile_function function_def) exit_statement_context))) (
     pthen (enter_statement_context SCFinish) (
     pthen (for_each (p_finish_functions policy) compile_finish_function) (
     pthen exit_statement_context (
     pthen (for_each (p_commands policy) compile_command)
       (for_each (p_actions policy) (\<lambda>action.
          pthen (enter_statement_context (SCAction (node_inner action))) (
          pthen (compile_action action) exit_statement_context))))))))"

definition compile_policy :: "unit cprog" where
  "compile_policy =
     pthen (append_instruction (IExit ExitPanic)) (
     pbind (pgets cs_policy) (\<lambda>policy.
     pthen (for_each (p_global_lets policy) compile_global_let) (
     pthen define_all (
     pthen compile_all resolve_targets))))"

definition initial_state :: "policy_ast \<Rightarrow> module_schema list \<Rightarrow> bool \<Rightarrow> bool \<Rightarrow> compile_state" where
  "initial_state policy ffi_modules is_debug stub_ffi =
     \<lparr>cs_policy = policy, cs_m = compile_target_new (code_map_new (p_text policy) (p_ranges policy)),
      cs_wp = 0, cs_c = 0, cs_function_signatures = [], cs_last_locator = 0, cs_statement_context = [],
      cs_identifier_types = its_new, cs_ffi_modules = ffi_modules, cs_enum_values = [],
      cs_is_debug = is_debug, cs_stub_ffi = stub_ffi\<rparr>"

definition compile :: "policy_ast \<Rightarrow> module_schema list \<Rightarrow> bool \<Rightarrow> bool \<Rightarrow> (policy_module, compile_error) result" where
  "compile policy ffi_modules is_debug stub_ffi =
     (case compile_policy (initial_state policy ffi_modules is_debug stub_ffi) of
        (r, s) \<Rightarrow> rmap (\<lambda>_. into_module (cs_m s)) r)"

end
