(* ===== verification/Compiler_Layout.thy ===== *)
theory Compiler_Layout
  imports Compiler
begin

text \<open>
  The layout of compiled code. The locale \<open>compile_stable\<close> collects the ways in which the
  compilation of expressions and statements changes the code under construction; a predicate
  closed under them is kept by all of it. It is interpreted for the layout invariant: the
  write pointer is the end of the code, and labels and resolved targets do not point beyond
  it. The compilation of functions, actions and commands closes every piece of code with an
  instruction that does not fall through, which makes the bounds strict.
\<close>

section \<open>Invariants on success\<close>

text \<open>What holds after a normal return. A failed compilation gives no module.\<close>

definition ensures :: "('s \<Rightarrow> bool) \<Rightarrow> ('s, 'a, 'e) prog \<Rightarrow> ('a \<Rightarrow> 's \<Rightarrow> bool) \<Rightarrow> bool" where
  "ensures P m Q \<longleftrightarrow> (\<forall>s a s'. P s \<longrightarrow> m s = (Ok a, s') \<longrightarrow> Q a s')"

abbreviation preserves :: "('s \<Rightarrow> bool) \<Rightarrow> ('s, 'a, 'e) prog \<Rightarrow> bool" where
  "preserves I m \<equiv> ensures I m (\<lambda>_. I)"

named_theorems preserves_rules

lemma pbind_pgets: "pbind (pgets f) g s = g (f s) s"
  by (simp add: pbind_def pgets_def)

lemma ensuresI: "(\<And>s a s'. P s \<Longrightarrow> m s = (Ok a, s') \<Longrightarrow> Q a s') \<Longrightarrow> ensures P m Q"
  by (simp add: ensures_def)

lemma ensuresD: "ensures P m Q \<Longrightarrow> P s \<Longrightarrow> m s = (Ok a, s') \<Longrightarrow> Q a s'"
  by (simp add: ensures_def)

lemma ensures_weaken:
  "ensures P m Q \<Longrightarrow> (\<And>s. P' s \<Longrightarrow> P s) \<Longrightarrow> (\<And>a s. Q a s \<Longrightarrow> Q' a s) \<Longrightarrow> ensures P' m Q'"
  by (simp add: ensures_def) blast

lemma ensures_pbind: "ensures P m R \<Longrightarrow> (\<And>a. ensures (R a) (f a) Q) \<Longrightarrow> ensures P (pbind m f) Q"
  by (fastforce simp: ensures_def elim: pbind_cases)

lemma preserves_pbind [preserves_rules]:
  "preserves I m \<Longrightarrow> (\<And>a. preserves I (f a)) \<Longrightarrow> preserves I (pbind m f)"
  by (rule ensures_pbind)

lemma preserves_basic [preserves_rules]:
  "preserves I (preturn a)" "preserves I (pfail e)" "preserves I (ppanic p)" "preserves I (plift r)"
  "preserves I (pgets f)"
  by (auto simp: ensures_def prog_defs)

lemma preserves_if [preserves_rules]:
  "preserves I m \<Longrightarrow> preserves I n \<Longrightarrow> preserves I (if b then m else n)"
  by simp

lemma preserves_option [preserves_rules]:
  "preserves I m \<Longrightarrow> (\<And>x. v = Some x \<Longrightarrow> preserves I (f x)) \<Longrightarrow>
   preserves I (case v of None \<Rightarrow> m | Some x \<Rightarrow> f x)"
  by (cases v) auto

lemma preserves_prod [preserves_rules]:
  "(\<And>a b. preserves I (f a b)) \<Longrightarrow> preserves I (case p of (a, b) \<Rightarrow> f a b)"
  by (cases p) auto

lemma preserves_result [preserves_rules]:
  "(\<And>a. preserves I (f a)) \<Longrightarrow> (\<And>e. preserves I (g e)) \<Longrightarrow> (\<And>p. preserves I (h p)) \<Longrightarrow>
   preserves I (case r of Ok a \<Rightarrow> f a | Err e \<Rightarrow> g e | Panic p \<Rightarrow> h p)"
  by (cases r) auto

lemma preserves_for_each:
  "(\<And>x. x \<in> set xs \<Longrightarrow> preserves I (f x)) \<Longrightarrow> preserves I (for_each xs f)"
  by (induction xs) (auto intro!: preserves_rules)

lemma preserves_err [preserves_rules]:
  "preserves I (err t)" "preserves I (err_loc t l)" "preserves I (err_plain t)"
  by (auto simp: ensures_def err_def err_loc_def err_plain_def prog_defs split: result.splits)

section \<open>Compilation of expressions and statements\<close>

text \<open>
  Apart from the code and its labels, the compilation of expressions and statements changes
  the counters, the contexts, the identifier types and the code map only.
\<close>

definition same_frame :: "compile_state \<Rightarrow> compile_state \<Rightarrow> bool" where
  "same_frame s s' \<longleftrightarrow> s' = s\<lparr>cs_m := (cs_m s)\<lparr>ct_codemap := ct_codemap (cs_m s')\<rparr>, cs_c := cs_c s',
     cs_last_locator := cs_last_locator s', cs_statement_context := cs_statement_context s',
     cs_identifier_types := cs_identifier_types s'\<rparr>"

locale frame_stable =
  fixes I :: "compile_state \<Rightarrow> bool"
  assumes other_ok: "I s \<Longrightarrow> same_frame s s' \<Longrightarrow> I s'"
begin

lemma preserves_modify: "(\<And>s. same_frame s (f s)) \<Longrightarrow> preserves I (pmodify f)"
  by (auto simp: ensures_def pmodify_def intro: other_ok)

lemma preserves_its_op [preserves_rules]: "preserves I (its_op m)"
  by (auto simp: ensures_def its_op_def same_frame_def split: prod.splits result.splits intro: other_ok)

lemma preserves_context [preserves_rules]:
  "preserves I (enter_statement_context c)" "preserves I exit_statement_context"
  "preserves I get_statement_context"
  unfolding enter_statement_context_def exit_statement_context_def get_statement_context_def
  by (intro preserves_rules preserves_modify; simp add: same_frame_def)+

lemma preserves_anonymous [preserves_rules]: "preserves I anonymous_label"
  unfolding anonymous_label_def
  by (intro preserves_rules preserves_modify) (simp add: same_frame_def)

lemma preserves_map_range [preserves_rules]: "preserves I (map_range l)"
  unfolding map_range_def modify_target_def
  by (intro preserves_rules preserves_modify; simp add: same_frame_def)

lemma preserves_add_identifier [preserves_rules]: "preserves I (add_identifier n t)"
  unfolding add_identifier_def by (intro preserves_rules)

lemma preserves_verify [preserves_rules]:
  "preserves I (get_fact_def n)" "preserves I (verify_fact_values vs d)" "preserves I (verify_fact_key k)"
  unfolding get_fact_def_def verify_fact_values_def verify_fact_key_def
  by (intro preserves_rules preserves_for_each)+

lemma preserves_verify_schema [preserves_rules]: "preserves I (verify_fact_against_schema f b)"
  unfolding verify_fact_against_schema_def by (intro preserves_rules preserves_for_each)

end

text \<open>Instructions without a resolved target, and the branch over an exit.\<close>

fun target_of :: "instruction \<Rightarrow> target option" where
  "target_of (IBranch t) = Some t"
| "target_of (IJump t) = Some t"
| "target_of (ICall t) = Some t"
| "target_of _ = None"

definition symbolic :: "instruction \<Rightarrow> bool" where
  "symbolic i \<longleftrightarrow> (\<forall>n. target_of i \<noteq> Some (Resolved n))"

definition append_guard :: "nat \<Rightarrow> exit_reason \<Rightarrow> unit cprog" where
  "append_guard addr r =
     pthen (append_instruction (IBranch (Resolved addr))) (append_instruction (IExit r))"

locale compile_stable = frame_stable +
  assumes append_ok: "symbolic i \<Longrightarrow> preserves I (append_instruction i)"
    and label_ok: "preserves I (define_here l)"
    and guard_ok: "I s \<Longrightarrow> append_guard (cs_wp s + 2) r s = (Ok (), s') \<Longrightarrow> I s'"
begin

lemma preserves_append [preserves_rules]: "symbolic i \<Longrightarrow> preserves I (append_instruction i)"
  by (rule append_ok)

lemma preserves_appends: "\<forall>i \<in> set code. symbolic i \<Longrightarrow> preserves I (for_each code append_instruction)"
  by (intro preserves_for_each append_ok) auto

lemma preserves_label [preserves_rules]: "preserves I (define_here l)"
  by (rule label_ok)

lemma preserves_guard:
  assumes "preserves I stop"
  shows "preserves I (pbind (pgets cs_wp) (\<lambda>addr. case usize_checked_add addr 2 of
     None \<Rightarrow> stop | Some next \<Rightarrow> pthen (append_instruction (IBranch (Resolved next)))
       (append_instruction (IExit r))))" (is "preserves I ?m")
proof (rule ensuresI)
  fix s a s'
  assume s: "I s" "?m s = (Ok a, s')"
  show "I s'"
  proof (cases "cs_wp s + 2 < usize_limit")
    case True
    then have "append_guard (cs_wp s + 2) r s = (Ok (), s')"
      using s(2) by (simp add: append_guard_def usize_checked_add_def pbind_pgets)
    with s(1) show ?thesis by (rule guard_ok)
  next
    case False
    then have "stop s = (Ok a, s')"
      using s(2) by (simp add: usize_checked_add_def pbind_pgets)
    with assms s(1) show ?thesis by (blast dest: ensuresD)
  qed
qed

lemma preserves_field:
  "(\<And>e. f = FFExpression e \<Longrightarrow> preserves I (ce e)) \<Longrightarrow> symbolic i \<Longrightarrow> preserves I (compile_field ce i f)"
  unfolding compile_field_def by (cases f) (auto intro!: preserves_rules)

lemma preserves_fact_literal:
  assumes "\<And>k e. (k, FFExpression e) \<in> set (literal_fields f) \<Longrightarrow> preserves I (ce e)"
  shows "preserves I (compile_fact_literal ce f)"
proof -
  have "preserves I (for_each fs (\<lambda>x. compile_field ce (i (fst x)) (snd x)))"
    if "set fs \<subseteq> set (literal_fields f)" "\<And>k. symbolic (i k)" for fs and i :: "string \<Rightarrow> instruction"
    using that assms by (intro preserves_for_each preserves_field) (force, simp)
  from this [of _ IFactKeySet] this [of _ IFactValueSet] show ?thesis
    unfolding compile_fact_literal_def
    by (cases "fl_value_fields f")
      (auto simp: literal_fields_def symbolic_def intro!: preserves_rules)
qed

lemma preserves_arguments:
  "(\<And>a. a \<in> set args \<Longrightarrow> preserves I (ce a)) \<Longrightarrow>
   preserves I (for_each args (\<lambda>a. pbind (ce a) (\<lambda>_. preturn ())))"
  by (intro preserves_for_each preserves_rules)

lemma preserves_struct_literal:
  "(\<And>f. f \<in> set (ns_fields ns) \<Longrightarrow> preserves I (ce (snd f))) \<Longrightarrow> preserves I (compile_struct_literal ce ns)"
  unfolding compile_struct_literal_def
  by (intro preserves_rules preserves_for_each) (auto simp: symbolic_def)

lemma preserves_function_call:
  "(\<And>a. a \<in> set (fc_arguments f) \<Longrightarrow> preserves I (ce a)) \<Longrightarrow> preserves I (compile_function_call ce f b)"
  unfolding compile_function_call_def
  by (intro preserves_rules preserves_arguments) (auto simp: symbolic_def)

lemma preserves_call_expression:
  "(\<And>a. a \<in> set (fc_arguments f) \<Longrightarrow> preserves I (ce a)) \<Longrightarrow> preserves I (compile_call_expression ce f)"
  unfolding compile_call_expression_def by (intro preserves_rules preserves_function_call)

lemma preserves_foreign_call:
  "(\<And>a. a \<in> set (ffc_arguments f) \<Longrightarrow> preserves I (ce a)) \<Longrightarrow> preserves I (compile_foreign_call ce f)"
  unfolding compile_foreign_call_def
  by (intro preserves_rules preserves_arguments) (auto simp: symbolic_def)

lemma preserves_counting:
  "(\<And>k e. (k, FFExpression e) \<in> set (literal_fields f) \<Longrightarrow> preserves I (ce e)) \<Longrightarrow>
   preserves I (compile_counting_function ce c n f)"
  unfolding compile_counting_function_def count_past_def
  by (cases c) (auto simp: symbolic_def intro!: preserves_rules preserves_fact_literal)

lemma preserves_typed: "preserves I code \<Longrightarrow> preserves I (typed e code)"
  unfolding typed_def expression_type_def check_finish_expression_def by (intro preserves_rules)

lemma preserves_code:
  "preserves I a \<Longrightarrow> \<forall>i \<in> set code. symbolic i \<Longrightarrow> preserves I (compile_unary a code)"
  "preserves I a \<Longrightarrow> preserves I b \<Longrightarrow> \<forall>i \<in> set code. symbolic i \<Longrightarrow> preserves I (compile_binary a b code)"
  "preserves I a \<Longrightarrow> preserves I (compile_unwrap a r)"
  "preserves I m \<Longrightarrow> preserves I (require_pure e m)"
  "preserves I a \<Longrightarrow> preserves I b \<Longrightarrow> preserves I c \<Longrightarrow> preserves I (compile_if_expression a b c)"
  unfolding compile_unary_def compile_binary_def compile_unwrap_def require_pure_def compile_if_expression_def
  by (auto simp: symbolic_def intro!: preserves_rules preserves_appends)

lemma preserves_enum_reference: "preserves I (compile_enum_reference e)"
  unfolding compile_enum_reference_def by (intro preserves_rules) (simp add: symbolic_def)

lemma preserves_expression [preserves_rules]: "preserves I (compile_expression e)"
  by (induction e rule: compile_expression.induct)
    (auto simp: symbolic_def intro!: preserves_typed preserves_rules preserves_code preserves_fact_literal
      preserves_struct_literal preserves_call_expression preserves_foreign_call preserves_counting
      preserves_enum_reference)

lemma preserves_expressions: "preserves I (compile_fact_literal compile_expression f)"
  "preserves I (compile_function_call compile_expression c b)"
  by (intro preserves_fact_literal preserves_function_call preserves_expression)+

lemma preserves_arm_branches [preserves_rules]: "preserves I (compile_arm_branches all arms)"
proof (induction arms)
  case (Cons arm arms)
  then show ?case
    by (cases "arm_pattern arm")
      (auto simp: symbolic_def intro!: preserves_rules preserves_for_each)
qed (simp add: preserves_rules)

lemma preserves_guarded [preserves_rules]: "preserves I (compile_check e)" "preserves I (compile_debug_assert e)"
  unfolding compile_check_def compile_debug_assert_def by (intro preserves_rules preserves_guard)+

lemma preserves_typeish [preserves_rules]:
  "(\<And>t. preserves I (f t)) \<Longrightarrow> preserves I m \<Longrightarrow> preserves I (case t of Type t \<Rightarrow> f t | Indeterminate \<Rightarrow> m)"
  by (cases t) auto

lemma preserves_finish_field [preserves_rules]:
  "(\<And>e. preserves I (f e)) \<Longrightarrow> preserves I m \<Longrightarrow> preserves I (case v of FFExpression e \<Rightarrow> f e | FFBind \<Rightarrow> m)"
  by (cases v) auto

lemma preserves_facts [preserves_rules]:
  "preserves I (compile_create l f)" "preserves I (compile_update l f to)" "preserves I (compile_delete f)"
  unfolding compile_create_def compile_update_def compile_delete_def
  by (auto simp: symbolic_def intro!: preserves_rules preserves_for_each preserves_expressions)

lemma preserves_calls [preserves_rules]:
  "preserves I (compile_finish_call l fc)" "preserves I (compile_action_call l fc)"
  unfolding compile_finish_call_def compile_action_call_def compile_action_argument_def
  by (auto simp: symbolic_def intro!: preserves_rules preserves_for_each preserves_expressions)

lemma preserves_simple_statements [preserves_rules]:
  "preserves I (compile_let n e)" "preserves I (compile_return c e)" "preserves I (compile_emit e)"
  unfolding compile_let_def compile_return_def compile_emit_def
  by (auto simp: symbolic_def split: statement_context.split vtype.split intro!: preserves_rules)

lemma preserves_match_head [preserves_rules]: "preserves I (compile_match_head l e arms)"
  unfolding compile_match_head_def by (auto simp: symbolic_def intro!: preserves_rules)

lemma preserves_compounds:
  "preserves I m \<Longrightarrow> preserves I (compile_arm_body e a m)"
  "preserves I m \<Longrightarrow> preserves I (compile_if_branch el cond m)"
  "preserves I m \<Longrightarrow> preserves I (compile_finish l b m)"
  "preserves I m \<Longrightarrow> preserves I (compile_map f n m)"
  "preserves I m \<Longrightarrow> preserves I (allowed_in c b l m)"
  unfolding compile_arm_body_def compile_if_branch_def compile_finish_def compile_map_def allowed_in_def
  by (auto simp: symbolic_def intro!: preserves_rules preserves_expressions)

lemma preserves_block:
  assumes "\<And>c st. st \<in> set sts \<Longrightarrow> preserves I (rec c sts st)"
  shows "preserves I (compile_block rec scope sts)"
  unfolding compile_block_def
  by (intro preserves_rules preserves_for_each assms) (simp_all add: symbolic_def)

lemma preserves_statement: "preserves I (compile_statement c sts st)"
  by (induction c sts st rule: compile_statement.induct)
    (auto simp: symbolic_def intro!: preserves_compounds preserves_rules preserves_for_each preserves_block
      dest: set_zip_leftD)

lemma preserves_statements [preserves_rules]: "preserves I (compile_statements sts scope)"
  unfolding compile_statements_def by (intro preserves_block preserves_statement)

end

section \<open>Predicates on the code alone\<close>

definition same_code :: "compile_state \<Rightarrow> compile_state \<Rightarrow> bool" where
  "same_code s s' \<longleftrightarrow> ct_progmem (cs_m s') = ct_progmem (cs_m s) \<and>
     ct_labels (cs_m s') = ct_labels (cs_m s) \<and> cs_wp s' = cs_wp s"

lemma same_frame_code: "same_frame s s' \<Longrightarrow> same_code s s'"
  unfolding same_frame_def same_code_def
  by (drule arg_cong [where f = "\<lambda>x. (ct_progmem (cs_m x), ct_labels (cs_m x), cs_wp x)"]) simp

locale code_stable =
  fixes I :: "compile_state \<Rightarrow> bool"
  assumes code_ok: "I s \<Longrightarrow> same_code s s' \<Longrightarrow> I s'"

begin

lemma preserves_code_modify: "(\<And>s. same_code s (f s)) \<Longrightarrow> preserves I (pmodify f)"
  by (auto simp: ensures_def pmodify_def intro: code_ok)

end

sublocale code_stable \<subseteq> frame_stable
  by unfold_locales (blast intro: code_ok same_frame_code)

context code_stable
begin

lemma preserves_definitions [preserves_rules]:
  "preserves I (define_fact d)" "preserves I (define_struct n fds)" "preserves I (compile_enum_definition e)"
  "preserves I (insert_signature n sg l)" "preserves I (compile_global_let g)"
  "preserves I (command_attribute n a)"
  unfolding define_fact_def define_struct_def compile_enum_definition_def insert_signature_def
    compile_global_let_def command_attribute_def modify_target_def Let_def
  by (intro preserves_rules preserves_code_modify; simp add: same_code_def)+

lemma preserves_define_all [preserves_rules]: "preserves I define_all"
  unfolding define_all_def define_structs_def define_finish_function_signature_def Let_def
  by (intro preserves_rules preserves_for_each)

end

section \<open>The layout invariant\<close>

abbreviation code_of :: "compile_state \<Rightarrow> instruction list" where
  "code_of s \<equiv> ct_progmem (cs_m s)"

abbreviation labels_of :: "compile_state \<Rightarrow> (label, nat) btree_map" where
  "labels_of s \<equiv> ct_labels (cs_m s)"

definition points_below :: "nat \<Rightarrow> compile_state \<Rightarrow> bool" where
  "points_below n s \<longleftrightarrow> cs_wp s = length (code_of s) \<and>
     (\<forall>l a. bt_get (labels_of s) l = Some a \<longrightarrow> a < n) \<and>
     (\<forall>i \<in> set (code_of s). \<forall>a. target_of i = Some (Resolved a) \<longrightarrow> a < n)"

definition layout :: "compile_state \<Rightarrow> bool" where
  "layout s \<longleftrightarrow> points_below (Suc (length (code_of s))) s"

fun leaves :: "instruction \<Rightarrow> bool" where
  "leaves (IExit _) = True"
| "leaves IReturn = True"
| "leaves _ = False"

definition closed_code :: "compile_state \<Rightarrow> bool" where
  "closed_code s \<longleftrightarrow> points_below (length (code_of s)) s \<and> code_of s \<noteq> [] \<and> leaves (last (code_of s))"

lemma append_instruction_Ok:
  "append_instruction i s = (Ok u, s') \<longleftrightarrow> cs_wp s + 1 < usize_limit \<and>
     s' = s\<lparr>cs_m := (cs_m s)\<lparr>ct_progmem := code_of s @ [i]\<rparr>, cs_wp := cs_wp s + 1\<rparr>"
  by (auto simp: append_instruction_def Let_def usize_checked_add_def)

lemma define_label_Ok:
  "define_label l n s = (Ok u, s') \<longleftrightarrow> bt_get (labels_of s) l = None \<and>
     s' = s\<lparr>cs_m := (cs_m s)\<lparr>ct_labels := bt_insert l n (labels_of s)\<rparr>\<rparr>"
  by (auto simp: define_label_def pbind_pgets bt_contains_def modify_target_def pmodify_def err_def err_loc_def
      split: result.splits)

lemma define_here_Ok: "define_here l s = define_label l (cs_wp s) s"
  by (simp add: define_here_def pbind_pgets)

interpretation layout: compile_stable layout
proof
  show "layout s'" if "layout s" "same_frame s s'" for s s'
    using that same_frame_code [OF that(2)] by (simp add: layout_def points_below_def same_code_def)
  show "preserves layout (append_instruction i)" if "symbolic i" for i
    using that
    by (fastforce simp: ensures_def append_instruction_Ok layout_def points_below_def symbolic_def)
  show "preserves layout (define_here l)" for l
    by (auto simp: ensures_def define_here_Ok define_label_Ok layout_def points_below_def)
  show "layout s'" if "layout s" "append_guard (cs_wp s + 2) r s = (Ok (), s')" for s s' r
    using that
    by (auto simp: append_guard_def append_instruction_Ok layout_def points_below_def elim!: pbind_cases)
      (fastforce simp: less_Suc_eq)+
qed

interpretation closed: code_stable closed_code
  by unfold_locales (simp add: closed_code_def points_below_def same_code_def)

lemma closed_layout: "closed_code s \<Longrightarrow> layout s"
  by (auto simp: closed_code_def layout_def points_below_def less_Suc_eq)

section \<open>Closed pieces of code\<close>

abbreviation closing :: "('a cprog) \<Rightarrow> bool" where
  "closing m \<equiv> ensures layout m (\<lambda>_. closed_code)"

named_theorems closing_rules

lemma closing_pbind [closing_rules]: "preserves layout m \<Longrightarrow> (\<And>a. closing (f a)) \<Longrightarrow> closing (pbind m f)"
  by (rule ensures_pbind)

lemma closing_append: "leaves i \<Longrightarrow> closing (append_instruction i)"
  by (cases i) (fastforce simp: ensures_def append_instruction_Ok layout_def closed_code_def points_below_def)+

lemma closing_append_then: "leaves i \<Longrightarrow> preserves closed_code m \<Longrightarrow> closing (pthen (append_instruction i) m)"
  by (rule ensures_pbind [OF closing_append])

lemma closing_option [closing_rules]:
  "closing m \<Longrightarrow> (\<And>x. closing (f x)) \<Longrightarrow> closing (case v of None \<Rightarrow> m | Some x \<Rightarrow> f x)"
  by (cases v) auto

lemma closing_if [closing_rules]: "closing m \<Longrightarrow> closing n \<Longrightarrow> closing (if b then m else n)"
  by simp

lemma closing_err [closing_rules]: "closing (err_loc t l)"
  by (auto simp: ensures_def err_loc_def split: result.splits)

lemma closing_closed: "closing m \<Longrightarrow> preserves closed_code m"
  by (erule ensures_weaken) (rule closed_layout)

lemma layout_signature [preserves_rules]: "preserves layout (insert_signature n sg l)"
  unfolding insert_signature_def pmodify_def
  by (intro preserves_rules) (auto simp: ensures_def layout_def points_below_def)

lemma layout_arguments [preserves_rules]: "preserves layout (append_arguments args)"
  unfolding append_arguments_def append_var_def
  by (intro preserves_for_each preserves_rules) (simp_all add: symbolic_def)

lemma layout_require_return [preserves_rules]: "preserves layout (require_return n l)"
  unfolding require_return_def by (intro preserves_rules)

lemma closed_functions [preserves_rules]:
  "preserves closed_code (compile_function f)" "preserves closed_code (compile_finish_function ff)"
  unfolding compile_function_def compile_finish_function_def define_function_signature_def Let_def
  by (rule closing_closed, intro closing_append_then closing_rules preserves_rules; simp)+

lemma closed_blocks [preserves_rules]:
  "preserves closed_code (compile_policy_block c lt sc sts)"
  "preserves closed_code (compile_envelope_block c lt n rt a at sts l)"
  unfolding compile_policy_block_def compile_envelope_block_def
  by (rule closing_closed, intro closing_append closing_rules preserves_rules; simp add: symbolic_def)+

lemma closed_action [preserves_rules]: "preserves closed_code (compile_action a)"
  unfolding compile_action_def modify_target_def Let_def
  by (rule closing_closed, intro closing_append_then closing_rules preserves_rules closed.preserves_code_modify;
      simp add: same_code_def)

lemma closed_command [preserves_rules]: "preserves closed_code (compile_command c)"
  unfolding compile_command_def compile_command_policy_def compile_command_recall_def compile_command_seal_def
    compile_command_open_def modify_target_def Let_def
  by (intro preserves_rules preserves_for_each closed.preserves_code_modify; simp add: same_code_def)

lemma closed_all [preserves_rules]: "preserves closed_code compile_all"
  unfolding compile_all_def by (intro preserves_rules preserves_for_each)

section \<open>Declarations\<close>

text \<open>What a successful compilation leaves in the module for the machine to find.\<close>

datatype module_entry =
    DLabel label
  | DAction string "field_definition list"
  | DCommand string "(string, vtype) btree_map"

fun declares :: "module_entry \<Rightarrow> compile_state \<Rightarrow> bool" where
  "declares (DLabel l) s = (bt_get (labels_of s) l \<noteq> None)"
| "declares (DAction n args) s = (bt_get (ct_action_defs (cs_m s)) n = Some args)"
| "declares (DCommand n fs) s = (bt_get (ct_command_defs (cs_m s)) n = Some fs)"

lemma same_frame_declares: "same_frame s s' \<Longrightarrow> declares d s' = declares d s"
  unfolding same_frame_def
  by (drule arg_cong [where f = "\<lambda>x. (labels_of x, ct_action_defs (cs_m x), ct_command_defs (cs_m x))"])
    (cases d; simp)

lemma declares_append: "append_instruction i s = (Ok u, s') \<Longrightarrow> declares d s' = declares d s"
  by (cases d) (auto simp: append_instruction_Ok)

interpretation decl: compile_stable "declares d" for d
proof
  show "declares d s'" if "declares d s" "same_frame s s'" for s s'
    using that by (simp add: same_frame_declares)
  show "preserves (declares d) (append_instruction i)" if "symbolic i" for i
    by (auto simp: ensures_def declares_append)
  show "preserves (declares d) (define_here l)" for l
    by (cases d) (auto simp: ensures_def define_here_Ok define_label_Ok)
  show "declares d s'" if "declares d s" "append_guard (cs_wp s + 2) r s = (Ok (), s')" for s s' r
    using that by (auto simp: append_guard_def declares_append elim!: pbind_cases)
qed

lemma declares_insert:
  "preserves (declares d) (insert_signature n sg l)"
  "preserves (declares d) (pbind (pgets (ct_action_defs \<circ> cs_m)) (\<lambda>defs.
     if bt_contains defs n then err (CEAlreadyDefined n)
     else modify_target (\<lambda>m. m\<lparr>ct_action_defs := bt_insert n args (ct_action_defs m)\<rparr>)))"
  "preserves (declares d) (pbind (pgets (ct_command_defs \<circ> cs_m)) (\<lambda>defs.
     if bt_contains defs n then err (CEAlreadyDefined n)
     else modify_target (\<lambda>m. m\<lparr>ct_command_defs := bt_insert n fs (ct_command_defs m)\<rparr>)))"
  by (cases d; auto simp: ensures_def insert_signature_def pbind_pgets modify_target_def pmodify_def
      bt_contains_def err_def err_loc_def split: if_splits result.splits)+

lemma declares_attributes [preserves_rules]:
  "preserves (declares d) (command_attribute n a)"
  "preserves (declares d) (modify_target (\<lambda>m. if b m then m else m\<lparr>ct_command_attributes := f m\<rparr>))"
  by (cases d; auto simp: ensures_def command_attribute_def pbind_pgets modify_target_def pmodify_def Let_def
      err_def err_loc_def split: if_splits result.splits option.splits prod.splits)+

lemma declares_code [preserves_rules]:
  "preserves (declares d) (append_arguments args)" "preserves (declares d) (require_return n l)"
  unfolding append_arguments_def append_var_def require_return_def
  by (intro preserves_for_each preserves_rules; simp add: symbolic_def)+

lemma declares_functions [preserves_rules]:
  "preserves (declares d) (compile_function f)" "preserves (declares d) (compile_finish_function ff)"
  "preserves (declares d) (compile_action a)"
  unfolding compile_function_def compile_finish_function_def compile_action_def define_function_signature_def Let_def
  by (intro declares_insert preserves_rules; simp add: symbolic_def)+

lemma declares_blocks [preserves_rules]:
  "preserves (declares d) (compile_policy_block c lt sc sts)"
  "preserves (declares d) (compile_envelope_block c lt n rt a at sts l)"
  unfolding compile_policy_block_def compile_envelope_block_def
  by (intro preserves_rules; simp add: symbolic_def)+

lemma declares_command [preserves_rules]: "preserves (declares d) (compile_command c)"
  unfolding compile_command_def compile_command_policy_def compile_command_recall_def compile_command_seal_def
    compile_command_open_def Let_def
  by (intro declares_insert preserves_rules preserves_for_each)

abbreviation establishes :: "'a cprog \<Rightarrow> (compile_state \<Rightarrow> bool) \<Rightarrow> bool" where
  "establishes m E \<equiv> ensures (\<lambda>_. True) m (\<lambda>_. E)"

lemma establishes_here: "establishes m E \<Longrightarrow> (\<And>a. preserves E (f a)) \<Longrightarrow> establishes (pbind m f) E"
  by (rule ensures_pbind)

lemma establishes_later: "(\<And>a. establishes (f a) E) \<Longrightarrow> establishes (pbind m f) E"
  by (rule ensures_pbind [where R = "\<lambda>_ _. True"]) (simp_all add: ensures_def)

lemma establishes_err: "establishes (err_loc t l) E" "establishes (err t) E"
  by (auto simp: ensures_def err_def err_loc_def pbind_pgets split: result.splits)

lemma establishes_label: "establishes (define_here l) (declares (DLabel l))"
  by (auto simp: ensures_def define_here_Ok define_label_Ok)

lemma establishes_defs:
  "establishes (pbind (pgets (ct_action_defs \<circ> cs_m)) (\<lambda>defs.
     if bt_contains defs n then err (CEAlreadyDefined n)
     else modify_target (\<lambda>m. m\<lparr>ct_action_defs := bt_insert n args (ct_action_defs m)\<rparr>)))
     (declares (DAction n args))"
  "establishes (pbind (pgets (ct_command_defs \<circ> cs_m)) (\<lambda>defs.
     if bt_contains defs n then err (CEAlreadyDefined n)
     else modify_target (\<lambda>m. m\<lparr>ct_command_defs := bt_insert n fs (ct_command_defs m)\<rparr>)))
     (declares (DCommand n fs))"
  by (auto simp: ensures_def pbind_pgets modify_target_def pmodify_def err_def err_loc_def
      split: if_splits result.splits)

lemma establishes_for_each:
  assumes "\<And>x. x \<in> set xs \<Longrightarrow> establishes (f x) (E x)" "\<And>x y. preserves (E y) (f x)"
  shows "establishes (for_each xs f) (\<lambda>s. \<forall>x \<in> set xs. E x s)"
  using assms(1)
proof (induction xs)
  case (Cons x xs)
  have "establishes (for_each (x # xs) f) (E x)"
    by (simp, rule establishes_here) (auto intro!: Cons.prems preserves_for_each assms(2))
  moreover have "establishes (for_each (x # xs) f) (\<lambda>s. \<forall>x \<in> set xs. E x s)"
    by (simp, rule establishes_later) (auto intro!: Cons.IH Cons.prems)
  ultimately show ?case by (auto simp: ensures_def)
qed (simp add: ensures_def)

text \<open>The entries of an action and of a command.\<close>

definition action_entries :: "action_definition \<Rightarrow> module_entry list" where
  "action_entries a = [DLabel (label_new (ad_identifier a) LAction), DAction (ad_identifier a) (ad_arguments a)]"

definition command_entries :: "command_definition \<Rightarrow> module_entry list" where
  "command_entries c =
     map (\<lambda>lt. DLabel (label_new (cd_identifier c) lt)) [LCommandPolicy, LCommandRecall, LCommandSeal, LCommandOpen] @
     [DCommand (cd_identifier c) (bt_collect (map (\<lambda>f. (fd_identifier f, fd_field_type f)) (cd_fields c)))]"

lemma establishes_option:
  "establishes m E \<Longrightarrow> (\<And>x. establishes (f x) E) \<Longrightarrow> establishes (case v of None \<Rightarrow> m | Some x \<Rightarrow> f x) E"
  by (cases v) auto

lemma establishes_action:
  "establishes (compile_action a) (\<lambda>s. \<forall>d \<in> set (action_entries (node_inner a)). declares d s)"
proof -
  have "establishes (compile_action a) (declares (DLabel (label_new (ad_identifier (node_inner a)) LAction)))"
    unfolding compile_action_def Let_def
    by (rule establishes_later, rule establishes_here [OF establishes_label])
      (intro declares_insert preserves_rules; simp add: symbolic_def)
  moreover have "establishes (compile_action a)
      (declares (DAction (ad_identifier (node_inner a)) (ad_arguments (node_inner a))))"
    unfolding compile_action_def Let_def
    by (intro establishes_defs establishes_option establishes_err establishes_later)
  ultimately show ?thesis by (simp add: ensures_def action_entries_def)
qed

lemma establishes_unless: "establishes m E \<Longrightarrow> establishes (if b then err_loc t l else m) E"
  by (simp add: establishes_err)

lemma establishes_blocks:
  "establishes (compile_policy_block c lt sc sts) (declares (DLabel (label_new (cd_identifier c) lt)))"
  "establishes (compile_envelope_block c lt n rt a at sts l) (declares (DLabel (label_new (cd_identifier c) lt)))"
  unfolding compile_policy_block_def compile_envelope_block_def
  by (rule establishes_here [OF establishes_label], intro preserves_rules; simp add: symbolic_def)
    (rule establishes_unless, rule establishes_here [OF establishes_label], intro preserves_rules; simp add: symbolic_def)

lemma establishes_command:
  "establishes (compile_command c) (\<lambda>s. \<forall>d \<in> set (command_entries (node_inner c)). declares d s)"
proof -
  note defs = compile_command_def compile_command_policy_def compile_command_recall_def
    compile_command_seal_def compile_command_open_def Let_def
  let ?l = "\<lambda>lt. declares (DLabel (label_new (cd_identifier (node_inner c)) lt))"
  have "establishes (compile_command c) (?l LCommandPolicy)"
    unfolding defs
    by (rule establishes_later, rule establishes_here [OF establishes_blocks(1)],
        intro declares_insert preserves_rules preserves_for_each)
  moreover have "establishes (compile_command c) (?l LCommandRecall)"
    unfolding defs
    by (rule establishes_later, rule establishes_later, rule establishes_here [OF establishes_blocks(1)],
        intro declares_insert preserves_rules preserves_for_each)
  moreover have "establishes (compile_command c) (?l LCommandSeal)"
    unfolding defs
    by (rule establishes_later, rule establishes_later, rule establishes_later, rule establishes_here [OF establishes_blocks(2)],
        intro declares_insert preserves_rules preserves_for_each)
  moreover have "establishes (compile_command c) (?l LCommandOpen)"
    unfolding defs
    by (rule establishes_later, rule establishes_later, rule establishes_later, rule establishes_later, rule establishes_here [OF establishes_blocks(2)],
        intro declares_insert preserves_rules preserves_for_each)
  moreover have "establishes (compile_command c) (declares (DCommand (cd_identifier (node_inner c))
      (bt_collect (map (\<lambda>f. (fd_identifier f, fd_field_type f)) (cd_fields (node_inner c))))))"
    unfolding defs by (intro establishes_defs establishes_later)
  ultimately show ?thesis by (simp add: ensures_def command_entries_def)
qed

end
