(* ===== verification/Compiler_Spec.thy ===== *)
theory Compiler_Spec
  imports Compiler_Layout Vm_Safety
begin

text \<open>
  Compiled policies on the machine. A module that comes out of the compiler has all its
  targets resolved, every label and target points into the program, the program ends with an
  instruction that does not fall through, and every action and command has its entry points;
  so an execution never leaves the program.
\<close>

section \<open>The module\<close>

text \<open>A policy is compiled as it was given.\<close>

abbreviation for_policy :: "policy_ast \<Rightarrow> compile_state \<Rightarrow> bool" where
  "for_policy p s \<equiv> cs_policy s = p"

lemma with_policy: "establishes (f p) E \<Longrightarrow> ensures (for_policy p) (pbind (pgets cs_policy) f) (\<lambda>_. E)"
  by (auto simp: ensures_def pbind_pgets)

abbreviation all_declared :: "('a \<Rightarrow> module_entry list) \<Rightarrow> 'a ast_node list \<Rightarrow> compile_state \<Rightarrow> bool" where
  "all_declared entries nodes s \<equiv> \<forall>x \<in> set nodes. \<forall>d \<in> set (entries (node_inner x)). declares d s"

lemma keeps_declared:
  "(\<And>d. preserves (declares d) m) \<Longrightarrow> preserves (\<lambda>s. \<forall>d \<in> D. declares d s) m"
  "(\<And>d. preserves (declares d) m) \<Longrightarrow> preserves (\<lambda>s. \<forall>x \<in> X. \<forall>d \<in> F x. declares d s) m"
  by (fastforce simp: ensures_def)+

lemma actions_declared: "ensures (for_policy p) compile_all (\<lambda>_. all_declared action_entries (p_actions p))"
  unfolding compile_all_def
  by (rule with_policy)
    (intro establishes_later establishes_for_each establishes_here [OF establishes_action] keeps_declared(1)
      preserves_rules)

lemma commands_declared: "ensures (for_policy p) compile_all (\<lambda>_. all_declared command_entries (p_commands p))"
  unfolding compile_all_def
  by (rule with_policy, rule establishes_later, rule establishes_later, rule establishes_later, rule establishes_later,
      rule establishes_here [OF establishes_for_each])
    (intro establishes_command keeps_declared preserves_rules preserves_for_each)+

lemma policy_modify [preserves_rules]:
  "preserves (for_policy p) (modify_target f)" "preserves (for_policy p) (its_op m)"
  "preserves (for_policy p) (append_instruction i)"
  by (auto simp: ensures_def modify_target_def pmodify_def its_op_def append_instruction_Ok
      split: prod.splits result.splits)

lemma policy_enums: "preserves (for_policy p) (pmodify (\<lambda>s. s\<lparr>cs_enum_values := f s\<rparr>))"
  "preserves (for_policy p) (pmodify (\<lambda>s. s\<lparr>cs_function_signatures := g s\<rparr>))"
  by (auto simp: ensures_def pmodify_def)

lemma policy_kept [preserves_rules]:
  "preserves (for_policy p) (compile_global_let g)" "preserves (for_policy p) define_all"
  unfolding compile_global_let_def define_all_def define_structs_def define_struct_def compile_enum_definition_def
    define_fact_def define_finish_function_signature_def insert_signature_def Let_def
  by (intro preserves_rules preserves_for_each policy_enums)+

section \<open>Resolution\<close>

lemma resolve_instruction_target:
  assumes "resolve_instruction labels i = Ok i'"
  shows "leaves i' = leaves i" "target_of i' = Some t \<Longrightarrow>
    \<exists>n. t = Resolved n \<and> (target_of i = Some (Resolved n) \<or> (\<exists>l. bt_get labels l = Some n))"
  using assms by (cases "(labels, i)" rule: resolve_instruction.cases;
      auto split: option.splits elim!: resolve_target.elims)+

text \<open>A program that execution cannot leave but by an exit or a return.\<close>

definition well_laid :: "machine \<Rightarrow> bool" where
  "well_laid M \<longleftrightarrow> mc_progmem M \<noteq> [] \<and> leaves (last (mc_progmem M)) \<and>
     (\<forall>i \<in> set (mc_progmem M). \<forall>t. target_of i = Some t \<longrightarrow> (\<exists>n < length (mc_progmem M). t = Resolved n)) \<and>
     (\<forall>l a. bt_get (mc_labels M) l = Some a \<longrightarrow> a < length (mc_progmem M))"

fun offers :: "machine \<Rightarrow> module_entry \<Rightarrow> bool" where
  "offers M (DLabel l) = (bt_get (mc_labels M) l \<noteq> None)"
| "offers M (DAction n args) = (bt_get (mc_action_defs M) n = Some args)"
| "offers M (DCommand n fs) = (bt_get (mc_command_defs M) n = Some fs)"

lemma bt_get_filter: "bt_get (filter (\<lambda>(k, _). P k) m) k = (if P k then bt_get m k else None)"
  by (induction m) auto

lemma rseq_map_nth: "rseq (map f xs) = Ok ys \<Longrightarrow> length ys = length xs \<and> (\<forall>i < length xs. f (xs ! i) = Ok (ys ! i))"
  by (induction xs arbitrary: ys) (auto simp: less_Suc_eq_0_disj)

lemma resolve_targets_Ok:
  assumes "resolve_targets s = (Ok u, s')"
  shows "rseq (map (resolve_instruction (labels_of s)) (code_of s)) = Ok (code_of s') \<and>
    labels_of s' = filter (\<lambda>(k, _). label_ltype k \<noteq> LTemporary) (labels_of s) \<and>
    ct_action_defs (cs_m s') = ct_action_defs (cs_m s) \<and> ct_command_defs (cs_m s') = ct_command_defs (cs_m s)"
  using assms
  by (auto simp: resolve_targets_def pbind_pgets plift_def modify_target_def pmodify_def elim!: pbind_cases)

lemma resolved_well_laid:
  assumes "closed_code s" "resolve_targets s = (Ok u, s')"
  shows "well_laid (machine_from_module (into_module (cs_m s')))"
proof -
  let ?n = "length (code_of s)"
  note r = resolve_targets_Ok [OF assms(2)]
  have len: "length (code_of s') = ?n"
    and nth: "\<And>i. i < ?n \<Longrightarrow> resolve_instruction (labels_of s) (code_of s ! i) = Ok (code_of s' ! i)"
    using r rseq_map_nth by blast+
  have ne: "code_of s \<noteq> []" "code_of s' \<noteq> []" using assms(1) len by (auto simp: closed_code_def)
  have "leaves (last (code_of s'))"
    using nth [of "?n - 1"] ne len assms(1) resolve_instruction_target(1)
    by (simp add: last_conv_nth closed_code_def)
  moreover have "\<exists>n < ?n. t = Resolved n" if i: "i \<in> set (code_of s')" "target_of i = Some t" for i t
  proof -
    obtain j where j: "j < ?n" "i = code_of s' ! j" using i(1) len by (auto simp: in_set_conv_nth)
    from resolve_instruction_target(2) [OF nth [OF j(1)]] i(2) j assms(1) show ?thesis
      by (fastforce simp: closed_code_def points_below_def)
  qed
  moreover have "a < ?n" if "bt_get (labels_of s') l = Some a" for l a
    using that r assms(1) by (auto simp: bt_get_filter closed_code_def points_below_def split: if_splits)
  ultimately show ?thesis
    using ne len by (simp add: well_laid_def machine_from_module_def into_module_def)
qed

fun is_entry :: "module_entry \<Rightarrow> bool" where
  "is_entry (DLabel l) = (label_ltype l \<noteq> LTemporary)"
| "is_entry _ = True"

lemma resolved_offers:
  assumes "resolve_targets s = (Ok u, s')" "declares d s" "is_entry d"
  shows "offers (machine_from_module (into_module (cs_m s'))) d"
  using resolve_targets_Ok [OF assms(1)] assms(2,3)
  by (cases d) (auto simp: machine_from_module_def into_module_def bt_get_filter)

lemma entries_entry: "d \<in> set (action_entries a) \<Longrightarrow> is_entry d" "d \<in> set (command_entries c) \<Longrightarrow> is_entry d"
  by (auto simp: action_entries_def command_entries_def label_new_def)

lemma initial_layout: "layout (initial_state policy ffi dbg stub)"
  by (simp add: layout_def points_below_def initial_state_def compile_target_new_def)

lemma compile_steps:
  assumes "compile policy ffi dbg stub = Ok m"
  obtains s1 s2 s3 u where "closed_code s1" "for_policy policy s1" "compile_all s1 = (Ok (), s2)"
    "resolve_targets s2 = (Ok u, s3)" "m = into_module (cs_m s3)"
proof -
  let ?s0 = "initial_state policy ffi dbg stub"
  from assms obtain u s where "compile_policy ?s0 = (Ok u, s)" "m = into_module (cs_m s)"
    by (cases "compile_policy ?s0") (auto simp: compile_def)
  moreover from this(1) obtain a b c d where run:
    "append_instruction (IExit ExitPanic) ?s0 = (Ok (), a)"
    "for_each (p_global_lets (cs_policy a)) compile_global_let a = (Ok (), b)"
    "define_all b = (Ok (), c)" "compile_all c = (Ok (), d)" "resolve_targets d = (Ok u, s)"
    by (auto simp: compile_policy_def pgets_def elim!: pbind_cases)
  have pre: "preserves closed_code (for_each xs compile_global_let)"
    "preserves (for_policy policy) (for_each xs compile_global_let)" for xs
    by (intro preserves_for_each preserves_rules)+
  have "closed_code a" "for_policy policy a"
    using ensuresD [OF closing_append initial_layout run(1)] ensuresD [OF policy_modify(3) _ run(1)]
    by (simp_all add: initial_state_def)
  then have "closed_code b" "for_policy policy b"
    using ensuresD [OF pre(1) _ run(2)] ensuresD [OF pre(2) _ run(2)] by blast+
  then have "closed_code c" "for_policy policy c"
    using ensuresD [OF closed.preserves_define_all _ run(3)] ensuresD [OF policy_kept(2) _ run(3)] by blast+
  ultimately show ?thesis using that run(4,5) by blast
qed

lemma compile_well_laid:
  assumes "compile policy ffi dbg stub = Ok m"
  shows "well_laid (machine_from_module m)"
proof -
  from assms obtain s1 s2 s3 u where s: "closed_code s1" "compile_all s1 = (Ok (), s2)"
    "resolve_targets s2 = (Ok u, s3)" "m = into_module (cs_m s3)"
    by (rule compile_steps)
  then show ?thesis
    using ensuresD [OF closed_all s(1,2)] resolved_well_laid by blast
qed

lemma compile_offers:
  assumes "compile policy ffi dbg stub = Ok m"
  shows "a \<in> set (p_actions policy) \<Longrightarrow> d \<in> set (action_entries (node_inner a)) \<Longrightarrow> offers (machine_from_module m) d"
    and "c \<in> set (p_commands policy) \<Longrightarrow> d \<in> set (command_entries (node_inner c)) \<Longrightarrow> offers (machine_from_module m) d"
proof -
  from assms obtain s1 s2 s3 u where s: "for_policy policy s1" "compile_all s1 = (Ok (), s2)"
    "resolve_targets s2 = (Ok u, s3)" "m = into_module (cs_m s3)"
    by (rule compile_steps)
  show "a \<in> set (p_actions policy) \<Longrightarrow> d \<in> set (action_entries (node_inner a)) \<Longrightarrow> offers (machine_from_module m) d"
    using ensuresD [OF actions_declared s(1,2)] resolved_offers [OF s(3)] s(4) entries_entry(1) by blast
  show "c \<in> set (p_commands policy) \<Longrightarrow> d \<in> set (command_entries (node_inner c)) \<Longrightarrow> offers (machine_from_module m) d"
    using ensuresD [OF commands_declared s(1,2)] resolved_offers [OF s(3)] s(4) entries_entry(2) by blast
qed

section \<open>Execution inside the program\<close>

definition inside :: "machine \<Rightarrow> 'io run_state \<Rightarrow> bool" where
  "inside M s \<longleftrightarrow> rs_pc s < length (mc_progmem M) \<and>
     (\<forall>c \<in> set (rs_call_state s). Suc c < length (mc_progmem M))"

lemma well_laid_next:
  assumes "well_laid M" "pc < length (mc_progmem M)" "\<not> leaves (mc_progmem M ! pc)"
  shows "Suc pc < length (mc_progmem M)"
proof (rule ccontr)
  assume "\<not> Suc pc < length (mc_progmem M)"
  with assms(2) have "pc = length (mc_progmem M) - 1" by simp
  with assms(1,3) show False by (metis last_conv_nth well_laid_def)
qed

lemma well_laid_target:
  assumes "well_laid M" "pc < length (mc_progmem M)" "target_of (mc_progmem M ! pc) = Some (Resolved n)"
  shows "n < length (mc_progmem M)"
  using assms nth_mem by (fastforce simp: well_laid_def)

lemma step_inside:
  assumes "well_laid M" "ffi_stack_ok E" "run_state_wf s" "inside M s" "step E M s = (Ok Executing, s')"
  shows "inside M s'"
proof -
  let ?i = "mc_progmem M ! rs_pc s"
  have pc: "rs_pc s < length (mc_progmem M)" using assms(4) by (simp add: inside_def)
  have ctl: "control (rs_pc s) (rs_call_state s) (rs_scope s) ?i s'"
    using step_control [OF assms(2,3,5)] by simp
  note facts = assms(4) well_laid_next [OF assms(1) pc] well_laid_target [OF assms(1) pc]
  have frames: "inside M s'" if "frame_is n (rs_call_state s) (rs_scope s) s'" "n < length (mc_progmem M)" for n
    using that facts(1) by (simp add: inside_def frame_is_def)
  show ?thesis
  proof (cases "?i = IReturn")
    case True
    then show ?thesis
      using ctl facts(1) by (auto simp: inside_def dest: in_set_butlastD)
  next
    case False
    with ctl facts frames show ?thesis
      by (cases "(rs_pc s, rs_call_state s, rs_scope s, ?i, s')" rule: control.cases)
        (auto simp: inside_def)
  qed
qed

lemma steps_inside:
  assumes "steps_above E M k s t" "well_laid M" "ffi_stack_ok E" "run_state_wf s" "inside M s"
  shows "inside M t \<and> run_state_wf t"
  using assms
proof (induction rule: steps_above.induct)
  case (more t u)
  then show ?case
    using step_inside [of M E t u] keepsD [OF keeps_wf_step [of E M] _ more.hyps(2)] by blast
qed simp

text \<open>The five calls into a machine, and what each does before it runs the program.\<close>

datatype entry_call =
    CallAction string "pvalue list"
  | CallPolicy string struct struct
  | CallRecall string struct struct
  | CallSeal string struct
  | CallOpen string struct

fun entry_setup :: "machine \<Rightarrow> entry_call \<Rightarrow> ('io, unit) vm" where
  "entry_setup M (CallAction n args) = setup_action M n args"
| "entry_setup M (CallPolicy n this envelope) =
     pbind (setup_command M n LCommandPolicy this) (\<lambda>_. ipush M (VStruct envelope))"
| "entry_setup M (CallRecall n this envelope) =
     pbind (setup_command M n LCommandRecall this) (\<lambda>_. ipush M (VStruct envelope))"
| "entry_setup M (CallSeal n this) =
     pbind (setup_function M (label_new n LCommandSeal)) (\<lambda>_. ipush M (VStruct this))"
| "entry_setup M (CallOpen n envelope) =
     pbind (setup_function M (label_new n LCommandOpen)) (\<lambda>_. ipush M (VStruct envelope))"

lemma entry_setup_calls:
  "call_action E M n args = run_after E M (entry_setup M (CallAction n args))"
  "call_command_policy E M n this envelope = run_after E M (entry_setup M (CallPolicy n this envelope))"
  "call_command_recall E M n this envelope = run_after E M (entry_setup M (CallRecall n this envelope))"
  "call_seal E M n this = run_after E M (entry_setup M (CallSeal n this))"
  "call_open E M n envelope = run_after E M (entry_setup M (CallOpen n envelope))"
  by (simp_all add: call_action_def call_command_policy_def call_command_recall_def call_seal_def call_open_def)

definition at_label :: "machine \<Rightarrow> 'io run_state \<Rightarrow> bool" where
  "at_label M s \<longleftrightarrow> rs_call_state s = [] \<and> (\<exists>l. bt_get (mc_labels M) l = Some (rs_pc s))"

interpretation at_label: vm_stable "at_label M" for M
  by unfold_locales (auto simp: at_label_def)

lemma at_label_setup_function: "ensures (\<lambda>_. True) (setup_function M l) (\<lambda>_. at_label M)"
  by (auto simp: ensures_def setup_function_def set_pc_by_label_def at_label_def pmodify_def fail_at_def mk_err_def
      pfail_def elim!: pbind_cases split: option.splits)

lemma keeps_preserves: "keeps I m \<Longrightarrow> preserves I m"
  by (auto simp: ensures_def intro: keepsD)

lemma at_label_checks [keeps_rules]:
  "keeps (at_label M') (check_fields M def fs)" "keeps (at_label M') (push_all M args)"
  by (induction fs, auto simp del: fits_type_simp intro!: keeps_rules)
    (induction args, auto intro!: keeps_rules)

lemma at_label_entry: "ensures (\<lambda>_. True) (entry_setup M c) (\<lambda>_. at_label M)"
proof -
  have command: "ensures (\<lambda>_. True) (setup_command M n lt this) (\<lambda>_. at_label M)" for n lt this
    unfolding setup_command_def
    by (rule ensures_pbind [OF at_label_setup_function]) (intro keeps_preserves keeps_rules)
  have push: "preserves (at_label M) (ipush M v)" for v
    by (intro keeps_preserves keeps_rules)
  show ?thesis
  proof (cases c)
    case (CallAction n args)
    have "ensures (\<lambda>_. True) (fail_plain t) Q" for t and Q :: "unit \<Rightarrow> 'a run_state \<Rightarrow> bool"
      by (simp add: ensures_def fail_plain_def pfail_def)
    then show ?thesis
      unfolding CallAction entry_setup.simps setup_action_def
      by (auto split: option.split intro!: ensures_pbind [where R = "\<lambda>_ _. True"]
          ensures_pbind [OF at_label_setup_function] keeps_preserves keeps_rules)
        (simp add: keeps_def)
  qed (simp_all, (rule ensures_pbind [OF command] ensures_pbind [OF at_label_setup_function], rule push)+)
qed

lemma at_label_inside: "well_laid M \<Longrightarrow> at_label M s \<Longrightarrow> inside M s"
  by (auto simp: well_laid_def at_label_def inside_def)

lemma entry_setup_wf: "keeps run_state_wf (entry_setup M c)"
  by (cases c) (auto intro!: keeps_rules)

abbreviation fits_field :: "pvalue \<Rightarrow> field_definition \<Rightarrow> bool" where
  "fits_field v d \<equiv> fits_type v (fd_field_type d) = (Ok True :: (bool, machine_error) result)"

lemma check_args_fit:
  "list_all2 fits_field args defs \<Longrightarrow> check_args defs args s = (Ok (), s)"
  by (induction args defs rule: list_all2_induct)
    (simp_all add: preturn_def pbind_def plift_def del: fits_type_simp)

lemma push_all_fits:
  "length (rs_stack s) + length args \<le> STACK_SIZE \<Longrightarrow>
   push_all M args s = (Ok (), s\<lparr>rs_stack := rs_stack s @ args\<rparr>)"
  by (induction args arbitrary: s)
    (simp_all add: preturn_def pbind_def ipush_def push_value_def vec_push_def)

lemma setup_action_succeeds:
  assumes "offers M (DLabel (label_new n LAction))" "offers M (DAction n defs)"
    "list_all2 fits_field args defs"
    "length (rs_stack s) + length args \<le> STACK_SIZE"
  shows "\<exists>s'. setup_action M n args s = (Ok (), s')"
proof -
  from assms(1) obtain a where "bt_get (mc_labels M) (label_new n LAction) = Some a" by auto
  then have "setup_function M (label_new n LAction) s =
      (Ok (), s\<lparr>rs_pc := a, rs_call_state := [], rs_scope := scope_clear (rs_scope s)\<rparr>)"
    by (simp add: setup_function_def set_pc_by_label_def pbind_def pmodify_def)
  then show ?thesis
    using assms(2-4) list_all2_lengthD [OF assms(3)]
    by (simp add: setup_action_def pbind_def [of "check_args _ _"] check_args_fit
        pbind_def [of "setup_function _ _"] push_all_fits)
qed

section \<open>Properties\<close>

text \<open>
  C40. A policy that compiles runs inside its program. Every action of the policy can be
  called with arguments of its declared types that fit on the stack, every command has the
  definition and the four entry points the machine looks up, and whatever call starts the
  machine, at every moment of the execution the program counter is inside the program, so are
  the return addresses of all pending calls, and the target of the instruction about to be
  executed is resolved to an address of the program.
\<close>

theorem compiled_runs_inside:
  assumes "compile policy ffi dbg stub = Ok m" "ffi_stack_ok E"
  shows "(\<forall>a \<in> set (p_actions policy). \<forall>args.
      list_all2 fits_field args (ad_arguments (node_inner a)) \<longrightarrow>
      length args \<le> STACK_SIZE \<longrightarrow>
      (\<exists>s. entry_setup (machine_from_module m) (CallAction (ad_identifier (node_inner a)) args)
        (run_state_new (machine_from_module m) io ctx) = (Ok (), s))) \<and>
    (\<forall>c \<in> set (p_commands policy). \<forall>d \<in> set (command_entries (node_inner c)). offers (machine_from_module m) d) \<and>
    (\<forall>call s t. entry_setup (machine_from_module m) call (run_state_new (machine_from_module m) io ctx) = (Ok (), s) \<longrightarrow>
      steps_above E (machine_from_module m) 0 s t \<longrightarrow>
      inside (machine_from_module m) t \<and>
      (\<forall>tgt. target_of (mc_progmem (machine_from_module m) ! rs_pc t) = Some tgt \<longrightarrow>
        (\<exists>n < length (mc_progmem (machine_from_module m)). tgt = Resolved n)))"
proof (intro conjI ballI allI impI)
  let ?M = "machine_from_module m"
  note laid = compile_well_laid [OF assms(1)]
  show "\<exists>s. entry_setup ?M (CallAction (ad_identifier (node_inner a)) args) (run_state_new ?M io ctx) = (Ok (), s)"
    if "a \<in> set (p_actions policy)" "length args \<le> STACK_SIZE"
      "list_all2 fits_field args (ad_arguments (node_inner a))" for a args
    using compile_offers(1) [OF assms(1) that(1)] that(2,3)
    by (auto simp: action_entries_def run_state_new_def simp del: fits_type_simp offers.simps intro!: setup_action_succeeds)
  show "offers ?M d" if "c \<in> set (p_commands policy)" "d \<in> set (command_entries (node_inner c))" for c d
    using compile_offers(2) [OF assms(1) that] .
  fix call s t
  assume s: "entry_setup ?M call (run_state_new ?M io ctx) = (Ok (), s)" and t: "steps_above E ?M 0 s t"
  have "inside ?M s" "run_state_wf s"
    using ensuresD [OF at_label_entry TrueI s] at_label_inside [OF laid]
      keepsD [OF entry_setup_wf run_state_new_wf s] by blast+
  then show "inside ?M t" using steps_inside [OF t laid assms(2)] by blast
  then show "\<exists>n < length (mc_progmem ?M). tgt = Resolved n"
    if "target_of (mc_progmem ?M ! rs_pc t) = Some tgt" for tgt
    using that laid nth_mem by (fastforce simp: well_laid_def inside_def)
qed

definition demo_policy :: policy_ast where
  "demo_policy = (policy_new ''ab'')\<lparr>
     p_actions := [AstNode \<lparr>ad_identifier = ''act'',
       ad_arguments = [\<lparr>fd_identifier = ''x'', fd_field_type = TInt\<rparr>],
       ad_statements = [AstNode (SCheck (EGreaterThan (EIdentifier ''x'') (EInt 1))) 0]\<rparr> 0]\<rparr>"

theorem compiled_runs_inside_witness:
  "\<exists>m s. compile demo_policy [] False False = Ok m \<and>
     entry_setup (machine_from_module m) (CallAction ''act'' [VInt 2])
       (run_state_new (machine_from_module m) () (CtxOpen ''c'')) = (Ok (), s) \<and>
     (\<forall>t. steps_above null_env (machine_from_module m) 0 s t \<longrightarrow> inside (machine_from_module m) t)"
proof -
  have "is_ok (compile demo_policy [] False False)" by code_simp
  then obtain m where m: "compile demo_policy [] False False = Ok m"
    by (cases "compile demo_policy [] False False") auto
  note runs = compiled_runs_inside [OF m null_env_ffi, of "()" "CtxOpen ''c''"]
  have "\<exists>s. entry_setup (machine_from_module m) (CallAction ''act'' [VInt 2])
      (run_state_new (machine_from_module m) () (CtxOpen ''c'')) = (Ok (), s)"
    using runs by (force simp: demo_policy_def STACK_SIZE_def)
  with m runs show ?thesis by blast
qed

end
