(* ===== verification/Compiler_Eval.thy ===== *)
theory Compiler_Eval
  imports Compiler
begin

text \<open>
  What the expressions of the policy language mean, and that the types the compiler
  calculates for them are right. The evaluation covers the expressions that depend on
  variables only: all but queries, function calls and serialisation. An expression whose
  calculated type is definite evaluates to a value of that type, provided the fields of its
  struct literals have their declared types, which the compiler does not check.
\<close>

section \<open>Evaluation\<close>

text \<open>An evaluation gives a value, leaves the program, or fails in the machine.\<close>

datatype outcome = Value pvalue | Leaves exit_reason | Fails

fun obind :: "outcome \<Rightarrow> (pvalue \<Rightarrow> outcome) \<Rightarrow> outcome" where
  "obind (Value v) f = f v"
| "obind (Leaves r) f = Leaves r"
| "obind Fails f = Fails"

type_synonym struct_defs = "(string, field_definition list) btree_map"

definition has_member :: "struct_defs \<Rightarrow> string \<Rightarrow> string \<Rightarrow> bool" where
  "has_member D n k = (case bt_get D n of
      None \<Rightarrow> False
    | Some defs \<Rightarrow> list_ex (\<lambda>f. fd_identifier f = k) defs)"

fun eval_fields :: "(expression \<Rightarrow> outcome) \<Rightarrow> struct_defs \<Rightarrow> string \<Rightarrow> (string \<times> expression) list \<Rightarrow>
    (string, pvalue) btree_map \<Rightarrow> outcome" where
  "eval_fields ev D n [] fs = Value (VStruct (Struct n fs))"
| "eval_fields ev D n (f # rest) fs =
     obind (ev (snd f)) (\<lambda>v.
       if has_member D n (fst f) then eval_fields ev D n rest (bt_insert (fst f) v fs) else Fails)"

lemma eval_fields_ext:
  "(\<And>f. f \<in> set fs \<Longrightarrow> ev (snd f) = ev' (snd f)) \<Longrightarrow> eval_fields ev D n fs acc = eval_fields ev' D n fs acc"
proof (induction fs arbitrary: acc)
  case (Cons f fs)
  have "eval_fields ev D n fs a = eval_fields ev' D n fs a" for a
    using Cons by simp
  then show ?case using Cons.prems [of f] by (simp cong: if_cong)
qed simp

lemma eval_fields_cong [fundef_cong]:
  "fs = fs' \<Longrightarrow> D = D' \<Longrightarrow> n = n' \<Longrightarrow> acc = acc' \<Longrightarrow> (\<And>f. f \<in> set fs' \<Longrightarrow> ev (snd f) = ev' (snd f)) \<Longrightarrow>
   eval_fields ev D n fs acc = eval_fields ev' D' n' fs' acc'"
  using eval_fields_ext [of fs' ev ev'] by simp

fun int_op :: "(i64 \<Rightarrow> i64 \<Rightarrow> i64 option) \<Rightarrow> pvalue \<Rightarrow> pvalue \<Rightarrow> outcome" where
  "int_op f (VInt a) (VInt b) = (case f a b of None \<Rightarrow> Fails | Some c \<Rightarrow> Value (VInt c))"
| "int_op f _ _ = Fails"

fun bool_op :: "(bool \<Rightarrow> bool \<Rightarrow> bool) \<Rightarrow> pvalue \<Rightarrow> pvalue \<Rightarrow> outcome" where
  "bool_op f (VBool a) (VBool b) = Value (VBool (f a b))"
| "bool_op f _ _ = Fails"

fun compare_op :: "(int \<Rightarrow> int \<Rightarrow> bool) \<Rightarrow> pvalue \<Rightarrow> pvalue \<Rightarrow> outcome" where
  "compare_op f (VInt a) (VInt b) = Value (VBool (f (sint a) (sint b)))"
| "compare_op f _ _ = Fails"

fun on_bool :: "(bool \<Rightarrow> outcome) \<Rightarrow> pvalue \<Rightarrow> outcome" where
  "on_bool f (VBool b) = f b"
| "on_bool f _ = Fails"

fun get_field :: "string \<Rightarrow> pvalue \<Rightarrow> outcome" where
  "get_field k (VStruct s) = (case bt_get (struct_fields s) k of None \<Rightarrow> Fails | Some v \<Rightarrow> Value v)"
| "get_field k _ = Fails"

fun eval :: "struct_defs \<Rightarrow> (string \<Rightarrow> pvalue option) \<Rightarrow> expression \<Rightarrow> outcome" where
  "eval D env (EInt n) = Value (VInt n)"
| "eval D env (EString s) = Value (VString s)"
| "eval D env (EBool b) = Value (VBool b)"
| "eval D env (EOptional None) = Value VNone"
| "eval D env (EOptional (Some e)) = eval D env e"
| "eval D env (ENamedStruct ns) = eval_fields (\<lambda>e. eval D env e) D (ns_identifier ns) (ns_fields ns) []"
| "eval D env (EInternalFunction (IFIf c t f)) =
     obind (eval D env c) (on_bool (\<lambda>b. if b then eval D env t else eval D env f))"
| "eval D env (EIdentifier x) = (case env x of None \<Rightarrow> Fails | Some v \<Rightarrow> Value v)"
| "eval D env (EEnumReference r) = Value (VEnum (er_identifier r) (er_value r))"
| "eval D env (EAdd a b) = obind (eval D env a) (\<lambda>u. obind (eval D env b) (int_op i64_checked_add u))"
| "eval D env (ESubtract a b) = obind (eval D env a) (\<lambda>u. obind (eval D env b) (int_op i64_checked_sub u))"
| "eval D env (EAnd a b) = obind (eval D env a) (\<lambda>u. obind (eval D env b) (bool_op (\<and>) u))"
| "eval D env (EOr a b) = obind (eval D env a) (\<lambda>u. obind (eval D env b) (bool_op (\<or>) u))"
| "eval D env (EDot e k) = obind (eval D env e) (get_field k)"
| "eval D env (EEqual a b) = obind (eval D env a) (\<lambda>u. obind (eval D env b) (\<lambda>v. Value (VBool (u = v))))"
| "eval D env (ENotEqual a b) = obind (eval D env a) (\<lambda>u. obind (eval D env b) (\<lambda>v. Value (VBool (u \<noteq> v))))"
| "eval D env (EGreaterThan a b) = obind (eval D env a) (\<lambda>u. obind (eval D env b) (compare_op (>) u))"
| "eval D env (ELessThan a b) = obind (eval D env a) (\<lambda>u. obind (eval D env b) (compare_op (<) u))"
| "eval D env (EGreaterThanOrEqual a b) = obind (eval D env a) (\<lambda>u. obind (eval D env b) (compare_op (\<ge>) u))"
| "eval D env (ELessThanOrEqual a b) = obind (eval D env a) (\<lambda>u. obind (eval D env b) (compare_op (\<le>) u))"
| "eval D env (ENegative e) = obind (eval D env e) (int_op i64_checked_sub (VInt 0))"
| "eval D env (ENot e) = obind (eval D env e) (on_bool (\<lambda>b. Value (VBool (\<not> b))))"
| "eval D env (EUnwrap e) = obind (eval D env e) (\<lambda>v. if v = VNone then Leaves ExitPanic else Value v)"
| "eval D env (ECheckUnwrap e) = obind (eval D env e) (\<lambda>v. if v = VNone then Leaves ExitCheck else Value v)"
| "eval D env (EIs e is_some) = obind (eval D env e) (\<lambda>v. Value (VBool ((v \<noteq> VNone) = is_some)))"
| "eval D env _ = Fails"

section \<open>Values of a type\<close>

inductive conforms :: "struct_defs \<Rightarrow> vtype \<Rightarrow> pvalue \<Rightarrow> bool" for D where
  conforms_string: "conforms D TString (VString s)"
| conforms_bytes: "conforms D TBytes (VBytes b)"
| conforms_int: "conforms D TInt (VInt n)"
| conforms_bool: "conforms D TBool (VBool b)"
| conforms_id: "conforms D TId (VId i)"
| conforms_enum: "conforms D (TEnum n) (VEnum n v)"
| conforms_none: "conforms D (TOptional t) VNone"
| conforms_some: "conforms D t v \<Longrightarrow> conforms D (TOptional t) v"
| conforms_struct:
    "(\<And>k v defs d. (k, v) \<in> set fs \<Longrightarrow> bt_get D n = Some defs \<Longrightarrow> find (\<lambda>f. fd_identifier f = k) defs = Some d \<Longrightarrow>
       conforms D (fd_field_type d) v) \<Longrightarrow>
     conforms D (TStruct n) (VStruct (Struct n fs))"

inductive_cases conforms_intE [elim!]: "conforms D TInt v"
inductive_cases conforms_boolE [elim!]: "conforms D TBool v"
inductive_cases conforms_optionE: "conforms D (TOptional t) v"
inductive_cases conforms_structE: "conforms D (TStruct n) v"

declare conforms.intros [intro]

text \<open>The fields of struct literals have their declared types.\<close>

definition fits_static :: "compile_state \<Rightarrow> string \<Rightarrow> string \<times> expression \<Rightarrow> bool" where
  "fits_static s n f = (case bt_get (ct_struct_defs (cs_m s)) n of
      None \<Rightarrow> True
    | Some defs \<Rightarrow>
        (case find (\<lambda>d. fd_identifier d = fst f) defs of
           None \<Rightarrow> True
         | Some d \<Rightarrow> calculate_expression_type s (snd f) = Ok (Type (fd_field_type d)) \<or>
             snd f = EOptional None \<and> (case fd_field_type d of TOptional _ \<Rightarrow> True | _ \<Rightarrow> False)))"

fun literals_typed :: "compile_state \<Rightarrow> expression \<Rightarrow> bool" where
  "literals_typed s (EOptional (Some e)) = literals_typed s e"
| "literals_typed s (ENamedStruct ns) =
     (\<forall>f \<in> set (ns_fields ns). fits_static s (ns_identifier ns) f \<and> literals_typed s (snd f))"
| "literals_typed s (EInternalFunction (IFIf c t f)) =
     (literals_typed s c \<and> literals_typed s t \<and> literals_typed s f)"
| "literals_typed s (EAdd a b) = (literals_typed s a \<and> literals_typed s b)"
| "literals_typed s (ESubtract a b) = (literals_typed s a \<and> literals_typed s b)"
| "literals_typed s (EAnd a b) = (literals_typed s a \<and> literals_typed s b)"
| "literals_typed s (EOr a b) = (literals_typed s a \<and> literals_typed s b)"
| "literals_typed s (EDot e k) = literals_typed s e"
| "literals_typed s (EEqual a b) = (literals_typed s a \<and> literals_typed s b)"
| "literals_typed s (ENotEqual a b) = (literals_typed s a \<and> literals_typed s b)"
| "literals_typed s (EGreaterThan a b) = (literals_typed s a \<and> literals_typed s b)"
| "literals_typed s (ELessThan a b) = (literals_typed s a \<and> literals_typed s b)"
| "literals_typed s (EGreaterThanOrEqual a b) = (literals_typed s a \<and> literals_typed s b)"
| "literals_typed s (ELessThanOrEqual a b) = (literals_typed s a \<and> literals_typed s b)"
| "literals_typed s (ENegative e) = literals_typed s e"
| "literals_typed s (ENot e) = literals_typed s e"
| "literals_typed s (EUnwrap e) = literals_typed s e"
| "literals_typed s (ECheckUnwrap e) = literals_typed s e"
| "literals_typed s (EIs e b) = literals_typed s e"
| "literals_typed s _ = True"

text \<open>The variables have the types the compiler recorded for them.\<close>

definition env_typed :: "compile_state \<Rightarrow> (string \<Rightarrow> pvalue option) \<Rightarrow> bool" where
  "env_typed s env \<longleftrightarrow> (\<forall>x t v. its_get (cs_identifier_types s) x = Ok (Type t) \<longrightarrow> env x = Some v \<longrightarrow>
     conforms (ct_struct_defs (cs_m s)) t v)"

lemma obind_Value: "(obind r f = Value v) \<longleftrightarrow> (\<exists>u. r = Value u \<and> f u = Value v)"
  by (cases r) auto

lemma on_bool_Value: "(on_bool f v = Value w) \<longleftrightarrow> (\<exists>b. v = VBool b \<and> f b = Value w)"
  by (cases v) auto

lemma eval_fields_struct:
  assumes "eval_fields ev D n fs acc = Value v"
  shows "\<exists>fs'. v = VStruct (Struct n fs') \<and>
    (\<forall>k w. (k, w) \<in> set fs' \<longrightarrow> (k, w) \<in> set acc \<or> (\<exists>e. (k, e) \<in> set fs \<and> ev e = Value w))"
  using assms
proof (induction fs arbitrary: acc)
  case (Cons f fs)
  have ins: "set (bt_insert k w m) \<subseteq> insert (k, w) (set m)" for k :: string and w and m :: "(string, pvalue) btree_map"
    by (induction k w m rule: bt_insert.induct) auto
  from Cons.prems obtain u where u: "ev (snd f) = Value u" "eval_fields ev D n fs (bt_insert (fst f) u acc) = Value v"
    by (auto simp: obind_Value split: if_splits)
  from Cons.IH [OF u(2)] ins [of "fst f" u acc] u(1) show ?case
    by (cases f) fastforce
qed auto

lemma expect_type_Ok: "(expect_type w out msg ty = Ok (Type t)) \<longleftrightarrow> ty = Type w \<and> t = out"
  by (cases ty) (auto simp: expect_type_def)

lemma is_equal_iff: "is_equal a b \<longleftrightarrow> a = b \<and> a \<noteq> Indeterminate"
  by (cases a; cases b) auto

lemma unify_pair_Type:
  "(unify_pair l r = Ok (Type t)) \<longleftrightarrow> l = Ok (Type t) \<and> r = Ok (Type t)"
  by (cases l; cases r) (auto simp: unify_pair_def is_equal_iff)

lemma unwrap_type_Ok: "(unwrap_type ty = Ok (Type t)) \<longleftrightarrow> ty = Type (TOptional t)"
  by (cases ty) (auto simp: unwrap_type_def split: vtype.splits)

lemma is_type_Ok:
  "(map_result (\<lambda>t. case t of TOptional _ \<Rightarrow> Ok (Type TBool) | _ \<Rightarrow> Err msg) ty = Ok (Type t)) \<longleftrightarrow>
     (\<exists>u. ty = Type (TOptional u)) \<and> t = TBool"
  by (cases ty) (auto split: vtype.splits)

lemma dot_type_Ok:
  "(dot_type s k ty = Ok (Type t)) \<longleftrightarrow> (\<exists>n defs d. ty = Type (TStruct n) \<and>
     bt_get (ct_struct_defs (cs_m s)) n = Some defs \<and> find (\<lambda>f. fd_identifier f = k) defs = Some d \<and> t = fd_field_type d)"
  by (cases ty) (auto simp: dot_type_def split: vtype.splits option.splits)

lemma map_vtype_Ok: "(Type t = map_vtype f ty) \<longleftrightarrow> (\<exists>u. ty = Type u \<and> t = f u)"
  by (cases ty) auto

lemma op_values:
  "int_op f u v = Value w \<Longrightarrow> conforms D TInt w" "bool_op g u v = Value w \<Longrightarrow> conforms D TBool w"
  "compare_op h u v = Value w \<Longrightarrow> conforms D TBool w"
  by (auto elim!: int_op.elims bool_op.elims compare_op.elims split: option.splits)

lemma get_field_conforms:
  assumes "get_field k v = Value w" "conforms D (TStruct n) v" "bt_get D n = Some defs"
    "find (\<lambda>f. fd_identifier f = k) defs = Some d"
  shows "conforms D (fd_field_type d) w"
proof -
  from assms(2) obtain fs where fs: "v = VStruct (Struct n fs)"
    "\<And>k w. (k, w) \<in> set fs \<Longrightarrow> bt_get D n = Some defs \<Longrightarrow> find (\<lambda>f. fd_identifier f = k) defs = Some d \<Longrightarrow>
       conforms D (fd_field_type d) w"
    by (elim conforms_structE) blast
  have "(k, w) \<in> set fs"
    using assms(1) fs(1) by (auto dest: bt_get_mem split: option.splits)
  then show ?thesis using fs(2) assms(3,4) by blast
qed

lemma eval_conforms:
  assumes "calculate_expression_type s e = Ok (Type t)" "eval (ct_struct_defs (cs_m s)) env e = Value v"
    "literals_typed s e" "env_typed s env"
  shows "conforms (ct_struct_defs (cs_m s)) t v"
  using assms
proof (induction "ct_struct_defs (cs_m s)" env e arbitrary: t v rule: eval.induct)
  case (6 env ns)
  let ?D = "ct_struct_defs (cs_m s)"
  have t: "t = TStruct (ns_identifier ns)"
    using "6.prems"(1) by (simp add: struct_type_def split: if_splits)
  obtain fs where fs: "v = VStruct (Struct (ns_identifier ns) fs)"
    "\<And>k w. (k, w) \<in> set fs \<Longrightarrow> \<exists>e. (k, e) \<in> set (ns_fields ns) \<and> eval ?D env e = Value w"
    using eval_fields_struct [OF "6.prems"(2) [unfolded eval.simps]] by auto
  have "conforms ?D (fd_field_type d) w"
    if w: "(k, w) \<in> set fs" "bt_get ?D (ns_identifier ns) = Some defs" "find (\<lambda>f. fd_identifier f = k) defs = Some d"
    for k w defs d
  proof -
    from fs(2) [OF w(1)] obtain e where e: "(k, e) \<in> set (ns_fields ns)" "eval ?D env e = Value w" by blast
    with "6.prems"(3) have l: "fits_static s (ns_identifier ns) (k, e)" "literals_typed s e" by auto
    from l(1) w(2,3) consider "calculate_expression_type s e = Ok (Type (fd_field_type d))"
      | u where "e = EOptional None" "fd_field_type d = TOptional u"
      by (auto simp: fits_static_def split: vtype.splits)
    then show ?thesis
      using "6.hyps" [OF e(1), of "fd_field_type d" w] e(2) l(2) "6.prems"(4) by cases auto
  qed
  then show ?case unfolding t fs(1) by (rule conforms_struct)
next
  case (8 env x)
  then show ?case
    by (auto simp: env_typed_def split: option.splits)
next
  case (14 env e k)
  from "14.prems" obtain u n defs d where u: "eval (ct_struct_defs (cs_m s)) env e = Value u" "get_field k u = Value v"
    "calculate_expression_type s e = Ok (Type (TStruct n))" "bt_get (ct_struct_defs (cs_m s)) n = Some defs"
    "find (\<lambda>f. fd_identifier f = k) defs = Some d" "t = fd_field_type d"
    by (auto simp: obind_Value dot_type_Ok)
  show ?case
    using get_field_conforms [OF u(2) _ u(4,5)] "14.hyps" [OF u(3,1)] "14.prems"(3,4) u(6) by simp
next
  case (7 env c t f)
  then show ?case
    by (auto simp: obind_Value on_bool_Value unify_pair_Type split: if_splits)
next
  case (22 env e)
  then show ?case
    by (auto simp: obind_Value on_bool_Value expect_type_Ok)
next
  case (23 env e)
  then show ?case
    by (auto simp: obind_Value unwrap_type_Ok split: if_splits elim: conforms_optionE)
next
  case (24 env e)
  then show ?case
    by (auto simp: obind_Value unwrap_type_Ok split: if_splits elim: conforms_optionE)
qed (auto simp: obind_Value unify_pair_Type expect_type_Ok is_type_Ok map_vtype_Ok op_values)

end
