(* ===== verification/Spec2Isabelle.thy ===== *)
theory Spec2Isabelle
  imports Vm_Policy_Spec Sync_Demo Session_Spec Linear_Live File_Demo Compiler_Spec Compiler_Eval
begin

text \<open>
  A verification library for the Aranya core: the policy compiler, the policy virtual machine
  and the graph runtime. Paths below are relative to \<open>src/crates\<close>.

  \<^bold>\<open>The program.\<close> A policy is compiled into a module of instructions
  (\<open>aranya-policy-compiler\<close>). The policy machine (\<open>aranya-policy-vm\<close>) runs its actions and
  command blocks; it reads and writes facts and emits effects through the trait \<open>MachineIO\<close>.
  The runtime (\<open>aranya-runtime\<close>) keeps commands in a graph that branches and merges. A storage,
  in memory or on a file, holds the segments of the graph and the fact indices. A client opens
  transactions on the storage: it receives commands, has the policy evaluate them, braids
  branches into one sequence where they merge, and commits. Sessions evaluate ephemeral commands
  over the facts at the head. The sync protocol sends what a peer lacks. \<open>VmPolicy\<close> joins
  machine and runtime.

  \<^bold>\<open>Conventions.\<close> \<open>Prelude\<close> has what all parts share. A Rust call gives a \<open>result\<close>: \<open>Ok\<close>,
  \<open>Err\<close> for a returned error and \<open>Panic\<close> for \<open>panic!\<close>, \<open>todo!\<close>, an index out of range or a
  failed \<open>assume\<close>. Stateful code is a \<open>prog\<close>, a function from a state to a result and a state,
  so that what a failed call leaves behind is visible. \<open>BTreeMap\<close> is a sorted association list,
  a \<open>heapless::Vec\<close> a list with a checked capacity, a machine integer a \<open>word\<close> or a number with
  its checks written out. A loop that may not end is a \<open>partial_function\<close> with \<open>None\<close> for not
  returning, and theorems that speak of its result say that it returns: the run loop of the
  machine on code without cycles (\<open>calls_return\<close>), the searches, the braid and the requests of a
  client on every well-formed graph. There is no fuel. Code from outside the repository is a parameter with named hypotheses:
  \<open>postcard\<close> encodings decode to what was encoded, foreign functions keep the stack within its
  capacity, a hash that validates a torn record is excluded.

  \<^bold>\<open>Policy language and compiler.\<close> \<open>Policy_Values\<close> and \<open>Policy_Module\<close> are
  \<open>aranya-policy-module/src\<close>: values with their conversions, instructions, labels, the code map
  and the module. \<open>Policy_Ast\<close> is \<open>aranya-policy-ast/src/ast.rs\<close>. \<open>Compiler_Types\<close> and
  \<open>Compiler\<close> are \<open>aranya-policy-compiler/src/compile.rs\<close> with \<open>types.rs\<close>, \<open>target.rs\<close> and
  \<open>error.rs\<close>: from \<open>calculate_expression_type\<close> and \<open>compile_expression\<close> to \<open>compile\<close>, with every
  error. \<open>Compiler_Layout\<close> has the invariants of the compile state, through the locale
  \<open>compile_stable\<close>: code grows at its end, labels point into it, every target is a label or an
  address. \<open>Compiler_Spec\<close> puts a compiled policy on the machine: all targets are resolved, no
  execution leaves the program, every action and command has its entry points. \<open>Compiler_Eval\<close>
  gives the meaning of the expressions that depend on variables only and shows the calculated
  types right for them.

  \<^bold>\<open>Policy machine.\<close> \<open>Vm_Error\<close>, \<open>Vm_Scope\<close>, \<open>Vm_Machine\<close> and \<open>Vm_Run\<close> are
  \<open>aranya-policy-vm/src\<close>: every instruction of \<open>step\<close>, the entry points and the run loop.
  \<open>Vm_Safety\<close> shows what every instruction keeps (locale \<open>vm_stable\<close>), that calls cannot disturb
  their callers, and that code without cycles returns. \<open>Vm_Spec\<close> has what single instructions
  compute. \<open>Vm_View\<close> shows that the machine sees its I/O through the operations of \<open>MachineIO\<close>
  only (locale \<open>io_view\<close>).

  \<^bold>\<open>Storage.\<close> \<open>Graph_Types\<close> and \<open>Graph_Storage\<close> are \<open>command.rs\<close>, \<open>prior.rs\<close> and the trait
  \<open>Storage\<close> of \<open>storage/mod.rs\<close> with its searches; the locale \<open>graph_storage\<close> is the contract
  that both storages meet. \<open>Fact_Store\<close> (locale \<open>fact_store\<close>), \<open>Mem_Storage\<close>, \<open>Mem_Spec\<close> and
  \<open>Mem_Graph\<close> are \<open>storage/memory.rs\<close> and its correctness: perspectives, reversal, writing,
  committing, searches. \<open>Linear_Io\<close>, \<open>Linear_Facts\<close> and \<open>Linear_Storage\<close> are \<open>storage/linear\<close>,
  over any writer that meets the locale \<open>linear_io\<close>; \<open>Linear_Graph\<close>, \<open>Linear_Write\<close>,
  \<open>Linear_Spec\<close>, \<open>Linear_Demo\<close> and \<open>Linear_Live\<close> show that skip lists and compaction change no
  answer and that the storage never gets stuck. \<open>File_Io\<close> is \<open>storage/linear/libc\<close>; \<open>File_Spec\<close>,
  \<open>File_Crash\<close> and \<open>File_Demo\<close> show that it meets \<open>linear_io\<close> and recovers from crashes.

  \<^bold>\<open>Client, sessions and sync.\<close> \<open>Braid\<close> and \<open>Mem_Braid\<close> are \<open>braid\<close> of \<open>client.rs\<close> and its
  correctness. \<open>Client_Prog\<close>, \<open>Client\<close>, \<open>Transaction\<close> and \<open>Client_State\<close> are \<open>client.rs\<close>,
  \<open>engine.rs\<close> and \<open>client/transaction.rs\<close>; \<open>Transaction_Total\<close>, \<open>Transaction_Spec\<close> and
  \<open>Client_Spec\<close> show that every request returns, keeps the graph well formed and loses no
  committed history, and that commits are complete. \<open>Session\<close> and \<open>Session_Spec\<close> are
  \<open>client/session.rs\<close>. \<open>Sync\<close>, \<open>Sync_Plan\<close>, \<open>Sync_Spec\<close> and \<open>Sync_Demo\<close> are \<open>sync\<close>: the
  messages of requester and responder, and the completeness of what is sent.

  \<^bold>\<open>Policy in the runtime.\<close> \<open>Fact_Codec\<close> and \<open>Vm_Io\<close> are \<open>vm_policy/io.rs\<close>, \<open>Vm_Policy\<close> is
  \<open>vm_policy.rs\<close> with \<open>protocol.rs\<close>. \<open>Vm_Policy_Spec\<close> shows that it meets the engine interface
  the client is verified against (locales \<open>policy_view\<close> and \<open>action_view\<close>).

  \<^bold>\<open>Not modelled.\<close> The parser (\<open>aranya-policy-lang\<close>) works on the parse trees of a grammar whose
  parser is generated. The tracer and the validation of the compiler are an optional analysis of
  finished modules. The cryptography (\<open>aranya-crypto\<close>) and the foreign modules around it rest on
  primitives outside the repository. The fast channels rest on shared memory, locks and the
  same primitives. The C API generator and the derive macros produce Rust tokens. The QUIC
  syncer is network I/O around the sync protocol. Of the modelled files, \<open>Display\<close> instances,
  logging and test support are left out.
\<close>

end
